(* ===== verification/Prelude.thy ===== *)
theory Prelude
  imports
    Main
    "HOL-Library.AList"
    "HOL-Library.Char_ord"
    "HOL-Library.List_Lexorder"
    "HOL-Library.Product_Lexorder"
begin

text \<open>
  Shared vocabulary of the development: checked and saturating \<open>u64\<close> arithmetic, results and
  panics, hash maps and ordered sets, and the generic lemmas the component theories use.

  A Rust \<open>String\<close> is its sequence of UTF-8 bytes, a \<^typ>\<open>string\<close>; \<open>len()\<close> counts bytes and the
  ordering is bytewise, which is the lexicographic order of \<^typ>\<open>string\<close> here.
\<close>

section \<open>Unsigned 64-bit arithmetic\<close>

text \<open>
  A \<open>u64\<close> (and a \<open>usize\<close> of a 64-bit target) is a natural number up to \<open>u64_max\<close>. The code uses
  the checked and the saturating operations of the standard library; each is written with its
  bound, so overflow is a value of the model.
\<close>

type_synonym u64 = nat

definition u64_max :: nat where
  "u64_max = 18446744073709551615"

definition i64_max :: nat where
  "i64_max = 9223372036854775807"

definition checked_add :: "u64 \<Rightarrow> u64 \<Rightarrow> u64 option" where
  "checked_add a b = (if a + b \<le> u64_max then Some (a + b) else None)"

definition checked_mul :: "u64 \<Rightarrow> u64 \<Rightarrow> u64 option" where
  "checked_mul a b = (if a * b \<le> u64_max then Some (a * b) else None)"

definition checked_sub :: "u64 \<Rightarrow> u64 \<Rightarrow> u64 option" where
  "checked_sub a b = (if b \<le> a then Some (a - b) else None)"

definition saturating_add :: "u64 \<Rightarrow> u64 \<Rightarrow> u64" where
  "saturating_add a b = min (a + b) u64_max"

definition saturating_sub :: "u64 \<Rightarrow> u64 \<Rightarrow> u64" where
  "saturating_sub a b = (if b \<le> a then a - b else 0)"

named_theorems u64_simps "the values of the checked operations"

lemma checked_add_Some [u64_simps]: "checked_add a b = Some c \<longleftrightarrow> c = a + b \<and> a + b \<le> u64_max"
  by (auto simp: checked_add_def)

lemma checked_add_None [u64_simps]: "checked_add a b = None \<longleftrightarrow> u64_max < a + b"
  by (simp add: checked_add_def not_le)

lemma checked_mul_Some [u64_simps]: "checked_mul a b = Some c \<longleftrightarrow> c = a * b \<and> a * b \<le> u64_max"
  by (auto simp: checked_mul_def)

lemma checked_mul_None [u64_simps]: "checked_mul a b = None \<longleftrightarrow> u64_max < a * b"
  by (simp add: checked_mul_def not_le)

lemma checked_sub_Some [u64_simps]: "checked_sub a b = Some c \<longleftrightarrow> c = a - b \<and> b \<le> a"
  by (auto simp: checked_sub_def)

lemma checked_sub_None [u64_simps]: "checked_sub a b = None \<longleftrightarrow> a < b"
  by (simp add: checked_sub_def not_le)

lemma saturating_add_le [simp]: "saturating_add a b \<le> u64_max"
  by (simp add: saturating_add_def)

lemma saturating_add_mono: "a \<le> u64_max \<Longrightarrow> a \<le> saturating_add a b"
  by (simp add: saturating_add_def)

lemma saturating_add_pos: "0 < b \<Longrightarrow> 0 < saturating_add a b"
  by (simp add: saturating_add_def u64_max_def)

lemma saturating_sub_eq [simp]: "saturating_sub a b = a - b"
  by (simp add: saturating_sub_def)

text \<open>A fold of saturating additions is the sum, cut off at the bound.\<close>

lemma fold_saturating_add:
  "a \<le> u64_max \<Longrightarrow> fold (\<lambda>x acc. saturating_add acc (f x)) xs a = min (a + sum_list (map f xs)) u64_max"
  by (induction xs arbitrary: a) (auto simp: saturating_add_def min_def)

section \<open>Results, early returns and panics\<close>

text \<open>
  A \<open>Result\<close> is a sum, \<open>Inl\<close> the error. A method that takes \<open>&mut self\<close> returns the state
  together with its result, also when the result is an error: that an error leaves the state
  alone is then a theorem and not a consequence of the type.

  \<open>expect\<close>, out-of-range indexing and unsigned underflow abort the program. Operations that
  contain such an expression return a \<open>run\<close>; that \<^term>\<open>Panic\<close> never occurs is a theorem.
\<close>

datatype 'a run = Panic | Ret 'a

definition run_bind :: "'a run \<Rightarrow> ('a \<Rightarrow> 'b run) \<Rightarrow> 'b run" where
  "run_bind m f = (case m of Panic \<Rightarrow> Panic | Ret x \<Rightarrow> f x)"

lemma run_bind_simps [simp]:
  "run_bind Panic f = Panic"
  "run_bind (Ret x) f = f x"
  by (simp_all add: run_bind_def)

lemma run_bind_eq_Ret: "run_bind m f = Ret y \<longleftrightarrow> (\<exists>x. m = Ret x \<and> f x = Ret y)"
  by (cases m) auto

definition ok_or :: "'a option \<Rightarrow> 'e \<Rightarrow> 'e + 'a" where
  "ok_or x e = (case x of None \<Rightarrow> Inl e | Some v \<Rightarrow> Inr v)"

definition is_ok :: "'e + 'a \<Rightarrow> bool" where
  "is_ok r = (case r of Inl _ \<Rightarrow> False | Inr _ \<Rightarrow> True)"

lemma is_ok_simps [simp]:
  "\<not> is_ok (Inl e)"
  "is_ok (Inr x)"
  by (simp_all add: is_ok_def)

lemma is_ok_iff: "is_ok r \<longleftrightarrow> (\<exists>x. r = Inr x)"
  by (cases r) auto

text \<open>\<open>Iterator::try_fold\<close> with a checked addition.\<close>

fun try_sum :: "u64 \<Rightarrow> u64 list \<Rightarrow> u64 option" where
  "try_sum acc [] = Some acc"
| "try_sum acc (x # xs) = (case checked_add acc x of None \<Rightarrow> None | Some acc' \<Rightarrow> try_sum acc' xs)"

lemma try_sum_Some [u64_simps]:
  "acc \<le> u64_max \<Longrightarrow>
   try_sum acc xs = Some s \<longleftrightarrow> s = acc + sum_list xs \<and> acc + sum_list xs \<le> u64_max"
proof (induction xs arbitrary: acc)
  case (Cons x xs)
  then show ?case
    by (cases "acc + x \<le> u64_max") (auto simp: checked_add_def add.assoc)
qed auto

lemma try_sum_None [u64_simps]:
  "acc \<le> u64_max \<Longrightarrow> try_sum acc xs = None \<longleftrightarrow> u64_max < acc + sum_list xs"
proof -
  assume a: "acc \<le> u64_max"
  have "try_sum acc xs = None \<longleftrightarrow> \<not> (\<exists>s. try_sum acc xs = Some s)" by auto
  then show ?thesis using a by (auto simp: try_sum_Some)
qed

section \<open>Hash maps\<close>

text \<open>
  A \<open>HashMap\<close> is an association list with distinct keys. Its order stands for the iteration
  order, which Rust leaves unspecified; nothing stated about the program depends on it.
\<close>

type_synonym ('k, 'v) hmap = "('k \<times> 'v) list"

abbreviation hm_get :: "('k, 'v) hmap \<Rightarrow> 'k \<Rightarrow> 'v option" where
  "hm_get m k \<equiv> map_of m k"

abbreviation hm_insert :: "'k \<Rightarrow> 'v \<Rightarrow> ('k, 'v) hmap \<Rightarrow> ('k, 'v) hmap" where
  "hm_insert k v m \<equiv> AList.update k v m"

abbreviation hm_remove :: "'k \<Rightarrow> ('k, 'v) hmap \<Rightarrow> ('k, 'v) hmap" where
  "hm_remove k m \<equiv> AList.delete k m"

abbreviation hm_keys :: "('k, 'v) hmap \<Rightarrow> 'k set" where
  "hm_keys m \<equiv> fst ` set m"

definition hm_has :: "('k, 'v) hmap \<Rightarrow> 'k \<Rightarrow> bool" where
  "hm_has m k = (map_of m k \<noteq> None)"

definition hm_wf :: "('k, 'v) hmap \<Rightarrow> bool" where
  "hm_wf m = distinct (map fst m)"

definition hm_get_or :: "('k, 'v) hmap \<Rightarrow> 'k \<Rightarrow> 'v \<Rightarrow> 'v" where
  "hm_get_or m k d = (case map_of m k of None \<Rightarrow> d | Some v \<Rightarrow> v)"

named_theorems hm_simps "lookups, keys and sizes of hash maps"

lemma hm_has_keys [hm_simps]: "hm_has m k \<longleftrightarrow> k \<in> hm_keys m"
  by (auto simp: hm_has_def map_of_eq_None_iff)

lemma hm_wf_Nil [simp]: "hm_wf []"
  by (simp add: hm_wf_def)

lemma hm_wf_insert [simp]: "hm_wf m \<Longrightarrow> hm_wf (hm_insert k v m)"
  by (simp add: hm_wf_def distinct_update)

lemma hm_wf_remove [simp]: "hm_wf m \<Longrightarrow> hm_wf (hm_remove k m)"
  by (simp add: hm_wf_def distinct_delete)

lemma hm_get_insert [hm_simps]: "hm_get (hm_insert k v m) k' = (if k' = k then Some v else hm_get m k')"
  by (simp add: update_conv')

lemma hm_get_remove [hm_simps]: "hm_get (hm_remove k m) k' = (if k' = k then None else hm_get m k')"
  by (simp add: delete_conv')

lemma hm_keys_insert [hm_simps]: "hm_keys (hm_insert k v m) = insert k (hm_keys m)"
  by (simp add: dom_update)

lemma hm_keys_remove [hm_simps]: "hm_keys (hm_remove k m) = hm_keys m - {k}"
  by (auto simp: AList.delete_eq)

lemma hm_get_Some_set: "hm_wf m \<Longrightarrow> hm_get m k = Some v \<longleftrightarrow> (k, v) \<in> set m"
  by (simp add: hm_wf_def)

lemma hm_get_None: "hm_get m k = None \<longleftrightarrow> k \<notin> hm_keys m"
  by (simp add: map_of_eq_None_iff)

lemma hm_get_in_keys: "hm_get m k = Some v \<Longrightarrow> k \<in> hm_keys m"
  by (force dest: map_of_SomeD)

lemma hm_set_insert:
  "hm_wf m \<Longrightarrow> set (hm_insert k v m) = insert (k, v) {p \<in> set m. fst p \<noteq> k}"
  by (induction m) (auto simp: hm_wf_def image_iff)

lemma hm_set_remove: "set (hm_remove k m) = {p \<in> set m. fst p \<noteq> k}"
  by (auto simp: AList.delete_eq)

lemma hm_len_insert:
  "length (hm_insert k v m) = (if k \<in> hm_keys m then length m else Suc (length m))"
  by (induction m) auto

lemma hm_len_remove:
  "hm_wf m \<Longrightarrow> length (hm_remove k m) = (if k \<in> hm_keys m then length m - 1 else length m)"
proof (induction m)
  case (Cons p m)
  obtain a b where p: "p = (a, b)" by force
  show ?case
  proof (cases "a = k")
    case True
    with Cons.prems p have "k \<notin> hm_keys m" by (auto simp: hm_wf_def)
    then show ?thesis using True p by (simp add: delete_id)
  next
    case False
    have "k \<in> hm_keys m \<Longrightarrow> 0 < length m" by (cases m) auto
    with False Cons p show ?thesis by (auto simp: hm_wf_def)
  qed
qed simp

lemma hm_len_keys: "hm_wf m \<Longrightarrow> length m = card (hm_keys m)"
  by (metis distinct_card hm_wf_def length_map set_map)

subsection \<open>Sums over the values\<close>

definition hm_sum :: "('k, nat) hmap \<Rightarrow> nat" where
  "hm_sum m = sum_list (map snd m)"

lemma hm_sum_simps [simp]:
  "hm_sum [] = 0"
  "hm_sum ((k, v) # m) = v + hm_sum m"
  by (simp_all add: hm_sum_def)

lemma hm_get_le_sum: "hm_get m k = Some v \<Longrightarrow> v \<le> hm_sum m"
  by (induction m) (auto split: if_splits)

lemma hm_sum_insert:
  "hm_sum (hm_insert k v m) + hm_get_or m k 0 = hm_sum m + v"
  by (induction m) (auto simp: hm_get_or_def)

lemma hm_sum_remove:
  "hm_wf m \<Longrightarrow> hm_sum (hm_remove k m) + hm_get_or m k 0 = hm_sum m"
proof (induction m)
  case (Cons p m)
  obtain a b where p: "p = (a, b)" by force
  show ?case
  proof (cases "a = k")
    case True
    with Cons.prems p have "k \<notin> hm_keys m" by (auto simp: hm_wf_def)
    then show ?thesis using True p by (simp add: hm_get_or_def delete_id)
  next
    case False
    with Cons p show ?thesis by (auto simp: hm_wf_def hm_get_or_def)
  qed
qed (simp add: hm_get_or_def)

lemma hm_len_le_sum:
  assumes "\<forall>p \<in> set m. 0 < snd p"
  shows "length m \<le> hm_sum m"
  using assms by (induction m) auto

section \<open>Ordered sets\<close>

text \<open>
  A \<open>BTreeSet\<close> is the strictly increasing list of its elements: insertion keeps an element that
  is already present, and iteration is the list itself.
\<close>

definition bs_insert :: "'a::linorder \<Rightarrow> 'a list \<Rightarrow> 'a list" where
  "bs_insert x xs = insort_insert x xs"

definition bs_remove :: "'a::linorder \<Rightarrow> 'a list \<Rightarrow> 'a list" where
  "bs_remove x xs = remove1 x xs"

definition bs_wf :: "'a::linorder list \<Rightarrow> bool" where
  "bs_wf xs = (sorted xs \<and> distinct xs)"

lemma bs_wf_Nil [simp]: "bs_wf []"
  by (simp add: bs_wf_def)

lemma bs_wf_insert [simp]: "bs_wf xs \<Longrightarrow> bs_wf (bs_insert x xs)"
  by (simp add: bs_wf_def bs_insert_def sorted_insort_insert distinct_insort_insert)

lemma bs_wf_remove [simp]: "bs_wf xs \<Longrightarrow> bs_wf (bs_remove x xs)"
  by (simp add: bs_wf_def bs_remove_def sorted_remove1)

lemma bs_set_insert [simp]: "set (bs_insert x xs) = insert x (set xs)"
  by (simp add: bs_insert_def set_insort_insert)

lemma bs_set_remove [simp]: "bs_wf xs \<Longrightarrow> set (bs_remove x xs) = set xs - {x}"
  by (simp add: bs_wf_def bs_remove_def set_remove1_eq)

lemma bs_wf_unique: "bs_wf xs \<Longrightarrow> bs_wf ys \<Longrightarrow> set xs = set ys \<Longrightarrow> xs = ys"
  by (simp add: bs_wf_def sorted_distinct_set_unique)

text \<open>The newtype \<open>std::cmp::Reverse\<close>: the same values in the opposite order.\<close>

datatype 'a reverse = Reverse (unreverse: 'a)

instantiation reverse :: (linorder) linorder
begin

definition less_eq_reverse :: "'a reverse \<Rightarrow> 'a reverse \<Rightarrow> bool" where
  "less_eq_reverse a b \<longleftrightarrow> unreverse b \<le> unreverse a"

definition less_reverse :: "'a reverse \<Rightarrow> 'a reverse \<Rightarrow> bool" where
  "less_reverse a b \<longleftrightarrow> unreverse b < unreverse a"

instance
  by standard (auto simp: less_eq_reverse_def less_reverse_def reverse.expand)

end

lemma reverse_order [simp]:
  "Reverse a \<le> Reverse b \<longleftrightarrow> b \<le> a"
  "Reverse a < Reverse b \<longleftrightarrow> b < a"
  by (simp_all add: less_eq_reverse_def less_reverse_def)

section \<open>State machines\<close>

text \<open>
  Several components are driven by a sequence of operations, each a function of the state. The
  interface is one law: every operation keeps the invariant. What holds after any sequence is
  proved here once.
\<close>

locale invariant_machine =
  fixes step :: "'e \<Rightarrow> 's \<Rightarrow> 's"
    and inv :: "'s \<Rightarrow> bool"
  assumes step_inv: "inv s \<Longrightarrow> inv (step e s)"
begin

lemma run_inv: "inv s \<Longrightarrow> inv (fold step es s)"
  by (induction es arbitrary: s) (auto intro: step_inv)

lemma run_prefix_inv: "inv s \<Longrightarrow> inv (fold step (take n es) s)"
  by (rule run_inv)

end

text \<open>A measure that no operation lowers, such as a revision or a generation.\<close>

locale monotone_machine = invariant_machine +
  fixes level :: "'s \<Rightarrow> nat"
  assumes step_level: "inv s \<Longrightarrow> level s \<le> level (step e s)"
begin

lemma run_level: "inv s \<Longrightarrow> level s \<le> level (fold step es s)"
proof (induction es arbitrary: s)
  case (Cons e es)
  have "level s \<le> level (step e s)" using Cons.prems by (rule step_level)
  also have "\<dots> \<le> level (fold step es (step e s))"
    using Cons.prems by (intro Cons.IH step_inv)
  finally show ?case by simp
qed simp

lemma run_level_append: "inv s \<Longrightarrow> level (fold step es s) \<le> level (fold step (es @ fs) s)"
  using run_level [OF run_inv] by simp

end

section \<open>Registries\<close>

text \<open>
  An inverted index that is kept beside a table of registered items: \<open>follows i t\<close> says that the
  index lists exactly what the table registers. A provider registers a new, valid item and
  unregisters an old one; replacing is the one after the other.
\<close>

locale registry =
  fixes register :: "'k \<Rightarrow> 'd \<Rightarrow> 'i \<Rightarrow> 'i"
    and unregister :: "'k \<Rightarrow> 'i \<Rightarrow> 'i"
    and follows :: "'i \<Rightarrow> ('k \<Rightarrow> 'd option) \<Rightarrow> bool"
    and empty :: 'i
    and valid :: "'k \<Rightarrow> 'd \<Rightarrow> bool"
  assumes follows_none: "follows empty (\<lambda>_. None)"
    and follows_register: "follows i t \<Longrightarrow> t k = None \<Longrightarrow> valid k d \<Longrightarrow> follows (register k d i) (t(k := Some d))"
    and follows_unregister: "follows i t \<Longrightarrow> follows (unregister k i) (t(k := None))"
begin

lemma follows_replace: "follows i t \<Longrightarrow> valid k d \<Longrightarrow> follows (register k d (unregister k i)) (t(k := Some d))"
  using follows_register [OF follows_unregister, of i t k k d] by simp

lemma follows_rebuild:
  "distinct (map fst items) \<Longrightarrow> list_all (\<lambda>(k, d). valid k d) items \<Longrightarrow>
   follows (fold (\<lambda>(k, d). register k d) items empty) (map_of items)"
proof (induction items rule: rev_induct)
  case (snoc p items)
  obtain k d where p: "p = (k, d)" by force
  have "map_of items k = None" using snoc.prems p by (auto simp: map_of_eq_None_iff)
  then have "follows (register k d (fold (\<lambda>(k, d). register k d) items empty)) ((map_of items)(k := Some d))"
    using snoc p by (intro follows_register) simp_all
  moreover have "(map_of items)(k := Some d) = map_of (items @ [p])"
    using \<open>map_of items k = None\<close> p by (auto simp: fun_eq_iff map_add_def split: option.split)
  ultimately show ?case using p by simp
qed (simp add: follows_none)

end

end
