(* ===== verification/Agg_Model.thy ===== *)
theory Agg_Model
  imports Prelude
begin

text \<open>
  The data model of \<open>crates/tiktools-aggregation\<close>: ranking definitions and contributions
  (\<open>model.rs\<close>), display metadata, snapshots and errors (\<open>lib.rs\<close>). Field names carry a prefix per
  struct, since several structs share names.
\<close>

section \<open>Ranking definitions\<close>

record source_rule =
  sr_source :: string
  sr_metric :: string
  sr_weight :: u64
  sr_enabled :: bool
  sr_gift_multipliers :: "(string, u64) hmap"

record user_limits =
  ul_max_contributions :: "u64 option"
  ul_cooldown_ms :: "u64 option"
  ul_max_users :: nat

datatype window =
    Session
  | Rolling (duration_ms: u64) (max_events: nat)
  | Daily (utc_offset_minutes: int)

datatype group_by = ByUser | ByGift | ByEventType | ByOption | ByTeam | ByCustomKey

record ranking_definition =
  rd_schema_version :: nat
  rd_id :: string
  rd_creator_id :: string
  rd_room_id :: string
  rd_group_by :: group_by
  rd_window :: window
  rd_user_limits :: "user_limits option"
  rd_sources :: "source_rule list"
  rd_limit :: nat
  rd_capacity :: nat

text \<open>One accepted event with all of its incremental metrics.\<close>

record contribution =
  c_creator_id :: string
  c_room_id :: string
  c_source :: string
  c_user :: "string option"
  c_gift :: "string option"
  c_option :: "string option"
  c_team :: "string option"
  c_custom_key :: "string option"
  c_metrics :: "(string \<times> u64) list"

datatype agg_error =
    Capacity
  | Overflow
  | InvalidKey
  | InsufficientScore
  | IncompatibleDefinition
  | NotFound
  | WindowCapacity

section \<open>Display metadata\<close>

record entry_metadata =
  em_label :: "string option"
  em_user_id :: "string option"
  em_unique_id :: "string option"
  em_nickname :: "string option"
  em_avatar_url :: "string option"
  em_gift_id :: "string option"
  em_icon_url :: "string option"

definition entry_metadata_default :: entry_metadata where
  "entry_metadata_default =
     \<lparr>em_label = None, em_user_id = None, em_unique_id = None, em_nickname = None,
      em_avatar_url = None, em_gift_id = None, em_icon_url = None\<rparr>"

text \<open>\<open>EntryMetadata::bounded\<close>: empty and overlong values are dropped.\<close>

definition bounded_value :: "string option \<Rightarrow> nat \<Rightarrow> string option" where
  "bounded_value v mx =
     (case v of None \<Rightarrow> None
      | Some s \<Rightarrow> if s \<noteq> [] \<and> length s \<le> mx then Some s else None)"

definition bounded :: "entry_metadata \<Rightarrow> entry_metadata" where
  "bounded m =
     \<lparr>em_label = bounded_value (em_label m) 512,
      em_user_id = bounded_value (em_user_id m) 512,
      em_unique_id = bounded_value (em_unique_id m) 512,
      em_nickname = bounded_value (em_nickname m) 512,
      em_avatar_url = bounded_value (em_avatar_url m) 2048,
      em_gift_id = bounded_value (em_gift_id m) 512,
      em_icon_url = bounded_value (em_icon_url m) 2048\<rparr>"

text \<open>\<open>EntryMetadata::merge\<close>: a field of the update replaces the old one when it is present.\<close>

definition merge_value :: "string option \<Rightarrow> string option \<Rightarrow> string option" where
  "merge_value old update = (if update \<noteq> None then update else old)"

definition merge_metadata :: "entry_metadata \<Rightarrow> entry_metadata \<Rightarrow> entry_metadata" where
  "merge_metadata self update =
     \<lparr>em_label = merge_value (em_label self) (em_label update),
      em_user_id = merge_value (em_user_id self) (em_user_id update),
      em_unique_id = merge_value (em_unique_id self) (em_unique_id update),
      em_nickname = merge_value (em_nickname self) (em_nickname update),
      em_avatar_url = merge_value (em_avatar_url self) (em_avatar_url update),
      em_gift_id = merge_value (em_gift_id self) (em_gift_id update),
      em_icon_url = merge_value (em_icon_url self) (em_icon_url update)\<rparr>"

text \<open>Metadata that \<^const>\<open>bounded\<close> would leave alone; the engine stores no other.\<close>

definition metadata_ok :: "entry_metadata \<Rightarrow> bool" where
  "metadata_ok m \<longleftrightarrow> bounded m = m"

lemma bounded_value_idem [simp]: "bounded_value (bounded_value v n) n = bounded_value v n"
  by (simp add: bounded_value_def split: option.splits)

lemma bounded_idem [simp]: "bounded (bounded m) = bounded m"
  by (simp add: bounded_def)

lemma metadata_ok_default [simp]: "metadata_ok entry_metadata_default"
  by (simp add: metadata_ok_def bounded_def bounded_value_def entry_metadata_default_def)

lemma metadata_ok_bounded [simp]: "metadata_ok (bounded m)"
  by (simp add: metadata_ok_def)

lemma bounded_merge_value:
  "bounded_value v n = v \<Longrightarrow> bounded_value w n = w \<Longrightarrow> bounded_value (merge_value v w) n = merge_value v w"
  by (simp add: merge_value_def)

lemma metadata_ok_merge:
  assumes "metadata_ok a" and "metadata_ok b"
  shows "metadata_ok (merge_metadata a b)"
  using assms
  by (cases a; cases b)
    (simp add: metadata_ok_def bounded_def merge_metadata_def bounded_merge_value)

lemma merge_default [simp]: "merge_metadata entry_metadata_default m = m"
  by (cases m) (simp add: merge_metadata_def merge_value_def entry_metadata_default_def)

section \<open>Snapshots\<close>

record entry =
  e_key :: string
  e_rank :: nat
  e_score :: u64
  e_label :: string
  e_metadata :: entry_metadata

record snapshot =
  sn_ranking_id :: string
  sn_schema_version :: nat
  sn_creator_id :: string
  sn_room_id :: string
  sn_window :: window
  sn_revision :: u64
  sn_instance_id :: "string option"
  sn_integrity_status :: string
  sn_rejected :: u64
  sn_dropped :: u64
  sn_limited :: u64
  sn_cooldown_rejected :: u64
  sn_paused :: bool
  sn_entries :: "entry list"
  sn_total_score :: u64
  sn_total_participants :: nat

text \<open>
  \<open>Snapshot::rank\<close>: select the requested prefix, sort it and number it from 1. The comparison is
  descending score, then ascending key. The unstable selection and sort are determined by the
  order because no two entries of a ranking share a key.
\<close>

definition entry_order :: "entry \<Rightarrow> u64 reverse \<times> string" where
  "entry_order e = (Reverse (e_score e), e_key e)"

fun number_entries :: "nat \<Rightarrow> entry list \<Rightarrow> entry list" where
  "number_entries i [] = []"
| "number_entries i (e # es) = e\<lparr>e_rank := i + 1\<rparr> # number_entries (i + 1) es"

definition rank_snapshot :: "nat \<Rightarrow> snapshot \<Rightarrow> snapshot" where
  "rank_snapshot limit s =
     (let selected = (if limit < length (sn_entries s)
                      then take limit (sort_key entry_order (sn_entries s))
                      else sn_entries s)
      in s\<lparr>sn_entries := number_entries 0 (sort_key entry_order selected)\<rparr>)"

lemma length_number_entries [simp]: "length (number_entries i es) = length es"
  by (induction es arbitrary: i) auto

lemma number_entries_nth:
  "j < length es \<Longrightarrow> number_entries i es ! j = (es ! j)\<lparr>e_rank := i + j + 1\<rparr>"
  by (induction es arbitrary: i j) (auto simp: nth_Cons split: nat.splits)

lemma map_number_entries:
  assumes "\<And>e r. f (e\<lparr>e_rank := r\<rparr>) = f e"
  shows "map f (number_entries i es) = map f es"
  by (induction es arbitrary: i) (simp_all add: assms)

lemma rank_snapshot_sorted:
  assumes "sorted (map entry_order (sn_entries s))"
  shows "rank_snapshot limit s = s\<lparr>sn_entries := number_entries 0 (take limit (sn_entries s))\<rparr>"
proof -
  have "sort_key entry_order (sn_entries s) = sn_entries s"
    using assms by (rule sort_key_id_if_sorted)
  moreover have "sorted (map entry_order (take limit (sn_entries s)))"
    using assms by (simp add: take_map [symmetric] sorted_wrt_take)
  then have "sort_key entry_order (take limit (sn_entries s)) = take limit (sn_entries s)"
    by (rule sort_key_id_if_sorted)
  ultimately show ?thesis by (simp add: rank_snapshot_def Let_def)
qed

end
