(* ===== verification/Ranking_Index.thy ===== *)
theory Ranking_Index
  imports Agg_Model
begin

text \<open>
  The incremental ordered projection of the scores (\<open>ranking.rs\<close>): a \<open>BTreeSet\<close> of pairs of a
  reversed score and a key. Its contract is the locale \<open>score_index\<close>: the index follows a score
  table, and its first \<open>n\<close> elements are the first \<open>n\<close> of the table's leaderboard.
\<close>

section \<open>The leaderboard of a score table\<close>

definition ranked :: "(string, u64) hmap \<Rightarrow> (u64 reverse \<times> string) list" where
  "ranked m = sort (map (\<lambda>(k, s). (Reverse s, k)) m)"

definition leaderboard :: "(string, u64) hmap \<Rightarrow> (string \<times> u64) list" where
  "leaderboard m = map (\<lambda>(r, k). (k, unreverse r)) (ranked m)"

lemma set_ranked: "set (ranked m) = (\<lambda>(k, s). (Reverse s, k)) ` set m"
  by (simp add: ranked_def)

lemma set_leaderboard [simp]: "set (leaderboard m) = set m"
  by (force simp: leaderboard_def set_ranked image_iff)

lemma length_leaderboard [simp]: "length (leaderboard m) = length m"
  by (simp add: leaderboard_def ranked_def)

lemma leaderboard_Nil [simp]: "leaderboard [] = []"
  by (simp add: leaderboard_def ranked_def)

lemma bs_wf_ranked: "hm_wf m \<Longrightarrow> bs_wf (ranked m)"
proof -
  assume "hm_wf m"
  then have "distinct m" by (auto simp: hm_wf_def distinct_map)
  moreover have "inj_on (\<lambda>(k, s). (Reverse s, k)) (set m)"
    by (auto simp: inj_on_def)
  ultimately show ?thesis
    by (simp add: ranked_def bs_wf_def distinct_map)
qed

lemma distinct_keys_leaderboard: "hm_wf m \<Longrightarrow> distinct (map fst (leaderboard m))"
proof -
  assume m: "hm_wf m"
  have "inj_on fst (set m)" using m by (simp add: hm_wf_def distinct_map)
  moreover have "distinct (leaderboard m)"
    using bs_wf_ranked [OF m]
    by (auto simp: leaderboard_def bs_wf_def distinct_map inj_on_def reverse.expand)
  ultimately show ?thesis by (simp add: distinct_map)
qed

lemma leaderboard_sorted: "sorted (map (\<lambda>(k, s). (Reverse s, k)) (leaderboard m))"
proof -
  have "map (\<lambda>(k, s). (Reverse s, k)) (leaderboard m) = ranked m"
    by (simp add: leaderboard_def comp_def case_prod_unfold)
  then show ?thesis by (simp add: ranked_def)
qed

lemma leaderboard_order:
  assumes "i < j" and "j < length m"
  shows "snd (leaderboard m ! j) < snd (leaderboard m ! i) \<or>
    snd (leaderboard m ! j) = snd (leaderboard m ! i) \<and> fst (leaderboard m ! i) \<le> fst (leaderboard m ! j)"
  using sorted_nth_mono [OF leaderboard_sorted [of m], of i j] assms
  by (auto simp: case_prod_unfold less_eq_prod_def)

text \<open>The leaderboard is determined by the table's contents, not by its iteration order.\<close>

lemma leaderboard_cong: "hm_wf m \<Longrightarrow> hm_wf m' \<Longrightarrow> set m = set m' \<Longrightarrow> leaderboard m = leaderboard m'"
  unfolding leaderboard_def
  by (rule arg_cong [where f = "map _"], rule bs_wf_unique) (simp_all add: bs_wf_ranked set_ranked)

section \<open>The index\<close>

type_synonym ranking_index = "(u64 reverse \<times> string) list"

definition ranking_index_default :: ranking_index where
  "ranking_index_default = []"

definition ranking_index_update ::
  "string \<Rightarrow> u64 option \<Rightarrow> u64 option \<Rightarrow> ranking_index \<Rightarrow> ranking_index" where
  "ranking_index_update key previous next i =
     (let removed = (case previous of None \<Rightarrow> i | Some score \<Rightarrow> bs_remove (Reverse score, key) i)
      in case next of None \<Rightarrow> removed | Some score \<Rightarrow> bs_insert (Reverse score, key) removed)"

definition ranking_index_clear :: "ranking_index \<Rightarrow> ranking_index" where
  "ranking_index_clear i = []"

definition ranking_index_top :: "nat \<Rightarrow> ranking_index \<Rightarrow> (string \<times> u64) list" where
  "ranking_index_top limit i = map (\<lambda>(r, key). (key, unreverse r)) (take limit i)"

text \<open>The index follows a score table when it is the ordered set of the table's entries.\<close>

definition index_follows :: "ranking_index \<Rightarrow> (string, u64) hmap \<Rightarrow> bool" where
  "index_follows i m \<longleftrightarrow> bs_wf i \<and> set i = (\<lambda>(k, s). (Reverse s, k)) ` set m"

section \<open>The contract\<close>

locale score_index =
  fixes empty :: 'i
    and update :: "string \<Rightarrow> u64 option \<Rightarrow> u64 option \<Rightarrow> 'i \<Rightarrow> 'i"
    and clear :: "'i \<Rightarrow> 'i"
    and top :: "nat \<Rightarrow> 'i \<Rightarrow> (string \<times> u64) list"
    and follows :: "'i \<Rightarrow> (string, u64) hmap \<Rightarrow> bool"
  assumes follows_empty: "follows empty []"
    and follows_clear: "follows (clear i) []"
    and follows_put:
      "hm_wf m \<Longrightarrow> follows i m \<Longrightarrow> follows (update k (hm_get m k) (Some s) i) (hm_insert k s m)"
    and follows_drop:
      "hm_wf m \<Longrightarrow> follows i m \<Longrightarrow> follows (update k (hm_get m k) None i) (hm_remove k m)"
    and top_follows: "hm_wf m \<Longrightarrow> follows i m \<Longrightarrow> top n i = take n (leaderboard m)"
begin

lemma top_full: "hm_wf m \<Longrightarrow> follows i m \<Longrightarrow> top (length m) i = leaderboard m"
  by (simp add: top_follows)

lemma length_top: "hm_wf m \<Longrightarrow> follows i m \<Longrightarrow> length (top n i) = min n (length m)"
  by (simp add: top_follows)

lemma top_scores: "hm_wf m \<Longrightarrow> follows i m \<Longrightarrow> (k, s) \<in> set (top n i) \<Longrightarrow> hm_get m k = Some s"
  by (metis hm_get_Some_set in_set_takeD set_leaderboard top_follows)

text \<open>Whatever the top leaves out does not beat anything it keeps.\<close>

lemma top_dominates:
  assumes "hm_wf m" and "follows i m"
    and "(k, s) \<in> set (top n i)" and "(k', s') \<in> set m" and "(k', s') \<notin> set (top n i)"
  shows "s' < s \<or> s' = s \<and> k < k'"
proof -
  let ?l = "leaderboard m"
  have t: "top n i = take n ?l" using assms(1,2) by (rule top_follows)
  obtain a where a: "a < n" "a < length m" "?l ! a = (k, s)"
    using assms(3) t by (auto simp: in_set_conv_nth)
  have "(k', s') \<in> set ?l" using assms(4) by simp
  then obtain b where b: "b < length m" "?l ! b = (k', s')"
    unfolding in_set_conv_nth length_leaderboard by blast
  have "\<not> b < n"
  proof
    assume "b < n"
    with b have "(k', s') \<in> set (take n ?l)"
      by (metis in_set_conv_nth length_leaderboard length_take min_less_iff_conj nth_take)
    then show False using assms(5) t by simp
  qed
  with a have "a < b" by simp
  from leaderboard_order [OF this b(1)] a b
  have *: "s' < s \<or> s' = s \<and> k \<le> k'" by simp
  have "k \<noteq> k'"
    using distinct_keys_leaderboard [OF assms(1)] \<open>a < b\<close> a b
    by (metis fst_conv length_leaderboard length_map nat_less_le nth_eq_iff_index_eq nth_map)
  with * show ?thesis by auto
qed

text \<open>Moving score between two keys takes two updates, as \<open>reassign\<close> does.\<close>

lemma follows_move:
  assumes "hm_wf m" and "follows i m" and "k \<noteq> l"
  shows "follows (update l (hm_get m l) (Some t) (update k (hm_get m k) (Some s) i))
           (hm_insert l t (hm_insert k s m))"
    and "follows (update l (hm_get m l) (Some t) (update k (hm_get m k) None i))
           (hm_insert l t (hm_remove k m))"
proof -
  have "hm_get (hm_insert k s m) l = hm_get m l" and "hm_get (hm_remove k m) l = hm_get m l"
    using assms(3) by (simp_all add: hm_simps)
  then show "follows (update l (hm_get m l) (Some t) (update k (hm_get m k) (Some s) i))
           (hm_insert l t (hm_insert k s m))"
    and "follows (update l (hm_get m l) (Some t) (update k (hm_get m k) None i))
           (hm_insert l t (hm_remove k m))"
    using follows_put [OF hm_wf_insert [OF assms(1)] follows_put [OF assms(1,2)], where k = l and s = t]
      follows_put [OF hm_wf_remove [OF assms(1)] follows_drop [OF assms(1,2)], where k = l and s = t]
    by metis+
qed

end

lemma ranked_image_split:
  assumes "hm_wf m"
  shows "(\<lambda>(k, s). (Reverse s, k)) ` {p \<in> set m. fst p \<noteq> k} =
    (\<lambda>(k, s). (Reverse s, k)) ` set m -
      (case hm_get m k of None \<Rightarrow> {} | Some v \<Rightarrow> {(Reverse v, k)})"
proof (cases "hm_get m k")
  case None
  then have "{p \<in> set m. fst p \<noteq> k} = set m"
    by (auto simp: map_of_eq_None_iff)
  with None show ?thesis by simp
next
  case (Some v)
  then have v: "(k, w) \<in> set m \<longleftrightarrow> w = v" for w
    using hm_get_Some_set [OF assms, of k w] by auto
  show ?thesis unfolding Some option.case
    by (rule set_eqI) (auto simp: v image_iff case_prod_unfold Bex_def)
qed

lemma index_follows_put:
  assumes "hm_wf m" and "index_follows i m"
  shows "index_follows (ranking_index_update k (hm_get m k) (Some s) i) (hm_insert k s m)"
  using assms ranked_image_split [OF assms(1), of k]
  by (cases "hm_get m k")
    (simp_all add: index_follows_def ranking_index_update_def hm_set_insert)

lemma index_follows_drop:
  assumes "hm_wf m" and "index_follows i m"
  shows "index_follows (ranking_index_update k (hm_get m k) None i) (hm_remove k m)"
  using assms ranked_image_split [OF assms(1), of k]
  by (cases "hm_get m k")
    (simp_all add: index_follows_def ranking_index_update_def hm_set_remove)

lemma index_follows_ranked:
  assumes "hm_wf m" and "index_follows i m"
  shows "i = ranked m"
  using assms bs_wf_ranked [OF assms(1)]
  by (intro bs_wf_unique) (simp_all add: index_follows_def set_ranked)

interpretation ri: score_index ranking_index_default ranking_index_update ranking_index_clear
    ranking_index_top index_follows
proof unfold_locales
  show "index_follows ranking_index_default []"
    by (simp add: index_follows_def ranking_index_default_def)
  show "index_follows (ranking_index_clear i) []" for i
    by (simp add: index_follows_def ranking_index_clear_def)
  show "ranking_index_top n i = take n (leaderboard m)"
    if "hm_wf m" "index_follows i m" for m i n
    using index_follows_ranked [OF that]
    by (simp add: ranking_index_top_def leaderboard_def take_map)
qed (simp_all add: index_follows_put index_follows_drop)

end
