(* ===== verification/Aggregation.thy ===== *)
theory Aggregation
  imports Ranking_Index
begin

text \<open>
  The in-memory state of one ranking scope (\<open>struct Aggregation\<close> of
  \<open>crates/tiktools-aggregation/src/lib.rs\<close>) and its operations, the well-formedness invariant that
  ties the score table, the ordered index and the total together, and the effect of each operation
  on the abstract score function.
\<close>

section \<open>State and operations\<close>

record aggregation =
  ag_scores :: "(string, u64) hmap"
  ag_metadata :: "(string, entry_metadata) hmap"
  ag_index :: ranking_index
  ag_capacity :: nat
  ag_total :: u64
  ag_revision :: u64

type_synonym 's outcome = "'s \<times> (agg_error + unit)"

definition aggregation_new :: "nat \<Rightarrow> aggregation" where
  "aggregation_new capacity =
     \<lparr>ag_scores = [], ag_metadata = [], ag_index = ranking_index_default, ag_capacity = capacity,
      ag_total = 0, ag_revision = 0\<rparr>"

definition aggregation_apply :: "string \<Rightarrow> u64 \<Rightarrow> u64 \<Rightarrow> aggregation \<Rightarrow> aggregation outcome" where
  "aggregation_apply key delta weight a =
     (if key = [] \<or> length key > 512 then (a, Inl InvalidKey)
      else case checked_mul delta weight of
        None \<Rightarrow> (a, Inl Overflow)
      | Some value \<Rightarrow>
        if value = 0 then (a, Inr ())
        else if \<not> hm_has (ag_scores a) key \<and> length (ag_scores a) \<ge> ag_capacity a
        then (a, Inl Capacity)
        else (case checked_add (hm_get_or (ag_scores a) key 0) value of
          None \<Rightarrow> (a, Inl Overflow)
        | Some score \<Rightarrow>
          (case checked_add (ag_total a) value of
            None \<Rightarrow> (a, Inl Overflow)
          | Some total' \<Rightarrow>
            (case checked_add (ag_revision a) 1 of
              None \<Rightarrow> (a, Inl Overflow)
            | Some revision \<Rightarrow>
              (let previous = hm_get (ag_scores a) key
               in (a\<lparr>ag_scores := hm_insert key score (ag_scores a),
                     ag_index := ranking_index_update key previous (Some score) (ag_index a),
                     ag_total := total', ag_revision := revision\<rparr>, Inr ()))))))"

definition aggregation_update_metadata ::
  "string \<Rightarrow> entry_metadata \<Rightarrow> aggregation \<Rightarrow> aggregation" where
  "aggregation_update_metadata key metadata a =
     (if hm_has (ag_scores a) key
      then a\<lparr>ag_metadata := hm_insert key
               (merge_metadata (hm_get_or (ag_metadata a) key entry_metadata_default)
                  (bounded metadata)) (ag_metadata a)\<rparr>
      else a)"

definition aggregation_reassign ::
  "string \<Rightarrow> string \<Rightarrow> u64 \<Rightarrow> u64 \<Rightarrow> aggregation \<Rightarrow> aggregation outcome" where
  "aggregation_reassign from_key to_key amount additional a =
     (if from_key = [] \<or> to_key = [] \<or> length from_key > 512 \<or> length to_key > 512 \<or> from_key = to_key
      then (a, Inl InvalidKey)
      else case hm_get (ag_scores a) from_key of
        None \<Rightarrow> (a, Inl InsufficientScore)
      | Some old_source \<Rightarrow>
        (case checked_sub old_source amount of
          None \<Rightarrow> (a, Inl InsufficientScore)
        | Some new_source \<Rightarrow>
          (let old_target = hm_get (ag_scores a) to_key in
           case Option.bind (checked_add (case old_target of None \<Rightarrow> 0 | Some n \<Rightarrow> n) amount)
                  (\<lambda>n. checked_add n additional) of
             None \<Rightarrow> (a, Inl Overflow)
           | Some new_target \<Rightarrow>
             if new_target > 0 \<and> old_target = None \<and> new_source > 0 \<and>
                length (ag_scores a) \<ge> ag_capacity a
             then (a, Inl Capacity)
             else (case checked_add (ag_total a) additional of
               None \<Rightarrow> (a, Inl Overflow)
             | Some total' \<Rightarrow>
               (case checked_add (ag_revision a) 1 of
                 None \<Rightarrow> (a, Inl Overflow)
               | Some revision \<Rightarrow>
                 (let scores1 = (if new_source = 0 then hm_remove from_key (ag_scores a)
                                 else hm_insert from_key new_source (ag_scores a));
                      metadata1 = (if new_source = 0 then hm_remove from_key (ag_metadata a)
                                   else ag_metadata a);
                      scores2 = (if new_target > 0 then hm_insert to_key new_target scores1
                                 else scores1);
                      index1 = ranking_index_update from_key (Some old_source)
                                 (if new_source > 0 then Some new_source else None) (ag_index a);
                      index2 = ranking_index_update to_key old_target
                                 (if new_target > 0 then Some new_target else None) index1
                  in (a\<lparr>ag_scores := scores2, ag_metadata := metadata1, ag_index := index2,
                        ag_total := total', ag_revision := revision\<rparr>, Inr ())))))))"

text \<open>
  \<open>expire\<close> reads the score with \<open>expect\<close> and subtracts without a check: a missing key or an
  amount above the score or the total aborts.
\<close>

definition aggregation_expire :: "string \<Rightarrow> u64 \<Rightarrow> aggregation \<Rightarrow> aggregation outcome run" where
  "aggregation_expire key amount a =
     (case checked_add (ag_revision a) 1 of
        None \<Rightarrow> Ret (a, Inl Overflow)
      | Some revision \<Rightarrow>
        (case hm_get (ag_scores a) key of
           None \<Rightarrow> Panic
         | Some previous \<Rightarrow>
           if previous < amount \<or> ag_total a < amount then Panic
           else
             (let score = previous - amount in
              Ret (a\<lparr>ag_total := ag_total a - amount,
                     ag_scores := (if score = 0 then hm_remove key (ag_scores a)
                                   else hm_insert key score (ag_scores a)),
                     ag_metadata := (if score = 0 then hm_remove key (ag_metadata a)
                                     else ag_metadata a),
                     ag_index := ranking_index_update key (Some previous)
                                   (if score > 0 then Some score else None) (ag_index a),
                     ag_revision := revision\<rparr>, Inr ()))))"

definition aggregation_score :: "string \<Rightarrow> aggregation \<Rightarrow> u64 option" where
  "aggregation_score key a = hm_get (ag_scores a) key"

definition aggregation_set_capacity :: "nat \<Rightarrow> aggregation \<Rightarrow> aggregation" where
  "aggregation_set_capacity capacity a = a\<lparr>ag_capacity := capacity\<rparr>"

definition aggregation_touch :: "aggregation \<Rightarrow> aggregation outcome" where
  "aggregation_touch a =
     (case checked_add (ag_revision a) 1 of
        None \<Rightarrow> (a, Inl Overflow)
      | Some revision \<Rightarrow> (a\<lparr>ag_revision := revision\<rparr>, Inr ()))"

definition aggregation_reset :: "aggregation \<Rightarrow> aggregation outcome" where
  "aggregation_reset a =
     (case checked_add (ag_revision a) 1 of
        None \<Rightarrow> (a, Inl Overflow)
      | Some revision \<Rightarrow>
        (a\<lparr>ag_scores := [], ag_metadata := [], ag_index := ranking_index_clear (ag_index a),
           ag_total := 0, ag_revision := revision\<rparr>, Inr ()))"

definition candidate_entry :: "aggregation \<Rightarrow> string \<times> u64 \<Rightarrow> entry" where
  "candidate_entry a = (\<lambda>(key, score).
     let metadata = hm_get_or (ag_metadata a) key entry_metadata_default
     in \<lparr>e_key = key, e_rank = 0, e_score = score,
         e_label = (case em_label metadata of None \<Rightarrow> key | Some label \<Rightarrow> label),
         e_metadata = metadata\<lparr>em_label := None\<rparr>\<rparr>)"

definition snapshot_candidates :: "nat \<Rightarrow> aggregation \<Rightarrow> snapshot" where
  "snapshot_candidates limit a =
     \<lparr>sn_ranking_id = [], sn_schema_version = 1, sn_creator_id = [], sn_room_id = [],
      sn_window = Session, sn_revision = ag_revision a, sn_instance_id = None,
      sn_integrity_status = ''unknown'', sn_rejected = 0, sn_dropped = 0, sn_limited = 0,
      sn_cooldown_rejected = 0, sn_paused = False,
      sn_entries = map (candidate_entry a) (ranking_index_top limit (ag_index a)),
      sn_total_score = ag_total a, sn_total_participants = length (ag_scores a)\<rparr>"

definition aggregation_snapshot_unranked :: "aggregation \<Rightarrow> snapshot" where
  "aggregation_snapshot_unranked a = snapshot_candidates (length (ag_scores a)) a"

definition aggregation_snapshot :: "nat \<Rightarrow> aggregation \<Rightarrow> snapshot" where
  "aggregation_snapshot limit a = rank_snapshot limit (snapshot_candidates limit a)"

section \<open>Invariant\<close>

definition valid_key :: "string \<Rightarrow> bool" where
  "valid_key k \<longleftrightarrow> k \<noteq> [] \<and> length k \<le> 512"

definition agg_inv :: "aggregation \<Rightarrow> bool" where
  "agg_inv a \<longleftrightarrow>
     hm_wf (ag_scores a) \<and> hm_wf (ag_metadata a) \<and>
     (\<forall>(k, s) \<in> set (ag_scores a). valid_key k \<and> 0 < s) \<and>
     index_follows (ag_index a) (ag_scores a) \<and>
     ag_total a = hm_sum (ag_scores a) \<and> ag_total a \<le> u64_max \<and> ag_revision a \<le> u64_max \<and>
     hm_keys (ag_metadata a) \<subseteq> hm_keys (ag_scores a) \<and>
     (\<forall>(k, m) \<in> set (ag_metadata a). metadata_ok m) \<and>
     length (ag_scores a) \<le> ag_capacity a"

lemma agg_invD:
  assumes "agg_inv a"
  shows agg_inv_scores: "hm_wf (ag_scores a)"
    and agg_inv_index: "index_follows (ag_index a) (ag_scores a)"
    and agg_inv_total: "ag_total a = hm_sum (ag_scores a)"
    and agg_inv_total_le: "ag_total a \<le> u64_max"
    and agg_inv_revision: "ag_revision a \<le> u64_max"
    and agg_inv_capacity: "length (ag_scores a) \<le> ag_capacity a"
  using assms by (auto simp: agg_inv_def)

lemma agg_inv_entry: "agg_inv a \<Longrightarrow> hm_get (ag_scores a) k = Some s \<Longrightarrow> valid_key k \<and> 0 < s"
  by (auto simp: agg_inv_def dest!: map_of_SomeD)

lemma agg_inv_metadata: "agg_inv a \<Longrightarrow> metadata_ok (hm_get_or (ag_metadata a) k entry_metadata_default)"
  by (auto simp: agg_inv_def hm_get_or_def split: option.split dest!: map_of_SomeD)

lemma agg_inv_new: "agg_inv (aggregation_new capacity)"
  by (simp add: agg_inv_def aggregation_new_def ri.follows_empty)

text \<open>The two changes every operation is made of: setting and dropping one score.\<close>

lemma agg_inv_set_score:
  assumes inv: "agg_inv a" and k: "valid_key k" "0 < s"
    and sum: "t + hm_get_or (ag_scores a) k 0 = ag_total a + s" "t \<le> u64_max" and r: "r \<le> u64_max"
    and cap: "k \<in> hm_keys (ag_scores a) \<or> length (ag_scores a) < ag_capacity a"
  shows "agg_inv (a\<lparr>ag_scores := hm_insert k s (ag_scores a),
      ag_index := ranking_index_update k (hm_get (ag_scores a) k) (Some s) (ag_index a),
      ag_total := t, ag_revision := r\<rparr>)"
proof -
  have "hm_sum (hm_insert k s (ag_scores a)) + hm_get_or (ag_scores a) k 0 = hm_sum (ag_scores a) + s"
    by (rule hm_sum_insert)
  then have "t = hm_sum (hm_insert k s (ag_scores a))"
    using sum(1) agg_inv_total [OF inv] by linarith
  moreover have "index_follows (ranking_index_update k (hm_get (ag_scores a) k) (Some s) (ag_index a))
      (hm_insert k s (ag_scores a))"
    by (rule ri.follows_put) (use inv in \<open>simp_all add: agg_inv_def\<close>)
  moreover have "length (hm_insert k s (ag_scores a)) \<le> ag_capacity a"
    using cap agg_inv_capacity [OF inv] by (auto simp: hm_len_insert)
  moreover have "\<forall>(k', s') \<in> set (hm_insert k s (ag_scores a)). valid_key k' \<and> 0 < s'"
    using k inv by (auto simp: agg_inv_def hm_set_insert)
  ultimately show ?thesis using inv sum(2) r
    by (simp add: agg_inv_def hm_keys_insert subset_insertI2)
qed

lemma agg_inv_drop_score:
  assumes inv: "agg_inv a" and r: "r \<le> u64_max"
    and sum: "t + hm_get_or (ag_scores a) k 0 = ag_total a"
  shows "agg_inv (a\<lparr>ag_scores := hm_remove k (ag_scores a), ag_metadata := hm_remove k (ag_metadata a),
      ag_index := ranking_index_update k (hm_get (ag_scores a) k) None (ag_index a),
      ag_total := t, ag_revision := r\<rparr>)"
proof -
  have "hm_sum (hm_remove k (ag_scores a)) + hm_get_or (ag_scores a) k 0 = hm_sum (ag_scores a)"
    by (rule hm_sum_remove) (use inv in \<open>simp add: agg_inv_def\<close>)
  then have t: "t = hm_sum (hm_remove k (ag_scores a))"
    using sum agg_inv_total [OF inv] by linarith
  have "t \<le> u64_max" using sum agg_inv_total_le [OF inv] by linarith
  moreover have "index_follows (ranking_index_update k (hm_get (ag_scores a) k) None (ag_index a))
      (hm_remove k (ag_scores a))"
    by (rule ri.follows_drop) (use inv in \<open>simp_all add: agg_inv_def\<close>)
  moreover have "length (hm_remove k (ag_scores a)) \<le> ag_capacity a"
    using agg_inv_capacity [OF inv] length_delete_le [of k "ag_scores a"] by linarith
  moreover have "\<forall>(k', s') \<in> set (hm_remove k (ag_scores a)). valid_key k' \<and> 0 < s'"
    using inv by (auto simp: agg_inv_def hm_set_remove)
  moreover have "\<forall>(k', m) \<in> set (hm_remove k (ag_metadata a)). metadata_ok m"
    using inv by (auto simp: agg_inv_def hm_set_remove)
  ultimately show ?thesis using inv r t
    by (auto simp: agg_inv_def hm_keys_remove)
qed

section \<open>Effect of the operations\<close>

text \<open>The abstract state: the score of every key, 0 for a key without an entry.\<close>

definition scores_of :: "aggregation \<Rightarrow> string \<Rightarrow> nat" where
  "scores_of a k = hm_get_or (ag_scores a) k 0"

lemma scores_of_le_total: "agg_inv a \<Longrightarrow> scores_of a k \<le> ag_total a"
  by (auto simp: scores_of_def hm_get_or_def agg_inv_def dest: hm_get_le_sum split: option.split)

lemma scores_of_pos: "agg_inv a \<Longrightarrow> 0 < scores_of a k \<longleftrightarrow> hm_has (ag_scores a) k"
  by (auto simp: scores_of_def hm_get_or_def hm_has_def dest: agg_inv_entry split: option.split)

lemma scores_of_new [simp]: "scores_of (aggregation_new c) = (\<lambda>_. 0)"
  by (simp add: fun_eq_iff scores_of_def aggregation_new_def hm_get_or_def)

definition apply_accepts :: "string \<Rightarrow> u64 \<Rightarrow> u64 \<Rightarrow> aggregation \<Rightarrow> bool" where
  "apply_accepts key delta weight a \<longleftrightarrow>
     valid_key key \<and> delta * weight \<le> u64_max \<and>
     (delta * weight = 0 \<or>
      (0 < scores_of a key \<or> length (ag_scores a) < ag_capacity a) \<and>
      ag_total a + delta * weight \<le> u64_max \<and> ag_revision a < u64_max)"

lemma aggregation_apply_cases:
  assumes inv: "agg_inv a"
  obtains (rejected) e where "aggregation_apply key delta weight a = (a, Inl e)"
      "\<not> apply_accepts key delta weight a"
    | (zero) "aggregation_apply key delta weight a = (a, Inr ())" "delta * weight = 0"
      "apply_accepts key delta weight a"
    | (added) "aggregation_apply key delta weight a =
        (a\<lparr>ag_scores := hm_insert key (scores_of a key + delta * weight) (ag_scores a),
           ag_index := ranking_index_update key (hm_get (ag_scores a) key)
             (Some (scores_of a key + delta * weight)) (ag_index a),
           ag_total := ag_total a + delta * weight, ag_revision := ag_revision a + 1\<rparr>, Inr ())"
      "0 < delta * weight" "apply_accepts key delta weight a"
proof -
  have le: "scores_of a key + v \<le> ag_total a + v" for v
    using scores_of_le_total [OF inv] by simp
  have has: "hm_has (ag_scores a) key \<longleftrightarrow> 0 < scores_of a key"
    using scores_of_pos [OF inv] by simp
  show ?thesis
  proof (cases "apply_accepts key delta weight a")
    case True
    then have ok: "valid_key key" "delta * weight \<le> u64_max"
      by (simp_all add: apply_accepts_def)
    show ?thesis
    proof (cases "delta * weight = 0")
      case z: True
      have "aggregation_apply key delta weight a = (a, Inr ())"
        using ok z by (auto simp: aggregation_apply_def valid_key_def checked_mul_def)
      then show ?thesis using z True by (rule zero)
    next
      case nz: False
      with True have c: "0 < scores_of a key \<or> length (ag_scores a) < ag_capacity a"
        "ag_total a + delta * weight \<le> u64_max" "ag_revision a < u64_max"
        by (simp_all add: apply_accepts_def)
      moreover have "scores_of a key + delta * weight \<le> u64_max"
        using le [of "delta * weight"] c(2) by (rule order_trans)
      ultimately show ?thesis using ok nz True has
        by (intro added)
          (auto simp: aggregation_apply_def valid_key_def checked_mul_def checked_add_def
            scores_of_def Let_def)
    qed
  next
    case False
    then have "\<exists>e. aggregation_apply key delta weight a = (a, Inl e)"
      using has
      by (auto simp: aggregation_apply_def apply_accepts_def valid_key_def checked_mul_def
          checked_add_def scores_of_def Let_def)
    then show ?thesis using False rejected by blast
  qed
qed

lemma agg_inv_apply:
  assumes "agg_inv a"
  shows "agg_inv (fst (aggregation_apply key delta weight a))"
  using assms
proof (cases rule: aggregation_apply_cases [where key = key and delta = delta and weight = weight])
  case added
  have "agg_inv (a\<lparr>ag_scores := hm_insert key (scores_of a key + delta * weight) (ag_scores a),
       ag_index := ranking_index_update key (hm_get (ag_scores a) key)
         (Some (scores_of a key + delta * weight)) (ag_index a),
       ag_total := ag_total a + delta * weight, ag_revision := ag_revision a + 1\<rparr>)"
    using added(2,3) scores_of_pos [OF assms, of key]
    by (intro agg_inv_set_score [OF assms])
      (auto simp: apply_accepts_def scores_of_def hm_simps)
  then show ?thesis using added(1) by simp
qed (use assms in simp_all)

lemma aggregation_apply_effect:
  assumes inv: "agg_inv a" and ok: "aggregation_apply key delta weight a = (a', Inr ())"
  shows "scores_of a' = (scores_of a)(key := scores_of a key + delta * weight) \<and>
    ag_total a' = ag_total a + delta * weight \<and> ag_capacity a' = ag_capacity a"
  using inv
proof (cases rule: aggregation_apply_cases [where key = key and delta = delta and weight = weight])
  case added
  then show ?thesis using ok by (auto simp: fun_eq_iff scores_of_def hm_get_or_def hm_simps)
qed (use ok in auto)

lemmas aggregation_apply_scores = aggregation_apply_effect [THEN conjunct1]
  and aggregation_apply_total = aggregation_apply_effect [THEN conjunct2, THEN conjunct1]

lemma aggregation_apply_atomic:
  "aggregation_apply key delta weight a = (a', Inl e) \<Longrightarrow> a' = a"
  by (auto simp: aggregation_apply_def Let_def split: if_splits option.splits)

lemma aggregation_apply_ok:
  assumes "agg_inv a"
  shows "is_ok (snd (aggregation_apply key delta weight a)) \<longleftrightarrow> apply_accepts key delta weight a"
  using assms by (cases rule: aggregation_apply_cases
      [where key = key and delta = delta and weight = weight]) simp_all

subsection \<open>Reassignment\<close>

definition reassign_accepts :: "string \<Rightarrow> string \<Rightarrow> u64 \<Rightarrow> u64 \<Rightarrow> aggregation \<Rightarrow> bool" where
  "reassign_accepts from_key to_key amount additional a \<longleftrightarrow>
     valid_key from_key \<and> valid_key to_key \<and> from_key \<noteq> to_key \<and>
     0 < scores_of a from_key \<and> amount \<le> scores_of a from_key \<and>
     scores_of a to_key + amount + additional \<le> u64_max \<and>
     (scores_of a to_key + amount + additional = 0 \<or> 0 < scores_of a to_key \<or>
      amount = scores_of a from_key \<or> length (ag_scores a) < ag_capacity a) \<and>
     ag_total a + additional \<le> u64_max \<and> ag_revision a < u64_max"

definition put_score :: "string \<Rightarrow> u64 \<Rightarrow> u64 \<Rightarrow> u64 \<Rightarrow> aggregation \<Rightarrow> aggregation" where
  "put_score k s t r a =
     (if s = 0
      then a\<lparr>ag_scores := hm_remove k (ag_scores a), ag_metadata := hm_remove k (ag_metadata a),
             ag_index := ranking_index_update k (hm_get (ag_scores a) k) None (ag_index a),
             ag_total := t, ag_revision := r\<rparr>
      else a\<lparr>ag_scores := hm_insert k s (ag_scores a),
             ag_index := ranking_index_update k (hm_get (ag_scores a) k) (Some s) (ag_index a),
             ag_total := t, ag_revision := r\<rparr>)"

lemma put_score_simps [simp]:
  "ag_total (put_score k s t r a) = t"
  "ag_revision (put_score k s t r a) = r"
  "ag_capacity (put_score k s t r a) = ag_capacity a"
  by (simp_all add: put_score_def)

lemma scores_of_put_score: "scores_of (put_score k s t r a) = (scores_of a)(k := s)"
  by (auto simp: put_score_def scores_of_def fun_eq_iff hm_get_or_def hm_simps)

lemma agg_inv_put_score:
  assumes inv: "agg_inv a" and k: "valid_key k"
    and sum: "t + scores_of a k = ag_total a + s" "t \<le> u64_max" and r: "r \<le> u64_max"
    and cap: "s = 0 \<or> k \<in> hm_keys (ag_scores a) \<or> length (ag_scores a) < ag_capacity a"
  shows "agg_inv (put_score k s t r a)"
proof (cases "s = 0")
  case True
  with sum(1) have "t + hm_get_or (ag_scores a) k 0 = ag_total a" by (simp add: scores_of_def)
  with True show ?thesis using agg_inv_drop_score [OF inv r] by (simp add: put_score_def)
next
  case False
  with cap have cap': "k \<in> hm_keys (ag_scores a) \<or> length (ag_scores a) < ag_capacity a" by simp
  have "t + hm_get_or (ag_scores a) k 0 = ag_total a + s" using sum(1) by (simp add: scores_of_def)
  then show ?thesis using agg_inv_set_score [OF inv k _ _ sum(2) r cap'] False
    by (simp add: put_score_def)
qed

lemma length_put_score_zero:
  assumes "agg_inv a" and "0 < scores_of a k"
  shows "length (ag_scores (put_score k 0 t r a)) = length (ag_scores a) - 1"
    and "0 < length (ag_scores a)"
proof -
  have k: "k \<in> hm_keys (ag_scores a)" using scores_of_pos [OF assms(1)] assms(2) by (simp add: hm_simps)
  then show "length (ag_scores (put_score k 0 t r a)) = length (ag_scores a) - 1"
    using agg_inv_scores [OF assms(1)] by (simp add: put_score_def hm_len_remove)
  from k show "0 < length (ag_scores a)" by auto
qed

lemma ranking_index_update_None [simp]: "ranking_index_update k None None i = i"
  by (simp add: ranking_index_update_def)

lemma aggregation_reassign_cases:
  assumes inv: "agg_inv a"
  obtains (rejected) e where "aggregation_reassign f t n x a = (a, Inl e)"
      "\<not> reassign_accepts f t n x a"
    | (kept) "aggregation_reassign f t n x a =
        (put_score f (scores_of a f - n) (ag_total a - n) (ag_revision a + 1) a, Inr ())"
      "scores_of a t + n + x = 0" "reassign_accepts f t n x a"
    | (moved) "aggregation_reassign f t n x a =
        (put_score t (scores_of a t + n + x) (ag_total a + x) (ag_revision a + 1)
          (put_score f (scores_of a f - n) (ag_total a - n) (ag_revision a + 1) a), Inr ())"
      "0 < scores_of a t + n + x" "reassign_accepts f t n x a"
proof -
  have tgt: "(case hm_get (ag_scores a) t of None \<Rightarrow> 0 | Some n \<Rightarrow> n) = scores_of a t"
    by (simp add: scores_of_def hm_get_or_def)
  have src: "hm_get (ag_scores a) f = None \<longleftrightarrow> scores_of a f = 0"
    "\<And>s. hm_get (ag_scores a) f = Some s \<Longrightarrow> scores_of a f = s \<and> 0 < s"
    and tnone: "hm_get (ag_scores a) t = None \<longleftrightarrow> scores_of a t = 0"
    using agg_inv_entry [OF inv] by (force simp: scores_of_def hm_get_or_def split: option.splits)+
  show ?thesis
  proof (cases "reassign_accepts f t n x a")
    case False
    let ?ok = "f \<noteq> [] \<and> t \<noteq> [] \<and> length f \<le> 512 \<and> length t \<le> 512 \<and> f \<noteq> t"
    let ?to = "scores_of a t + n + x"
    from False consider (keys) "\<not> ?ok" | (missing) ?ok "scores_of a f = 0"
      | (short) ?ok "0 < scores_of a f" "scores_of a f < n"
      | (target) ?ok "0 < scores_of a f" "n \<le> scores_of a f" "u64_max < ?to"
      | (space) ?ok "0 < scores_of a f" "n \<le> scores_of a f" "?to \<le> u64_max" "0 < ?to"
          "scores_of a t = 0" "n \<noteq> scores_of a f" "ag_capacity a \<le> length (ag_scores a)"
      | (total) ?ok "0 < scores_of a f" "n \<le> scores_of a f" "?to \<le> u64_max"
          "u64_max < ag_total a + x"
      | (revision) ?ok "0 < scores_of a f" "n \<le> scores_of a f" "?to \<le> u64_max"
          "u64_max \<le> ag_revision a"
      unfolding reassign_accepts_def valid_key_def not_le by (metis le_eq_less_or_eq not_gr0 not_less)
    then have "\<exists>e. aggregation_reassign f t n x a = (a, Inl e)"
    proof cases
      case keys
      then show ?thesis by (auto simp: aggregation_reassign_def)
    next
      case missing
      then show ?thesis using src(1) by (simp add: aggregation_reassign_def)
    next
      case short
      then obtain s where "hm_get (ag_scores a) f = Some s" "scores_of a f = s"
        using src by (cases "hm_get (ag_scores a) f") auto
      with short show ?thesis by (simp add: aggregation_reassign_def checked_sub_def)
    next
      case target
      then obtain s where "hm_get (ag_scores a) f = Some s" "scores_of a f = s"
        using src by (cases "hm_get (ag_scores a) f") auto
      with target show ?thesis
        by (cases "scores_of a t + n \<le> u64_max")
          (simp_all add: aggregation_reassign_def Let_def tgt checked_sub_def checked_add_def)
    next
      case space
      then obtain s where "hm_get (ag_scores a) f = Some s" "scores_of a f = s"
        using src by (cases "hm_get (ag_scores a) f") auto
      with space tnone show ?thesis
        by (simp add: aggregation_reassign_def Let_def tgt checked_sub_def checked_add_def)
    next
      case total
      then obtain s where "hm_get (ag_scores a) f = Some s" "scores_of a f = s"
        using src by (cases "hm_get (ag_scores a) f") auto
      with total show ?thesis
        by (simp add: aggregation_reassign_def Let_def tgt checked_sub_def checked_add_def)
    next
      case revision
      then obtain s where "hm_get (ag_scores a) f = Some s" "scores_of a f = s"
        using src by (cases "hm_get (ag_scores a) f") auto
      with revision show ?thesis
        by (simp add: aggregation_reassign_def Let_def tgt checked_sub_def checked_add_def)
    qed
    then show ?thesis using False rejected by blast
  next
    case True
    then have ok: "valid_key f" "valid_key t" "f \<noteq> t" "0 < scores_of a f" "n \<le> scores_of a f"
      "scores_of a t + n + x \<le> u64_max" "scores_of a t + n \<le> u64_max"
      "scores_of a t + n + x = 0 \<or> 0 < scores_of a t \<or> n = scores_of a f \<or>
         length (ag_scores a) < ag_capacity a"
      "ag_total a + x \<le> u64_max" "ag_revision a < u64_max"
      by (simp_all add: reassign_accepts_def)
    from ok(4) src obtain s where s: "hm_get (ag_scores a) f = Some s" "scores_of a f = s"
      by (cases "hm_get (ag_scores a) f") auto
    have free: "\<not> (0 < scores_of a t + n + x \<and> hm_get (ag_scores a) t = None \<and> 0 < s - n \<and>
        ag_capacity a \<le> length (ag_scores a))"
      using ok(8) s(2) tnone by auto
    have t1: "hm_get (hm_insert f v (ag_scores a)) t = hm_get (ag_scores a) t"
      "hm_get (hm_remove f (ag_scores a)) t = hm_get (ag_scores a) t" for v
      using ok(3) by (auto simp: hm_simps)
    show ?thesis
    proof (cases "scores_of a t + n + x = 0")
      case z: True
      have "aggregation_reassign f t n x a =
          (put_score f (scores_of a f - n) (ag_total a - n) (ag_revision a + 1) a, Inr ())"
        using ok s z tnone
        by (simp add: aggregation_reassign_def Let_def tgt valid_key_def checked_add_def
            checked_sub_def put_score_def)
      then show ?thesis using z True by (rule kept)
    next
      case nz: False
      have "aggregation_reassign f t n x a =
          (put_score t (scores_of a t + n + x) (ag_total a + x) (ag_revision a + 1)
            (put_score f (scores_of a f - n) (ag_total a - n) (ag_revision a + 1) a), Inr ())"
        using ok s nz tnone free t1
        by (auto simp add: aggregation_reassign_def Let_def tgt valid_key_def checked_add_def
            checked_sub_def put_score_def)
      then show ?thesis using nz True by (intro moved) auto
    qed
  qed
qed

lemma reassign_source_inv:
  assumes inv: "agg_inv a" and ok: "reassign_accepts f t n x a"
  shows "agg_inv (put_score f (scores_of a f - n) (ag_total a - n) (ag_revision a + 1) a)"
proof (rule agg_inv_put_score [OF inv])
  have n: "n \<le> scores_of a f" "n \<le> ag_total a" "0 < scores_of a f"
    using ok scores_of_le_total [OF inv, of f] by (auto simp: reassign_accepts_def)
  then show "ag_total a - n + scores_of a f = ag_total a + (scores_of a f - n)" by linarith
  show "ag_total a - n \<le> u64_max" using agg_inv_total_le [OF inv] by linarith
  show "scores_of a f - n = 0 \<or> f \<in> hm_keys (ag_scores a) \<or> length (ag_scores a) < ag_capacity a"
    using n(3) scores_of_pos [OF inv] by (auto simp: hm_simps)
qed (use ok in \<open>auto simp: reassign_accepts_def\<close>)

lemma agg_inv_reassign:
  assumes inv: "agg_inv a"
  shows "agg_inv (fst (aggregation_reassign f t n x a))"
  using inv
proof (cases rule: aggregation_reassign_cases [where f = f and t = t and n = n and x = x])
  case moved
  let ?b = "put_score f (scores_of a f - n) (ag_total a - n) (ag_revision a + 1) a"
  have b: "agg_inv ?b" using reassign_source_inv [OF inv moved(3)] .
  have ft: "f \<noteq> t" and f: "0 < scores_of a f"
    using moved(3) by (auto simp: reassign_accepts_def)
  then have tb: "scores_of ?b t = scores_of a t" by (simp add: scores_of_put_score)
  have n: "n \<le> ag_total a"
    using moved(3) scores_of_le_total [OF inv, of f] by (auto simp: reassign_accepts_def)
  have tkey: "0 < scores_of a t \<Longrightarrow> t \<in> hm_keys (ag_scores ?b)"
    using scores_of_pos [OF b, of t] tb by (simp add: hm_simps)
  have len: "length (ag_scores ?b) \<le> length (ag_scores a)"
    by (auto simp: put_score_def hm_len_insert length_delete_le)
       (use scores_of_pos [OF inv, of f] f in \<open>auto simp: hm_simps\<close>)
  have cap: "scores_of a t + n + x = 0 \<or> t \<in> hm_keys (ag_scores ?b) \<or>
      length (ag_scores ?b) < ag_capacity ?b"
  proof -
    consider "scores_of a t + n + x = 0" | "0 < scores_of a t" | "n = scores_of a f"
      | "length (ag_scores a) < ag_capacity a"
      using moved(3) by (auto simp: reassign_accepts_def)
    then show ?thesis
    proof cases
      case 3
      have "length (ag_scores ?b) = length (ag_scores a) - 1" and "0 < length (ag_scores a)"
        using length_put_score_zero [OF inv f] 3 by simp_all
      then have "length (ag_scores ?b) < ag_capacity ?b"
        using agg_inv_capacity [OF inv] unfolding put_score_simps by linarith
      then show ?thesis by blast
    qed (use tkey len in auto)
  qed
  have "agg_inv (put_score t (scores_of a t + n + x) (ag_total a + x) (ag_revision a + 1) ?b)"
    using moved(3) n by (intro agg_inv_put_score [OF b _ _ _ _ cap])
      (auto simp: reassign_accepts_def scores_of_put_score)
  then show ?thesis using moved(1) by simp
next
  case kept
  show ?thesis unfolding kept(1) fst_conv using reassign_source_inv [OF inv kept(3)] .
qed (use inv in simp)

lemma aggregation_reassign_effect:
  assumes inv: "agg_inv a" and ok: "aggregation_reassign f t n x a = (a', Inr ())"
  shows "scores_of a' = (scores_of a)(f := scores_of a f - n, t := scores_of a t + n + x) \<and>
    ag_total a' = ag_total a + x \<and> n \<le> scores_of a f \<and> f \<noteq> t"
  using inv
proof (cases rule: aggregation_reassign_cases [where f = f and t = t and n = n and x = x])
  case kept
  then show ?thesis using ok
    by (auto simp: scores_of_put_score reassign_accepts_def)
next
  case moved
  then show ?thesis using ok
    by (auto simp: scores_of_put_score reassign_accepts_def)
qed (use ok in auto)

lemma aggregation_reassign_ok:
  assumes "agg_inv a"
  shows "is_ok (snd (aggregation_reassign f t n x a)) \<longleftrightarrow> reassign_accepts f t n x a"
  using assms by (cases rule: aggregation_reassign_cases
      [where f = f and t = t and n = n and x = x]) simp_all

lemma aggregation_reassign_atomic:
  "aggregation_reassign f t n x a = (a', Inl e) \<Longrightarrow> a' = a"
  by (auto simp: aggregation_reassign_def Let_def split: if_splits option.splits)

subsection \<open>Expiry, reset and presentation\<close>

lemma aggregation_expire_eq:
  assumes inv: "agg_inv a" and rev: "ag_revision a < u64_max"
    and has: "0 < scores_of a k" and le: "n \<le> scores_of a k"
  shows "aggregation_expire k n a =
    Ret (put_score k (scores_of a k - n) (ag_total a - n) (ag_revision a + 1) a, Inr ())"
proof -
  from has obtain s where s: "hm_get (ag_scores a) k = Some s" "scores_of a k = s"
    by (auto simp: scores_of_def hm_get_or_def split: option.splits)
  have "n \<le> ag_total a" using le scores_of_le_total [OF inv, of k] by simp
  then show ?thesis using s le rev
    by (auto simp: aggregation_expire_def checked_add_def Let_def put_score_def)
qed

lemma aggregation_expire_cases:
  assumes inv: "agg_inv a"
  obtains (overflow) "aggregation_expire k n a = Ret (a, Inl Overflow)" "ag_revision a = u64_max"
    | (missing) "aggregation_expire k n a = Panic" "\<not> (0 < scores_of a k \<and> n \<le> scores_of a k)"
    | (expired) "aggregation_expire k n a =
        Ret (put_score k (scores_of a k - n) (ag_total a - n) (ag_revision a + 1) a, Inr ())"
      "0 < scores_of a k" "n \<le> scores_of a k" "ag_revision a < u64_max"
proof (cases "ag_revision a < u64_max")
  case True
  show ?thesis
  proof (cases "0 < scores_of a k \<and> n \<le> scores_of a k")
    case ok: True
    then show ?thesis using aggregation_expire_eq [OF inv True] expired True by blast
  next
    case False
    have "aggregation_expire k n a = Panic"
    proof (cases "hm_get (ag_scores a) k")
      case None
      then show ?thesis using True by (simp add: aggregation_expire_def checked_add_def)
    next
      case (Some s)
      then have "s < n" using False agg_inv_entry [OF inv Some] by (auto simp: scores_of_def hm_get_or_def)
      then show ?thesis using True Some by (simp add: aggregation_expire_def checked_add_def)
    qed
    then show ?thesis using False by (rule missing)
  qed
next
  case False
  then have "ag_revision a = u64_max" using agg_inv_revision [OF inv] by simp
  then show ?thesis by (intro overflow) (auto simp: aggregation_expire_def checked_add_def)
qed

lemma agg_inv_expire:
  assumes inv: "agg_inv a" and ret: "aggregation_expire k n a = Ret (a', r)"
  shows "agg_inv a'"
  using inv
proof (cases rule: aggregation_expire_cases [where k = k and n = n])
  case expired
  have "0 < scores_of a k \<Longrightarrow> k \<in> hm_keys (ag_scores a)"
    using scores_of_pos [OF inv, of k] by (simp add: hm_simps)
  moreover have "valid_key k"
    using expired(2) agg_inv_entry [OF inv, of k]
    by (auto simp: scores_of_def hm_get_or_def split: option.splits)
  ultimately have "agg_inv (put_score k (scores_of a k - n) (ag_total a - n) (ag_revision a + 1) a)"
    using expired(2-4) agg_inv_total_le [OF inv] scores_of_le_total [OF inv, of k]
    by (intro agg_inv_put_score [OF inv]) auto
  then show ?thesis using expired(1) ret by simp
qed (use inv ret in auto)

lemma aggregation_expire_Ok:
  assumes inv: "agg_inv a" and ret: "aggregation_expire k n a = Ret (a', Inr ())"
  shows "a' = put_score k (scores_of a k - n) (ag_total a - n) (ag_revision a + 1) a \<and>
    0 < scores_of a k \<and> n \<le> scores_of a k"
  using inv
proof (cases rule: aggregation_expire_cases [where k = k and n = n])
  case expired
  then show ?thesis using ret by simp
qed (use ret in auto)

lemma aggregation_expire_effect:
  assumes "agg_inv a" and "aggregation_expire k n a = Ret (a', Inr ())"
  shows "scores_of a' = (scores_of a)(k := scores_of a k - n)"
    and "ag_total a' = ag_total a - n" and "ag_revision a' = ag_revision a + 1"
    and "0 < scores_of a k" and "n \<le> scores_of a k"
  using aggregation_expire_Ok [OF assms] by (auto simp: scores_of_put_score)

lemma agg_inv_touch: "agg_inv a \<Longrightarrow> agg_inv (fst (aggregation_touch a))"
  by (auto simp: aggregation_touch_def checked_add_def agg_inv_def)

lemma agg_inv_reset: "agg_inv a \<Longrightarrow> agg_inv (fst (aggregation_reset a))"
  by (auto simp: aggregation_reset_def checked_add_def agg_inv_def ri.follows_clear)

lemma aggregation_touch_scores [simp]:
  "ag_scores (fst (aggregation_touch a)) = ag_scores a"
  "ag_metadata (fst (aggregation_touch a)) = ag_metadata a"
  "ag_total (fst (aggregation_touch a)) = ag_total a"
  "ag_index (fst (aggregation_touch a)) = ag_index a"
  "ag_capacity (fst (aggregation_touch a)) = ag_capacity a"
  by (simp_all add: aggregation_touch_def split: option.splits)

lemma scores_of_touch [simp]: "scores_of (fst (aggregation_touch a)) = scores_of a"
  by (simp add: fun_eq_iff scores_of_def)

lemma agg_inv_restart:
  "agg_inv a \<Longrightarrow> aggregation_reset a = (b, Inr ()) \<Longrightarrow> agg_inv (aggregation_set_capacity c b)"
  by (auto simp: aggregation_reset_def aggregation_set_capacity_def checked_add_def agg_inv_def
      ri.follows_clear split: if_splits)

lemma agg_inv_update_metadata:
  assumes "agg_inv a"
  shows "agg_inv (aggregation_update_metadata k m a)"
proof (cases "hm_has (ag_scores a) k")
  case True
  have "metadata_ok (merge_metadata (hm_get_or (ag_metadata a) k entry_metadata_default) (bounded m))"
    using agg_inv_metadata [OF assms] by (intro metadata_ok_merge) simp_all
  with True assms show ?thesis
    by (auto simp: aggregation_update_metadata_def agg_inv_def hm_set_insert hm_keys_insert hm_has_keys)
qed (simp add: aggregation_update_metadata_def assms)

lemma update_metadata_scores [simp]:
  "ag_scores (aggregation_update_metadata k m a) = ag_scores a"
  "ag_total (aggregation_update_metadata k m a) = ag_total a"
  "ag_revision (aggregation_update_metadata k m a) = ag_revision a"
  "ag_index (aggregation_update_metadata k m a) = ag_index a"
  "ag_capacity (aggregation_update_metadata k m a) = ag_capacity a"
  by (simp_all add: aggregation_update_metadata_def)

lemma scores_of_update_metadata [simp]: "scores_of (aggregation_update_metadata k m a) = scores_of a"
  by (simp add: fun_eq_iff scores_of_def)

text \<open>Presentation: the candidates are the head of the leaderboard, already in rank order.\<close>

lemma snapshot_entries:
  "agg_inv a \<Longrightarrow>
   sn_entries (snapshot_candidates limit a) =
     map (candidate_entry a) (take limit (leaderboard (ag_scores a)))"
  by (simp add: snapshot_candidates_def ri.top_follows [OF agg_inv_scores agg_inv_index])

lemma entry_order_candidate [simp]: "entry_order (candidate_entry a p) = (Reverse (snd p), fst p)"
  by (cases p) (simp add: entry_order_def candidate_entry_def Let_def)

lemma snapshot_candidates_sorted:
  assumes "agg_inv a"
  shows "sorted (map entry_order (sn_entries (snapshot_candidates limit a)))"
proof -
  have "map entry_order (sn_entries (snapshot_candidates limit a)) =
      take limit (map (\<lambda>(k, s). (Reverse s, k)) (leaderboard (ag_scores a)))"
    using assms by (simp add: snapshot_entries take_map comp_def case_prod_unfold)
  then show ?thesis using leaderboard_sorted [of "ag_scores a"] by (simp add: sorted_wrt_take)
qed

lemma aggregation_snapshot_eq:
  assumes "agg_inv a"
  shows "aggregation_snapshot limit a = (snapshot_candidates limit a)
    \<lparr>sn_entries := number_entries 0 (map (candidate_entry a) (take limit (leaderboard (ag_scores a))))\<rparr>"
  unfolding aggregation_snapshot_def
  by (subst rank_snapshot_sorted [OF snapshot_candidates_sorted [OF assms]])
    (simp add: snapshot_entries [OF assms] take_map)

section \<open>Any sequence of operations\<close>

datatype agg_op =
    Agg_Apply string u64 u64
  | Agg_Metadata string entry_metadata
  | Agg_Reassign string string u64 u64
  | Agg_Expire string u64
  | Agg_Touch
  | Agg_Reset

text \<open>A panic ends the run, which the step shows as staying put; see \<open>aggregation_expire_cases\<close>.\<close>

definition agg_step :: "agg_op \<Rightarrow> aggregation \<Rightarrow> aggregation" where
  "agg_step op a =
     (case op of
        Agg_Apply k d w \<Rightarrow> fst (aggregation_apply k d w a)
      | Agg_Metadata k m \<Rightarrow> aggregation_update_metadata k m a
      | Agg_Reassign f t n x \<Rightarrow> fst (aggregation_reassign f t n x a)
      | Agg_Expire k n \<Rightarrow> (case aggregation_expire k n a of Panic \<Rightarrow> a | Ret (a', _) \<Rightarrow> a')
      | Agg_Touch \<Rightarrow> fst (aggregation_touch a)
      | Agg_Reset \<Rightarrow> fst (aggregation_reset a))"

lemma agg_inv_step: "agg_inv a \<Longrightarrow> agg_inv (agg_step op a)"
  by (cases op)
    (auto simp: agg_step_def agg_inv_apply agg_inv_update_metadata agg_inv_reassign agg_inv_touch
      agg_inv_reset split: run.splits dest: agg_inv_expire)

lemma agg_revision_step:
  assumes "agg_inv a"
  shows "ag_revision a \<le> ag_revision (agg_step op a)"
proof (cases op)
  case (Agg_Apply k d w)
  show ?thesis unfolding Agg_Apply agg_step_def using assms
    by (cases rule: aggregation_apply_cases [where key = k and delta = d and weight = w]) auto
next
  case (Agg_Reassign f t n x)
  show ?thesis unfolding Agg_Reassign agg_step_def using assms
    by (cases rule: aggregation_reassign_cases [where f = f and t = t and n = n and x = x]) auto
next
  case (Agg_Expire k n)
  show ?thesis unfolding Agg_Expire agg_step_def using assms
    by (cases rule: aggregation_expire_cases [where k = k and n = n]) auto
qed (auto simp: agg_step_def aggregation_touch_def aggregation_reset_def checked_add_def)

interpretation agg: monotone_machine agg_step agg_inv ag_revision
  by unfold_locales (simp_all add: agg_inv_step agg_revision_step)

end
