(* ===== verification/Scoring.thy ===== *)
theory Scoring
  imports Agg_Model
begin

text \<open>
  Deterministic integer scoring of a contribution (\<open>scoring.rs\<close>): checked at every step, and equal
  to the plain sum of \<open>delta * weight * multiplier\<close> whenever it succeeds.
\<close>

section \<open>The scoring loop\<close>

definition rule_multiplier :: "contribution \<Rightarrow> source_rule \<Rightarrow> u64" where
  "rule_multiplier c rule =
     (case c_gift c of None \<Rightarrow> 1 | Some gift \<Rightarrow> hm_get_or (sr_gift_multipliers rule) gift 1)"

definition rule_applies :: "contribution \<Rightarrow> source_rule \<Rightarrow> bool" where
  "rule_applies c rule \<longleftrightarrow> sr_enabled rule \<and> 0 < sr_weight rule \<and> sr_source rule = c_source c"

definition rule_measured :: "contribution \<Rightarrow> source_rule \<Rightarrow> bool" where
  "rule_measured c rule \<longleftrightarrow> (\<exists>(metric, delta) \<in> set (c_metrics c). metric = sr_metric rule \<and> 0 < delta)"

text \<open>The inner loop over the metrics a rule names.\<close>

fun score_deltas :: "u64 \<Rightarrow> u64 \<Rightarrow> u64 \<Rightarrow> u64 list \<Rightarrow> agg_error + u64" where
  "score_deltas weight multiplier acc [] = Inr acc"
| "score_deltas weight multiplier acc (delta # ds) =
     (case checked_mul delta weight of None \<Rightarrow> Inl Overflow
      | Some v \<Rightarrow>
        (case checked_mul v multiplier of None \<Rightarrow> Inl Overflow
         | Some value \<Rightarrow>
           (case checked_add acc value of None \<Rightarrow> Inl Overflow
            | Some acc' \<Rightarrow> score_deltas weight multiplier acc' ds)))"

definition rule_deltas :: "contribution \<Rightarrow> source_rule \<Rightarrow> u64 list" where
  "rule_deltas c rule = map snd (filter (\<lambda>(metric, _). metric = sr_metric rule) (c_metrics c))"

text \<open>The outer loop over the rules that pass the filter.\<close>

fun score_rules :: "contribution \<Rightarrow> u64 \<Rightarrow> source_rule list \<Rightarrow> agg_error + u64" where
  "score_rules c acc [] = Inr acc"
| "score_rules c acc (rule # rules) =
     (if \<not> rule_measured c rule then score_rules c acc rules
      else if c_source c = ''tiktok.gift'' \<and> c_gift c = None \<and> sr_gift_multipliers rule \<noteq> []
      then Inl InvalidKey
      else if rule_multiplier c rule = 0 then score_rules c acc rules
      else
        (case score_deltas (sr_weight rule) (rule_multiplier c rule) acc (rule_deltas c rule) of
           Inl e \<Rightarrow> Inl e
         | Inr acc' \<Rightarrow> score_rules c acc' rules))"

definition score :: "source_rule list \<Rightarrow> contribution \<Rightarrow> agg_error + u64" where
  "score rules c = score_rules c 0 (filter (rule_applies c) rules)"

section \<open>Specification\<close>

text \<open>What a rule is worth, in unbounded arithmetic.\<close>

definition rule_value :: "contribution \<Rightarrow> source_rule \<Rightarrow> nat" where
  "rule_value c rule =
     (if rule_applies c rule \<and> rule_measured c rule
      then sum_list (map (\<lambda>delta. delta * sr_weight rule * rule_multiplier c rule) (rule_deltas c rule))
      else 0)"

definition score_spec :: "source_rule list \<Rightarrow> contribution \<Rightarrow> nat" where
  "score_spec rules c = sum_list (map (rule_value c) rules)"

definition ambiguous_gift :: "contribution \<Rightarrow> source_rule \<Rightarrow> bool" where
  "ambiguous_gift c rule \<longleftrightarrow> rule_applies c rule \<and> rule_measured c rule \<and>
     c_source c = ''tiktok.gift'' \<and> c_gift c = None \<and> sr_gift_multipliers rule \<noteq> []"

lemma score_deltas_Inr:
  "acc \<le> u64_max \<Longrightarrow> 0 < weight \<Longrightarrow> 0 < multiplier \<Longrightarrow>
   score_deltas weight multiplier acc ds = Inr t \<longleftrightarrow>
     t = acc + sum_list (map (\<lambda>d. d * weight * multiplier) ds) \<and> t \<le> u64_max"
proof (induction ds arbitrary: acc)
  case (Cons d ds)
  let ?v = "d * weight * multiplier"
  have le: "d * weight \<le> ?v" using Cons.prems(3) mult_le_mono2 [of 1 multiplier "d * weight"] by simp
  show ?case
  proof (cases "acc + ?v \<le> u64_max")
    case True
    moreover from this le have "?v \<le> u64_max" and "d * weight \<le> u64_max" by linarith+
    ultimately have "checked_mul d weight = Some (d * weight)" "checked_mul (d * weight) multiplier = Some ?v"
      "checked_add acc ?v = Some (acc + ?v)"
      by (simp_all only: checked_mul_def checked_add_def if_True)
    then show ?thesis using Cons.IH [OF True Cons.prems(2,3)] by (simp add: add.assoc)
  next
    case False
    have "score_deltas weight multiplier acc (d # ds) = Inl Overflow"
      using False by (auto simp: checked_mul_def checked_add_def)
    then show ?thesis using False by auto
  qed
qed auto

lemma score_deltas_Inl: "score_deltas w m acc ds = Inl e \<Longrightarrow> e = Overflow"
  by (induction w m acc ds rule: score_deltas.induct) (auto split: option.splits)

lemma rule_value_zero_multiplier: "rule_multiplier c rule = 0 \<Longrightarrow> rule_value c rule = 0"
  by (induction "rule_deltas c rule") (auto simp: rule_value_def)

lemma score_rules_Inr:
  "acc \<le> u64_max \<Longrightarrow> \<forall>rule \<in> set rules. rule_applies c rule \<Longrightarrow>
   score_rules c acc rules = Inr t \<longleftrightarrow>
     t = acc + sum_list (map (rule_value c) rules) \<and> t \<le> u64_max \<and>
     (\<forall>rule \<in> set rules. \<not> ambiguous_gift c rule)"
proof (induction rules arbitrary: acc)
  case (Cons rule rules)
  have app: "rule_applies c rule" and rest: "\<forall>rule \<in> set rules. rule_applies c rule"
    using Cons.prems by auto
  consider (skip) "\<not> rule_measured c rule" | (ambiguous) "ambiguous_gift c rule"
    | (zero) "rule_measured c rule" "\<not> ambiguous_gift c rule" "rule_multiplier c rule = 0"
    | (add) "rule_measured c rule" "\<not> ambiguous_gift c rule" "0 < rule_multiplier c rule"
    by auto
  then show ?case
  proof cases
    case skip
    then show ?thesis using Cons.IH [OF Cons.prems(1) rest]
      by (simp add: rule_value_def ambiguous_gift_def)
  next
    case ambiguous
    then show ?thesis by (auto simp: ambiguous_gift_def)
  next
    case zero
    then show ?thesis using Cons.IH [OF Cons.prems(1) rest] app
      by (auto simp: rule_value_zero_multiplier ambiguous_gift_def)
  next
    case add
    let ?d = "score_deltas (sr_weight rule) (rule_multiplier c rule) acc (rule_deltas c rule)"
    have w: "0 < sr_weight rule" using app by (simp add: rule_applies_def)
    have v: "rule_value c rule =
        sum_list (map (\<lambda>d. d * sr_weight rule * rule_multiplier c rule) (rule_deltas c rule))"
      using add app by (simp add: rule_value_def)
    have eq: "score_rules c acc (rule # rules) =
        (case ?d of Inl e \<Rightarrow> Inl e | Inr acc' \<Rightarrow> score_rules c acc' rules)"
      using add app by (auto simp: ambiguous_gift_def)
    have d: "?d = Inr t' \<longleftrightarrow> t' = acc + rule_value c rule \<and> t' \<le> u64_max" for t'
      using score_deltas_Inr [OF Cons.prems(1) w add(3)] v by simp
    show ?thesis
    proof (cases "acc + rule_value c rule \<le> u64_max")
      case True
      then have "?d = Inr (acc + rule_value c rule)" using d by simp
      then show ?thesis using eq Cons.IH [OF True rest] add(2) by (simp add: add.assoc)
    next
      case False
      then have "\<exists>e. ?d = Inl e" using d by (cases ?d) auto
      then show ?thesis using eq False by auto
    qed
  qed
qed auto

lemma score_spec_filter:
  "sum_list (map (rule_value c) (filter (rule_applies c) rules)) = score_spec rules c"
  by (induction rules) (auto simp: score_spec_def rule_value_def)

lemma score_Inr:
  "score rules c = Inr t \<longleftrightarrow>
     t = score_spec rules c \<and> t \<le> u64_max \<and> (\<forall>rule \<in> set rules. \<not> ambiguous_gift c rule)"
proof -
  have "score rules c = Inr t \<longleftrightarrow> t = score_spec rules c \<and> t \<le> u64_max \<and>
      (\<forall>rule \<in> set (filter (rule_applies c) rules). \<not> ambiguous_gift c rule)"
    unfolding score_def by (subst score_rules_Inr) (auto simp: score_spec_filter)
  then show ?thesis by (auto simp: ambiguous_gift_def)
qed

lemma score_rules_Inl: "score_rules c acc rules = Inl e \<Longrightarrow> e = Overflow \<or> e = InvalidKey"
proof (induction rules arbitrary: acc)
  case (Cons rule rules)
  then show ?case
    by (auto split: if_splits sum.splits dest: score_deltas_Inl)
qed auto

lemma score_Inl: "score rules c = Inl e \<Longrightarrow> e = Overflow \<or> e = InvalidKey"
  unfolding score_def by (rule score_rules_Inl)

end
