(* ===== verification/Engine.thy ===== *)
theory Engine
  imports Aggregation Scoring
begin

text \<open>
  The ranking engine (\<open>crates/tiktools-aggregation/src/engine.rs\<close>): indexed ranking definitions,
  their accounting state, contributions, expiry, gaps and presentation. Checkpoints are in
  \<open>Engine_Checkpoint\<close>. One definition per method; the loop body of \<open>apply_at_with_metadata\<close> is
  split into the per-ranking steps it consists of.
\<close>

section \<open>State\<close>

record user_state =
  us_count :: u64
  us_last_time :: u64

record ranking =
  rk_definition :: ranking_definition
  rk_instance :: u64
  rk_instance_id :: string
  rk_state :: aggregation
  rk_paused :: bool
  rk_rejected :: u64
  rk_dropped :: u64
  rk_window_events :: "(u64 \<times> string \<times> u64) list"
  rk_last_time :: u64
  rk_users :: "(string, user_state) hmap"
  rk_limited :: u64
  rk_cooldown_rejected :: u64

record engine =
  en_rankings :: "(string, ranking) hmap"
  en_by_source :: "(string, string list) hmap"
  en_next_instance :: u64

datatype decision = Allowed | Limited | Cooldown

datatype definition_error =
    Invalid
  | Duplicate
  | DefinitionCapacity
  | DefinitionNotFound
  | NotPaused
  | ResetRequired
  | RevisionOverflow
  | IdentityUnavailable

definition engine_default :: engine where
  "engine_default = \<lparr>en_rankings = [], en_by_source = [], en_next_instance = 0\<rparr>"

record diagnostics =
  dg_rankings :: nat
  dg_paused :: nat
  dg_degraded :: nat
  dg_rejected :: u64
  dg_dropped :: u64
  dg_limited :: u64
  dg_cooldown_rejected :: u64

definition diagnostics_add :: "ranking \<Rightarrow> diagnostics \<Rightarrow> diagnostics" where
  "diagnostics_add r d = d
     \<lparr>dg_paused := dg_paused d + (if rk_paused r then 1 else 0),
      dg_degraded := dg_degraded d + (if rk_rejected r > 0 \<or> rk_dropped r > 0 then 1 else 0),
      dg_rejected := saturating_add (dg_rejected d) (rk_rejected r),
      dg_dropped := saturating_add (dg_dropped d) (rk_dropped r),
      dg_limited := saturating_add (dg_limited d) (rk_limited r),
      dg_cooldown_rejected := saturating_add (dg_cooldown_rejected d) (rk_cooldown_rejected r)\<rparr>"

definition engine_diagnostics :: "engine \<Rightarrow> diagnostics" where
  "engine_diagnostics e =
     fold diagnostics_add (map snd (en_rankings e))
       \<lparr>dg_rankings = length (en_rankings e), dg_paused = 0, dg_degraded = 0, dg_rejected = 0,
        dg_dropped = 0, dg_limited = 0, dg_cooldown_rejected = 0\<rparr>"

section \<open>Definitions\<close>

text \<open>\<open>assignment_weight\<close>: the weight of the durable command-vote projection.\<close>

definition assignment_source :: "source_rule \<Rightarrow> bool" where
  "assignment_source rule \<longleftrightarrow>
     (sr_source rule, sr_metric rule) \<in>
       {(''competition.vote'', ''event.count''), (''tiktok.like'', ''like.count''),
        (''tiktok.like'', ''event.count''), (''tiktok.share'', ''share.count''),
        (''tiktok.share'', ''event.count''), (''tiktok.gift'', ''gift.count''),
        (''tiktok.gift'', ''gift.diamonds''), (''tiktok.gift'', ''event.count'')} \<and>
     (sr_source rule = ''tiktok.gift'' \<or> sr_gift_multipliers rule = [])"

definition has_vote_source :: "ranking_definition \<Rightarrow> bool" where
  "has_vote_source d \<longleftrightarrow> (\<exists>rule \<in> set (rd_sources d). sr_source rule = ''competition.vote'')"

definition assignment_weight :: "ranking_definition \<Rightarrow> agg_error + u64" where
  "assignment_weight d =
     (if rd_group_by d \<noteq> ByOption \<or> rd_window d \<noteq> Session \<or> rd_user_limits d \<noteq> None \<or>
         \<not> list_all assignment_source (rd_sources d)
      then Inl IncompatibleDefinition
      else ok_or
        (try_sum 0 (map sr_weight
          (filter (\<lambda>rule. sr_enabled rule \<and> sr_source rule = ''competition.vote'') (rd_sources d))))
        Overflow)"

definition user_limits_invalid :: "user_limits \<Rightarrow> bool" where
  "user_limits_invalid limits \<longleftrightarrow>
     ul_max_users limits = 0 \<or> ul_max_users limits > 100000 \<or>
     ul_max_contributions limits = Some 0 \<or> ul_cooldown_ms limits = Some 0 \<or>
     (ul_max_contributions limits = None \<and> ul_cooldown_ms limits = None)"

definition source_rule_invalid :: "source_rule \<Rightarrow> bool" where
  "source_rule_invalid s \<longleftrightarrow>
     sr_source s = [] \<or> sr_weight s > 1000000000 \<or> length (sr_gift_multipliers s) > 512 \<or>
     list_ex (\<lambda>(gift, multiplier). gift = [] \<or> length gift > 128 \<or> multiplier > 1000000000)
       (sr_gift_multipliers s) \<or>
     length (sr_source s) > 128 \<or> sr_metric s = [] \<or> length (sr_metric s) > 128"

definition definition_invalid :: "ranking_definition \<Rightarrow> bool" where
  "definition_invalid d \<longleftrightarrow>
     rd_schema_version d \<noteq> 1 \<or> rd_id d = [] \<or> rd_creator_id d = [] \<or> rd_room_id d = [] \<or>
     length (rd_id d) > 128 \<or> length (rd_creator_id d) > 256 \<or> length (rd_room_id d) > 256 \<or>
     length (rd_sources d) > 64 \<or> rd_capacity d > 100000 \<or> rd_capacity d = 0 \<or> rd_limit d = 0 \<or>
     (case rd_window d of
        Rolling duration mx \<Rightarrow> duration = 0 \<or> mx = 0 \<or> mx > 100000
      | Daily offset \<Rightarrow> \<not> (-840 \<le> offset \<and> offset \<le> 840)
      | Session \<Rightarrow> False) \<or>
     (case rd_user_limits d of None \<Rightarrow> False | Some limits \<Rightarrow> user_limits_invalid limits) \<or>
     rd_sources d = [] \<or>
     (has_vote_source d \<and> \<not> is_ok (assignment_weight d)) \<or>
     list_ex source_rule_invalid (rd_sources d)"

text \<open>The instance identity: 16 random bytes from \<open>getrandom\<close>, an argument here, in hexadecimal.\<close>

definition hex_digit :: "nat \<Rightarrow> char" where
  "hex_digit n = ''0123456789abcdef'' ! n"

definition hex_bytes :: "string \<Rightarrow> string" where
  "hex_bytes bs =
     concat (map (\<lambda>b. [hex_digit (of_char b div 16), hex_digit (of_char b mod 16)]) bs)"

definition add_source :: "string \<Rightarrow> string \<Rightarrow> (string, string list) hmap \<Rightarrow> (string, string list) hmap" where
  "add_source rid source m =
     (let ids = hm_get_or m source []
      in hm_insert source (if rid \<in> set ids then ids else ids @ [rid]) m)"

definition index_sources ::
  "string \<Rightarrow> source_rule list \<Rightarrow> (string, string list) hmap \<Rightarrow> (string, string list) hmap" where
  "index_sources rid sources m = fold (\<lambda>rule. add_source rid (sr_source rule)) sources m"

definition unindex_sources :: "string \<Rightarrow> (string, string list) hmap \<Rightarrow> (string, string list) hmap" where
  "unindex_sources rid m =
     filter (\<lambda>(_, ids). ids \<noteq> []) (map (\<lambda>(source, ids). (source, filter (\<lambda>x. x \<noteq> rid) ids)) m)"

definition ranking_new :: "ranking_definition \<Rightarrow> u64 \<Rightarrow> string \<Rightarrow> ranking" where
  "ranking_new d instance_no instance_id =
     \<lparr>rk_definition = d, rk_instance = instance_no, rk_instance_id = instance_id,
      rk_state = aggregation_new (rd_capacity d), rk_paused = False, rk_rejected = 0,
      rk_dropped = 0, rk_window_events = [], rk_last_time = 0, rk_users = [], rk_limited = 0,
      rk_cooldown_rejected = 0\<rparr>"

definition engine_create ::
  "string option \<Rightarrow> ranking_definition \<Rightarrow> engine \<Rightarrow> engine \<times> (definition_error + unit)" where
  "engine_create identity d e =
     (if length (en_rankings e) \<ge> 128 then (e, Inl DefinitionCapacity)
      else if definition_invalid d then (e, Inl Invalid)
      else if hm_has (en_rankings e) (rd_id d) then (e, Inl Duplicate)
      else case identity of
        None \<Rightarrow> (e, Inl IdentityUnavailable)
      | Some bytes \<Rightarrow>
        (let e1 = e\<lparr>en_by_source := index_sources (rd_id d) (rd_sources d) (en_by_source e)\<rparr>
         in case checked_add (en_next_instance e1) 1 of
              None \<Rightarrow> (e1, Inl RevisionOverflow)
            | Some instance_no \<Rightarrow>
              (e1\<lparr>en_next_instance := instance_no,
                  en_rankings := hm_insert (rd_id d) (ranking_new d instance_no (hex_bytes bytes))
                                   (en_rankings e1)\<rparr>, Inr ())))"

definition validate_update ::
  "string option \<Rightarrow> ranking_definition \<Rightarrow> bool \<Rightarrow> engine \<Rightarrow> definition_error + unit" where
  "validate_update identity d reset e =
     (case snd (engine_create identity d engine_default) of
        Inl err \<Rightarrow> Inl err
      | Inr _ \<Rightarrow>
        (case hm_get (en_rankings e) (rd_id d) of
           None \<Rightarrow> Inl DefinitionNotFound
         | Some current \<Rightarrow>
           if \<not> rk_paused current then Inl NotPaused
           else if (rk_definition current)\<lparr>rd_limit := rd_limit d\<rparr> \<noteq> d \<and> \<not> reset
           then Inl ResetRequired
           else if ag_revision (rk_state current) = u64_max then Inl RevisionOverflow
           else Inr ()))"

definition clear_accounting :: "ranking \<Rightarrow> ranking" where
  "clear_accounting r = r
     \<lparr>rk_rejected := 0, rk_dropped := 0, rk_window_events := [], rk_last_time := 0, rk_users := [],
      rk_limited := 0, rk_cooldown_rejected := 0\<rparr>"

definition engine_update ::
  "string option \<Rightarrow> ranking_definition \<Rightarrow> bool \<Rightarrow> engine \<Rightarrow> (engine \<times> (definition_error + unit)) run" where
  "engine_update identity d reset e =
     (case validate_update identity d reset e of
        Inl err \<Rightarrow> Ret (e, Inl err)
      | Inr _ \<Rightarrow>
        (let e1 = e\<lparr>en_by_source := index_sources (rd_id d) (rd_sources d)
                      (unindex_sources (rd_id d) (en_by_source e))\<rparr>
         in case hm_get (en_rankings e1) (rd_id d) of
              None \<Rightarrow> Panic
            | Some r \<Rightarrow>
              (if reset then
                 (case aggregation_reset (rk_state r) of
                    (s, Inl _) \<Rightarrow> Ret (e1\<lparr>en_rankings := hm_insert (rd_id d) (r\<lparr>rk_state := s\<rparr>)
                                     (en_rankings e1)\<rparr>, Inl RevisionOverflow)
                  | (s, Inr _) \<Rightarrow>
                    Ret (e1\<lparr>en_rankings := hm_insert (rd_id d)
                       ((clear_accounting (r\<lparr>rk_state := aggregation_set_capacity (rd_capacity d) s\<rparr>))
                         \<lparr>rk_definition := d\<rparr>) (en_rankings e1)\<rparr>, Inr ()))
               else
                 (case aggregation_touch (rk_state r) of
                    (s, Inl _) \<Rightarrow> Ret (e1\<lparr>en_rankings := hm_insert (rd_id d) (r\<lparr>rk_state := s\<rparr>)
                                     (en_rankings e1)\<rparr>, Inl RevisionOverflow)
                  | (s, Inr _) \<Rightarrow>
                    Ret (e1\<lparr>en_rankings := hm_insert (rd_id d) (r\<lparr>rk_state := s, rk_definition := d\<rparr>)
                             (en_rankings e1)\<rparr>, Inr ())))))"

section \<open>Expiry\<close>

definition local_day :: "int \<Rightarrow> u64 \<Rightarrow> int" where
  "local_day offset time =
     (max (- (2 ^ 63)) (min (int i64_max) (int (min time i64_max) + offset * 60000))) div 86400000"

text \<open>
  The loop over the front of the window queue: contributions leave in acceptance order while they
  are at least the window's duration old.
\<close>

fun expire_window ::
  "u64 \<Rightarrow> u64 \<Rightarrow> aggregation \<Rightarrow> (u64 \<times> string \<times> u64) list \<Rightarrow>
   (aggregation \<times> (u64 \<times> string \<times> u64) list \<times> (agg_error + unit)) run" where
  "expire_window duration last_time a [] = Ret (a, [], Inr ())"
| "expire_window duration last_time a ((at, key, amount) # events) =
     (if saturating_sub last_time at < duration then Ret (a, (at, key, amount) # events, Inr ())
      else case aggregation_expire key amount a of
        Panic \<Rightarrow> Panic
      | Ret (a', Inl e) \<Rightarrow> Ret (a', (at, key, amount) # events, Inl e)
      | Ret (a', Inr _) \<Rightarrow> expire_window duration last_time a' events)"

definition expire_ranking :: "u64 \<Rightarrow> ranking \<Rightarrow> (ranking \<times> (agg_error + unit)) run" where
  "expire_ranking now r =
     (case rd_window (rk_definition r) of
        Daily offset \<Rightarrow>
          (let previous = rk_last_time r;
               r1 = r\<lparr>rk_last_time := max previous now\<rparr>
           in if previous \<noteq> 0 \<and> local_day offset (rk_last_time r1) \<noteq> local_day offset previous
              then (case aggregation_reset (rk_state r1) of
                      (s, Inl e) \<Rightarrow> Ret (r1\<lparr>rk_state := s\<rparr>, Inl e)
                    | (s, Inr _) \<Rightarrow>
                      Ret (r1\<lparr>rk_state := s, rk_users := [], rk_rejected := 0, rk_dropped := 0,
                              rk_limited := 0, rk_cooldown_rejected := 0\<rparr>, Inr ()))
              else Ret (r1, Inr ()))
      | Session \<Rightarrow> Ret (r\<lparr>rk_last_time := max (rk_last_time r) now\<rparr>, Inr ())
      | Rolling duration mx \<Rightarrow>
          (let r1 = r\<lparr>rk_last_time := max (rk_last_time r) now\<rparr>
           in case expire_window duration (rk_last_time r1) (rk_state r1) (rk_window_events r1) of
                Panic \<Rightarrow> Panic
              | Ret (s, events, res) \<Rightarrow>
                Ret (r1\<lparr>rk_state := s, rk_window_events := events\<rparr>, res)))"

section \<open>Contributions\<close>

definition user_decision :: "ranking \<Rightarrow> string option \<Rightarrow> agg_error + decision" where
  "user_decision r user =
     (case rd_user_limits (rk_definition r) of
        None \<Rightarrow> Inr Allowed
      | Some limits \<Rightarrow>
        (case user of
           None \<Rightarrow> Inl InvalidKey
         | Some u \<Rightarrow>
           if u = [] \<or> length u > 512 then Inl InvalidKey
           else (case hm_get (rk_users r) u of
             Some st \<Rightarrow>
               if (case ul_max_contributions limits of None \<Rightarrow> False | Some mx \<Rightarrow> us_count st \<ge> mx)
               then Inr Limited
               else if (case ul_cooldown_ms limits of None \<Rightarrow> False
                        | Some cooldown \<Rightarrow>
                          saturating_sub (rk_last_time r) (us_last_time st) < cooldown)
               then Inr Cooldown
               else (case checked_add (us_count st) 1 of None \<Rightarrow> Inl Overflow | Some _ \<Rightarrow> Inr Allowed)
           | None \<Rightarrow>
               if length (rk_users r) \<ge> ul_max_users limits then Inl Capacity else Inr Allowed)))"

definition group_key :: "group_by \<Rightarrow> contribution \<Rightarrow> string option" where
  "group_key g c =
     (case g of
        ByUser \<Rightarrow> c_user c
      | ByGift \<Rightarrow> c_gift c
      | ByEventType \<Rightarrow> Some (c_source c)
      | ByOption \<Rightarrow> c_option c
      | ByTeam \<Rightarrow> c_team c
      | ByCustomKey \<Rightarrow> c_custom_key c)"

definition group_metadata ::
  "group_by \<Rightarrow> entry_metadata option \<Rightarrow> entry_metadata option \<Rightarrow> entry_metadata option" where
  "group_metadata g user gift = (case g of ByUser \<Rightarrow> user | ByGift \<Rightarrow> gift | _ \<Rightarrow> None)"

definition count_user :: "string \<Rightarrow> ranking \<Rightarrow> ranking" where
  "count_user user r =
     (let st = hm_get_or (rk_users r) user \<lparr>us_count = 0, us_last_time = rk_last_time r\<rparr>
      in r\<lparr>rk_users := hm_insert user
             (st\<lparr>us_count := us_count st + 1, us_last_time := rk_last_time r\<rparr>) (rk_users r)\<rparr>)"

text \<open>The branch of an allowed contribution: score, metadata, limits, window.\<close>

definition accept_contribution ::
  "contribution \<Rightarrow> entry_metadata option \<Rightarrow> entry_metadata option \<Rightarrow> string \<Rightarrow> u64 \<Rightarrow> ranking \<Rightarrow>
   (ranking \<times> (agg_error + unit)) run" where
  "accept_contribution c user gift key amount r =
     (case aggregation_apply key amount 1 (rk_state r) of
        (s, Inl e) \<Rightarrow> Ret (r\<lparr>rk_state := s\<rparr>, Inl e)
      | (s, Inr _) \<Rightarrow>
        (let s1 = (case group_metadata (rd_group_by (rk_definition r)) user gift of
                     None \<Rightarrow> s | Some md \<Rightarrow> aggregation_update_metadata key md s);
             r1 = r\<lparr>rk_state := s1\<rparr>
         in run_bind
              (if rd_user_limits (rk_definition r1) = None then Ret r1
               else case c_user c of None \<Rightarrow> Panic | Some u \<Rightarrow> Ret (count_user u r1))
              (\<lambda>r2. Ret (case rd_window (rk_definition r2) of
                          Rolling _ _ \<Rightarrow> r2\<lparr>rk_window_events :=
                            rk_window_events r2 @ [(rk_last_time r2, key, amount)]\<rparr>
                        | _ \<Rightarrow> r2, Inr ()))))"

definition account_contribution ::
  "contribution \<Rightarrow> entry_metadata option \<Rightarrow> entry_metadata option \<Rightarrow> agg_error + u64 \<Rightarrow> ranking \<Rightarrow>
   (ranking \<times> (agg_error + unit)) run" where
  "account_contribution c user gift sc r =
     (case sc of
        Inl e \<Rightarrow> Ret (r, Inl e)
      | Inr amount \<Rightarrow>
        (case group_key (rd_group_by (rk_definition r)) c of
           None \<Rightarrow> Ret (r, Inl InvalidKey)
         | Some key \<Rightarrow>
           if (case rd_window (rk_definition r) of
                 Rolling _ mx \<Rightarrow> length (rk_window_events r) \<ge> mx | _ \<Rightarrow> False)
           then Ret (r, Inl WindowCapacity)
           else (case user_decision r (c_user c) of
             Inl e \<Rightarrow> Ret (r, Inl e)
           | Inr Allowed \<Rightarrow> accept_contribution c user gift key amount r
           | Inr Limited \<Rightarrow>
             (case aggregation_touch (rk_state r) of
                (s, Inl e) \<Rightarrow> Ret (r\<lparr>rk_state := s\<rparr>, Inl e)
              | (s, Inr _) \<Rightarrow> Ret (r\<lparr>rk_state := s, rk_limited := saturating_add (rk_limited r) 1\<rparr>, Inr ()))
           | Inr Cooldown \<Rightarrow>
             (case aggregation_touch (rk_state r) of
                (s, Inl e) \<Rightarrow> Ret (r\<lparr>rk_state := s\<rparr>, Inl e)
              | (s, Inr _) \<Rightarrow> Ret (r\<lparr>rk_state := s,
                    rk_cooldown_rejected := saturating_add (rk_cooldown_rejected r) 1\<rparr>, Inr ())))))"

definition reject_and_touch :: "ranking \<Rightarrow> ranking" where
  "reject_and_touch r = r
     \<lparr>rk_rejected := saturating_add (rk_rejected r) 1,
      rk_state := fst (aggregation_touch (rk_state r))\<rparr>"

text \<open>One iteration of the loop over the rankings of a source; the result is the failure, if any.\<close>

definition contribute_to_ranking ::
  "contribution \<Rightarrow> u64 \<Rightarrow> entry_metadata option \<Rightarrow> entry_metadata option \<Rightarrow> ranking \<Rightarrow>
   (ranking \<times> agg_error option) run" where
  "contribute_to_ranking c now user gift r =
     (if rk_paused r \<or> rd_creator_id (rk_definition r) \<noteq> c_creator_id c \<or>
         rd_room_id (rk_definition r) \<noteq> c_room_id c
      then Ret (r, None)
      else case expire_ranking now r of
        Panic \<Rightarrow> Panic
      | Ret (r1, Inl e) \<Rightarrow>
          Ret (r1\<lparr>rk_rejected := saturating_add (rk_rejected r1) 1\<rparr>, Some e)
      | Ret (r1, Inr _) \<Rightarrow>
          if c_option c = None \<and> has_vote_source (rk_definition r1) then Ret (r1, None)
          else
            (let sc = score (rd_sources (rk_definition r1)) c
             in if sc = Inr 0 then Ret (r1, None)
                else case account_contribution c user gift sc r1 of
                  Panic \<Rightarrow> Panic
                | Ret (r2, Inl e) \<Rightarrow> Ret (reject_and_touch r2, Some e)
                | Ret (r2, Inr _) \<Rightarrow> Ret (r2, None)))"

fun contribute_to_all ::
  "contribution \<Rightarrow> u64 \<Rightarrow> entry_metadata option \<Rightarrow> entry_metadata option \<Rightarrow> string list \<Rightarrow>
   (string, ranking) hmap \<Rightarrow> ((string, ranking) hmap \<times> (string \<times> agg_error) list) run" where
  "contribute_to_all c now user gift [] rs = Ret (rs, [])"
| "contribute_to_all c now user gift (rid # ids) rs =
     (case hm_get rs rid of
        None \<Rightarrow> Panic
      | Some r \<Rightarrow>
        (case contribute_to_ranking c now user gift r of
           Panic \<Rightarrow> Panic
         | Ret (r', failure) \<Rightarrow>
           (case contribute_to_all c now user gift ids (hm_insert rid r' rs) of
              Panic \<Rightarrow> Panic
            | Ret (rs', failures) \<Rightarrow>
              Ret (rs', (case failure of None \<Rightarrow> [] | Some e \<Rightarrow> [(rid, e)]) @ failures))))"

definition apply_at_with_metadata ::
  "contribution \<Rightarrow> u64 \<Rightarrow> entry_metadata option \<Rightarrow> entry_metadata option \<Rightarrow> engine \<Rightarrow>
   (engine \<times> (string \<times> agg_error) list) run" where
  "apply_at_with_metadata c now user gift e =
     (case hm_get (en_by_source e) (c_source c) of
        None \<Rightarrow> Ret (e, [])
      | Some ids \<Rightarrow>
        (case contribute_to_all c now user gift ids (en_rankings e) of
           Panic \<Rightarrow> Panic
         | Ret (rs, failures) \<Rightarrow> Ret (e\<lparr>en_rankings := rs\<rparr>, failures)))"

definition apply_at :: "contribution \<Rightarrow> u64 \<Rightarrow> engine \<Rightarrow> (engine \<times> (string \<times> agg_error) list) run" where
  "apply_at c now e = apply_at_with_metadata c now None None e"

end
