(* ===== verification/Engine_Ops.thy ===== *)
theory Engine_Ops
  imports Engine
begin

text \<open>
  The rest of the ranking engine's methods (\<open>engine.rs\<close>): the durable assignment projection, gap
  marking, expiry without events, presentation, reset, pause and removal.
\<close>

section \<open>Durable assignments\<close>

text \<open>The loops of \<open>restore_assignments_with_scores\<close>, over a candidate state built off to the side.\<close>

fun restore_scores :: "u64 \<Rightarrow> string list \<Rightarrow> (string \<times> u64) list \<Rightarrow> aggregation \<Rightarrow> agg_error + aggregation" where
  "restore_scores weight seen [] a = Inr a"
| "restore_scores weight seen ((key, n) # rest) a =
     (if key \<in> set seen then Inl InvalidKey
      else case aggregation_apply key n weight a of
        (_, Inl e) \<Rightarrow> Inl e
      | (a', Inr _) \<Rightarrow> restore_scores weight (key # seen) rest a')"

definition restore_assignments_with_scores ::
  "string \<Rightarrow> (string \<times> u64) list \<Rightarrow> (string \<times> u64) list \<Rightarrow> engine \<Rightarrow> engine outcome" where
  "restore_assignments_with_scores rid totals scored e =
     (case hm_get (en_rankings e) rid of
        None \<Rightarrow> (e, Inl NotFound)
      | Some r \<Rightarrow>
        (case assignment_weight (rk_definition r) of
           Inl err \<Rightarrow> (e, Inl err)
         | Inr weight \<Rightarrow>
           (case checked_add (ag_revision (rk_state r)) 1 of
              None \<Rightarrow> (e, Inl Overflow)
            | Some revision \<Rightarrow>
              (case restore_scores weight [] totals (aggregation_new (rd_capacity (rk_definition r))) of
                 Inl err \<Rightarrow> (e, Inl err)
               | Inr candidate \<Rightarrow>
                 (case restore_scores 1 [] scored candidate of
                    Inl err \<Rightarrow> (e, Inl err)
                  | Inr candidate' \<Rightarrow>
                    (e\<lparr>en_rankings := hm_insert rid
                        (r\<lparr>rk_state := candidate'\<lparr>ag_revision := revision\<rparr>\<rparr>) (en_rankings e)\<rparr>,
                     Inr ()))))))"

definition restore_assignments :: "string \<Rightarrow> (string \<times> u64) list \<Rightarrow> engine \<Rightarrow> engine outcome" where
  "restore_assignments rid totals e = restore_assignments_with_scores rid totals [] e"

text \<open>The transition of one participant on the ranking state; the weighted products may overflow
  before the state is touched, which returns early.\<close>

definition assign_votes ::
  "u64 \<Rightarrow> string \<times> u64 \<Rightarrow> string \<times> u64 \<Rightarrow> aggregation \<Rightarrow> agg_error + (aggregation \<times> (agg_error + unit))" where
  "assign_votes weight old new a =
     (case old of (old_option, old_votes) \<Rightarrow> case new of (opt, votes) \<Rightarrow>
       (case checked_sub votes old_votes of
          None \<Rightarrow> Inl InsufficientScore
        | Some delta \<Rightarrow>
          if old_option = opt then Inr (aggregation_apply opt delta weight a)
          else if weight = 0 then Inr (a, Inr ())
          else (case checked_mul old_votes weight of
            None \<Rightarrow> Inl Overflow
          | Some amount \<Rightarrow>
            (case checked_mul delta weight of
               None \<Rightarrow> Inl Overflow
             | Some additional \<Rightarrow> Inr (aggregation_reassign old_option opt amount additional a)))))"

definition apply_assignment ::
  "string \<Rightarrow> (string \<times> u64) option \<Rightarrow> string \<times> u64 \<Rightarrow> engine \<Rightarrow> engine outcome" where
  "apply_assignment rid previous new e =
     (case hm_get (en_rankings e) rid of
        None \<Rightarrow> (e, Inl NotFound)
      | Some r \<Rightarrow>
        (case assignment_weight (rk_definition r) of
           Inl err \<Rightarrow> (e, Inl err)
         | Inr weight \<Rightarrow>
           if rk_paused r then (e, Inl IncompatibleDefinition)
           else (case assign_votes weight (case previous of None \<Rightarrow> (fst new, 0) | Some p \<Rightarrow> p) new (rk_state r) of
             Inl err \<Rightarrow> (e, Inl err)
           | Inr (s, result) \<Rightarrow>
             (e\<lparr>en_rankings := hm_insert rid
                 (if is_ok result then r\<lparr>rk_state := s\<rparr> else reject_and_touch (r\<lparr>rk_state := s\<rparr>))
                 (en_rankings e)\<rparr>, result))))"

definition score_routed :: "string \<Rightarrow> contribution \<Rightarrow> engine \<Rightarrow> agg_error + u64" where
  "score_routed rid c e =
     (case hm_get (en_rankings e) rid of
        None \<Rightarrow> Inl NotFound
      | Some r \<Rightarrow>
        (case assignment_weight (rk_definition r) of
           Inl err \<Rightarrow> Inl err
         | Inr _ \<Rightarrow>
           if \<not> has_vote_source (rk_definition r) \<or>
              rd_creator_id (rk_definition r) \<noteq> c_creator_id c \<or>
              rd_room_id (rk_definition r) \<noteq> c_room_id c \<or>
              c_source c \<notin> {''tiktok.like'', ''tiktok.share'', ''tiktok.gift''}
           then Inl IncompatibleDefinition
           else score (rd_sources (rk_definition r)) c))"

definition apply_committed_score :: "string \<Rightarrow> string \<Rightarrow> u64 \<Rightarrow> engine \<Rightarrow> engine outcome" where
  "apply_committed_score rid opt n e =
     (case hm_get (en_rankings e) rid of
        None \<Rightarrow> (e, Inl NotFound)
      | Some r \<Rightarrow>
        (case assignment_weight (rk_definition r) of
           Inl err \<Rightarrow> (e, Inl err)
         | Inr _ \<Rightarrow>
           if rk_paused r then (e, Inl IncompatibleDefinition)
           else (case aggregation_apply opt n 1 (rk_state r) of (s, result) \<Rightarrow>
             (e\<lparr>en_rankings := hm_insert rid
                 (if is_ok result then r\<lparr>rk_state := s\<rparr> else reject_and_touch (r\<lparr>rk_state := s\<rparr>))
                 (en_rankings e)\<rparr>, result))))"

definition set_entry_metadata :: "string \<Rightarrow> string \<Rightarrow> entry_metadata \<Rightarrow> engine \<Rightarrow> engine outcome" where
  "set_entry_metadata rid key metadata e =
     (case hm_get (en_rankings e) rid of
        None \<Rightarrow> (e, Inl NotFound)
      | Some r \<Rightarrow>
        if \<not> hm_has (ag_scores (rk_state r)) key then (e, Inr ())
        else
          (let next_md = merge_metadata
                 (hm_get_or (ag_metadata (rk_state r)) key entry_metadata_default) (bounded metadata)
           in if hm_get (ag_metadata (rk_state r)) key \<noteq> Some next_md
              then (case aggregation_touch (rk_state r) of
                      (s, Inl err) \<Rightarrow> (e, Inl err)
                    | (s, Inr _) \<Rightarrow>
                      (e\<lparr>en_rankings := hm_insert rid
                          (r\<lparr>rk_state := s\<lparr>ag_metadata := hm_insert key next_md (ag_metadata s)\<rparr>\<rparr>)
                          (en_rankings e)\<rparr>, Inr ()))
              else (e, Inr ())))"

section \<open>Expiry without events\<close>

fun expire_all :: "u64 \<Rightarrow> (string, ranking) hmap \<Rightarrow> (string, ranking) hmap run" where
  "expire_all now [] = Ret []"
| "expire_all now ((rid, r) # rs) =
     (case expire_ranking now r of
        Panic \<Rightarrow> Panic
      | Ret (r1, res) \<Rightarrow>
        run_bind (expire_all now rs)
          (\<lambda>rs'. Ret ((rid, if is_ok res then r1
                        else r1\<lparr>rk_rejected := saturating_add (rk_rejected r1) 1\<rparr>) # rs')))"

definition expire_at :: "u64 \<Rightarrow> engine \<Rightarrow> engine run" where
  "expire_at now e = run_bind (expire_all now (en_rankings e)) (\<lambda>rs. Ret (e\<lparr>en_rankings := rs\<rparr>))"

section \<open>Integrity gaps\<close>

definition mark_ranking_gap :: "string \<Rightarrow> engine \<Rightarrow> engine" where
  "mark_ranking_gap rid e =
     (case hm_get (en_rankings e) rid of
        None \<Rightarrow> e
      | Some r \<Rightarrow>
        if rk_paused r then e
        else e\<lparr>en_rankings := hm_insert rid (reject_and_touch r) (en_rankings e)\<rparr>)"

definition mark_recovery_gap :: "string \<Rightarrow> engine \<Rightarrow> engine outcome" where
  "mark_recovery_gap rid e =
     (case hm_get (en_rankings e) rid of
        None \<Rightarrow> (e, Inl NotFound)
      | Some r \<Rightarrow>
        (let r1 = r\<lparr>rk_rejected := saturating_add (rk_rejected r) 1\<rparr>
         in case aggregation_touch (rk_state r1) of (s, res) \<Rightarrow>
              (e\<lparr>en_rankings := hm_insert rid (r1\<lparr>rk_state := s\<rparr>) (en_rankings e)\<rparr>, res)))"

text \<open>The loop \<open>mark_gap\<close> and \<open>mark_metric_gap\<close> share: mark the rankings of a source that
  satisfy a condition.\<close>

fun mark_where ::
  "(ranking \<Rightarrow> bool) \<Rightarrow> string list \<Rightarrow> (string, ranking) hmap \<Rightarrow> (string, ranking) hmap run" where
  "mark_where affected [] rs = Ret rs"
| "mark_where affected (rid # ids) rs =
     (case hm_get rs rid of
        None \<Rightarrow> Panic
      | Some r \<Rightarrow>
        mark_where affected ids (if affected r then hm_insert rid (reject_and_touch r) rs else rs))"

definition gap_affects ::
  "string \<Rightarrow> string \<Rightarrow> string \<Rightarrow> (source_rule \<Rightarrow> bool) \<Rightarrow> ranking \<Rightarrow> bool" where
  "gap_affects creator room source rule_ok r \<longleftrightarrow>
     \<not> rk_paused r \<and>
     (source = ''competition.vote'' \<or> \<not> has_vote_source (rk_definition r)) \<and>
     rd_creator_id (rk_definition r) = creator \<and> rd_room_id (rk_definition r) = room \<and>
     list_ex rule_ok (rd_sources (rk_definition r))"

definition mark_gap :: "string \<Rightarrow> string \<Rightarrow> string \<Rightarrow> engine \<Rightarrow> engine run" where
  "mark_gap creator room source e =
     (case hm_get (en_by_source e) source of
        None \<Rightarrow> Ret e
      | Some ids \<Rightarrow>
        run_bind (mark_where (gap_affects creator room source
                    (\<lambda>rule. sr_enabled rule \<and> sr_source rule = source)) ids (en_rankings e))
          (\<lambda>rs. Ret (e\<lparr>en_rankings := rs\<rparr>)))"

definition mark_metric_gap :: "string \<Rightarrow> string \<Rightarrow> string \<Rightarrow> string \<Rightarrow> engine \<Rightarrow> engine run" where
  "mark_metric_gap creator room source metric e =
     (case hm_get (en_by_source e) source of
        None \<Rightarrow> Ret e
      | Some ids \<Rightarrow>
        run_bind (mark_where (gap_affects creator room source
                    (\<lambda>rule. sr_enabled rule \<and> sr_weight rule > 0 \<and> sr_source rule = source \<and>
                       sr_metric rule = metric)) ids (en_rankings e))
          (\<lambda>rs. Ret (e\<lparr>en_rankings := rs\<rparr>)))"

definition mark_ingress_loss :: "u64 \<Rightarrow> engine \<Rightarrow> engine" where
  "mark_ingress_loss n e =
     (if n = 0 then e
      else e\<lparr>en_rankings := map (\<lambda>(rid, r). (rid,
          if rk_paused r then r
          else r\<lparr>rk_dropped := saturating_add (rk_dropped r) n,
                 rk_state := fst (aggregation_touch (rk_state r))\<rparr>)) (en_rankings e)\<rparr>)"

section \<open>Presentation\<close>

definition has_source :: "string \<Rightarrow> engine \<Rightarrow> bool" where
  "has_source source e = hm_has (en_by_source e) source"

definition change_tokens :: "engine \<Rightarrow> (string \<times> u64 \<times> u64) list" where
  "change_tokens e = map (\<lambda>(rid, r). (rid, rk_instance r, ag_revision (rk_state r))) (en_rankings e)"

definition engine_definitions :: "engine \<Rightarrow> ranking_definition list" where
  "engine_definitions e = sort_key rd_id (map (\<lambda>(_, r). rk_definition r) (en_rankings e))"

definition complete_snapshot :: "ranking \<Rightarrow> snapshot \<Rightarrow> snapshot" where
  "complete_snapshot r s = s
     \<lparr>sn_ranking_id := rd_id (rk_definition r), sn_instance_id := Some (rk_instance_id r),
      sn_creator_id := rd_creator_id (rk_definition r), sn_room_id := rd_room_id (rk_definition r),
      sn_window := rd_window (rk_definition r), sn_rejected := rk_rejected r,
      sn_dropped := rk_dropped r, sn_limited := rk_limited r,
      sn_cooldown_rejected := rk_cooldown_rejected r, sn_paused := rk_paused r,
      sn_integrity_status := (if rk_rejected r > 0 \<or> rk_dropped r > 0 then ''degraded''
                              else sn_integrity_status s)\<rparr>"

definition snapshot_unranked_capped :: "string \<Rightarrow> nat \<Rightarrow> engine \<Rightarrow> (snapshot \<times> nat) option" where
  "snapshot_unranked_capped rid cap e =
     map_option (\<lambda>r. let limit = min (rd_limit (rk_definition r)) cap
                     in (complete_snapshot r (snapshot_candidates limit (rk_state r)), limit))
       (hm_get (en_rankings e) rid)"

definition snapshot_unranked :: "string \<Rightarrow> engine \<Rightarrow> (snapshot \<times> nat) option" where
  "snapshot_unranked rid e = snapshot_unranked_capped rid u64_max e"

definition ranking_selection :: "ranking \<Rightarrow> snapshot" where
  "ranking_selection r =
     rank_snapshot (rd_capacity (rk_definition r))
       (complete_snapshot r (snapshot_candidates (rd_capacity (rk_definition r)) (rk_state r)))"

definition selection_snapshot :: "string \<Rightarrow> engine \<Rightarrow> snapshot option" where
  "selection_snapshot rid e = map_option ranking_selection (hm_get (en_rankings e) rid)"

definition engine_snapshot :: "string \<Rightarrow> engine \<Rightarrow> snapshot option" where
  "engine_snapshot rid e =
     map_option (\<lambda>(s, limit). rank_snapshot limit s) (snapshot_unranked rid e)"

section \<open>Control\<close>

definition engine_reset :: "string \<Rightarrow> engine \<Rightarrow> engine \<times> (agg_error + unit) option" where
  "engine_reset rid e =
     (case hm_get (en_rankings e) rid of
        None \<Rightarrow> (e, None)
      | Some r \<Rightarrow>
        (case aggregation_reset (rk_state r) of (s, res) \<Rightarrow>
          (e\<lparr>en_rankings := hm_insert rid
              (if is_ok res then clear_accounting (r\<lparr>rk_state := s\<rparr>) else r\<lparr>rk_state := s\<rparr>)
              (en_rankings e)\<rparr>, Some res)))"

definition set_paused :: "string \<Rightarrow> bool \<Rightarrow> engine \<Rightarrow> engine \<times> (agg_error + unit) option" where
  "set_paused rid paused e =
     (case hm_get (en_rankings e) rid of
        None \<Rightarrow> (e, None)
      | Some r \<Rightarrow>
        if rk_paused r \<noteq> paused
        then (case aggregation_touch (rk_state r) of
                (s, Inl err) \<Rightarrow> (e\<lparr>en_rankings := hm_insert rid (r\<lparr>rk_state := s\<rparr>) (en_rankings e)\<rparr>,
                               Some (Inl err))
              | (s, Inr _) \<Rightarrow>
                (e\<lparr>en_rankings := hm_insert rid (r\<lparr>rk_state := s, rk_paused := paused\<rparr>)
                    (en_rankings e)\<rparr>, Some (Inr ())))
        else (e, Some (Inr ())))"

definition engine_remove :: "string \<Rightarrow> engine \<Rightarrow> engine \<times> bool" where
  "engine_remove rid e =
     (if hm_get (en_rankings e) rid = None then (e, False)
      else (e\<lparr>en_rankings := hm_remove rid (en_rankings e),
              en_by_source := unindex_sources rid (en_by_source e)\<rparr>, True))"

end
