(* ===== verification/Ranking_Inv.thy ===== *)
theory Ranking_Inv
  imports Engine_Ops
begin

text \<open>
  The invariant of one ranking and its preservation by the per-ranking steps: the scores of a
  rolling window are exactly the sums of the retained contributions, so expiry never meets a
  missing or too small score, and user limits stay within their bounds.
\<close>

section \<open>Window contents\<close>

type_synonym window_event = "u64 \<times> string \<times> u64"

fun window_total :: "window_event list \<Rightarrow> string \<Rightarrow> nat" where
  "window_total [] k = 0"
| "window_total ((at, key, amount) # es) k = (if key = k then amount else 0) + window_total es k"

lemma window_total_append: "window_total (es @ fs) k = window_total es k + window_total fs k"
  by (induction es k rule: window_total.induct) auto

definition event_ok :: "u64 \<Rightarrow> window_event \<Rightarrow> bool" where
  "event_ok last_time = (\<lambda>(at, key, amount). at \<le> last_time \<and> 0 < amount)"

definition window_ok :: "window \<Rightarrow> window_event list \<Rightarrow> u64 \<Rightarrow> (string \<Rightarrow> nat) \<Rightarrow> bool" where
  "window_ok w events last_time scores \<longleftrightarrow>
     (case w of
        Rolling duration mx \<Rightarrow>
          length events \<le> mx \<and> sorted (map fst events) \<and> list_all (event_ok last_time) events \<and>
          scores = window_total events
      | _ \<Rightarrow> events = [])"

abbreviation window_inv :: "ranking \<Rightarrow> bool" where
  "window_inv r \<equiv> window_ok (rd_window (rk_definition r)) (rk_window_events r) (rk_last_time r)
     (scores_of (rk_state r))"

lemma window_ok_simps [simp]:
  "window_ok Session events t sc \<longleftrightarrow> events = []"
  "window_ok (Daily z) events t sc \<longleftrightarrow> events = []"
  "window_ok (Rolling d mx) events t sc \<longleftrightarrow>
     length events \<le> mx \<and> sorted (map fst events) \<and> list_all (event_ok t) events \<and>
     sc = window_total events"
  by (simp_all add: window_ok_def)

lemma window_ok_later:
  "window_ok w events t sc \<Longrightarrow> t \<le> t' \<Longrightarrow> window_ok w events t' sc"
  by (cases w) (auto simp: list_all_iff event_ok_def)

section \<open>User limits\<close>

definition user_ok :: "user_limits \<Rightarrow> u64 \<Rightarrow> string \<times> user_state \<Rightarrow> bool" where
  "user_ok limits last_time = (\<lambda>(u, st).
     valid_key u \<and> 0 < us_count st \<and> us_count st \<le> u64_max \<and> us_last_time st \<le> last_time \<and>
     (case ul_max_contributions limits of None \<Rightarrow> True | Some mx \<Rightarrow> us_count st \<le> mx))"

definition users_ok :: "user_limits option \<Rightarrow> (string, user_state) hmap \<Rightarrow> u64 \<Rightarrow> bool" where
  "users_ok limits users last_time \<longleftrightarrow> hm_wf users \<and>
     (case limits of
        None \<Rightarrow> users = []
      | Some l \<Rightarrow> length users \<le> ul_max_users l \<and> list_all (user_ok l last_time) users)"

abbreviation users_inv :: "ranking \<Rightarrow> bool" where
  "users_inv r \<equiv> users_ok (rd_user_limits (rk_definition r)) (rk_users r) (rk_last_time r)"

lemma users_ok_simps [simp]:
  "users_ok None users t \<longleftrightarrow> users = []"
  "users_ok (Some l) users t \<longleftrightarrow>
     hm_wf users \<and> length users \<le> ul_max_users l \<and> list_all (user_ok l t) users"
  by (auto simp: users_ok_def)

lemma users_ok_Nil [simp]: "users_ok l [] t"
  by (cases l) simp_all

lemma users_ok_later: "users_ok l users t \<Longrightarrow> t \<le> t' \<Longrightarrow> users_ok l users t'"
  by (cases l) (auto simp: list_all_iff user_ok_def)

definition hex_identity :: "string \<Rightarrow> bool" where
  "hex_identity s \<longleftrightarrow> length s = 32 \<and> list_all (\<lambda>c. c \<in> set ''0123456789abcdefABCDEF'') s"

definition ranking_inv :: "ranking \<Rightarrow> bool" where
  "ranking_inv r \<longleftrightarrow>
     \<not> definition_invalid (rk_definition r) \<and> agg_inv (rk_state r) \<and>
     ag_capacity (rk_state r) = rd_capacity (rk_definition r) \<and>
     window_inv r \<and> users_inv r \<and>
     (rd_user_limits (rk_definition r) \<noteq> None \<and> rk_users r = [] \<longrightarrow> ag_scores (rk_state r) = []) \<and>
     rk_rejected r \<le> u64_max \<and> rk_dropped r \<le> u64_max \<and> rk_limited r \<le> u64_max \<and>
     rk_cooldown_rejected r \<le> u64_max \<and> hex_identity (rk_instance_id r)"

lemma ranking_invD:
  assumes "ranking_inv r"
  shows ranking_inv_state: "agg_inv (rk_state r)"
    and ranking_inv_window: "window_inv r"
    and ranking_inv_users: "users_inv r"
    and ranking_inv_definition: "\<not> definition_invalid (rk_definition r)"
  using assms by (simp_all add: ranking_inv_def)

lemma hex_identity_hex_bytes: "length bs = 16 \<Longrightarrow> hex_identity (hex_bytes bs)"
proof -
  assume len: "length bs = 16"
  have digit: "hex_digit n \<in> set ''0123456789abcdefABCDEF''" if "n < 16" for n
  proof -
    have "hex_digit n \<in> set ''0123456789abcdef''"
      unfolding hex_digit_def using that by (intro nth_mem) simp
    then show ?thesis by auto
  qed
  have small: "of_char (c::char) < (256::nat)" for c by (rule nat_of_char_less_256)
  have "length (hex_bytes bs) = 2 * length bs"
    unfolding hex_bytes_def by (induction bs) simp_all
  moreover have "list_all (\<lambda>c. c \<in> set ''0123456789abcdefABCDEF'') (hex_bytes bs)"
    unfolding hex_bytes_def list_all_iff
  proof
    fix c assume "c \<in> set (concat (map (\<lambda>b. [hex_digit (of_char b div 16), hex_digit (of_char b mod 16)]) bs))"
    then obtain b where "c = hex_digit (of_char b div 16) \<or> c = hex_digit (of_char b mod 16)" by auto
    moreover have "(of_char b :: nat) div 16 < 16" and "(of_char b :: nat) mod 16 < 16"
      using small [of b] by (simp_all add: less_mult_imp_div_less)
    ultimately show "c \<in> set ''0123456789abcdefABCDEF''" using digit by metis
  qed
  ultimately show ?thesis using len by (simp add: hex_identity_def)
qed

lemma ranking_inv_new:
  assumes "\<not> definition_invalid d" and "hex_identity h"
  shows "ranking_inv (ranking_new d n h)"
proof -
  have "window_ok (rd_window d) [] 0 (\<lambda>_. 0)" by (cases "rd_window d") (simp_all add: fun_eq_iff)
  then show ?thesis using assms agg_inv_new
    by (simp add: ranking_inv_def ranking_new_def) (simp add: aggregation_new_def)
qed

text \<open>Changes of the accounting state that keep all scores keep the invariant.\<close>

lemma ranking_inv_same_scores:
  assumes "ranking_inv r" and "agg_inv s" and "ag_scores s = ag_scores (rk_state r)"
    and "ag_capacity s = ag_capacity (rk_state r)"
  shows "ranking_inv (r\<lparr>rk_state := s\<rparr>)"
proof -
  have "scores_of s = scores_of (rk_state r)" using assms(3) by (simp add: fun_eq_iff scores_of_def)
  then show ?thesis using assms by (simp add: ranking_inv_def)
qed

lemma ranking_inv_touch:
  assumes "ranking_inv r"
  shows "ranking_inv (r\<lparr>rk_state := fst (aggregation_touch (rk_state r))\<rparr>)"
  using assms by (intro ranking_inv_same_scores) (simp_all add: agg_inv_touch ranking_inv_state)

lemma ranking_inv_counters:
  assumes "ranking_inv r"
  shows "n \<le> u64_max \<Longrightarrow> ranking_inv (r\<lparr>rk_rejected := n\<rparr>)"
    and "n \<le> u64_max \<Longrightarrow> ranking_inv (r\<lparr>rk_dropped := n\<rparr>)"
    and "n \<le> u64_max \<Longrightarrow> ranking_inv (r\<lparr>rk_limited := n\<rparr>)"
    and "n \<le> u64_max \<Longrightarrow> ranking_inv (r\<lparr>rk_cooldown_rejected := n\<rparr>)"
    and "ranking_inv (r\<lparr>rk_paused := b\<rparr>)"
    and "ranking_inv (r\<lparr>rk_instance := i\<rparr>)"
    and "t \<ge> rk_last_time r \<Longrightarrow> ranking_inv (r\<lparr>rk_last_time := t\<rparr>)"
  using assms by (auto simp: ranking_inv_def intro: window_ok_later users_ok_later)

lemma ranking_inv_reject:
  "ranking_inv r \<Longrightarrow> ranking_inv (r\<lparr>rk_rejected := saturating_add (rk_rejected r) 1\<rparr>)"
  by (rule ranking_inv_counters) simp_all

lemma ranking_inv_reject_and_touch:
  assumes "ranking_inv r"
  shows "ranking_inv (reject_and_touch r)"
  unfolding reject_and_touch_def
  using ranking_inv_touch [OF ranking_inv_reject [OF assms]] by simp

section \<open>Expiry\<close>

text \<open>Expired contributions leave from the front; what is kept is still summed up by the scores.\<close>

definition expired_to ::
  "u64 \<Rightarrow> u64 \<Rightarrow> aggregation \<Rightarrow> window_event list \<Rightarrow> aggregation \<Rightarrow> window_event list \<Rightarrow>
   agg_error + unit \<Rightarrow> bool" where
  "expired_to duration last_time a es a' fs res \<longleftrightarrow>
     agg_inv a' \<and> ag_capacity a' = ag_capacity a \<and> scores_of a' = window_total fs \<and>
     (\<exists>gs. es = gs @ fs) \<and> (ag_scores a = [] \<longrightarrow> ag_scores a' = []) \<and>
     ag_revision a' + length fs = ag_revision a + length es \<and>
     (case res of Inl e \<Rightarrow> e = Overflow \<and> ag_revision a' = u64_max
      | Inr _ \<Rightarrow> fs = filter (\<lambda>e. last_time - fst e < duration) es)"

lemma young_kept:
  fixes t :: nat
  assumes "sorted (map fst (e # es))" and "t - fst e < d"
  shows "filter (\<lambda>e. t - fst e < d) (e # es) = e # es"
proof -
  have "\<forall>x \<in> set es. t - fst x < d"
  proof
    fix x assume "x \<in> set es"
    then have "fst e \<le> fst x" using assms(1) by simp
    then show "t - fst x < d" using assms(2) by linarith
  qed
  then show ?thesis using assms(2) by (simp add: filter_id_conv)
qed

lemma expire_window_steps:
  assumes "agg_inv a" and "scores_of a = window_total es"
    and "list_all (event_ok last_time) es" and "sorted (map fst es)"
  shows "\<exists>a' fs res. expire_window duration last_time a es = Ret (a', fs, res) \<and>
    expired_to duration last_time a es a' fs res"
  using assms
proof (induction es arbitrary: a)
  case Nil
  then show ?case by (simp add: expired_to_def fun_eq_iff)
next
  case (Cons e events)
  obtain at key amount where e: "e = (at, key, amount)" by (cases e)
  have tot: "scores_of a key = amount + window_total events key"
    using Cons.prems(2) e by (simp add: fun_eq_iff)
  have pos: "0 < amount" using Cons.prems(3) e by (simp add: event_ok_def)
  show ?case
  proof (cases "last_time - at < duration")
    case True
    have "expire_window duration last_time a (e # events) = Ret (a, e # events, Inr ())"
      using True e by simp
    moreover have "expired_to duration last_time a (e # events) a (e # events) (Inr ())"
      using Cons.prems young_kept [OF Cons.prems(4), of last_time duration] True e
      by (simp add: expired_to_def del: window_total.simps)
    ultimately show ?thesis by blast
  next
    case False
    show ?thesis
      using Cons.prems(1)
    proof (cases rule: aggregation_expire_cases [where k = key and n = amount])
      case overflow
      then have "expire_window duration last_time a (e # events) = Ret (a, e # events, Inl Overflow)"
        using False e by simp
      moreover have "expired_to duration last_time a (e # events) a (e # events) (Inl Overflow)"
        using Cons.prems overflow by (simp add: expired_to_def del: window_total.simps)
      ultimately show ?thesis by blast
    next
      case missing
      then show ?thesis using tot pos by simp
    next
      case expired
      define b where "b = put_score key (scores_of a key - amount) (ag_total a - amount) (ag_revision a + 1) a"
      have inv: "agg_inv b"
        using agg_inv_expire [OF Cons.prems(1) expired(1)] by (simp only: b_def)
      have sc: "scores_of b = window_total events"
        unfolding b_def scores_of_put_score using Cons.prems(2) e tot by (auto simp: fun_eq_iff)
      have ne: "ag_scores a \<noteq> []" using expired(2) by (auto simp: scores_of_def hm_get_or_def)
      have cap: "ag_capacity b = ag_capacity a" "ag_revision b = ag_revision a + 1" by (simp_all add: b_def)
      obtain a' fs res where *: "expire_window duration last_time b events = Ret (a', fs, res)"
        "expired_to duration last_time b events a' fs res"
        using Cons.IH [OF inv sc] Cons.prems(3,4) by auto
      have "expire_window duration last_time a (e # events) = Ret (a', fs, res)"
        using False expired(1) e *(1) by (simp add: b_def)
      moreover have "expired_to duration last_time a (e # events) a' fs res"
      proof -
        have "\<exists>hs. e # events = hs @ fs"
          using *(2) by (auto simp: expired_to_def intro: exI [of _ "e # gs" for gs])
        then show ?thesis using *(2) ne cap False e
          by (auto simp: expired_to_def split: sum.splits)
      qed
      ultimately show ?thesis by blast
    qed
  qed
qed

lemma expire_rolling_steps:
  assumes "agg_inv a" and "window_ok (Rolling duration mx) es t (scores_of a)"
  shows "\<exists>a' fs res. expire_window duration t a es = Ret (a', fs, res) \<and>
    expired_to duration t a es a' fs res"
  using assms expire_window_steps [of a es t duration] by simp

lemma expired_to_window:
  assumes "expired_to duration t a es a' fs res" and "window_ok (Rolling duration mx) es t (scores_of a)"
  shows "window_ok (Rolling duration mx) fs t (scores_of a')"
  using assms by (auto simp: expired_to_def sorted_append)

text \<open>
  What expiring a ranking does: it never panics, keeps the invariant, clamps the clock, and on
  success retains exactly the contributions younger than the window's duration.
\<close>

definition expired_ranking :: "u64 \<Rightarrow> ranking \<Rightarrow> ranking \<Rightarrow> bool" where
  "expired_ranking now r r' \<longleftrightarrow>
     ranking_inv r' \<and> rk_definition r' = rk_definition r \<and> rk_paused r' = rk_paused r \<and>
     rk_instance r' = rk_instance r \<and> rk_instance_id r' = rk_instance_id r \<and>
     rk_last_time r' = max (rk_last_time r) now"

lemma expired_rankingD:
  assumes "expired_ranking now r r'"
  shows "ranking_inv r'" and "rk_definition r' = rk_definition r" and "rk_paused r' = rk_paused r"
    and "rk_last_time r' = max (rk_last_time r) now"
  using assms by (simp_all add: expired_ranking_def)

lemma aggregation_reset_Inl: "aggregation_reset a = (b, Inl e) \<Longrightarrow> b = a"
  by (auto simp: aggregation_reset_def split: option.splits)

lemma aggregation_reset_Inr:
  "aggregation_reset a = (b, Inr u) \<Longrightarrow>
   ag_scores b = [] \<and> ag_capacity b = ag_capacity a \<and> ag_revision b = ag_revision a + 1 \<and>
   ag_total b = 0 \<and> ag_metadata b = []"
  by (auto simp: aggregation_reset_def checked_add_def split: option.splits if_splits)

lemma scores_of_empty: "ag_scores a = [] \<Longrightarrow> scores_of a = (\<lambda>_. 0)"
  by (simp add: fun_eq_iff scores_of_def hm_get_or_def)

lemma expire_ranking_inv:
  assumes inv: "ranking_inv r"
  shows "\<exists>r' res. expire_ranking now r = Ret (r', res) \<and> expired_ranking now r r'"
proof -
  let ?now = "max (rk_last_time r) now"
  let ?r = "r\<lparr>rk_last_time := ?now\<rparr>"
  have r1: "ranking_inv ?r" using inv by (rule ranking_inv_counters) simp
  show ?thesis
  proof (cases "rd_window (rk_definition r)")
    case Session
    then show ?thesis using r1 by (simp add: expire_ranking_def expired_ranking_def)
  next
    case (Daily offset)
    obtain s res where s: "aggregation_reset (rk_state r) = (s, res)" by force
    have s_inv: "agg_inv s" using agg_inv_reset [OF ranking_inv_state [OF inv]] s by simp
    have "\<exists>r' res'. (case aggregation_reset (rk_state ?r) of
          (s, Inl e) \<Rightarrow> Ret (?r\<lparr>rk_state := s\<rparr>, Inl e)
        | (s, Inr _) \<Rightarrow> Ret (?r\<lparr>rk_state := s, rk_users := [], rk_rejected := 0, rk_dropped := 0,
              rk_limited := 0, rk_cooldown_rejected := 0\<rparr>, Inr ())) = Ret (r', res') \<and>
        expired_ranking now r r'"
    proof (cases res)
      case (Inl e)
      with s have "s = rk_state r" by (simp add: aggregation_reset_Inl)
      then show ?thesis using r1 s Inl by (simp add: expired_ranking_def)
    next
      case (Inr u)
      have "ranking_inv (?r\<lparr>rk_state := s, rk_users := [], rk_rejected := 0, rk_dropped := 0,
          rk_limited := 0, rk_cooldown_rejected := 0\<rparr>)"
        using r1 s_inv Daily aggregation_reset_Inr [OF s [unfolded Inr]]
        by (simp add: ranking_inv_def)
      then show ?thesis using s Inr by (simp add: expired_ranking_def)
    qed
    then show ?thesis using Daily r1 by (simp add: expire_ranking_def Let_def expired_ranking_def)
  next
    case (Rolling duration mx)
    have w: "window_ok (Rolling duration mx) (rk_window_events r) ?now (scores_of (rk_state r))"
      using window_ok_later [OF ranking_inv_window [OF inv], of ?now] Rolling by simp
    then obtain a fs res where e:
      "expire_window duration ?now (rk_state r) (rk_window_events r) = Ret (a, fs, res)"
      "expired_to duration ?now (rk_state r) (rk_window_events r) a fs res"
      using expire_rolling_steps [OF ranking_inv_state [OF inv] w] by blast
    have "ranking_inv (?r\<lparr>rk_state := a, rk_window_events := fs\<rparr>)"
      using r1 expired_to_window [OF e(2) w] e(2) Rolling
      by (auto simp: ranking_inv_def expired_to_def)
    then show ?thesis using Rolling e(1) by (simp add: expire_ranking_def Let_def expired_ranking_def)
  qed
qed

lemma expire_ranking_rolling:
  assumes inv: "ranking_inv r" and w: "rd_window (rk_definition r) = Rolling duration mx"
    and ret: "expire_ranking now r = Ret (r', Inr ())"
  shows "rk_window_events r' =
      filter (\<lambda>e. max (rk_last_time r) now - fst e < duration) (rk_window_events r)"
proof -
  let ?now = "max (rk_last_time r) now"
  have h: "window_ok (Rolling duration mx) (rk_window_events r) ?now (scores_of (rk_state r))"
    using window_ok_later [OF ranking_inv_window [OF inv], of ?now] w by simp
  then obtain a fs res where e:
    "expire_window duration ?now (rk_state r) (rk_window_events r) = Ret (a, fs, res)"
    "expired_to duration ?now (rk_state r) (rk_window_events r) a fs res"
    using expire_rolling_steps [OF ranking_inv_state [OF inv] h] by blast
  then show ?thesis using ret w by (auto simp: expire_ranking_def Let_def expired_to_def)
qed

text \<open>The revision leaves room for one step per expired contribution, so expiry succeeds.\<close>

lemma expire_ranking_rolling_ok:
  assumes inv: "ranking_inv r" and w: "rd_window (rk_definition r) = Rolling duration mx"
    and room: "ag_revision (rk_state r) + length (rk_window_events r) < u64_max"
  shows "\<exists>r'. expire_ranking now r = Ret (r', Inr ())"
proof -
  let ?now = "max (rk_last_time r) now"
  have h: "window_ok (Rolling duration mx) (rk_window_events r) ?now (scores_of (rk_state r))"
    using window_ok_later [OF ranking_inv_window [OF inv], of ?now] w by simp
  then obtain a fs res where e:
    "expire_window duration ?now (rk_state r) (rk_window_events r) = Ret (a, fs, res)"
    "expired_to duration ?now (rk_state r) (rk_window_events r) a fs res"
    using expire_rolling_steps [OF ranking_inv_state [OF inv] h] by blast
  have "ag_revision a \<noteq> u64_max" using e(2) room by (simp add: expired_to_def)
  then have "res = Inr ()" using e(2) by (cases res) (simp_all add: expired_to_def)
  then show ?thesis using w e(1) by (simp add: expire_ranking_def Let_def)
qed

end
