(* ===== verification/Contributions.thy ===== *)
theory Contributions
  imports Ranking_Inv
begin

text \<open>
  What one contribution does to one ranking: the decision of the user limits, the accepted branch,
  and the loop body as a whole. It never panics, keeps the ranking's invariant, changes exactly one
  score by exactly the scored amount, or counts the failure.
\<close>

section \<open>User limits\<close>

definition within_limits :: "user_limits \<Rightarrow> u64 \<Rightarrow> user_state \<Rightarrow> bool" where
  "within_limits l now st \<longleftrightarrow>
     (case ul_max_contributions l of None \<Rightarrow> True | Some mx \<Rightarrow> us_count st < mx) \<and>
     (case ul_cooldown_ms l of None \<Rightarrow> True | Some cd \<Rightarrow> cd \<le> now - us_last_time st) \<and>
     us_count st < u64_max"

lemma user_decision_Allowed:
  "user_decision r user = Inr Allowed \<longleftrightarrow>
     (case rd_user_limits (rk_definition r) of
        None \<Rightarrow> True
      | Some l \<Rightarrow> (\<exists>u. user = Some u \<and> valid_key u \<and>
          (case hm_get (rk_users r) u of
             None \<Rightarrow> length (rk_users r) < ul_max_users l
           | Some st \<Rightarrow> within_limits l (rk_last_time r) st)))"
  by (auto simp: user_decision_def within_limits_def valid_key_def checked_add_def
      split: option.splits if_splits)

lemma count_user_simps [simp]:
  "rk_definition (count_user u r) = rk_definition r"
  "rk_state (count_user u r) = rk_state r"
  "rk_window_events (count_user u r) = rk_window_events r"
  "rk_last_time (count_user u r) = rk_last_time r"
  "rk_rejected (count_user u r) = rk_rejected r"
  "rk_dropped (count_user u r) = rk_dropped r"
  "rk_limited (count_user u r) = rk_limited r"
  "rk_cooldown_rejected (count_user u r) = rk_cooldown_rejected r"
  "rk_paused (count_user u r) = rk_paused r"
  "rk_instance (count_user u r) = rk_instance r"
  "rk_instance_id (count_user u r) = rk_instance_id r"
  by (simp_all add: count_user_def Let_def)

lemma count_user_users:
  "rk_users (count_user u r) =
     hm_insert u \<lparr>us_count = us_count (hm_get_or (rk_users r) u \<lparr>us_count = 0, us_last_time = 0\<rparr>) + 1,
       us_last_time = rk_last_time r\<rparr> (rk_users r)"
proof (cases "hm_get (rk_users r) u")
  case (Some st)
  then show ?thesis by (cases st) (simp add: count_user_def Let_def hm_get_or_def)
qed (simp add: count_user_def Let_def hm_get_or_def)

lemma count_user_nonempty [simp]: "rk_users (count_user u r) \<noteq> []"
  by (cases "rk_users r") (auto simp: count_user_users)

lemma users_ok_count:
  assumes inv: "users_ok (Some l) (rk_users r) (rk_last_time r)" and l: "\<not> user_limits_invalid l"
    and d: "rd_user_limits (rk_definition r) = Some l" "user_decision r (Some u) = Inr Allowed"
  shows "users_ok (Some l) (rk_users (count_user u r)) (rk_last_time r)"
proof -
  have key: "valid_key u" using d by (simp add: user_decision_Allowed)
  show ?thesis
  proof (cases "hm_get (rk_users r) u")
    case None
    have "length (rk_users r) < ul_max_users l" using d None by (simp add: user_decision_Allowed)
    moreover have "u \<notin> hm_keys (rk_users r)" using None by (simp add: hm_get_None)
    moreover have "user_ok l (rk_last_time r) (u, \<lparr>us_count = 1, us_last_time = rk_last_time r\<rparr>)"
      using key l by (auto simp: user_ok_def user_limits_invalid_def u64_max_def Suc_le_eq split: option.split)
    ultimately show ?thesis using inv None
      by (simp add: count_user_users hm_len_insert list_all_iff hm_set_insert hm_get_or_def)
  next
    case (Some st)
    have st: "within_limits l (rk_last_time r) st" using d Some by (simp add: user_decision_Allowed)
    have "u \<in> hm_keys (rk_users r)" using Some by (rule hm_get_in_keys)
    moreover have "user_ok l (rk_last_time r)
        (u, \<lparr>us_count = us_count st + 1, us_last_time = rk_last_time r\<rparr>)"
      using key st by (auto simp: user_ok_def within_limits_def split: option.splits)
    ultimately show ?thesis using inv Some
      by (simp add: count_user_users hm_len_insert list_all_iff hm_set_insert hm_get_or_def)
  qed
qed

section \<open>The accepted contribution\<close>

definition window_room :: "ranking \<Rightarrow> bool" where
  "window_room r \<longleftrightarrow>
     (case rd_window (rk_definition r) of
        Rolling _ mx \<Rightarrow> length (rk_window_events r) < mx | _ \<Rightarrow> True)"

definition same_identity :: "ranking \<Rightarrow> ranking \<Rightarrow> bool" where
  "same_identity r r' \<longleftrightarrow> rk_definition r' = rk_definition r \<and> rk_paused r' = rk_paused r \<and>
     rk_instance r' = rk_instance r \<and> rk_instance_id r' = rk_instance_id r"

lemma same_identity_refl [simp]: "same_identity r r"
  by (simp add: same_identity_def)

lemma same_identity_trans: "same_identity r s \<Longrightarrow> same_identity s t \<Longrightarrow> same_identity r t"
  by (simp add: same_identity_def)

definition same_counters :: "ranking \<Rightarrow> ranking \<Rightarrow> bool" where
  "same_counters r r' \<longleftrightarrow> rk_rejected r' = rk_rejected r \<and> rk_dropped r' = rk_dropped r \<and>
     rk_limited r' = rk_limited r \<and> rk_cooldown_rejected r' = rk_cooldown_rejected r"

text \<open>The state after an accepted contribution, as it is meant.\<close>

definition credited ::
  "string option \<Rightarrow> string \<Rightarrow> u64 \<Rightarrow> ranking \<Rightarrow> ranking \<Rightarrow> bool" where
  "credited user key amount r r' \<longleftrightarrow>
     same_identity r r' \<and> same_counters r r' \<and> rk_last_time r' = rk_last_time r \<and>
     scores_of (rk_state r') = (scores_of (rk_state r))(key := scores_of (rk_state r) key + amount) \<and>
     ag_total (rk_state r') = ag_total (rk_state r) + amount \<and>
     rk_users r' = (case (rd_user_limits (rk_definition r), user) of
        (Some _, Some u) \<Rightarrow> rk_users (count_user u r) | _ \<Rightarrow> rk_users r) \<and>
     rk_window_events r' = rk_window_events r @
       (case rd_window (rk_definition r) of
          Rolling _ _ \<Rightarrow> [(rk_last_time r, key, amount)] | _ \<Rightarrow> [])"

lemma window_ok_credit:
  assumes "window_ok w es t sc" and "0 < amount"
    and "case w of Rolling _ mx \<Rightarrow> length es < mx | _ \<Rightarrow> True"
  shows "window_ok w (es @ (case w of Rolling _ _ \<Rightarrow> [(t, key, amount)] | _ \<Rightarrow> [])) t
    (sc(key := sc key + amount))"
  using assms
  by (cases w)
    (auto simp: window_total_append fun_eq_iff sorted_append event_ok_def list_all_iff)

text \<open>Crediting keeps the invariant, whatever the definition that performs it.\<close>

lemma ranking_inv_credited:
  assumes inv: "ranking_inv r" and cr: "credited user key amount r r'" and pos: "0 < amount"
    and room: "window_room r" and dec: "user_decision r user = Inr Allowed"
    and st: "agg_inv (rk_state r')" "ag_capacity (rk_state r') = ag_capacity (rk_state r)"
  shows "ranking_inv r'"
proof -
  have d: "rk_definition r' = rk_definition r" and t: "rk_last_time r' = rk_last_time r"
    using cr by (simp_all add: credited_def same_identity_def)
  have w: "window_inv r'"
    using window_ok_credit [OF ranking_inv_window [OF inv] pos, of key] room cr d t
    by (simp add: credited_def window_room_def)
  have users: "users_inv r' \<and> (rd_user_limits (rk_definition r) \<noteq> None \<longrightarrow> rk_users r' \<noteq> [])"
  proof (cases "rd_user_limits (rk_definition r)")
    case None
    then show ?thesis using cr d ranking_inv_users [OF inv] by (simp add: credited_def)
  next
    case (Some l)
    with dec obtain u where u: "user = Some u" by (auto simp: user_decision_Allowed)
    have "\<not> user_limits_invalid l"
      using ranking_inv_definition [OF inv] Some by (simp add: definition_invalid_def)
    then have "users_ok (Some l) (rk_users (count_user u r)) (rk_last_time r)"
      using ranking_inv_users [OF inv] Some dec u by (intro users_ok_count) simp_all
    then show ?thesis using cr d t Some u by (simp add: credited_def del: users_ok_simps)
  qed
  have c: "rk_rejected r' = rk_rejected r" "rk_dropped r' = rk_dropped r" "rk_limited r' = rk_limited r"
    "rk_cooldown_rejected r' = rk_cooldown_rejected r" "rk_instance_id r' = rk_instance_id r"
    using cr by (simp_all add: credited_def same_identity_def same_counters_def)
  show ?thesis
    using inv w users st unfolding ranking_inv_def c d by (elim conjE, intro conjI) (simp_all, blast)
qed

lemma accept_contribution_spec:
  assumes inv: "ranking_inv r" and pos: "0 < amount" and room: "window_room r"
    and dec: "user_decision r (c_user c) = Inr Allowed"
  shows "\<exists>r' res. accept_contribution c user gift key amount r = Ret (r', res) \<and> ranking_inv r' \<and>
    (case res of Inl e \<Rightarrow> r' = r \<and> \<not> apply_accepts key amount 1 (rk_state r)
     | Inr _ \<Rightarrow> credited (c_user c) key amount r r' \<and> apply_accepts key amount 1 (rk_state r))"
proof -
  obtain s res where s: "aggregation_apply key amount 1 (rk_state r) = (s, res)" by force
  have acc: "is_ok res \<longleftrightarrow> apply_accepts key amount 1 (rk_state r)"
    using aggregation_apply_ok [OF ranking_inv_state [OF inv], of key amount 1] s by simp
  show ?thesis
  proof (cases res)
    case (Inl e)
    then have "s = rk_state r" using s aggregation_apply_atomic by blast
    then show ?thesis using Inl s inv acc by (simp add: accept_contribution_def)
  next
    case (Inr u)
    then have s': "aggregation_apply key amount 1 (rk_state r) = (s, Inr ())" using s by simp
    define s1 where "s1 = (case group_metadata (rd_group_by (rk_definition r)) user gift of
        None \<Rightarrow> s | Some md \<Rightarrow> aggregation_update_metadata key md s)"
    have s1: "agg_inv s1" "scores_of s1 = scores_of s" "ag_total s1 = ag_total s"
      "ag_capacity s1 = ag_capacity s"
      using agg_inv_apply [OF ranking_inv_state [OF inv], of key amount 1] s
      by (simp_all add: s1_def agg_inv_update_metadata split: option.split)
    have eff: "scores_of s = (scores_of (rk_state r))(key := scores_of (rk_state r) key + amount)"
      "ag_total s = ag_total (rk_state r) + amount" "ag_capacity s = ag_capacity (rk_state r)"
      using aggregation_apply_effect [OF ranking_inv_state [OF inv] s'] by simp_all
    have "\<exists>r2. (if rd_user_limits (rk_definition r) = None then Ret (r\<lparr>rk_state := s1\<rparr>)
          else case c_user c of None \<Rightarrow> Panic | Some u \<Rightarrow> Ret (count_user u (r\<lparr>rk_state := s1\<rparr>))) = Ret r2 \<and>
        r2 = r\<lparr>rk_state := s1, rk_users := (case (rd_user_limits (rk_definition r), c_user c) of
          (Some _, Some u) \<Rightarrow> rk_users (count_user u r) | _ \<Rightarrow> rk_users r)\<rparr>"
      using dec by (auto simp: user_decision_Allowed count_user_def Let_def split: option.splits)
    then obtain r2 where r2: "(if rd_user_limits (rk_definition r) = None then Ret (r\<lparr>rk_state := s1\<rparr>)
          else case c_user c of None \<Rightarrow> Panic | Some u \<Rightarrow> Ret (count_user u (r\<lparr>rk_state := s1\<rparr>))) = Ret r2"
      and r2_eq: "r2 = r\<lparr>rk_state := s1, rk_users := (case (rd_user_limits (rk_definition r), c_user c) of
          (Some _, Some u) \<Rightarrow> rk_users (count_user u r) | _ \<Rightarrow> rk_users r)\<rparr>" by blast
    define r3 where "r3 = (case rd_window (rk_definition r2) of
        Rolling _ _ \<Rightarrow> r2\<lparr>rk_window_events := rk_window_events r2 @ [(rk_last_time r2, key, amount)]\<rparr>
      | _ \<Rightarrow> r2)"
    have run: "accept_contribution c user gift key amount r = Ret (r3, Inr ())"
      using s' r2 by (simp add: accept_contribution_def Let_def r3_def flip: s1_def)
    have cr: "credited (c_user c) key amount r r3"
      using eff s1 by (simp add: credited_def same_identity_def same_counters_def r3_def r2_eq
          split: window.split)
    have "agg_inv (rk_state r3)" "ag_capacity (rk_state r3) = ag_capacity (rk_state r)"
      using s1 eff by (simp_all add: r3_def r2_eq split: window.split)
    then have "ranking_inv r3" using ranking_inv_credited [OF inv cr pos room dec] by blast
    then show ?thesis using run cr acc Inr by simp
  qed
qed

section \<open>Contributions held back by a limit\<close>

text \<open>A limited contribution bumps the revision and one counter, and nothing else of the accounting.\<close>

definition held :: "ranking \<Rightarrow> ranking \<Rightarrow> bool" where
  "held r r' \<longleftrightarrow> same_identity r r' \<and> ag_scores (rk_state r') = ag_scores (rk_state r) \<and>
     rk_window_events r' = rk_window_events r \<and> rk_users r' = rk_users r \<and>
     rk_rejected r' = rk_rejected r"

definition touch_counting :: "(ranking \<Rightarrow> ranking) \<Rightarrow> ranking \<Rightarrow> (ranking \<times> (agg_error + unit)) run" where
  "touch_counting count r =
     (case aggregation_touch (rk_state r) of
        (s, Inl e) \<Rightarrow> Ret (r\<lparr>rk_state := s\<rparr>, Inl e)
      | (s, Inr _) \<Rightarrow> Ret (count (r\<lparr>rk_state := s\<rparr>), Inr ()))"

lemma touch_counting_spec:
  assumes inv: "ranking_inv r"
    and count: "\<And>q. ranking_inv q \<Longrightarrow> ranking_inv (count q)" "\<And>q. held q (count q)"
  shows "\<exists>r' res. touch_counting count r = Ret (r', res) \<and> ranking_inv r' \<and>
    (case res of Inl e \<Rightarrow> r' = r | Inr _ \<Rightarrow> held r r')"
proof (cases "ag_revision (rk_state r) + 1 \<le> u64_max")
  case True
  let ?q = "r\<lparr>rk_state := fst (aggregation_touch (rk_state r))\<rparr>"
  have "ranking_inv (count ?q)" using count(1) ranking_inv_touch [OF inv] by blast
  moreover have "held r (count ?q)"
    using count(2) [of ?q] by (simp add: held_def same_identity_def)
  moreover have "touch_counting count r = Ret (count ?q, Inr ())"
    using True by (simp add: touch_counting_def aggregation_touch_def checked_add_def)
  ultimately show ?thesis by fastforce
next
  case False
  then show ?thesis using inv by (simp add: touch_counting_def aggregation_touch_def checked_add_def)
qed

lemma touch_counting_limited:
  assumes "ranking_inv r"
  shows "\<exists>r' res. touch_counting (\<lambda>q. q\<lparr>rk_limited := saturating_add (rk_limited q) 1\<rparr>) r = Ret (r', res) \<and>
    ranking_inv r' \<and> (case res of Inl e \<Rightarrow> r' = r | Inr _ \<Rightarrow> held r r')"
  using assms by (rule touch_counting_spec) (simp_all add: ranking_inv_counters held_def same_identity_def)

lemma touch_counting_cooldown:
  assumes "ranking_inv r"
  shows "\<exists>r' res. touch_counting
      (\<lambda>q. q\<lparr>rk_cooldown_rejected := saturating_add (rk_cooldown_rejected q) 1\<rparr>) r = Ret (r', res) \<and>
    ranking_inv r' \<and> (case res of Inl e \<Rightarrow> r' = r | Inr _ \<Rightarrow> held r r')"
  using assms by (rule touch_counting_spec) (simp_all add: ranking_inv_counters held_def same_identity_def)

section \<open>The loop body\<close>

lemma account_contribution_branches:
  "account_contribution c user gift sc r =
     (case sc of
        Inl e \<Rightarrow> Ret (r, Inl e)
      | Inr amount \<Rightarrow>
        (case group_key (rd_group_by (rk_definition r)) c of
           None \<Rightarrow> Ret (r, Inl InvalidKey)
         | Some key \<Rightarrow>
           if \<not> window_room r then Ret (r, Inl WindowCapacity)
           else (case user_decision r (c_user c) of
             Inl e \<Rightarrow> Ret (r, Inl e)
           | Inr Allowed \<Rightarrow> accept_contribution c user gift key amount r
           | Inr Limited \<Rightarrow>
               touch_counting (\<lambda>q. q\<lparr>rk_limited := saturating_add (rk_limited q) 1\<rparr>) r
           | Inr Cooldown \<Rightarrow>
               touch_counting (\<lambda>q. q\<lparr>rk_cooldown_rejected := saturating_add (rk_cooldown_rejected q) 1\<rparr>) r)))"
proof -
  have "(case rd_window (rk_definition r) of
      Rolling _ mx \<Rightarrow> length (rk_window_events r) \<ge> mx | _ \<Rightarrow> False) \<longleftrightarrow> \<not> window_room r"
    by (auto simp: window_room_def split: window.split)
  then show ?thesis unfolding account_contribution_def touch_counting_def
    by (simp split: sum.split option.split decision.split)
qed

text \<open>The meaning of one accounted contribution.\<close>

definition accounted :: "contribution \<Rightarrow> agg_error + u64 \<Rightarrow> ranking \<Rightarrow> ranking \<Rightarrow> bool" where
  "accounted c sc r r' \<longleftrightarrow>
     (\<exists>amount key. sc = Inr amount \<and>
        group_key (rd_group_by (rk_definition r)) c = Some key \<and> window_room r \<and>
        (if user_decision r (c_user c) = Inr Allowed then credited (c_user c) key amount r r'
         else held r r'))"

lemma accounted_same_identity: "accounted c sc r r' \<Longrightarrow> same_identity r r'"
  by (auto simp: accounted_def credited_def held_def split: if_splits)

lemma account_contribution_spec:
  assumes inv: "ranking_inv r" and sc: "sc \<noteq> Inr 0"
  shows "\<exists>r' res. account_contribution c user gift sc r = Ret (r', res) \<and> ranking_inv r' \<and>
    (case res of Inl e \<Rightarrow> r' = r | Inr _ \<Rightarrow> accounted c sc r r')"
proof (cases "\<exists>amount key d. sc = Inr amount \<and> group_key (rd_group_by (rk_definition r)) c = Some key \<and>
      window_room r \<and> user_decision r (c_user c) = Inr d")
  case False
  then have "\<exists>e. account_contribution c user gift sc r = Ret (r, Inl e)"
    by (auto simp: account_contribution_branches split: sum.split option.split)
  then show ?thesis using inv by auto
next
  case True
  then obtain amount key d where ok: "sc = Inr amount"
    "group_key (rd_group_by (rk_definition r)) c = Some key" "window_room r"
    "user_decision r (c_user c) = Inr d" by blast
  have pos: "0 < amount" using sc ok(1) by auto
  have "\<exists>r' res. account_contribution c user gift sc r = Ret (r', res) \<and> ranking_inv r' \<and>
    (case res of Inl e \<Rightarrow> r' = r
     | Inr _ \<Rightarrow> if d = Allowed then credited (c_user c) key amount r r' else held r r')"
  proof (cases d)
    case Allowed
    with ok have "user_decision r (c_user c) = Inr Allowed" by simp
    from accept_contribution_spec [OF inv pos ok(3) this, of user gift key]
    obtain r' res where "accept_contribution c user gift key amount r = Ret (r', res)"
      "ranking_inv r'" "case res of Inl e \<Rightarrow> r' = r | Inr _ \<Rightarrow> credited (c_user c) key amount r r'"
      by (elim exE conjE) (rule that, assumption+, auto split: sum.splits)
    with ok Allowed show ?thesis by (simp add: account_contribution_branches)
  next
    case Limited
    with ok show ?thesis using touch_counting_limited [OF inv] by (simp add: account_contribution_branches)
  next
    case Cooldown
    with ok show ?thesis using touch_counting_cooldown [OF inv] by (simp add: account_contribution_branches)
  qed
  moreover have acc: "accounted c sc r r' \<longleftrightarrow>
      (if d = Allowed then credited (c_user c) key amount r r' else held r r')" for r'
    using ok by (simp add: accounted_def)
  ultimately show ?thesis unfolding acc by blast
qed

definition addressed :: "contribution \<Rightarrow> ranking \<Rightarrow> bool" where
  "addressed c r \<longleftrightarrow> \<not> rk_paused r \<and> rd_creator_id (rk_definition r) = c_creator_id c \<and>
     rd_room_id (rk_definition r) = c_room_id c"

lemma not_addressed: "\<not> addressed c r \<Longrightarrow> contribute_to_ranking c now user gift r = Ret (r, None)"
  by (auto simp: addressed_def contribute_to_ranking_def)

lemma reject_and_touch_simps [simp]:
  "rk_definition (reject_and_touch r) = rk_definition r"
  "rk_paused (reject_and_touch r) = rk_paused r"
  "rk_last_time (reject_and_touch r) = rk_last_time r"
  "rk_window_events (reject_and_touch r) = rk_window_events r"
  "rk_users (reject_and_touch r) = rk_users r"
  "rk_rejected (reject_and_touch r) = saturating_add (rk_rejected r) 1"
  "ag_scores (rk_state (reject_and_touch r)) = ag_scores (rk_state r)"
  by (simp_all add: reject_and_touch_def)

lemma same_identity_reject [simp]: "same_identity r (reject_and_touch r)"
  by (simp add: same_identity_def reject_and_touch_def)

lemma expired_ranking_identity: "expired_ranking now r r' \<Longrightarrow> same_identity r r'"
  by (simp add: expired_ranking_def same_identity_def)

text \<open>
  The whole iteration: with \<open>q\<close> the ranking after expiry, either nothing more happens, or the
  contribution is accounted for on \<open>q\<close>, or the failure is counted.
\<close>

definition contributed :: "contribution \<Rightarrow> ranking \<Rightarrow> ranking \<Rightarrow> agg_error option \<Rightarrow> bool" where
  "contributed c q r' failure \<longleftrightarrow>
     (case failure of
        Some e \<Rightarrow> ag_scores (rk_state r') = ag_scores (rk_state q) \<and> rk_users r' = rk_users q \<and>
          rk_window_events r' = rk_window_events q \<and>
          rk_rejected r' = saturating_add (rk_rejected q) 1
      | None \<Rightarrow> (let sc = score (rd_sources (rk_definition q)) c
          in if c_option c = None \<and> has_vote_source (rk_definition q) \<or> sc = Inr 0 then r' = q
             else accounted c sc q r'))"

lemma contribute_to_ranking_spec:
  assumes inv: "ranking_inv r" and adr: "addressed c r"
  shows "\<exists>q res r' failure. expire_ranking now r = Ret (q, res) \<and> expired_ranking now r q \<and>
    contribute_to_ranking c now user gift r = Ret (r', failure) \<and> ranking_inv r' \<and>
    same_identity r r' \<and> contributed c q r' failure"
proof -
  obtain q res where q: "expire_ranking now r = Ret (q, res)" "expired_ranking now r q"
    using expire_ranking_inv [OF inv] by blast
  have qinv: "ranking_inv q" using q(2) by (rule expired_rankingD)
  have qid: "same_identity r q" using q(2) by (rule expired_ranking_identity)
  let ?sc = "score (rd_sources (rk_definition q)) c"
  have "\<exists>r' failure. contribute_to_ranking c now user gift r = Ret (r', failure) \<and> ranking_inv r' \<and>
      same_identity q r' \<and> contributed c q r' failure"
  proof (cases res)
    case (Inl e)
    have "contribute_to_ranking c now user gift r =
        Ret (q\<lparr>rk_rejected := saturating_add (rk_rejected q) 1\<rparr>, Some e)"
      using adr q(1) Inl by (simp add: contribute_to_ranking_def addressed_def)
    then show ?thesis using ranking_inv_reject [OF qinv]
      by (simp add: contributed_def same_identity_def)
  next
    case (Inr u)
    show ?thesis
    proof (cases "c_option c = None \<and> has_vote_source (rk_definition q) \<or> ?sc = Inr 0")
      case True
      then have "contribute_to_ranking c now user gift r = Ret (q, None)"
        using adr q(1) Inr by (auto simp: contribute_to_ranking_def addressed_def)
      then show ?thesis using qinv True by (auto simp: contributed_def)
    next
      case False
      then have sc: "?sc \<noteq> Inr 0" by simp
      obtain r2 res2 where a: "account_contribution c user gift ?sc q = Ret (r2, res2)" "ranking_inv r2"
        "case res2 of Inl e \<Rightarrow> r2 = q | Inr _ \<Rightarrow> accounted c ?sc q r2"
        using account_contribution_spec [OF qinv sc] by blast
      show ?thesis
      proof (cases res2)
        case (Inl e)
        then have "contribute_to_ranking c now user gift r = Ret (reject_and_touch q, Some e)"
          using adr q(1) Inr False a by (auto simp: contribute_to_ranking_def addressed_def Let_def)
        then show ?thesis using ranking_inv_reject_and_touch [OF qinv] by (simp add: contributed_def)
      next
        case ok: (Inr v)
        then have "contribute_to_ranking c now user gift r = Ret (r2, None)"
          using adr q(1) Inr False a by (auto simp: contribute_to_ranking_def addressed_def Let_def)
        then show ?thesis using a ok False accounted_same_identity by (auto simp: contributed_def Let_def)
      qed
    qed
  qed
  then show ?thesis using q qid same_identity_trans by blast
qed

lemma contribute_to_ranking_total:
  assumes "ranking_inv r"
  shows "\<exists>r' failure. contribute_to_ranking c now user gift r = Ret (r', failure) \<and> ranking_inv r' \<and>
    same_identity r r' \<and> (failure \<noteq> None \<longrightarrow> 0 < rk_rejected r')"
proof (cases "addressed c r")
  case True
  from contribute_to_ranking_spec [OF assms this, of now user gift]
  show ?thesis by (fastforce simp: contributed_def saturating_add_pos)
next
  case False
  then show ?thesis using assms by (simp add: not_addressed)
qed

end
