(* ===== verification/Engine_Inv.thy ===== *)
theory Engine_Inv
  imports Contributions
begin

text \<open>
  The invariant of the whole engine: every ranking satisfies its own invariant and is stored under
  its id, and the index from sources to rankings lists exactly the rankings that use a source.
  Every operation keeps it, and no operation that starts from it aborts.
\<close>

section \<open>The source index\<close>

definition uses_source :: "ranking_definition \<Rightarrow> string \<Rightarrow> bool" where
  "uses_source d source \<longleftrightarrow> source \<in> sr_source ` set (rd_sources d)"

definition source_index_ok :: "(string, string list) hmap \<Rightarrow> (string \<Rightarrow> ranking_definition option) \<Rightarrow> bool" where
  "source_index_ok m defs \<longleftrightarrow> hm_wf m \<and>
     (\<forall>source. distinct (hm_get_or m source []) \<and> hm_get m source \<noteq> Some [] \<and>
        (\<forall>rid. rid \<in> set (hm_get_or m source []) \<longleftrightarrow>
           (\<exists>d. defs rid = Some d \<and> uses_source d source)))"

lemma hm_get_or_insert: "hm_get_or (hm_insert k v m) k' d = (if k' = k then v else hm_get_or m k' d)"
  by (simp add: hm_get_or_def hm_simps)

lemma hm_get_or_add_source:
  "hm_get_or (add_source rid source m) s [] =
     (if s = source \<and> rid \<notin> set (hm_get_or m s []) then hm_get_or m s [] @ [rid] else hm_get_or m s [])"
  by (auto simp: add_source_def Let_def hm_get_or_insert)

lemma index_sources_get:
  "set (hm_get_or (index_sources rid sources m) s []) =
     set (hm_get_or m s []) \<union> (if s \<in> sr_source ` set sources then {rid} else {}) \<and>
   (distinct (hm_get_or m s []) \<longrightarrow> distinct (hm_get_or (index_sources rid sources m) s [])) \<and>
   (hm_wf m \<longrightarrow> hm_wf (index_sources rid sources m)) \<and>
   (hm_get m s \<noteq> Some [] \<longrightarrow> hm_get (index_sources rid sources m) s \<noteq> Some [])"
proof (induction sources arbitrary: m)
  case (Cons rule sources)
  let ?m = "add_source rid (sr_source rule) m"
  have "hm_wf m \<longrightarrow> hm_wf ?m" by (simp add: add_source_def Let_def)
  moreover have "hm_get m s \<noteq> Some [] \<longrightarrow> hm_get ?m s \<noteq> Some []"
    by (auto simp: add_source_def Let_def hm_simps hm_get_or_def split: option.splits)
  moreover have "distinct (hm_get_or m s []) \<longrightarrow> distinct (hm_get_or ?m s [])"
    by (auto simp: hm_get_or_add_source)
  moreover have "set (hm_get_or ?m s []) = set (hm_get_or m s []) \<union> (if s = sr_source rule then {rid} else {})"
    by (auto simp: hm_get_or_add_source)
  ultimately show ?case using Cons.IH [of ?m]
    by (auto simp: index_sources_def)
qed (simp add: index_sources_def)

lemma unindex_keys: "hm_keys (unindex_sources rid m) \<subseteq> hm_keys m"
  by (force simp: unindex_sources_def)

lemma unindex_sources_get:
  assumes "hm_wf m"
  shows "hm_get (unindex_sources rid m) s =
    (case hm_get m s of None \<Rightarrow> None
     | Some ids \<Rightarrow> (let ids' = filter (\<lambda>x. x \<noteq> rid) ids in if ids' = [] then None else Some ids'))"
  using assms
proof (induction m)
  case (Cons p m)
  obtain source ids where p: "p = (source, ids)" by force
  have wf: "hm_wf m" and fresh: "source \<notin> hm_keys m" using Cons.prems p by (auto simp: hm_wf_def)
  have tail: "hm_get (unindex_sources rid m) source = None"
    using fresh unindex_keys [of rid m] by (auto simp: hm_get_None)
  show ?case
    using Cons.IH [OF wf] tail p
    by (cases "s = source") (auto simp: unindex_sources_def Let_def)
qed (simp add: unindex_sources_def)

lemma hm_wf_unindex:
  assumes "hm_wf m"
  shows "hm_wf (unindex_sources rid m)"
proof -
  have "map fst (map (\<lambda>(source, ids). (source, filter (\<lambda>x. x \<noteq> rid) ids)) m) = map fst m" by auto
  then show ?thesis using assms unfolding hm_wf_def unindex_sources_def
    by (metis distinct_map_filter)
qed

lemma hm_get_or_unindex:
  "hm_wf m \<Longrightarrow> hm_get_or (unindex_sources rid m) s [] = filter (\<lambda>x. x \<noteq> rid) (hm_get_or m s [])"
  by (simp add: hm_get_or_def unindex_sources_get Let_def split: option.split)

definition register_definition ::
  "string \<Rightarrow> ranking_definition \<Rightarrow> (string, string list) hmap \<Rightarrow> (string, string list) hmap" where
  "register_definition rid d = index_sources rid (rd_sources d)"

interpretation sources: registry register_definition unindex_sources source_index_ok "[]" "\<lambda>_ _. True"
proof unfold_locales
  show "source_index_ok [] (\<lambda>_. None)" by (simp add: source_index_ok_def hm_get_or_def)
next
  fix m defs rid d
  assume ok: "source_index_ok m defs" and new: "defs rid = None"
  show "source_index_ok (register_definition rid d m) (defs(rid := Some d))"
    using ok new index_sources_get [of rid "rd_sources d" m]
    by (auto simp: source_index_ok_def register_definition_def uses_source_def split: if_splits)
next
  fix m defs rid
  assume ok: "source_index_ok m defs"
  then have wf: "hm_wf m" by (simp add: source_index_ok_def)
  have "hm_get (unindex_sources rid m) s \<noteq> Some []" for s
    by (auto simp: unindex_sources_get [OF wf] Let_def split: option.splits)
  then show "source_index_ok (unindex_sources rid m) (defs(rid := None))"
    using ok by (auto simp: source_index_ok_def hm_wf_unindex hm_get_or_unindex)
qed

section \<open>The engine invariant\<close>

definition definitions_of :: "(string, ranking) hmap \<Rightarrow> string \<Rightarrow> ranking_definition option" where
  "definitions_of rs rid = map_option rk_definition (hm_get rs rid)"

definition rankings_ok :: "(string, ranking) hmap \<Rightarrow> bool" where
  "rankings_ok rs \<longleftrightarrow> hm_wf rs \<and> length rs \<le> 128 \<and>
     (\<forall>rid r. hm_get rs rid = Some r \<longrightarrow> rd_id (rk_definition r) = rid \<and> ranking_inv r)"

definition engine_inv :: "engine \<Rightarrow> bool" where
  "engine_inv e \<longleftrightarrow> rankings_ok (en_rankings e) \<and>
     source_index_ok (en_by_source e) (definitions_of (en_rankings e)) \<and>
     en_next_instance e \<le> u64_max"

lemma engine_inv_default: "engine_inv engine_default"
  using sources.follows_none
  by (simp add: engine_inv_def engine_default_def rankings_ok_def definitions_of_def [abs_def])

lemma rankings_ok_get: "rankings_ok rs \<Longrightarrow> hm_get rs rid = Some r \<Longrightarrow> ranking_inv r"
  by (simp add: rankings_ok_def)

lemma engine_inv_get: "engine_inv e \<Longrightarrow> hm_get (en_rankings e) rid = Some r \<Longrightarrow> ranking_inv r"
  by (auto simp: engine_inv_def intro: rankings_ok_get)

lemma definitions_of_insert:
  "definitions_of (hm_insert rid r rs) = (definitions_of rs)(rid := Some (rk_definition r))"
  by (simp add: fun_eq_iff definitions_of_def hm_simps)

lemma definitions_of_remove: "definitions_of (hm_remove rid rs) = (definitions_of rs)(rid := None)"
  by (simp add: fun_eq_iff definitions_of_def hm_simps)

text \<open>Replacing one ranking by one with the same definition.\<close>

lemma rankings_ok_put:
  assumes "rankings_ok rs" and "hm_get rs rid = Some r" and "ranking_inv r'"
    and "rk_definition r' = rk_definition r"
  shows "rankings_ok (hm_insert rid r' rs)" and "definitions_of (hm_insert rid r' rs) = definitions_of rs"
proof -
  have "rid \<in> hm_keys rs" using assms(2) by (rule hm_get_in_keys)
  then show "rankings_ok (hm_insert rid r' rs)"
    using assms by (auto simp: rankings_ok_def hm_simps hm_len_insert)
  show "definitions_of (hm_insert rid r' rs) = definitions_of rs"
    using assms(2,4) by (auto simp: definitions_of_insert fun_eq_iff definitions_of_def)
qed

lemma engine_inv_rankings:
  assumes "engine_inv e" and "rankings_ok rs" and "definitions_of rs = definitions_of (en_rankings e)"
  shows "engine_inv (e\<lparr>en_rankings := rs\<rparr>)"
  using assms by (simp add: engine_inv_def)

lemma engine_inv_put:
  assumes "engine_inv e" and "hm_get (en_rankings e) rid = Some r" and "ranking_inv r'"
    and "rk_definition r' = rk_definition r"
  shows "engine_inv (e\<lparr>en_rankings := hm_insert rid r' (en_rankings e)\<rparr>)"
proof (rule engine_inv_rankings [OF assms(1)])
  have "rankings_ok (en_rankings e)" using assms(1) by (simp add: engine_inv_def)
  from rankings_ok_put [OF this assms(2-4)]
  show "rankings_ok (hm_insert rid r' (en_rankings e))"
    and "definitions_of (hm_insert rid r' (en_rankings e)) = definitions_of (en_rankings e)" by simp_all
qed

lemma engine_inv_routed:
  assumes "engine_inv e"
  shows "rid \<in> set (hm_get_or (en_by_source e) source []) \<longleftrightarrow>
    (\<exists>r. hm_get (en_rankings e) rid = Some r \<and> uses_source (rk_definition r) source)"
  using assms by (auto simp: engine_inv_def source_index_ok_def definitions_of_def)

lemma engine_inv_ids:
  assumes "engine_inv e" and "hm_get (en_by_source e) source = Some ids"
  shows "distinct ids" and "ids \<noteq> []" and "\<forall>rid \<in> set ids. hm_has (en_rankings e) rid"
proof -
  have "hm_get_or (en_by_source e) source [] = ids" using assms(2) by (simp add: hm_get_or_def)
  then show "distinct ids" and "ids \<noteq> []" and "\<forall>rid \<in> set ids. hm_has (en_rankings e) rid"
    using assms engine_inv_routed [OF assms(1), of _ source]
    by (auto simp: engine_inv_def source_index_ok_def hm_has_def)
qed

end
