(* ===== verification/Engine_Steps.thy ===== *)
theory Engine_Steps
  imports Engine_Inv
begin

text \<open>
  Every operation of the engine keeps the engine invariant; the ones that contain an \<open>expect\<close> never
  abort under it. What a contribution does to the whole engine is stated per ranking.
\<close>

section \<open>Contributions\<close>

lemma contribute_to_all_spec:
  assumes "rankings_ok rs" and "distinct ids" and "\<forall>rid \<in> set ids. hm_has rs rid"
  shows "\<exists>rs' fs. contribute_to_all c now user gift ids rs = Ret (rs', fs) \<and> rankings_ok rs' \<and>
    definitions_of rs' = definitions_of rs \<and> hm_keys rs' = hm_keys rs \<and>
    (\<forall>rid. rid \<notin> set ids \<longrightarrow> hm_get rs' rid = hm_get rs rid) \<and>
    (\<forall>rid r. rid \<in> set ids \<longrightarrow> hm_get rs rid = Some r \<longrightarrow>
       (\<exists>r' f. contribute_to_ranking c now user gift r = Ret (r', f) \<and> hm_get rs' rid = Some r' \<and>
          (\<forall>e. (rid, e) \<in> set fs \<longleftrightarrow> f = Some e))) \<and>
    fst ` set fs \<subseteq> set ids"
  using assms
proof (induction ids arbitrary: rs)
  case Nil
  then show ?case by simp
next
  case (Cons rid ids)
  then obtain r where r: "hm_get rs rid = Some r" by (auto simp: hm_has_def)
  obtain r' f where step: "contribute_to_ranking c now user gift r = Ret (r', f)" "ranking_inv r'"
      "same_identity r r'"
    using contribute_to_ranking_total [OF rankings_ok_get [OF Cons.prems(1) r]] by blast
  let ?rs = "hm_insert rid r' rs"
  have d: "rk_definition r' = rk_definition r" using step(3) by (simp add: same_identity_def)
  have ok: "rankings_ok ?rs" "definitions_of ?rs = definitions_of rs"
    using rankings_ok_put [OF Cons.prems(1) r step(2) d] by simp_all
  have keys: "hm_keys ?rs = hm_keys rs"
    using hm_get_in_keys [OF r] by (auto simp: hm_keys_insert)
  have "\<forall>x \<in> set ids. hm_has ?rs x" using Cons.prems(3) by (simp add: hm_has_def hm_simps)
  then obtain rs' fs where IH: "contribute_to_all c now user gift ids ?rs = Ret (rs', fs)"
    "rankings_ok rs'" "definitions_of rs' = definitions_of ?rs" "hm_keys rs' = hm_keys ?rs"
    "\<forall>x. x \<notin> set ids \<longrightarrow> hm_get rs' x = hm_get ?rs x"
    "\<forall>x q. x \<in> set ids \<longrightarrow> hm_get ?rs x = Some q \<longrightarrow>
       (\<exists>q' g. contribute_to_ranking c now user gift q = Ret (q', g) \<and> hm_get rs' x = Some q' \<and>
          (\<forall>e. (x, e) \<in> set fs \<longleftrightarrow> g = Some e))"
    "fst ` set fs \<subseteq> set ids"
    using Cons.IH [OF ok(1)] Cons.prems(2) by auto
  let ?fs = "(case f of None \<Rightarrow> [] | Some e \<Rightarrow> [(rid, e)]) @ fs"
  have run: "contribute_to_all c now user gift (rid # ids) rs = Ret (rs', ?fs)"
    using r step(1) IH(1) by simp
  have fresh: "rid \<notin> set ids" using Cons.prems(2) by simp
  have other: "x \<notin> set (rid # ids) \<Longrightarrow> hm_get rs' x = hm_get rs x" for x
    using IH(5) by (simp add: hm_simps)
  have each: "\<exists>q' g. contribute_to_ranking c now user gift q = Ret (q', g) \<and> hm_get rs' x = Some q' \<and>
      (\<forall>e. (x, e) \<in> set ?fs \<longleftrightarrow> g = Some e)" if "x \<in> set (rid # ids)" "hm_get rs x = Some q" for x q
  proof (cases "x = rid")
    case True
    moreover have "(rid, e) \<notin> set fs" for e using IH(7) fresh by force
    ultimately show ?thesis using that r step(1) IH(5) fresh
      by (auto simp: hm_simps split: option.splits)
  next
    case False
    then have "x \<in> set ids" "hm_get ?rs x = Some q" using that by (simp_all add: hm_simps)
    then show ?thesis using IH(6) False by (fastforce split: option.splits)
  qed
  have sub: "fst ` set ?fs \<subseteq> set (rid # ids)" using IH(7) by (auto split: option.splits)
  show ?case
    using run IH(2-4) ok keys other each sub by (intro exI [of _ rs'] exI [of _ ?fs]) simp
qed

text \<open>
  A contribution reaches exactly the rankings that use its source; each takes the step of the loop
  body, the others are untouched, and the reported failures are those of the steps.
\<close>

lemma apply_at_with_metadata_spec:
  assumes inv: "engine_inv e"
  shows "\<exists>e' fs. apply_at_with_metadata c now user gift e = Ret (e', fs) \<and> engine_inv e' \<and>
    definitions_of (en_rankings e') = definitions_of (en_rankings e) \<and>
    (\<forall>rid r. hm_get (en_rankings e) rid = Some r \<longrightarrow>
      (if uses_source (rk_definition r) (c_source c)
       then \<exists>r' f. contribute_to_ranking c now user gift r = Ret (r', f) \<and>
              hm_get (en_rankings e') rid = Some r' \<and> (\<forall>x. (rid, x) \<in> set fs \<longleftrightarrow> f = Some x)
       else hm_get (en_rankings e') rid = Some r \<and> (\<forall>x. (rid, x) \<notin> set fs)))"
proof (cases "hm_get (en_by_source e) (c_source c)")
  case None
  then have "\<not> uses_source (rk_definition r) (c_source c)" if "hm_get (en_rankings e) rid = Some r" for rid r
    using engine_inv_routed [OF inv, of rid "c_source c"] that by (simp add: hm_get_or_def)
  then show ?thesis using None inv by (simp add: apply_at_with_metadata_def)
next
  case (Some ids)
  then have routed: "rid \<in> set ids \<longleftrightarrow>
      (\<exists>r. hm_get (en_rankings e) rid = Some r \<and> uses_source (rk_definition r) (c_source c))" for rid
    using engine_inv_routed [OF inv, of rid "c_source c"] by (simp add: hm_get_or_def)
  have ok: "rankings_ok (en_rankings e)" using inv by (simp add: engine_inv_def)
  obtain rs fs where s: "contribute_to_all c now user gift ids (en_rankings e) = Ret (rs, fs)"
    "rankings_ok rs" "definitions_of rs = definitions_of (en_rankings e)"
    "\<forall>rid. rid \<notin> set ids \<longrightarrow> hm_get rs rid = hm_get (en_rankings e) rid"
    "\<forall>rid r. rid \<in> set ids \<longrightarrow> hm_get (en_rankings e) rid = Some r \<longrightarrow>
       (\<exists>r' f. contribute_to_ranking c now user gift r = Ret (r', f) \<and> hm_get rs rid = Some r' \<and>
          (\<forall>e. (rid, e) \<in> set fs \<longleftrightarrow> f = Some e))"
    "fst ` set fs \<subseteq> set ids"
    using contribute_to_all_spec [OF ok engine_inv_ids(1,3) [OF inv Some], of c now user gift]
    by (elim exE conjE) (rule that)
  have run: "apply_at_with_metadata c now user gift e = Ret (e\<lparr>en_rankings := rs\<rparr>, fs)"
    using Some s(1) by (simp add: apply_at_with_metadata_def)
  have einv: "engine_inv (e\<lparr>en_rankings := rs\<rparr>)" using engine_inv_rankings [OF inv s(2,3)] .
  have each: "if uses_source (rk_definition r) (c_source c)
      then \<exists>r' f. contribute_to_ranking c now user gift r = Ret (r', f) \<and>
             hm_get rs rid = Some r' \<and> (\<forall>x. (rid, x) \<in> set fs \<longleftrightarrow> f = Some x)
      else hm_get rs rid = Some r \<and> (\<forall>x. (rid, x) \<notin> set fs)"
    if g: "hm_get (en_rankings e) rid = Some r" for rid r
  proof (cases "uses_source (rk_definition r) (c_source c)")
    case True
    then have "rid \<in> set ids" using routed g by blast
    then show ?thesis using s(5) g True by simp
  next
    case False
    then have out: "rid \<notin> set ids" using routed g by auto
    then have "(rid, x) \<notin> set fs" for x using s(6) by force
    moreover have "hm_get rs rid = Some r" using s(4) out g by simp
    ultimately show ?thesis using False by simp
  qed
  have sel: "en_rankings (e\<lparr>en_rankings := rs\<rparr>) = rs" by simp
  show ?thesis
    by (rule exI [of _ "e\<lparr>en_rankings := rs\<rparr>"], rule exI [of _ fs], unfold sel,
        intro conjI allI impI run einv s(3) each)
qed

lemma apply_at_used:
  assumes "engine_inv e" and "apply_at_with_metadata c now user gift e = Ret (e', fs)"
    and "hm_get (en_rankings e) rid = Some r" and "uses_source (rk_definition r) (c_source c)"
  obtains r' f where "contribute_to_ranking c now user gift r = Ret (r', f)"
    and "hm_get (en_rankings e') rid = Some r'" and "\<forall>x. (rid, x) \<in> set fs \<longleftrightarrow> f = Some x"
proof -
  obtain e1 fs1 where s: "apply_at_with_metadata c now user gift e = Ret (e1, fs1)"
    "\<forall>rid r. hm_get (en_rankings e) rid = Some r \<longrightarrow>
      (if uses_source (rk_definition r) (c_source c)
       then \<exists>r' f. contribute_to_ranking c now user gift r = Ret (r', f) \<and>
              hm_get (en_rankings e1) rid = Some r' \<and> (\<forall>x. (rid, x) \<in> set fs1 \<longleftrightarrow> f = Some x)
       else hm_get (en_rankings e1) rid = Some r \<and> (\<forall>x. (rid, x) \<notin> set fs1))"
    using apply_at_with_metadata_spec [OF assms(1), of c now user gift] by (elim exE conjE) (rule that)
  have "e1 = e'" "fs1 = fs" using s(1) assms(2) by simp_all
  then show thesis using s(2) [rule_format, OF assms(3)] assms(4) that by auto
qed

lemma apply_at_unused:
  assumes "engine_inv e" and "apply_at_with_metadata c now user gift e = Ret (e', fs)"
    and "hm_get (en_rankings e) rid = Some r" and "\<not> uses_source (rk_definition r) (c_source c)"
  shows "hm_get (en_rankings e') rid = Some r \<and> (\<forall>x. (rid, x) \<notin> set fs)"
proof -
  obtain e1 fs1 where s: "apply_at_with_metadata c now user gift e = Ret (e1, fs1)"
    "\<forall>rid r. hm_get (en_rankings e) rid = Some r \<longrightarrow>
      (if uses_source (rk_definition r) (c_source c)
       then \<exists>r' f. contribute_to_ranking c now user gift r = Ret (r', f) \<and>
              hm_get (en_rankings e1) rid = Some r' \<and> (\<forall>x. (rid, x) \<in> set fs1 \<longleftrightarrow> f = Some x)
       else hm_get (en_rankings e1) rid = Some r \<and> (\<forall>x. (rid, x) \<notin> set fs1))"
    using apply_at_with_metadata_spec [OF assms(1), of c now user gift] by (elim exE conjE) (rule that)
  have "e1 = e'" "fs1 = fs" using s(1) assms(2) by simp_all
  then show ?thesis using s(2) [rule_format, OF assms(3)] assms(4) by simp
qed

lemma engine_inv_apply:
  assumes "engine_inv e"
  shows "\<exists>e' fs. apply_at_with_metadata c now user gift e = Ret (e', fs) \<and> engine_inv e'"
  using apply_at_with_metadata_spec [OF assms, of c now user gift] by blast

section \<open>Expiry and gaps\<close>

lemma expire_all_spec:
  assumes "\<forall>p \<in> set rs. ranking_inv (snd p)"
  shows "\<exists>rs'. expire_all now rs = Ret rs' \<and> map fst rs' = map fst rs \<and>
    map (\<lambda>p. rk_definition (snd p)) rs' = map (\<lambda>p. rk_definition (snd p)) rs \<and> (\<forall>p \<in> set rs'. ranking_inv (snd p))"
  using assms
proof (induction rs)
  case (Cons p rs)
  obtain rid r where p: "p = (rid, r)" by force
  obtain r1 res where e: "expire_ranking now r = Ret (r1, res)" "expired_ranking now r r1"
    using expire_ranking_inv [of r now] Cons.prems p by auto
  obtain rs' where IH: "expire_all now rs = Ret rs'" "map fst rs' = map fst rs"
    "map (\<lambda>p. rk_definition (snd p)) rs' = map (\<lambda>p. rk_definition (snd p)) rs" "\<forall>p \<in> set rs'. ranking_inv (snd p)"
    using Cons.IH Cons.prems by auto
  have "ranking_inv r1" "rk_definition r1 = rk_definition r" using e(2) by (rule expired_rankingD)+
  then show ?case using p e(1) IH by (simp add: ranking_inv_reject del: One_nat_def)
qed simp

text \<open>Rankings changed in place, in iteration order, keep the map's shape.\<close>

lemma rankings_ok_pointwise:
  assumes ok: "rankings_ok rs" and keys: "map fst rs' = map fst rs"
    and defs: "map (\<lambda>p. rk_definition (snd p)) rs' = map (\<lambda>p. rk_definition (snd p)) rs"
    and inv: "\<forall>p \<in> set rs'. ranking_inv (snd p)"
  shows "rankings_ok rs'" and "definitions_of rs' = definitions_of rs"
proof -
  have len: "length rs' = length rs" using keys by (metis length_map)
  have get: "map_option rk_definition (hm_get rs' k) = map_option rk_definition (hm_get rs k)" for k
    using len keys defs by (induction rs' rs rule: list_induct2) auto
  then show d: "definitions_of rs' = definitions_of rs" by (simp add: fun_eq_iff definitions_of_def)
  have "rd_id (rk_definition r) = rid \<and> ranking_inv r" if g: "hm_get rs' rid = Some r" for rid r
  proof -
    obtain q where "hm_get rs rid = Some q" "rk_definition q = rk_definition r"
      using get [of rid] g by (cases "hm_get rs rid") auto
    moreover have "(rid, r) \<in> set rs'" using g by (rule map_of_SomeD)
    moreover have "rd_id (rk_definition q) = rid"
      using ok calculation(1) by (simp add: rankings_ok_def)
    ultimately show ?thesis using inv by auto
  qed
  then show "rankings_ok rs'" using ok keys len by (simp add: rankings_ok_def hm_wf_def)
qed

lemma rankings_ok_all: "rankings_ok rs \<Longrightarrow> p \<in> set rs \<Longrightarrow> ranking_inv (snd p)"
  by (cases p) (auto simp: rankings_ok_def hm_get_Some_set)

lemma engine_inv_expire_at:
  assumes inv: "engine_inv e"
  shows "\<exists>e'. expire_at now e = Ret e' \<and> engine_inv e'"
proof -
  have ok: "rankings_ok (en_rankings e)" using inv by (simp add: engine_inv_def)
  then obtain rs where rs: "expire_all now (en_rankings e) = Ret rs" "map fst rs = map fst (en_rankings e)"
    "map (\<lambda>p. rk_definition (snd p)) rs = map (\<lambda>p. rk_definition (snd p)) (en_rankings e)"
    "\<forall>p \<in> set rs. ranking_inv (snd p)"
    using expire_all_spec [of "en_rankings e" now] rankings_ok_all by blast
  then show ?thesis
    using engine_inv_rankings [OF inv rankings_ok_pointwise [OF ok rs(2-4)]]
    by (simp add: expire_at_def)
qed

lemma engine_inv_ingress_loss:
  assumes inv: "engine_inv e"
  shows "engine_inv (mark_ingress_loss n e)"
proof (cases "n = 0")
  case False
  let ?f = "\<lambda>r. if rk_paused r then r
    else r\<lparr>rk_dropped := saturating_add (rk_dropped r) n, rk_state := fst (aggregation_touch (rk_state r))\<rparr>"
  let ?rs = "map (\<lambda>(rid, r). (rid, ?f r)) (en_rankings e)"
  have ok: "rankings_ok (en_rankings e)" using inv by (simp add: engine_inv_def)
  have f: "ranking_inv r \<Longrightarrow> ranking_inv (?f r)" for r
    using ranking_inv_touch [OF ranking_inv_counters(2), of r "saturating_add (rk_dropped r) n"] by simp
  have "map fst ?rs = map fst (en_rankings e)" by auto
  moreover have "map (\<lambda>p. rk_definition (snd p)) ?rs = map (\<lambda>p. rk_definition (snd p)) (en_rankings e)" by auto
  moreover have "\<forall>p \<in> set ?rs. ranking_inv (snd p)"
    using rankings_ok_all [OF ok] f by fastforce
  ultimately show ?thesis
    using engine_inv_rankings [OF inv rankings_ok_pointwise [OF ok]] False
    by (simp add: mark_ingress_loss_def)
qed (simp add: mark_ingress_loss_def inv)

lemma mark_where_spec:
  assumes "rankings_ok rs" and "distinct ids" and "\<forall>rid \<in> set ids. hm_has rs rid"
  shows "\<exists>rs'. mark_where P ids rs = Ret rs' \<and> rankings_ok rs' \<and>
    definitions_of rs' = definitions_of rs \<and>
    (\<forall>rid r. hm_get rs rid = Some r \<longrightarrow>
       hm_get rs' rid = Some (if rid \<in> set ids \<and> P r then reject_and_touch r else r))"
  using assms
proof (induction ids arbitrary: rs)
  case (Cons rid ids)
  then obtain r where r: "hm_get rs rid = Some r" by (auto simp: hm_has_def)
  let ?rs = "if P r then hm_insert rid (reject_and_touch r) rs else rs"
  have "ranking_inv (reject_and_touch r)"
    using ranking_inv_reject_and_touch [OF rankings_ok_get [OF Cons.prems(1) r]] .
  then have ok: "rankings_ok ?rs" "definitions_of ?rs = definitions_of rs"
    using rankings_ok_put [OF Cons.prems(1) r, of "reject_and_touch r"] Cons.prems(1) by simp_all
  have "\<forall>x \<in> set ids. hm_has ?rs x" using Cons.prems(3) by (simp add: hm_has_def hm_simps)
  then obtain rs' where IH: "mark_where P ids ?rs = Ret rs'" "rankings_ok rs'"
    "definitions_of rs' = definitions_of ?rs"
    "\<forall>x q. hm_get ?rs x = Some q \<longrightarrow>
       hm_get rs' x = Some (if x \<in> set ids \<and> P q then reject_and_touch q else q)"
    using Cons.IH [OF ok(1)] Cons.prems(2) by auto
  have "hm_get rs' x = Some (if x \<in> set (rid # ids) \<and> P q then reject_and_touch q else q)"
    if "hm_get rs x = Some q" for x q
  proof (cases "x = rid")
    case True
    then have "hm_get ?rs x = Some (if P q then reject_and_touch q else q)"
      using that r by (simp add: hm_simps)
    then show ?thesis using IH(4) True Cons.prems(2) by auto
  next
    case False
    then have "hm_get ?rs x = Some q" using that by (simp add: hm_simps)
    then show ?thesis using IH(4) False by simp
  qed
  then show ?case using r IH(1-3) ok(2) by simp
qed simp

lemma mark_where_engine:
  assumes inv: "engine_inv e" and ids: "hm_get (en_by_source e) source = Some ids"
  shows "\<exists>rs. mark_where P ids (en_rankings e) = Ret rs \<and> engine_inv (e\<lparr>en_rankings := rs\<rparr>) \<and>
    (\<forall>rid r. hm_get (en_rankings e) rid = Some r \<longrightarrow>
       hm_get rs rid = Some (if uses_source (rk_definition r) source \<and> P r then reject_and_touch r else r))"
proof -
  have ok: "rankings_ok (en_rankings e)" using inv by (simp add: engine_inv_def)
  have routed: "rid \<in> set ids \<longleftrightarrow>
      (\<exists>r. hm_get (en_rankings e) rid = Some r \<and> uses_source (rk_definition r) source)" for rid
    using engine_inv_routed [OF inv, of rid source] ids by (simp add: hm_get_or_def)
  obtain rs where "mark_where P ids (en_rankings e) = Ret rs" "rankings_ok rs"
    "definitions_of rs = definitions_of (en_rankings e)"
    "\<forall>rid r. hm_get (en_rankings e) rid = Some r \<longrightarrow>
       hm_get rs rid = Some (if rid \<in> set ids \<and> P r then reject_and_touch r else r)"
    using mark_where_spec [OF ok engine_inv_ids(1,3) [OF inv ids]] by blast
  then show ?thesis using routed engine_inv_rankings [OF inv] by auto
qed

lemma mark_gap_spec:
  assumes inv: "engine_inv e"
  shows "\<exists>e'. mark_gap creator room source e = Ret e' \<and> engine_inv e' \<and>
    (\<forall>rid r. hm_get (en_rankings e) rid = Some r \<longrightarrow> hm_get (en_rankings e') rid =
       Some (if gap_affects creator room source
                  (\<lambda>rule. sr_enabled rule \<and> sr_source rule = source) r then reject_and_touch r else r))"
proof -
  let ?P = "gap_affects creator room source (\<lambda>rule. sr_enabled rule \<and> sr_source rule = source)"
  have uses: "?P r \<Longrightarrow> uses_source (rk_definition r) source" for r
    by (auto simp: gap_affects_def uses_source_def list_ex_iff)
  show ?thesis
  proof (cases "hm_get (en_by_source e) source")
    case None
    then have "\<not> ?P r" if "hm_get (en_rankings e) rid = Some r" for rid r
      using engine_inv_routed [OF inv, of rid source] that uses by (auto simp: hm_get_or_def)
    then show ?thesis using None inv by (auto simp: mark_gap_def)
  next
    case (Some ids)
    from mark_where_engine [OF inv this, of ?P] Some uses show ?thesis
      by (fastforce simp: mark_gap_def)
  qed
qed

lemma engine_inv_metric_gap:
  assumes inv: "engine_inv e"
  shows "\<exists>e'. mark_metric_gap creator room source metric e = Ret e' \<and> engine_inv e'"
proof (cases "hm_get (en_by_source e) source")
  case (Some ids)
  from mark_where_engine [OF inv this, of "gap_affects creator room source
      (\<lambda>rule. sr_enabled rule \<and> sr_weight rule > 0 \<and> sr_source rule = source \<and> sr_metric rule = metric)"] Some
  show ?thesis by (auto simp: mark_metric_gap_def)
qed (simp add: mark_metric_gap_def inv)

section \<open>Creation, update and removal\<close>

text \<open>The instance counter bounds how often \<open>create\<close> may succeed; below its end all goes well.\<close>

lemma engine_inv_create:
  assumes inv: "engine_inv e" and counter: "en_next_instance e < u64_max"
    and identity: "\<forall>bytes. identity = Some bytes \<longrightarrow> length bytes = 16"
  shows "engine_inv (fst (engine_create identity d e))"
proof (cases "snd (engine_create identity d e) = Inr ()")
  case False
  then have "fst (engine_create identity d e) = e"
    using counter by (auto simp: engine_create_def Let_def checked_add_def split: if_splits option.splits)
  then show ?thesis using inv by simp
next
  case True
  then obtain bytes where c: "length (en_rankings e) < 128" "\<not> definition_invalid d"
    "hm_get (en_rankings e) (rd_id d) = None" "identity = Some bytes"
    by (auto simp: engine_create_def Let_def hm_has_def split: if_splits option.splits)
  let ?r = "ranking_new d (en_next_instance e + 1) (hex_bytes bytes)"
  let ?rs = "hm_insert (rd_id d) ?r (en_rankings e)"
  have e': "fst (engine_create identity d e) = e\<lparr>en_next_instance := en_next_instance e + 1,
      en_rankings := ?rs,
      en_by_source := register_definition (rd_id d) d (en_by_source e)\<rparr>"
    using c counter
    by (simp add: engine_create_def Let_def checked_add_def register_definition_def hm_has_def)
  have d: "rk_definition ?r = d" by (simp add: ranking_new_def)
  have rinv: "ranking_inv ?r"
    using c(2) hex_identity_hex_bytes identity c(4) by (intro ranking_inv_new) simp_all
  have "rd_id d \<notin> hm_keys (en_rankings e)" using c(3) by (simp add: hm_get_None)
  then have ok: "rankings_ok ?rs"
    using inv c(1) rinv d
    by (auto simp: engine_inv_def rankings_ok_def hm_len_insert hm_simps)
  have fresh: "definitions_of (en_rankings e) (rd_id d) = None"
    using c(3) by (simp add: definitions_of_def)
  have "source_index_ok (register_definition (rd_id d) d (en_by_source e)) (definitions_of ?rs)"
    unfolding definitions_of_insert d
    using inv fresh by (intro sources.follows_register) (simp_all add: engine_inv_def)
  then show ?thesis unfolding e' using ok counter by (simp add: engine_inv_def)
qed

lemma engine_inv_remove:
  assumes inv: "engine_inv e"
  shows "engine_inv (fst (engine_remove rid e))"
proof (cases "hm_get (en_rankings e) rid = None")
  case False
  have "rankings_ok (hm_remove rid (en_rankings e))"
    using inv length_delete_le [of rid "en_rankings e"]
    by (auto simp: engine_inv_def rankings_ok_def hm_simps split: if_splits)
  moreover have "source_index_ok (unindex_sources rid (en_by_source e))
      (definitions_of (hm_remove rid (en_rankings e)))"
    unfolding definitions_of_remove using sources.follows_unregister inv by (simp add: engine_inv_def)
  ultimately show ?thesis using inv False by (simp add: engine_remove_def engine_inv_def)
qed (simp add: engine_remove_def inv)

lemma validate_update_Inr:
  assumes "validate_update identity d reset e = Inr u"
  shows "\<exists>r. hm_get (en_rankings e) (rd_id d) = Some r \<and> \<not> definition_invalid d \<and> rk_paused r \<and>
    (reset \<or> (rk_definition r)\<lparr>rd_limit := rd_limit d\<rparr> = d) \<and> ag_revision (rk_state r) \<noteq> u64_max"
  using assms
  by (auto simp: validate_update_def engine_create_def Let_def split: sum.splits option.splits if_splits)

lemma ranking_inv_cleared:
  assumes inv: "ranking_inv r" and new: "\<not> definition_invalid d"
    and reset: "aggregation_reset (rk_state r) = (s, Inr u)"
  shows "ranking_inv ((clear_accounting (r\<lparr>rk_state := aggregation_set_capacity (rd_capacity d) s\<rparr>))
    \<lparr>rk_definition := d\<rparr>)"
proof -
  have s: "ag_scores s = []" using aggregation_reset_Inr [OF reset] by simp
  have "agg_inv (aggregation_set_capacity (rd_capacity d) s)"
    using agg_inv_restart [OF ranking_inv_state [OF inv]] reset by (cases u) simp
  moreover have "scores_of (aggregation_set_capacity (rd_capacity d) s) = (\<lambda>_. 0)"
    using s by (intro scores_of_empty) (simp add: aggregation_set_capacity_def)
  moreover have "window_ok w [] 0 (\<lambda>_. 0)" for w by (cases w) (simp_all add: fun_eq_iff)
  ultimately show ?thesis using inv new s
    by (simp add: ranking_inv_def clear_accounting_def aggregation_set_capacity_def)
qed

lemma ranking_inv_limit:
  assumes inv: "ranking_inv r" and new: "\<not> definition_invalid d"
    and d: "(rk_definition r)\<lparr>rd_limit := rd_limit d\<rparr> = d"
  shows "ranking_inv (r\<lparr>rk_definition := d\<rparr>)"
proof -
  have "rd_window d = rd_window (rk_definition r)" "rd_user_limits d = rd_user_limits (rk_definition r)"
    "rd_capacity d = rd_capacity (rk_definition r)"
    using d by (cases "rk_definition r"; cases d; simp)+
  then show ?thesis using inv new by (simp add: ranking_inv_def)
qed

lemma engine_inv_update:
  assumes inv: "engine_inv e"
  shows "\<exists>e' res. engine_update identity d reset e = Ret (e', res) \<and> engine_inv e' \<and>
    (is_ok res \<longrightarrow> definitions_of (en_rankings e') = (definitions_of (en_rankings e))(rd_id d := Some d)) \<and>
    (\<not> is_ok res \<longrightarrow> e' = e)"
proof (cases "validate_update identity d reset e")
  case (Inl err)
  then show ?thesis using inv by (simp add: engine_update_def)
next
  case (Inr u)
  then obtain r where r: "hm_get (en_rankings e) (rd_id d) = Some r" "\<not> definition_invalid d"
    "reset \<or> (rk_definition r)\<lparr>rd_limit := rd_limit d\<rparr> = d" "ag_revision (rk_state r) \<noteq> u64_max"
    using validate_update_Inr by blast
  have rinv: "ranking_inv r" using engine_inv_get [OF inv r(1)] .
  then have room: "ag_revision (rk_state r) + 1 \<le> u64_max"
    using agg_inv_revision [OF ranking_inv_state] r(4) by fastforce
  define m where "m = register_definition (rd_id d) d (unindex_sources (rd_id d) (en_by_source e))"
  have "\<exists>r'. engine_update identity d reset e =
      Ret (e\<lparr>en_by_source := m, en_rankings := hm_insert (rd_id d) r' (en_rankings e)\<rparr>, Inr ()) \<and>
      ranking_inv r' \<and> rk_definition r' = d"
  proof (cases reset)
    case True
    obtain s where s: "aggregation_reset (rk_state r) = (s, Inr ())"
      using room by (simp add: aggregation_reset_def checked_add_def)
    let ?r = "(clear_accounting (r\<lparr>rk_state := aggregation_set_capacity (rd_capacity d) s\<rparr>))
        \<lparr>rk_definition := d\<rparr>"
    have "engine_update identity d reset e =
        Ret (e\<lparr>en_by_source := m, en_rankings := hm_insert (rd_id d) ?r (en_rankings e)\<rparr>, Inr ())"
      using True Inr r(1) s by (simp add: engine_update_def Let_def m_def register_definition_def)
    then show ?thesis using ranking_inv_cleared [OF rinv r(2) s] by (intro exI [of _ ?r]) simp
  next
    case False
    obtain s where s: "aggregation_touch (rk_state r) = (s, Inr ())"
      using room by (simp add: aggregation_touch_def checked_add_def)
    have "ranking_inv (r\<lparr>rk_state := s\<rparr>)" using ranking_inv_touch [OF rinv] s by simp
    then have "ranking_inv (r\<lparr>rk_state := s, rk_definition := d\<rparr>)"
      using ranking_inv_limit [of "r\<lparr>rk_state := s\<rparr>" d] r(2,3) False by simp
    moreover have "engine_update identity d reset e = Ret (e\<lparr>en_by_source := m,
        en_rankings := hm_insert (rd_id d) (r\<lparr>rk_state := s, rk_definition := d\<rparr>) (en_rankings e)\<rparr>, Inr ())"
      using False Inr r(1) s by (simp add: engine_update_def Let_def m_def register_definition_def)
    ultimately show ?thesis by (intro exI [of _ "r\<lparr>rk_state := s, rk_definition := d\<rparr>"]) simp
  qed
  then obtain r' where e': "engine_update identity d reset e =
      Ret (e\<lparr>en_by_source := m, en_rankings := hm_insert (rd_id d) r' (en_rankings e)\<rparr>, Inr ())"
    and r': "ranking_inv r'" "rk_definition r' = d" by blast
  have "rd_id d \<in> hm_keys (en_rankings e)" using r(1) by (rule hm_get_in_keys)
  then have "rankings_ok (hm_insert (rd_id d) r' (en_rankings e))"
    using inv r' by (auto simp: engine_inv_def rankings_ok_def hm_simps hm_len_insert)
  moreover have "source_index_ok m (definitions_of (hm_insert (rd_id d) r' (en_rankings e)))"
    unfolding definitions_of_insert r' m_def
    using inv by (intro sources.follows_replace) (simp_all add: engine_inv_def)
  ultimately have "engine_inv (e\<lparr>en_by_source := m, en_rankings := hm_insert (rd_id d) r' (en_rankings e)\<rparr>)"
    using inv by (simp add: engine_inv_def)
  then show ?thesis using e' r' by (simp add: definitions_of_insert)
qed

end
