(* ===== verification/Engine_Machine.thy ===== *)
theory Engine_Machine
  imports Engine_Steps
begin

text \<open>
  The durable command-vote projection (assignments, restored totals, committed scores), the control
  operations, and the engine as a machine: every sequence of operations keeps the engine invariant
  and none of them aborts.
\<close>

section \<open>Assignments\<close>

lemma assignment_weight_session:
  assumes "assignment_weight d = Inr w"
  shows "rd_window d = Session" and "rd_user_limits d = None" and "rd_group_by d = ByOption"
  using assms by (auto simp: assignment_weight_def split: if_splits)

lemma ranking_inv_session_state:
  assumes inv: "ranking_inv r" and w: "assignment_weight (rk_definition r) = Inr w"
    and s: "agg_inv s" "ag_capacity s = rd_capacity (rk_definition r)"
  shows "ranking_inv (r\<lparr>rk_state := s\<rparr>)"
  using inv assignment_weight_session [OF w] s by (simp add: ranking_inv_def)

lemma aggregation_capacity_ops [simp]:
  "ag_capacity (fst (aggregation_apply k d w a)) = ag_capacity a"
  "ag_capacity (fst (aggregation_reassign f t n x a)) = ag_capacity a"
  by (auto simp: aggregation_apply_def aggregation_reassign_def Let_def split: option.split)

lemma assign_votes_inv:
  assumes "agg_inv a" and "assign_votes weight old new a = Inr (s, res)"
  shows "agg_inv s" and "ag_capacity s = ag_capacity a"
proof -
  have "s = a \<or> (\<exists>k d w. s = fst (aggregation_apply k d w a)) \<or>
      (\<exists>f t n x. s = fst (aggregation_reassign f t n x a))"
    using assms(2)
    by (auto simp: assign_votes_def split: prod.splits option.splits if_splits) (metis fst_conv)+
  then show "agg_inv s" and "ag_capacity s = ag_capacity a"
    using assms(1) agg_inv_apply agg_inv_reassign by auto
qed

text \<open>
  An accepted transition takes the old weighted votes off the old option and puts the new ones on
  the new option; \<open>moved\<close> is that intent, and it needs the old votes to be there.
\<close>

definition moved :: "u64 \<Rightarrow> string \<times> u64 \<Rightarrow> string \<times> u64 \<Rightarrow> (string \<Rightarrow> nat) \<Rightarrow> string \<Rightarrow> nat" where
  "moved weight old new sc k =
     sc k - (if k = fst old then snd old * weight else 0) + (if k = fst new then snd new * weight else 0)"

lemma assign_votes_effect:
  assumes inv: "agg_inv a" and run: "assign_votes weight old new a = Inr (s, Inr ())"
    and there: "snd old * weight \<le> scores_of a (fst old)"
  shows "scores_of s = moved weight old new (scores_of a) \<and> snd old \<le> snd new"
proof -
  obtain oo ov where old: "old = (oo, ov)" by force
  obtain opt v where new: "new = (opt, v)" by force
  have le: "ov \<le> v" using run old new
    by (auto simp: assign_votes_def checked_sub_def split: if_splits)
  then have split: "v * weight = ov * weight + (v - ov) * weight"
    by (simp flip: add_mult_distrib)
  show ?thesis
  proof (cases "oo = opt")
    case True
    then have "aggregation_apply opt (v - ov) weight a = (s, Inr ())"
      using run old new le by (simp add: assign_votes_def checked_sub_def)
    then have "scores_of s = (scores_of a)(opt := scores_of a opt + (v - ov) * weight)"
      by (rule aggregation_apply_scores [OF inv])
    then show ?thesis using True old new there split le by (auto simp: moved_def fun_eq_iff)
  next
    case False
    show ?thesis
    proof (cases "weight = 0")
      case zero: True
      then have "s = a" using run old new le False by (simp add: assign_votes_def checked_sub_def)
      then show ?thesis using zero le old new by (simp add: moved_def fun_eq_iff)
    next
      case nz: False
      then have "aggregation_reassign oo opt (ov * weight) ((v - ov) * weight) a = (s, Inr ())"
        using run old new le False
        by (auto simp: assign_votes_def checked_sub_def checked_mul_def split: if_splits)
      from aggregation_reassign_effect [OF inv this]
      show ?thesis using False old new split le by (auto simp: moved_def fun_eq_iff)
    qed
  qed
qed

text \<open>Failure of a transition leaves the scores alone.\<close>

lemma assign_votes_atomic:
  assumes "assign_votes weight old new a = Inr (s, Inl e)"
  shows "s = a"
  using assms aggregation_apply_atomic aggregation_reassign_atomic
  by (auto simp: assign_votes_def split: prod.splits option.splits if_splits)

lemma engine_inv_assignment:
  assumes inv: "engine_inv e"
  shows "engine_inv (fst (apply_assignment rid previous new e))"
proof (cases "hm_get (en_rankings e) rid")
  case (Some r)
  have rinv: "ranking_inv r" using engine_inv_get [OF inv Some] .
  let ?old = "case previous of None \<Rightarrow> (fst new, 0) | Some p \<Rightarrow> p"
  show ?thesis
  proof (cases "\<exists>w s res. assignment_weight (rk_definition r) = Inr w \<and> \<not> rk_paused r \<and>
        assign_votes w ?old new (rk_state r) = Inr (s, res)")
    case True
    then obtain w s res where w: "assignment_weight (rk_definition r) = Inr w" "\<not> rk_paused r"
      "assign_votes w ?old new (rk_state r) = Inr (s, res)" by blast
    have "ag_capacity (rk_state r) = rd_capacity (rk_definition r)" using rinv by (simp add: ranking_inv_def)
    then have "ranking_inv (r\<lparr>rk_state := s\<rparr>)"
      using assign_votes_inv [OF ranking_inv_state [OF rinv] w(3)]
      by (intro ranking_inv_session_state [OF rinv w(1)]) simp_all
    moreover have "fst (apply_assignment rid previous new e) = e\<lparr>en_rankings := hm_insert rid
        (if is_ok res then r\<lparr>rk_state := s\<rparr> else reject_and_touch (r\<lparr>rk_state := s\<rparr>)) (en_rankings e)\<rparr>"
      using Some w by (simp add: apply_assignment_def)
    ultimately show ?thesis using ranking_inv_reject_and_touch engine_inv_put [OF inv Some] by simp
  next
    case False
    then have "fst (apply_assignment rid previous new e) = e"
      using Some by (auto simp: apply_assignment_def split: sum.split)
    then show ?thesis using inv by simp
  qed
qed (simp add: apply_assignment_def inv)

lemma engine_inv_committed_score:
  assumes inv: "engine_inv e"
  shows "engine_inv (fst (apply_committed_score rid opt n e))"
proof (cases "hm_get (en_rankings e) rid")
  case (Some r)
  have rinv: "ranking_inv r" using engine_inv_get [OF inv Some] .
  show ?thesis
  proof (cases "\<exists>w. assignment_weight (rk_definition r) = Inr w \<and> \<not> rk_paused r")
    case True
    then obtain w where w: "assignment_weight (rk_definition r) = Inr w" "\<not> rk_paused r" by blast
    obtain s res where s: "aggregation_apply opt n 1 (rk_state r) = (s, res)" by force
    have "agg_inv s" using agg_inv_apply [OF ranking_inv_state [OF rinv], of opt n 1] unfolding s by simp
    moreover have "ag_capacity s = rd_capacity (rk_definition r)"
      using aggregation_capacity_ops(1) [of opt n 1 "rk_state r"] rinv
      unfolding s by (simp add: ranking_inv_def)
    ultimately have "ranking_inv (r\<lparr>rk_state := s\<rparr>)"
      by (rule ranking_inv_session_state [OF rinv w(1)])
    moreover have "fst (apply_committed_score rid opt n e) = e\<lparr>en_rankings := hm_insert rid
        (if is_ok res then r\<lparr>rk_state := s\<rparr> else reject_and_touch (r\<lparr>rk_state := s\<rparr>)) (en_rankings e)\<rparr>"
      using Some w s by (simp add: apply_committed_score_def)
    ultimately show ?thesis using ranking_inv_reject_and_touch engine_inv_put [OF inv Some] by simp
  next
    case False
    then have "fst (apply_committed_score rid opt n e) = e"
      using Some by (auto simp: apply_committed_score_def split: sum.split)
    then show ?thesis using inv by simp
  qed
qed (simp add: apply_committed_score_def inv)

section \<open>Restored totals\<close>

text \<open>Restoring applies each total once to an empty table: it is the sum of weighted totals.\<close>

lemma restore_scores_spec:
  assumes "agg_inv a" and "restore_scores weight seen totals a = Inr b"
  shows "agg_inv b \<and> ag_capacity b = ag_capacity a \<and> distinct (map fst totals) \<and>
    set (map fst totals) \<inter> set seen = {} \<and>
    (\<forall>k. scores_of b k = scores_of a k + hm_get_or totals k 0 * weight)"
  using assms
proof (induction totals arbitrary: seen a)
  case (Cons p rest)
  obtain key n where p: "p = (key, n)" by force
  from Cons.prems(2) p obtain a' where a': "key \<notin> set seen" "aggregation_apply key n weight a = (a', Inr ())"
    "restore_scores weight (key # seen) rest a' = Inr b"
    by (auto split: if_splits prod.splits sum.splits)
  have inv: "agg_inv a'" using agg_inv_apply [OF Cons.prems(1), of key n weight] a'(2) by simp
  have eff: "scores_of a' = (scores_of a)(key := scores_of a key + n * weight)"
    "ag_capacity a' = ag_capacity a"
    using aggregation_apply_effect [OF Cons.prems(1) a'(2)] by simp_all
  have IH: "agg_inv b" "ag_capacity b = ag_capacity a'" "distinct (map fst rest)"
    "set (map fst rest) \<inter> set (key # seen) = {}"
    "\<forall>k. scores_of b k = scores_of a' k + hm_get_or rest k 0 * weight"
    using Cons.IH [OF inv a'(3)] by blast+
  have "hm_get rest key = None" using IH(4) by (auto simp: map_of_eq_None_iff)
  then have "scores_of b k = scores_of a k + hm_get_or (p # rest) k 0 * weight" for k
    using IH(5) eff(1) p by (simp add: hm_get_or_def)
  then show ?case using IH(1-4) eff(2) p a'(1) by auto
qed (simp add: hm_get_or_def)

lemma engine_inv_restore:
  assumes inv: "engine_inv e"
  shows "engine_inv (fst (restore_assignments_with_scores rid totals scored e))"
proof (cases "snd (restore_assignments_with_scores rid totals scored e)")
  case (Inl x)
  then have "fst (restore_assignments_with_scores rid totals scored e) = e"
    by (auto simp: restore_assignments_with_scores_def split: option.splits sum.splits)
  then show ?thesis using inv by simp
next
  case (Inr u)
  then obtain r w rev c1 c2 where r: "hm_get (en_rankings e) rid = Some r"
    "assignment_weight (rk_definition r) = Inr w" "checked_add (ag_revision (rk_state r)) 1 = Some rev"
    "restore_scores w [] totals (aggregation_new (rd_capacity (rk_definition r))) = Inr c1"
    "restore_scores 1 [] scored c1 = Inr c2"
    by (auto simp: restore_assignments_with_scores_def split: option.splits sum.splits)
  have c1: "agg_inv c1" "ag_capacity c1 = rd_capacity (rk_definition r)"
    using restore_scores_spec [OF agg_inv_new r(4)] by (simp_all add: aggregation_new_def)
  have c2: "agg_inv c2" "ag_capacity c2 = rd_capacity (rk_definition r)"
    using restore_scores_spec [OF c1(1) r(5)] c1(2) by simp_all
  have "rev \<le> u64_max" using r(3) by (simp add: u64_simps)
  then have "agg_inv (c2\<lparr>ag_revision := rev\<rparr>)" using c2(1) by (simp add: agg_inv_def)
  then have "ranking_inv (r\<lparr>rk_state := c2\<lparr>ag_revision := rev\<rparr>\<rparr>)"
    using c2(2) by (intro ranking_inv_session_state [OF engine_inv_get [OF inv r(1)] r(2)]) simp_all
  then show ?thesis using r engine_inv_put [OF inv r(1)]
    by (simp add: restore_assignments_with_scores_def)
qed

section \<open>Metadata, gaps and control\<close>

lemma engine_inv_set_metadata:
  assumes inv: "engine_inv e"
  shows "engine_inv (fst (set_entry_metadata rid key metadata e))"
proof (cases "hm_get (en_rankings e) rid")
  case (Some r)
  have rinv: "ranking_inv r" using engine_inv_get [OF inv Some] .
  let ?md = "merge_metadata (hm_get_or (ag_metadata (rk_state r)) key entry_metadata_default) (bounded metadata)"
  show ?thesis
  proof (cases "hm_has (ag_scores (rk_state r)) key")
    case True
    let ?s = "fst (aggregation_touch (rk_state r))"
    let ?s' = "?s\<lparr>ag_metadata := hm_insert key ?md (ag_metadata ?s)\<rparr>"
    have "metadata_ok ?md"
      using agg_inv_metadata [OF ranking_inv_state [OF rinv]] by (intro metadata_ok_merge) simp_all
    then have "agg_inv ?s'"
      using agg_inv_touch [OF ranking_inv_state [OF rinv]] True
      by (auto simp: agg_inv_def hm_set_insert hm_keys_insert hm_has_keys)
    then have "ranking_inv (r\<lparr>rk_state := ?s'\<rparr>)" using rinv by (intro ranking_inv_same_scores) simp_all
    then have put: "engine_inv (e\<lparr>en_rankings := hm_insert rid (r\<lparr>rk_state := ?s'\<rparr>) (en_rankings e)\<rparr>)"
      by (intro engine_inv_put [OF inv Some]) simp_all
    have "fst (set_entry_metadata rid key metadata e) = e \<or>
        fst (set_entry_metadata rid key metadata e) =
          e\<lparr>en_rankings := hm_insert rid (r\<lparr>rk_state := ?s'\<rparr>) (en_rankings e)\<rparr>"
      using Some True
      by (cases "aggregation_touch (rk_state r)"; cases "snd (aggregation_touch (rk_state r))")
        (simp_all add: set_entry_metadata_def Let_def)
    then show ?thesis using put inv by metis
  next
    case False
    then show ?thesis using Some inv by (simp add: set_entry_metadata_def)
  qed
qed (simp add: set_entry_metadata_def inv)

lemma engine_inv_ranking_gap:
  assumes "engine_inv e"
  shows "engine_inv (mark_ranking_gap rid e)"
  using assms engine_inv_put [OF assms _ ranking_inv_reject_and_touch] engine_inv_get [OF assms]
  by (auto simp: mark_ranking_gap_def split: option.split)

lemma engine_inv_recovery_gap:
  assumes inv: "engine_inv e"
  shows "engine_inv (fst (mark_recovery_gap rid e))"
proof (cases "hm_get (en_rankings e) rid")
  case (Some r)
  have "fst (mark_recovery_gap rid e) =
      e\<lparr>en_rankings := hm_insert rid (reject_and_touch r) (en_rankings e)\<rparr>"
    using Some by (simp add: mark_recovery_gap_def Let_def reject_and_touch_def case_prod_unfold)
  then show ?thesis
    using engine_inv_put [OF inv Some ranking_inv_reject_and_touch [OF engine_inv_get [OF inv Some]]] by simp
qed (simp add: mark_recovery_gap_def inv)

lemma ranking_inv_reset:
  assumes inv: "ranking_inv r" and s: "aggregation_reset (rk_state r) = (s, res)"
  shows "ranking_inv (if is_ok res then clear_accounting (r\<lparr>rk_state := s\<rparr>) else r\<lparr>rk_state := s\<rparr>)"
proof (cases res)
  case (Inl e)
  then show ?thesis using s inv aggregation_reset_Inl by fastforce
next
  case (Inr u)
  have e: "ag_scores s = []" "ag_capacity s = ag_capacity (rk_state r)"
    using aggregation_reset_Inr s Inr by blast+
  have "agg_inv s" using agg_inv_reset [OF ranking_inv_state [OF inv]] s by simp
  moreover have "window_ok w [] 0 (scores_of s)" for w
    using scores_of_empty [OF e(1)] by (cases w) (simp_all add: fun_eq_iff)
  ultimately show ?thesis using inv e Inr by (simp add: ranking_inv_def clear_accounting_def)
qed

lemma engine_inv_reset:
  assumes inv: "engine_inv e"
  shows "engine_inv (fst (engine_reset rid e))"
proof (cases "hm_get (en_rankings e) rid")
  case (Some r)
  obtain s res where s: "aggregation_reset (rk_state r) = (s, res)" by force
  let ?r = "if is_ok res then clear_accounting (r\<lparr>rk_state := s\<rparr>) else r\<lparr>rk_state := s\<rparr>"
  have "engine_inv (e\<lparr>en_rankings := hm_insert rid ?r (en_rankings e)\<rparr>)"
    using ranking_inv_reset [OF engine_inv_get [OF inv Some] s]
    by (intro engine_inv_put [OF inv Some]) (simp_all add: clear_accounting_def)
  then show ?thesis using Some s by (simp add: engine_reset_def)
qed (simp add: engine_reset_def inv)

lemma engine_inv_set_paused:
  assumes inv: "engine_inv e"
  shows "engine_inv (fst (set_paused rid paused e))"
proof (cases "hm_get (en_rankings e) rid")
  case (Some r)
  obtain s res where s: "aggregation_touch (rk_state r) = (s, res)" by force
  have rs: "ranking_inv (r\<lparr>rk_state := s\<rparr>)"
    using ranking_inv_touch [OF engine_inv_get [OF inv Some]] s by simp
  then have "ranking_inv (r\<lparr>rk_state := s, rk_paused := paused\<rparr>)"
    using ranking_inv_counters(5) by fastforce
  then show ?thesis using Some s rs inv engine_inv_put [OF inv Some]
    by (simp add: set_paused_def split: sum.split)
qed (simp add: set_paused_def inv)

section \<open>The engine as a machine\<close>

datatype engine_op =
    Op_Create "string option" ranking_definition
  | Op_Update "string option" ranking_definition bool
  | Op_Remove string
  | Op_Apply contribution u64 "entry_metadata option" "entry_metadata option"
  | Op_Expire u64
  | Op_Gap string string string
  | Op_Metric_Gap string string string string
  | Op_Ranking_Gap string
  | Op_Recovery_Gap string
  | Op_Ingress_Loss u64
  | Op_Assignment string "(string \<times> u64) option" "string \<times> u64"
  | Op_Committed_Score string string u64
  | Op_Restore string "(string \<times> u64) list" "(string \<times> u64) list"
  | Op_Metadata string string entry_metadata
  | Op_Reset string
  | Op_Pause string bool

definition engine_step :: "engine_op \<Rightarrow> engine \<Rightarrow> engine run" where
  "engine_step op e =
     (case op of
        Op_Create identity d \<Rightarrow> Ret (fst (engine_create identity d e))
      | Op_Update identity d reset \<Rightarrow> run_bind (engine_update identity d reset e) (\<lambda>p. Ret (fst p))
      | Op_Remove rid \<Rightarrow> Ret (fst (engine_remove rid e))
      | Op_Apply c now user gift \<Rightarrow>
          run_bind (apply_at_with_metadata c now user gift e) (\<lambda>p. Ret (fst p))
      | Op_Expire now \<Rightarrow> expire_at now e
      | Op_Gap creator room source \<Rightarrow> mark_gap creator room source e
      | Op_Metric_Gap creator room source metric \<Rightarrow> mark_metric_gap creator room source metric e
      | Op_Ranking_Gap rid \<Rightarrow> Ret (mark_ranking_gap rid e)
      | Op_Recovery_Gap rid \<Rightarrow> Ret (fst (mark_recovery_gap rid e))
      | Op_Ingress_Loss n \<Rightarrow> Ret (mark_ingress_loss n e)
      | Op_Assignment rid previous new \<Rightarrow> Ret (fst (apply_assignment rid previous new e))
      | Op_Committed_Score rid opt n \<Rightarrow> Ret (fst (apply_committed_score rid opt n e))
      | Op_Restore rid totals scored \<Rightarrow> Ret (fst (restore_assignments_with_scores rid totals scored e))
      | Op_Metadata rid key md \<Rightarrow> Ret (fst (set_entry_metadata rid key md e))
      | Op_Reset rid \<Rightarrow> Ret (fst (engine_reset rid e))
      | Op_Pause rid paused \<Rightarrow> Ret (fst (set_paused rid paused e)))"

text \<open>The identities the system hands out are 16 bytes long.\<close>

fun op_ok :: "engine_op \<Rightarrow> bool" where
  "op_ok (Op_Create (Some bytes) _) \<longleftrightarrow> length bytes = 16"
| "op_ok _ \<longleftrightarrow> True"

lemma engine_step_inv:
  assumes inv: "engine_inv e" and counter: "en_next_instance e < u64_max" and ok: "op_ok op"
  shows "\<exists>e'. engine_step op e = Ret e' \<and> engine_inv e'"
proof (cases op)
  case (Op_Create identity d)
  have "\<forall>bytes. identity = Some bytes \<longrightarrow> length bytes = 16" using ok Op_Create by auto
  then show ?thesis using engine_inv_create [OF inv counter] Op_Create by (simp add: engine_step_def)
next
  case (Op_Update identity d reset)
  then show ?thesis using engine_inv_update [OF inv, of identity d reset] by (auto simp: engine_step_def)
next
  case (Op_Apply c now user gift)
  then show ?thesis using engine_inv_apply [OF inv, of c now user gift] by (auto simp: engine_step_def)
next
  case (Op_Gap creator room source)
  then show ?thesis using mark_gap_spec [OF inv, of creator room source] by (auto simp: engine_step_def)
qed (use inv in \<open>simp_all add: engine_step_def engine_inv_remove engine_inv_expire_at engine_inv_metric_gap
    engine_inv_ranking_gap engine_inv_recovery_gap engine_inv_ingress_loss engine_inv_assignment
    engine_inv_committed_score engine_inv_restore engine_inv_set_metadata engine_inv_reset
    engine_inv_set_paused\<close>)

end
