(* ===== verification/Engine_Checkpoint.thy ===== *)
theory Engine_Checkpoint
  imports Engine_Machine
begin

text \<open>
  Session checkpoints (\<open>session_checkpoint\<close>, \<open>restore_session_checkpoint\<close> of \<open>engine.rs\<close>): the
  exported accounting state, its validation on the way back, the invariant of whatever is accepted,
  and the round trip.
\<close>

section \<open>Export and restore\<close>

record checkpoint =
  cp_schema_version :: nat
  cp_definition :: ranking_definition
  cp_snapshot :: snapshot
  cp_window_events :: "window_event list"
  cp_last_time :: u64
  cp_users :: "(string, user_state) hmap"

definition session_checkpoint :: "string \<Rightarrow> engine \<Rightarrow> agg_error + checkpoint" where
  "session_checkpoint rid e =
     (case hm_get (en_rankings e) rid of
        None \<Rightarrow> Inl NotFound
      | Some r \<Rightarrow>
        (case selection_snapshot rid e of
           None \<Rightarrow> Inl NotFound
         | Some s \<Rightarrow> Inr \<lparr>cp_schema_version = 1, cp_definition = rk_definition r, cp_snapshot = s,
             cp_window_events = rk_window_events r, cp_last_time = rk_last_time r,
             cp_users = rk_users r\<rparr>))"

definition checkpoint_incompatible :: "checkpoint \<Rightarrow> ranking \<Rightarrow> bool" where
  "checkpoint_incompatible cp r \<longleftrightarrow>
     (let s = cp_snapshot cp; d = rk_definition r in
      cp_schema_version cp \<noteq> 1 \<or> d \<noteq> cp_definition cp \<or> ag_revision (rk_state r) \<noteq> 0 \<or>
      sn_schema_version s \<noteq> 1 \<or> sn_ranking_id s \<noteq> rd_id d \<or> sn_creator_id s \<noteq> rd_creator_id d \<or>
      sn_room_id s \<noteq> rd_room_id d \<or> sn_window s \<noteq> rd_window d \<or>
      (case sn_instance_id s of None \<Rightarrow> False | Some h \<Rightarrow> \<not> hex_identity h) \<or>
      length (sn_entries s) \<noteq> sn_total_participants s \<or>
      length (sn_entries s) > rd_capacity d \<or>
      sn_integrity_status s \<notin> {''unknown'', ''degraded''} \<or>
      (sn_integrity_status s = ''unknown'' \<and> (sn_rejected s \<noteq> 0 \<or> sn_dropped s \<noteq> 0)) \<or>
      (sn_integrity_status s = ''degraded'' \<and> sn_rejected s = 0 \<and> sn_dropped s = 0))"

fun restore_entries :: "string list \<Rightarrow> entry list \<Rightarrow> aggregation \<Rightarrow> agg_error + aggregation" where
  "restore_entries seen [] a = Inr a"
| "restore_entries seen (x # xs) a =
     (if e_score x = 0 \<or> e_key x \<in> set seen then Inl InvalidKey
      else case aggregation_apply (e_key x) (e_score x) 1 a of
        (_, Inl err) \<Rightarrow> Inl err
      | (a', Inr _) \<Rightarrow>
        restore_entries (e_key x # seen) xs
          (aggregation_update_metadata (e_key x) ((e_metadata x)\<lparr>em_label := Some (e_label x)\<rparr>) a'))"

text \<open>The running totals of a restored rolling window.\<close>

fun checkpoint_totals ::
  "u64 \<Rightarrow> u64 \<Rightarrow> (string, u64) hmap \<Rightarrow> window_event list \<Rightarrow> agg_error + (string, u64) hmap" where
  "checkpoint_totals last_time previous m [] = Inr m"
| "checkpoint_totals last_time previous m ((time, key, amount) # es) =
     (if time < previous \<or> time > last_time \<or> amount = 0 then Inl IncompatibleDefinition
      else case checked_add (hm_get_or m key 0) amount of
        None \<Rightarrow> Inl Overflow
      | Some t \<Rightarrow> checkpoint_totals last_time time (hm_insert key t m) es)"

definition check_window :: "checkpoint \<Rightarrow> window \<Rightarrow> aggregation \<Rightarrow> agg_error + unit" where
  "check_window cp w a =
     (case w of
        Rolling _ mx \<Rightarrow>
          if length (cp_window_events cp) > mx then Inl IncompatibleDefinition
          else (case checkpoint_totals (cp_last_time cp) 0 [] (cp_window_events cp) of
            Inl err \<Rightarrow> Inl err
          | Inr totals \<Rightarrow>
            if length totals \<noteq> length (ag_scores a) \<or>
               list_ex (\<lambda>(key, n). hm_get totals key \<noteq> Some n) (ag_scores a)
            then Inl IncompatibleDefinition else Inr ())
      | _ \<Rightarrow> if cp_window_events cp \<noteq> [] then Inl IncompatibleDefinition else Inr ())"

definition check_users :: "checkpoint \<Rightarrow> user_limits option \<Rightarrow> aggregation \<Rightarrow> agg_error + unit" where
  "check_users cp limits a =
     (case limits of
        None \<Rightarrow> if cp_users cp \<noteq> [] then Inl IncompatibleDefinition else Inr ()
      | Some l \<Rightarrow>
        if length (cp_users cp) > ul_max_users l \<or> (ag_scores a \<noteq> [] \<and> cp_users cp = []) \<or>
           list_ex (\<lambda>(key, user). key = [] \<or> length key > 512 \<or> us_count user = 0 \<or>
             us_last_time user > cp_last_time cp \<or>
             (case ul_max_contributions l of None \<Rightarrow> False | Some mx \<Rightarrow> us_count user > mx)) (cp_users cp)
        then Inl IncompatibleDefinition else Inr ())"

definition checkpoint_ranking :: "checkpoint \<Rightarrow> aggregation \<Rightarrow> ranking \<Rightarrow> ranking" where
  "checkpoint_ranking cp a r =
     (let s = cp_snapshot cp in r
      \<lparr>rk_state := a\<lparr>ag_revision := sn_revision s\<rparr>, rk_paused := sn_paused s,
       rk_rejected := sn_rejected s, rk_dropped := sn_dropped s, rk_limited := sn_limited s,
       rk_cooldown_rejected := sn_cooldown_rejected s, rk_window_events := cp_window_events cp,
       rk_last_time := cp_last_time cp, rk_users := cp_users cp,
       rk_instance_id := (case sn_instance_id s of None \<Rightarrow> rk_instance_id r | Some h \<Rightarrow> h)\<rparr>)"

definition restore_ranking :: "checkpoint \<Rightarrow> ranking \<Rightarrow> agg_error + ranking" where
  "restore_ranking cp r =
     (if checkpoint_incompatible cp r then Inl IncompatibleDefinition
      else case restore_entries [] (sn_entries (cp_snapshot cp))
                  (aggregation_new (rd_capacity (rk_definition r))) of
        Inl err \<Rightarrow> Inl err
      | Inr a \<Rightarrow>
        if ag_total a \<noteq> sn_total_score (cp_snapshot cp) \<or> sn_revision (cp_snapshot cp) < ag_revision a
        then Inl IncompatibleDefinition
        else (case check_window cp (rd_window (rk_definition r)) a of
          Inl err \<Rightarrow> Inl err
        | Inr _ \<Rightarrow>
          (case check_users cp (rd_user_limits (rk_definition r)) a of
             Inl err \<Rightarrow> Inl err
           | Inr _ \<Rightarrow> Inr (checkpoint_ranking cp a r))))"

definition restore_session_checkpoint :: "checkpoint \<Rightarrow> engine \<Rightarrow> engine outcome" where
  "restore_session_checkpoint cp e =
     (case hm_get (en_rankings e) (rd_id (cp_definition cp)) of
        None \<Rightarrow> (e, Inl NotFound)
      | Some r \<Rightarrow>
        (case restore_ranking cp r of
           Inl err \<Rightarrow> (e, Inl err)
         | Inr r' \<Rightarrow>
           (e\<lparr>en_rankings := hm_insert (rd_id (cp_definition cp)) r' (en_rankings e)\<rparr>, Inr ())))"

section \<open>What is accepted is well-formed\<close>

text \<open>The types of the fields: a decoded checkpoint has 64-bit counters and a map with unique keys.\<close>

definition checkpoint_typed :: "checkpoint \<Rightarrow> bool" where
  "checkpoint_typed cp \<longleftrightarrow>
     (let s = cp_snapshot cp in
      sn_revision s \<le> u64_max \<and> sn_rejected s \<le> u64_max \<and> sn_dropped s \<le> u64_max \<and>
      sn_limited s \<le> u64_max \<and> sn_cooldown_rejected s \<le> u64_max) \<and>
     hm_wf (cp_users cp) \<and> (\<forall>p \<in> set (cp_users cp). us_count (snd p) \<le> u64_max)"

lemma restore_entries_inv:
  assumes "agg_inv a" and "restore_entries seen xs a = Inr b"
  shows "agg_inv b \<and> ag_capacity b = ag_capacity a"
  using assms
proof (induction xs arbitrary: seen a)
  case (Cons x xs)
  from Cons.prems(2) obtain a' where a': "aggregation_apply (e_key x) (e_score x) 1 a = (a', Inr ())"
    "restore_entries (e_key x # seen) xs
      (aggregation_update_metadata (e_key x) ((e_metadata x)\<lparr>em_label := Some (e_label x)\<rparr>) a') = Inr b"
    by (auto split: if_splits prod.splits sum.splits)
  have "agg_inv a'" using agg_inv_apply [OF Cons.prems(1), of "e_key x" "e_score x" 1] unfolding a'(1) by simp
  moreover have "ag_capacity a' = ag_capacity a"
    using aggregation_capacity_ops(1) [of "e_key x" "e_score x" 1 a] unfolding a'(1) by simp
  ultimately show ?case using Cons.IH [OF agg_inv_update_metadata a'(2)] by simp
qed simp

lemma checkpoint_totals_spec:
  assumes "checkpoint_totals last_time previous m es = Inr t" and "hm_wf m"
    and "\<forall>p \<in> set m. 0 < snd p"
  shows "hm_wf t \<and> (\<forall>k. hm_get_or t k 0 = hm_get_or m k 0 + window_total es k) \<and>
    sorted (map fst es) \<and> (\<forall>x \<in> set es. previous \<le> fst x) \<and> list_all (event_ok last_time) es \<and>
    (\<forall>p \<in> set t. 0 < snd p)"
  using assms
proof (induction es arbitrary: previous m)
  case (Cons x es)
  obtain time key n where x: "x = (time, key, n)" by (cases x)
  from Cons.prems(1) x have ok: "previous \<le> time" "time \<le> last_time" "0 < n"
    "checkpoint_totals last_time time (hm_insert key (hm_get_or m key 0 + n) m) es = Inr t"
    by (auto simp: checked_add_def split: if_splits)
  have "\<forall>p \<in> set (hm_insert key (hm_get_or m key 0 + n) m). 0 < snd p"
    using Cons.prems(2,3) ok(3) by (auto simp: hm_set_insert)
  from Cons.IH [OF ok(4) _ this] Cons.prems(2)
  have IH: "hm_wf t" "\<forall>k. hm_get_or t k 0 =
      hm_get_or (hm_insert key (hm_get_or m key 0 + n) m) k 0 + window_total es k"
    "sorted (map fst es)" "\<forall>x \<in> set es. time \<le> fst x" "list_all (event_ok last_time) es"
    "\<forall>p \<in> set t. 0 < snd p" by simp_all
  then show ?case using ok x by (auto simp: hm_get_or_insert event_ok_def intro: order_trans)
qed simp

text \<open>Equal sizes and agreeing entries make two positive maps equal.\<close>

lemma maps_agree:
  assumes "hm_wf t" and "hm_wf m" and "length t = length m"
    and "\<not> list_ex (\<lambda>(k, n). hm_get t k \<noteq> Some n) m"
  shows "hm_get t = hm_get m"
proof -
  have sub: "set m \<subseteq> set t"
    using assms(1,4) by (auto simp: list_ex_iff dest: map_of_SomeD)
  have "card (set t) = card (set m)"
    using assms(1-3) by (metis distinct_card distinct_map hm_wf_def)
  then have "set m = set t" using sub by (intro card_subset_eq) simp_all
  then show ?thesis using assms(1,2) by (simp add: hm_wf_def map_of_inject_set)
qed

lemma check_window_ok:
  assumes inv: "agg_inv a" and ok: "check_window cp w a = Inr u"
  shows "window_ok w (cp_window_events cp) (cp_last_time cp) (scores_of a)"
proof (cases w)
  case (Rolling d mx)
  then obtain t where t: "checkpoint_totals (cp_last_time cp) 0 [] (cp_window_events cp) = Inr t"
    "length t = length (ag_scores a)" "\<not> list_ex (\<lambda>(k, n). hm_get t k \<noteq> Some n) (ag_scores a)"
    "length (cp_window_events cp) \<le> mx"
    using ok by (auto simp: check_window_def split: if_splits sum.splits)
  have spec: "hm_wf t" "\<forall>k. hm_get_or t k 0 = window_total (cp_window_events cp) k"
    "sorted (map fst (cp_window_events cp))" "list_all (event_ok (cp_last_time cp)) (cp_window_events cp)"
    using checkpoint_totals_spec [OF t(1)] by (simp_all add: hm_get_or_def)
  have "hm_get t = hm_get (ag_scores a)"
    using maps_agree [OF spec(1) agg_inv_scores [OF inv] t(2,3)] .
  then have "scores_of a = window_total (cp_window_events cp)"
    using spec(2) by (simp add: fun_eq_iff scores_of_def hm_get_or_def)
  then show ?thesis using Rolling t(4) spec by simp
qed (use ok in \<open>simp_all add: check_window_def split: if_splits\<close>)

lemma check_users_ok:
  assumes typed: "checkpoint_typed cp" and ok: "check_users cp limits a = Inr u"
  shows "users_ok limits (cp_users cp) (cp_last_time cp)"
    and "limits \<noteq> None \<and> cp_users cp = [] \<longrightarrow> ag_scores a = []"
proof -
  show "users_ok limits (cp_users cp) (cp_last_time cp)"
  proof (cases limits)
    case (Some l)
    then show ?thesis using ok typed
      by (fastforce simp: check_users_def checkpoint_typed_def list_ex_iff list_all_iff user_ok_def
          valid_key_def Let_def split: if_splits option.splits)
  qed (use ok in \<open>simp add: check_users_def split: if_splits\<close>)
  show "limits \<noteq> None \<and> cp_users cp = [] \<longrightarrow> ag_scores a = []"
    using ok by (auto simp: check_users_def split: if_splits)
qed

lemma restore_ranking_inv:
  assumes inv: "ranking_inv r" and typed: "checkpoint_typed cp" and ok: "restore_ranking cp r = Inr r'"
  shows "ranking_inv r' \<and> rk_definition r' = rk_definition r"
proof -
  from ok obtain a where a: "\<not> checkpoint_incompatible cp r"
    "restore_entries [] (sn_entries (cp_snapshot cp)) (aggregation_new (rd_capacity (rk_definition r))) = Inr a"
    "check_window cp (rd_window (rk_definition r)) a = Inr ()"
    "check_users cp (rd_user_limits (rk_definition r)) a = Inr ()" "r' = checkpoint_ranking cp a r"
    by (auto simp: restore_ranking_def split: if_splits sum.splits)
  have ai: "agg_inv a" "ag_capacity a = rd_capacity (rk_definition r)"
    using restore_entries_inv [OF agg_inv_new a(2)] by (simp_all add: aggregation_new_def)
  then have "agg_inv (a\<lparr>ag_revision := sn_revision (cp_snapshot cp)\<rparr>)"
    using typed by (simp add: agg_inv_def checkpoint_typed_def Let_def)
  moreover have "scores_of (a\<lparr>ag_revision := n\<rparr>) = scores_of a" for n
    by (simp add: fun_eq_iff scores_of_def)
  moreover have "hex_identity (rk_instance_id r')"
    using a(1,5) inv by (auto simp: checkpoint_incompatible_def checkpoint_ranking_def Let_def
        ranking_inv_def split: option.splits)
  ultimately show ?thesis
    using inv typed ai(2) check_window_ok [OF ai(1) a(3)] check_users_ok [OF typed a(4)] a(5)
    by (simp add: ranking_inv_def checkpoint_ranking_def checkpoint_typed_def Let_def)
qed

lemma engine_inv_restore_checkpoint:
  assumes inv: "engine_inv e" and typed: "checkpoint_typed cp"
  shows "engine_inv (fst (restore_session_checkpoint cp e)) \<and>
    (\<not> is_ok (snd (restore_session_checkpoint cp e)) \<longrightarrow> fst (restore_session_checkpoint cp e) = e)"
proof (cases "hm_get (en_rankings e) (rd_id (cp_definition cp))")
  case (Some r)
  show ?thesis
  proof (cases "restore_ranking cp r")
    case (Inr r')
    from restore_ranking_inv [OF engine_inv_get [OF inv Some] typed this]
    show ?thesis using Some Inr engine_inv_put [OF inv Some] by (simp add: restore_session_checkpoint_def)
  qed (use Some inv in \<open>simp add: restore_session_checkpoint_def\<close>)
qed (simp add: restore_session_checkpoint_def inv)

section \<open>Round trip\<close>

definition entry_scores :: "entry list \<Rightarrow> (string, u64) hmap" where
  "entry_scores xs = map (\<lambda>x. (e_key x, e_score x)) xs"

definition entry_details :: "entry list \<Rightarrow> (string, entry_metadata) hmap" where
  "entry_details xs = map (\<lambda>x. (e_key x, bounded ((e_metadata x)\<lparr>em_label := Some (e_label x)\<rparr>))) xs"

lemma entry_keys_absent:
  "k \<notin> e_key ` set xs \<Longrightarrow> hm_get (entry_scores xs) k = None \<and> hm_get (entry_details xs) k = None"
  by (auto simp: entry_scores_def entry_details_def map_of_eq_None_iff)

lemma restore_entry:
  assumes inv: "agg_inv b" and x: "valid_key (e_key x)" "0 < e_score x"
    and new: "e_key x \<notin> hm_keys (ag_scores b)" and room: "length (ag_scores b) < ag_capacity b"
    and total: "ag_total b + e_score x \<le> u64_max" and rev: "ag_revision b < u64_max"
  obtains c where "aggregation_apply (e_key x) (e_score x) 1 b = (c, Inr ())" and "agg_inv c"
    and "ag_scores c = hm_insert (e_key x) (e_score x) (ag_scores b)" and "ag_metadata c = ag_metadata b"
    and "ag_total c = ag_total b + e_score x" and "ag_revision c = ag_revision b + 1"
    and "ag_capacity c = ag_capacity b"
proof -
  have z: "scores_of b (e_key x) = 0"
    using new by (simp add: scores_of_def hm_get_or_def hm_get_None [THEN iffD2])
  have acc: "apply_accepts (e_key x) (e_score x) 1 b"
    using x room total rev by (simp add: apply_accepts_def)
  have c_inv: "agg_inv (fst (aggregation_apply (e_key x) (e_score x) 1 b))"
    using inv by (rule agg_inv_apply)
  show thesis
    using inv
  proof (cases rule: aggregation_apply_cases [where key = "e_key x" and delta = "e_score x" and weight = 1])
    case added
    show ?thesis by (rule that [OF added(1)]) (use c_inv z added(1) in simp_all)
  qed (use acc x in simp_all)
qed

lemma restore_entries_all:
  assumes "agg_inv b" and "distinct (map e_key xs)" and "\<forall>x \<in> set xs. valid_key (e_key x) \<and> 0 < e_score x"
    and "e_key ` set xs \<inter> set seen = {}" and "e_key ` set xs \<inter> hm_keys (ag_scores b) = {}"
    and "length (ag_scores b) + length xs \<le> ag_capacity b"
    and "ag_total b + sum_list (map e_score xs) \<le> u64_max" and "ag_revision b + length xs \<le> u64_max"
  shows "\<exists>c. restore_entries seen xs b = Inr c \<and>
    ag_total c = ag_total b + sum_list (map e_score xs) \<and> ag_revision c = ag_revision b + length xs \<and>
    (\<forall>k. hm_get (ag_scores c) k =
       (case hm_get (entry_scores xs) k of None \<Rightarrow> hm_get (ag_scores b) k | Some v \<Rightarrow> Some v)) \<and>
    (\<forall>k. hm_get (ag_metadata c) k =
       (case hm_get (entry_details xs) k of None \<Rightarrow> hm_get (ag_metadata b) k | Some v \<Rightarrow> Some v))"
  using assms
proof (induction xs arbitrary: seen b)
  case Nil
  then show ?case by (simp add: entry_scores_def entry_details_def)
next
  case (Cons x xs)
  have new: "e_key x \<notin> hm_keys (ag_scores b)" and dist: "e_key x \<notin> e_key ` set xs"
    using Cons.prems(2,5) by auto
  obtain c where c: "aggregation_apply (e_key x) (e_score x) 1 b = (c, Inr ())" "agg_inv c"
    "ag_scores c = hm_insert (e_key x) (e_score x) (ag_scores b)" "ag_metadata c = ag_metadata b"
    "ag_total c = ag_total b + e_score x" "ag_revision c = ag_revision b + 1"
    "ag_capacity c = ag_capacity b"
    by (rule restore_entry [OF Cons.prems(1) _ _ new]) (use Cons.prems(3,6-8) in simp_all)
  define m where "m = (e_metadata x)\<lparr>em_label := Some (e_label x)\<rparr>"
  define d where "d = aggregation_update_metadata (e_key x) m c"
  have "e_key x \<notin> hm_keys (ag_metadata b)" using Cons.prems(1) new by (auto simp: agg_inv_def)
  then have "hm_get_or (ag_metadata c) (e_key x) entry_metadata_default = entry_metadata_default"
    using c(4) by (simp add: hm_get_or_def hm_get_None [THEN iffD2])
  then have md: "ag_metadata d = hm_insert (e_key x) (bounded m) (ag_metadata b)"
    using c(3,4) by (simp add: d_def aggregation_update_metadata_def hm_simps)
  have ds: "ag_scores d = ag_scores c" "ag_total d = ag_total c" "ag_revision d = ag_revision c"
    "ag_capacity d = ag_capacity c" "agg_inv d"
    using c(2) by (simp_all add: d_def agg_inv_update_metadata)
  have "\<exists>c. restore_entries (e_key x # seen) xs d = Inr c \<and>
    ag_total c = ag_total d + sum_list (map e_score xs) \<and> ag_revision c = ag_revision d + length xs \<and>
    (\<forall>k. hm_get (ag_scores c) k =
       (case hm_get (entry_scores xs) k of None \<Rightarrow> hm_get (ag_scores d) k | Some v \<Rightarrow> Some v)) \<and>
    (\<forall>k. hm_get (ag_metadata c) k =
       (case hm_get (entry_details xs) k of None \<Rightarrow> hm_get (ag_metadata d) k | Some v \<Rightarrow> Some v))"
    using Cons.prems ds c dist new
    by (intro Cons.IH) (auto simp: hm_len_insert hm_keys_insert)
  then obtain e where e: "restore_entries (e_key x # seen) xs d = Inr e"
    "ag_total e = ag_total d + sum_list (map e_score xs)" "ag_revision e = ag_revision d + length xs"
    "\<forall>k. hm_get (ag_scores e) k =
       (case hm_get (entry_scores xs) k of None \<Rightarrow> hm_get (ag_scores d) k | Some v \<Rightarrow> Some v)"
    "\<forall>k. hm_get (ag_metadata e) k =
       (case hm_get (entry_details xs) k of None \<Rightarrow> hm_get (ag_metadata d) k | Some v \<Rightarrow> Some v)"
    by blast
  have run: "restore_entries seen (x # xs) b = Inr e"
    using Cons.prems(3,4) c(1) e(1) by (simp add: d_def m_def)
  have "hm_get (ag_scores e) k = (case hm_get (entry_scores (x # xs)) k of
      None \<Rightarrow> hm_get (ag_scores b) k | Some v \<Rightarrow> Some v)" for k
    using e(4) ds(1) c(3) entry_keys_absent [OF dist]
    by (simp add: entry_scores_def hm_simps split: option.split)
  moreover have "hm_get (ag_metadata e) k = (case hm_get (entry_details (x # xs)) k of
      None \<Rightarrow> hm_get (ag_metadata b) k | Some v \<Rightarrow> Some v)" for k
    using e(5) md entry_keys_absent [OF dist]
    by (simp add: entry_details_def m_def hm_simps split: option.split)
  ultimately show ?case using run e(2,3) ds c by simp
qed

text \<open>A ranking's own entries restore to the same table, with the labels made explicit.\<close>

lemma candidate_label:
  assumes "agg_inv a" and "hm_get (ag_scores a) k = Some s"
  shows "bounded ((e_metadata (candidate_entry a (k, s)))\<lparr>em_label := Some (e_label (candidate_entry a (k, s)))\<rparr>) =
    (hm_get_or (ag_metadata a) k entry_metadata_default)\<lparr>em_label := Some (e_label (candidate_entry a (k, s)))\<rparr>"
proof -
  let ?m = "hm_get_or (ag_metadata a) k entry_metadata_default"
  have m: "bounded ?m = ?m" using agg_inv_metadata [OF assms(1), of k] by (simp add: metadata_ok_def)
  have k: "k \<noteq> []" "length k \<le> 512" using agg_inv_entry [OF assms] by (simp_all add: valid_key_def)
  have "bounded_value (Some (case em_label ?m of None \<Rightarrow> k | Some l \<Rightarrow> l)) 512 =
      Some (case em_label ?m of None \<Rightarrow> k | Some l \<Rightarrow> l)"
  proof (cases "em_label ?m")
    case (Some l)
    then have "bounded_value (Some l) 512 = Some l"
      using m by (cases ?m) (simp add: bounded_def)
    then show ?thesis using Some by simp
  qed (use k in \<open>simp add: bounded_value_def\<close>)
  then show ?thesis using m by (cases ?m) (simp add: candidate_entry_def Let_def bounded_def)
qed

lemma entry_scores_number [simp]: "entry_scores (number_entries i xs) = entry_scores xs"
  unfolding entry_scores_def by (rule map_number_entries) simp

lemma entry_details_number [simp]: "entry_details (number_entries i xs) = entry_details xs"
  unfolding entry_details_def by (rule map_number_entries) simp

lemma entry_scores_candidates: "entry_scores (map (candidate_entry a) ps) = ps"
  by (induction ps) (auto simp: entry_scores_def candidate_entry_def Let_def)

lemma candidate_key [simp]: "e_key (candidate_entry a p) = fst p" "e_score (candidate_entry a p) = snd p"
  by (cases p; simp add: candidate_entry_def Let_def)+

text \<open>The selection snapshot of a well-formed ranking lists its whole leaderboard.\<close>

lemma complete_snapshot_simps [simp]:
  "sn_entries (complete_snapshot r s) = sn_entries s"
  "sn_total_score (complete_snapshot r s) = sn_total_score s"
  "sn_total_participants (complete_snapshot r s) = sn_total_participants s"
  "sn_revision (complete_snapshot r s) = sn_revision s"
  "sn_schema_version (complete_snapshot r s) = sn_schema_version s"
  by (simp_all add: complete_snapshot_def)

lemma ranking_selection_eq:
  assumes "ranking_inv r"
  shows "ranking_selection r = (complete_snapshot r (snapshot_candidates (rd_capacity (rk_definition r)) (rk_state r)))
    \<lparr>sn_entries := number_entries 0 (map (candidate_entry (rk_state r)) (leaderboard (ag_scores (rk_state r))))\<rparr>"
proof -
  have a: "agg_inv (rk_state r)" using assms by (rule ranking_inv_state)
  have cap: "length (ag_scores (rk_state r)) \<le> rd_capacity (rk_definition r)"
    using agg_inv_capacity [OF a] assms by (simp add: ranking_inv_def)
  let ?s = "complete_snapshot r (snapshot_candidates (rd_capacity (rk_definition r)) (rk_state r))"
  have "sorted (map entry_order (sn_entries ?s))"
    using snapshot_candidates_sorted [OF a, of "rd_capacity (rk_definition r)"]
    unfolding complete_snapshot_simps .
  from rank_snapshot_sorted [OF this] show ?thesis
    unfolding ranking_selection_def complete_snapshot_simps snapshot_entries [OF a] using cap by simp
qed

lemma leaderboard_candidates:
  assumes inv: "ranking_inv r"
  defines "a \<equiv> rk_state r"
  defines "xs \<equiv> map (candidate_entry a) (leaderboard (ag_scores a))"
  shows "distinct (map e_key xs)" and "\<forall>x \<in> set xs. valid_key (e_key x) \<and> 0 < e_score x"
    and "length xs = length (ag_scores a)" and "sum_list (map e_score xs) = ag_total a"
    and "hm_get (entry_scores xs) = hm_get (ag_scores a)"
proof -
  have ai: "agg_inv a" using inv by (simp add: a_def ranking_inv_state)
  have wf: "hm_wf (ag_scores a)" using ai by (rule agg_inv_scores)
  have L: "set (leaderboard (ag_scores a)) = set (ag_scores a)"
    "distinct (map fst (leaderboard (ag_scores a)))"
    using distinct_keys_leaderboard [OF wf] by simp_all
  have "distinct (leaderboard (ag_scores a))" "distinct (ag_scores a)"
    using L wf by (auto simp: hm_wf_def distinct_map)
  then have "sum_list (map snd (leaderboard (ag_scores a))) = hm_sum (ag_scores a)"
    using L(1) by (simp add: hm_sum_def sum_list_distinct_conv_sum_set)
  then show "sum_list (map e_score xs) = ag_total a"
    using agg_inv_total [OF ai] by (simp add: xs_def comp_def)
  show "distinct (map e_key xs)" using L by (simp add: xs_def comp_def)
  show "length xs = length (ag_scores a)" by (simp add: xs_def)
  show "\<forall>x \<in> set xs. valid_key (e_key x) \<and> 0 < e_score x"
    using L ai by (auto simp: xs_def agg_inv_def)
  show "hm_get (entry_scores xs) = hm_get (ag_scores a)"
    using L wf by (simp add: xs_def entry_scores_candidates map_of_inject_set hm_wf_def)
qed

text \<open>Restoring the entries of a ranking's own snapshot.\<close>

lemma restore_own_entries:
  assumes inv: "ranking_inv r" and rev: "length (ag_scores (rk_state r)) \<le> u64_max"
  defines "a \<equiv> rk_state r"
  shows "\<exists>b. restore_entries [] (number_entries 0 (map (candidate_entry a) (leaderboard (ag_scores a))))
      (aggregation_new (rd_capacity (rk_definition r))) = Inr b \<and> agg_inv b \<and>
    ag_total b = ag_total a \<and> ag_revision b = length (ag_scores a) \<and>
    set (ag_scores b) = set (ag_scores a) \<and> length (ag_scores b) = length (ag_scores a) \<and>
    scores_of b = scores_of a \<and> (\<forall>p \<in> set (ag_scores a). candidate_entry b p = candidate_entry a p)"
proof -
  let ?xs = "map (candidate_entry a) (leaderboard (ag_scores a))"
  let ?ys = "number_entries 0 ?xs"
  let ?new = "aggregation_new (rd_capacity (rk_definition r))"
  have ai: "agg_inv a" using inv by (simp add: a_def ranking_inv_state)
  note own = leaderboard_candidates [OF inv, folded a_def]
  have keys: "map e_key ?ys = map e_key ?xs" and scores: "map e_score ?ys = map e_score ?xs"
    by (simp_all add: map_number_entries)
  have each: "\<forall>x \<in> set ?ys. valid_key (e_key x) \<and> 0 < e_score x"
  proof
    fix x assume "x \<in> set ?ys"
    then obtain j where "j < length ?xs" "x = (?xs ! j)\<lparr>e_rank := 0 + j + 1\<rparr>"
      by (metis in_set_conv_nth length_number_entries number_entries_nth)
    moreover from this(1) have "?xs ! j \<in> set ?xs" by (rule nth_mem)
    ultimately have "valid_key (e_key (?xs ! j)) \<and> 0 < e_score (?xs ! j)" "x = (?xs ! j)\<lparr>e_rank := 0 + j + 1\<rparr>"
      using own(2) by blast+
    then show "valid_key (e_key x) \<and> 0 < e_score x" by (simp add: nth_map [symmetric] del: nth_map)
  qed
  have cap: "length (ag_scores a) \<le> rd_capacity (rk_definition r)"
    using agg_inv_capacity [OF ai] inv by (simp add: ranking_inv_def a_def)
  obtain b where b: "restore_entries [] ?ys ?new = Inr b"
    "ag_total b = ag_total ?new + sum_list (map e_score ?ys)" "ag_revision b = ag_revision ?new + length ?ys"
    "\<forall>k. hm_get (ag_scores b) k =
       (case hm_get (entry_scores ?ys) k of None \<Rightarrow> hm_get (ag_scores ?new) k | Some v \<Rightarrow> Some v)"
    "\<forall>k. hm_get (ag_metadata b) k =
       (case hm_get (entry_details ?ys) k of None \<Rightarrow> hm_get (ag_metadata ?new) k | Some v \<Rightarrow> Some v)"
    using restore_entries_all [OF agg_inv_new, of ?ys "[]" "rd_capacity (rk_definition r)"]
      keys own(1,3,4) scores each cap rev agg_inv_total_le [OF ai]
    by (auto simp: aggregation_new_def a_def)
  have bi: "agg_inv b" using restore_entries_inv [OF agg_inv_new b(1)] by simp
  have get: "hm_get (ag_scores b) = hm_get (ag_scores a)"
    using b(4) own(5) by (simp add: fun_eq_iff aggregation_new_def split: option.split)
  have sets: "set (ag_scores b) = set (ag_scores a)"
    using get agg_inv_scores [OF bi] agg_inv_scores [OF ai] by (simp add: hm_wf_def map_of_inject_set)
  have len: "length (ag_scores b) = length (ag_scores a)"
    using sets agg_inv_scores [OF bi] agg_inv_scores [OF ai] by (simp add: hm_len_keys)
  have cand: "candidate_entry b (k, s) = candidate_entry a (k, s)" if "(k, s) \<in> set (ag_scores a)" for k s
  proof -
    let ?c = "candidate_entry a (k, s)"
    have k: "hm_get (ag_scores a) k = Some s"
      using that agg_inv_scores [OF ai] by (simp add: hm_get_Some_set)
    have "(k, bounded ((e_metadata ?c)\<lparr>em_label := Some (e_label ?c)\<rparr>)) \<in> set (entry_details ?xs)"
      using that by (force simp: entry_details_def)
    moreover have "distinct (map fst (entry_details ?xs))"
      using own(1) by (simp add: entry_details_def comp_def)
    ultimately have "hm_get (entry_details ?ys) k = Some (bounded ((e_metadata ?c)\<lparr>em_label := Some (e_label ?c)\<rparr>))"
      by simp
    then have "hm_get_or (ag_metadata b) k entry_metadata_default =
        (hm_get_or (ag_metadata a) k entry_metadata_default)\<lparr>em_label := Some (e_label ?c)\<rparr>"
      using b(5) candidate_label [OF ai k] by (simp add: hm_get_or_def)
    then show ?thesis by (simp add: candidate_entry_def Let_def)
  qed
  have "scores_of b = scores_of a" using get by (simp add: fun_eq_iff scores_of_def hm_get_or_def)
  then show ?thesis using b(1-3) bi sets len cand own(3,4) scores
    by (auto simp: aggregation_new_def)
qed

text \<open>
  The checkpoint of a ranking, restored into a fresh ranking with the same definition. The one
  thing a checkpoint needs beyond the invariant is a revision that counts at least the entries,
  which every sequence of accepted contributions gives and restored vote totals need not.
\<close>

definition ranking_checkpoint :: "ranking \<Rightarrow> checkpoint" where
  "ranking_checkpoint r =
     \<lparr>cp_schema_version = 1, cp_definition = rk_definition r, cp_snapshot = ranking_selection r,
      cp_window_events = rk_window_events r, cp_last_time = rk_last_time r, cp_users = rk_users r\<rparr>"

lemma session_checkpoint_eq:
  "hm_get (en_rankings e) rid = Some r \<Longrightarrow> session_checkpoint rid e = Inr (ranking_checkpoint r)"
  by (simp add: session_checkpoint_def selection_snapshot_def ranking_checkpoint_def)

lemma checkpoint_totals_total:
  assumes "list_all (event_ok t) es" and "sorted (map fst es)" and "\<forall>x \<in> set es. previous \<le> fst x"
    and "\<forall>k. hm_get_or m k 0 + window_total es k \<le> u64_max"
  shows "\<exists>m'. checkpoint_totals t previous m es = Inr m'"
  using assms
proof (induction es arbitrary: previous m)
  case (Cons x es)
  obtain time key n where x: "x = (time, key, n)" by (cases x)
  have h: "previous \<le> time" "time \<le> t" "0 < n" using Cons.prems(1,3) x by (auto simp: event_ok_def)
  have "hm_get_or m key 0 + n \<le> u64_max" using spec [OF Cons.prems(4), of key] x by simp
  moreover have "\<exists>m'. checkpoint_totals t time (hm_insert key (hm_get_or m key 0 + n) m) es = Inr m'"
  proof (rule Cons.IH)
    show "\<forall>k. hm_get_or (hm_insert key (hm_get_or m key 0 + n) m) k 0 + window_total es k \<le> u64_max"
      using Cons.prems(4) x by (auto simp: hm_get_or_insert algebra_simps split: if_splits)
  qed (use Cons.prems x in auto)
  ultimately show ?case using h x by (simp add: checked_add_def)
qed simp

lemma own_window_checked:
  assumes inv: "agg_inv b" and w: "window_ok w (cp_window_events cp) (cp_last_time cp) (scores_of b)"
  shows "check_window cp w b = Inr ()"
proof (cases w)
  case (Rolling d mx)
  have le: "hm_get_or [] k 0 + window_total (cp_window_events cp) k \<le> u64_max" for k
    using w Rolling scores_of_le_total [OF inv, of k] agg_inv_total_le [OF inv] by (simp add: hm_get_or_def)
  then obtain m where m: "checkpoint_totals (cp_last_time cp) 0 [] (cp_window_events cp) = Inr m"
    using checkpoint_totals_total [of "cp_last_time cp" "cp_window_events cp" 0 "[]"] w Rolling by auto
  have s: "hm_wf m" "\<forall>k. hm_get_or m k 0 = scores_of b k" "\<forall>p \<in> set m. 0 < snd p"
    using checkpoint_totals_spec [OF m] w Rolling by (simp_all add: hm_get_or_def)
  have get: "hm_get m k = hm_get (ag_scores b) k" for k
  proof -
    have eq: "hm_get_or m k 0 = hm_get_or (ag_scores b) k 0" using s(2) by (simp add: scores_of_def)
    have pm: "0 < v" if "hm_get m k = Some v" for v using map_of_SomeD [OF that] s(3) by auto
    have pb: "0 < v" if "hm_get (ag_scores b) k = Some v" for v using agg_inv_entry [OF inv that] by simp
    show ?thesis
      by (cases "hm_get m k"; cases "hm_get (ag_scores b) k") (use eq pm pb in \<open>simp_all add: hm_get_or_def\<close>)
  qed
  have "set m = set (ag_scores b)"
    using get s(1) agg_inv_scores [OF inv]
    by (intro map_of_inject_set [THEN iffD1]) (simp_all add: fun_eq_iff hm_wf_def)
  then have "length m = length (ag_scores b)"
    using s(1) agg_inv_scores [OF inv] by (simp add: hm_len_keys)
  moreover have "\<not> list_ex (\<lambda>(k, n). hm_get m k \<noteq> Some n) (ag_scores b)"
    using get agg_inv_scores [OF inv] by (auto simp: list_ex_iff hm_get_Some_set)
  ultimately show ?thesis using Rolling w m by (simp add: check_window_def)
qed (use w in \<open>simp_all add: check_window_def\<close>)

lemma own_users_checked:
  assumes "users_ok limits (cp_users cp) (cp_last_time cp)"
    and "limits \<noteq> None \<and> cp_users cp = [] \<longrightarrow> ag_scores b = []"
  shows "check_users cp limits b = Inr ()"
proof (cases limits)
  case (Some l)
  have "\<not> (\<exists>(key, user) \<in> set (cp_users cp). key = [] \<or> length key > 512 \<or> us_count user = 0 \<or>
      us_last_time user > cp_last_time cp \<or>
      (case ul_max_contributions l of None \<Rightarrow> False | Some mx \<Rightarrow> us_count user > mx))"
  proof clarify
    fix key user assume "(key, user) \<in> set (cp_users cp)"
    then have "user_ok l (cp_last_time cp) (key, user)"
      using assms(1) Some by (simp add: list_all_iff)
    moreover assume "key = [] \<or> length key > 512 \<or> us_count user = 0 \<or>
      us_last_time user > cp_last_time cp \<or>
      (case ul_max_contributions l of None \<Rightarrow> False | Some mx \<Rightarrow> us_count user > mx)"
    ultimately show False
      by (simp add: user_ok_def valid_key_def split: option.splits)
  qed
  then show ?thesis using assms Some by (auto simp: check_users_def list_ex_iff)
qed (use assms in \<open>simp add: check_users_def\<close>)

lemma own_checkpoint_compatible:
  assumes inv: "ranking_inv r" and fresh: "rk_definition q = rk_definition r" "ag_revision (rk_state q) = 0"
  shows "\<not> checkpoint_incompatible (ranking_checkpoint r) q"
proof -
  have a: "agg_inv (rk_state r)" using inv by (rule ranking_inv_state)
  have cap: "length (ag_scores (rk_state r)) \<le> rd_capacity (rk_definition r)"
    using agg_inv_capacity [OF a] inv by (simp add: ranking_inv_def)
  have h: "hex_identity (rk_instance_id r)" using inv by (simp add: ranking_inv_def)
  show ?thesis unfolding checkpoint_incompatible_def Let_def ranking_checkpoint_def
      checkpoint.simps ranking_selection_eq [OF inv] fresh
    using cap h by (simp add: complete_snapshot_def snapshot_candidates_def)
qed

lemma checkpoint_round_trip:
  assumes inv: "ranking_inv r" and q: "ranking_inv q"
    and fresh: "rk_definition q = rk_definition r" "ag_revision (rk_state q) = 0"
    and rev: "length (ag_scores (rk_state r)) \<le> ag_revision (rk_state r)"
  shows "\<exists>r'. restore_ranking (ranking_checkpoint r) q = Inr r' \<and>
    ranking_selection r' = ranking_selection r \<and> rk_definition r' = rk_definition r \<and>
    scores_of (rk_state r') = scores_of (rk_state r) \<and>
    rk_window_events r' = rk_window_events r \<and> rk_last_time r' = rk_last_time r \<and>
    rk_users r' = rk_users r \<and> rk_paused r' = rk_paused r \<and> same_counters r r'"
proof -
  have a: "agg_inv (rk_state r)" using inv by (rule ranking_inv_state)
  let ?cp = "ranking_checkpoint r" and ?d = "rk_definition r"
  have es: "sn_entries (cp_snapshot ?cp) =
      number_entries 0 (map (candidate_entry (rk_state r)) (leaderboard (ag_scores (rk_state r))))"
    by (simp add: ranking_checkpoint_def ranking_selection_eq [OF inv])
  have sn: "sn_total_score (cp_snapshot ?cp) = ag_total (rk_state r)"
    "sn_revision (cp_snapshot ?cp) = ag_revision (rk_state r)"
    "sn_instance_id (cp_snapshot ?cp) = Some (rk_instance_id r)"
    "sn_paused (cp_snapshot ?cp) = rk_paused r"
    "sn_rejected (cp_snapshot ?cp) = rk_rejected r" "sn_dropped (cp_snapshot ?cp) = rk_dropped r"
    "sn_limited (cp_snapshot ?cp) = rk_limited r"
    "sn_cooldown_rejected (cp_snapshot ?cp) = rk_cooldown_rejected r"
    by (simp_all add: ranking_checkpoint_def ranking_selection_eq [OF inv] complete_snapshot_def
        snapshot_candidates_def)
  have cp: "cp_window_events ?cp = rk_window_events r" "cp_last_time ?cp = rk_last_time r"
    "cp_users ?cp = rk_users r" by (simp_all add: ranking_checkpoint_def)
  have "length (ag_scores (rk_state r)) \<le> u64_max" using rev agg_inv_revision [OF a] by linarith
  then obtain b where b: "restore_entries [] (sn_entries (cp_snapshot ?cp)) (aggregation_new (rd_capacity ?d)) = Inr b"
    "agg_inv b" "ag_total b = ag_total (rk_state r)" "ag_revision b = length (ag_scores (rk_state r))"
    "set (ag_scores b) = set (ag_scores (rk_state r))" "length (ag_scores b) = length (ag_scores (rk_state r))"
    "scores_of b = scores_of (rk_state r)"
    "\<forall>p \<in> set (ag_scores (rk_state r)). candidate_entry b p = candidate_entry (rk_state r) p"
    using restore_own_entries [OF inv] unfolding es by blast
  have win: "check_window ?cp (rd_window ?d) b = Inr ()"
    using ranking_inv_window [OF inv] b(7) cp by (intro own_window_checked [OF b(2)]) simp
  have usr: "check_users ?cp (rd_user_limits ?d) b = Inr ()"
    using inv b(6) cp by (intro own_users_checked) (auto simp: ranking_inv_def)
  let ?r = "checkpoint_ranking ?cp b q"
  have run: "restore_ranking ?cp q = Inr ?r"
    using own_checkpoint_compatible [OF inv fresh] b(1,3,4) sn(1,2) rev win usr fresh(1)
    by (simp add: restore_ranking_def)
  have typed: "checkpoint_typed ?cp"
    using inv agg_inv_revision [OF a] ranking_inv_users [OF inv] sn cp
    by (cases "rd_user_limits ?d") (auto simp: checkpoint_typed_def ranking_inv_def user_ok_def list_all_iff)
  have sc: "scores_of (rk_state ?r) = scores_of (rk_state r)"
    using b(7) by (simp add: checkpoint_ranking_def Let_def scores_of_def fun_eq_iff)
  have r': "ranking_inv ?r" using restore_ranking_inv [OF q typed run] by simp
  have fields: "rk_definition ?r = ?d" "rk_instance_id ?r = rk_instance_id r" "rk_rejected ?r = rk_rejected r"
    "rk_dropped ?r = rk_dropped r" "rk_limited ?r = rk_limited r" "rk_paused ?r = rk_paused r"
    "rk_cooldown_rejected ?r = rk_cooldown_rejected r" "rk_window_events ?r = rk_window_events r"
    "rk_last_time ?r = rk_last_time r" "rk_users ?r = rk_users r"
    "rk_state ?r = b\<lparr>ag_revision := ag_revision (rk_state r)\<rparr>"
    using sn cp fresh by (simp_all add: checkpoint_ranking_def Let_def)
  have L: "leaderboard (ag_scores b) = leaderboard (ag_scores (rk_state r))"
    using b(5) agg_inv_scores [OF b(2)] agg_inv_scores [OF a] by (intro leaderboard_cong)
  have "candidate_entry (b\<lparr>ag_revision := n\<rparr>) = candidate_entry b" for n
    by (simp add: fun_eq_iff candidate_entry_def)
  then have es': "map (candidate_entry (rk_state ?r)) (leaderboard (ag_scores (rk_state ?r))) =
      map (candidate_entry (rk_state r)) (leaderboard (ag_scores (rk_state r)))"
    using fields(11) L b(8) by simp
  have cs: "complete_snapshot ?r (snapshot_candidates n (rk_state ?r))\<lparr>sn_entries := xs\<rparr> =
      complete_snapshot r (snapshot_candidates n (rk_state r))\<lparr>sn_entries := xs\<rparr>" for n xs
    using fields b(3,6) by (simp add: complete_snapshot_def snapshot_candidates_def)
  have "ranking_selection ?r = ranking_selection r"
    unfolding ranking_selection_eq [OF inv] ranking_selection_eq [OF r'] es' fields(1) by (rule cs)
  then show ?thesis using run sc fields by (simp add: same_counters_def)
qed

end
