(* ===== verification/Ranking_Guarantees.thy ===== *)
theory Ranking_Guarantees
  imports Engine_Checkpoint
begin

text \<open>
  The guarantees of the ranking engine, each over the operations of the engine as a whole, with a
  concrete instance. The example rankings are small definitions of the kind the application creates.
\<close>

section \<open>Examples\<close>

definition gift_rule :: source_rule where
  "gift_rule = \<lparr>sr_source = ''tiktok.gift'', sr_metric = ''gift.diamonds'', sr_weight = 2,
     sr_enabled = True, sr_gift_multipliers = []\<rparr>"

definition gift_ranking :: "window \<Rightarrow> user_limits option \<Rightarrow> ranking_definition" where
  "gift_ranking w limits =
     \<lparr>rd_schema_version = 1, rd_id = ''top'', rd_creator_id = ''ana'', rd_room_id = ''r1'',
      rd_group_by = ByUser, rd_window = w, rd_user_limits = limits, rd_sources = [gift_rule],
      rd_limit = 10, rd_capacity = 100\<rparr>"

definition gift :: "string option \<Rightarrow> u64 \<Rightarrow> contribution" where
  "gift user diamonds =
     \<lparr>c_creator_id = ''ana'', c_room_id = ''r1'', c_source = ''tiktok.gift'', c_user = user,
      c_gift = Some ''rose'', c_option = None, c_team = None, c_custom_key = None,
      c_metrics = [(''gift.diamonds'', diamonds)]\<rparr>"

definition example_identity :: string where
  "example_identity = replicate 16 CHR ''a''"

definition gift_engine :: "window \<Rightarrow> user_limits option \<Rightarrow> engine" where
  "gift_engine w limits = fst (engine_create (Some example_identity) (gift_ranking w limits) engine_default)"

lemmas example_defs = gift_rule_def gift_ranking_def gift_def gift_engine_def example_identity_def

lemma gift_engine_inv: "engine_inv (gift_engine w limits)"
  unfolding gift_engine_def
  by (rule engine_inv_create [OF engine_inv_default])
    (simp_all add: engine_default_def u64_max_def example_identity_def)

definition gift_state :: "window \<Rightarrow> user_limits option \<Rightarrow> ranking" where
  "gift_state w limits = ranking_new (gift_ranking w limits) 1 (hex_bytes example_identity)"

lemma gift_ranking_valid:
  "definition_invalid (gift_ranking w limits) \<longleftrightarrow>
     (case w of Rolling d mx \<Rightarrow> d = 0 \<or> mx = 0 \<or> mx > 100000
      | Daily z \<Rightarrow> \<not> (-840 \<le> z \<and> z \<le> 840) | Session \<Rightarrow> False) \<or>
     (case limits of None \<Rightarrow> False | Some l \<Rightarrow> user_limits_invalid l)"
  by (simp add: definition_invalid_def gift_ranking_def gift_rule_def has_vote_source_def
      source_rule_invalid_def)

lemma gift_engine_rankings:
  assumes "\<not> definition_invalid (gift_ranking w limits)"
  shows "en_rankings (gift_engine w limits) = [(''top'', gift_state w limits)]"
    and "en_by_source (gift_engine w limits) = [(''tiktok.gift'', [''top''])]"
  using assms
  by (simp_all add: gift_engine_def engine_create_def engine_default_def hm_has_def checked_add_def
      u64_max_def gift_state_def index_sources_def add_source_def hm_get_or_def gift_rule_def
      gift_ranking_def)

section \<open>No operation aborts\<close>

primrec engine_run :: "engine_op list \<Rightarrow> engine \<Rightarrow> engine run" where
  "engine_run [] e = Ret e"
| "engine_run (op # ops) e = run_bind (engine_step op e) (engine_run ops)"

lemma next_instance_ops:
  "en_next_instance (fst (engine_create identity d e)) \<le> en_next_instance e + 1"
  "engine_update identity d reset e = Ret p \<Longrightarrow> en_next_instance (fst p) = en_next_instance e"
  "en_next_instance (fst (engine_remove rid e)) = en_next_instance e"
  "apply_at_with_metadata c now user g e = Ret q \<Longrightarrow> en_next_instance (fst q) = en_next_instance e"
  "expire_at now e = Ret e' \<Longrightarrow> en_next_instance e' = en_next_instance e"
  "mark_gap creator room source e = Ret e' \<Longrightarrow> en_next_instance e' = en_next_instance e"
  "mark_metric_gap creator room source metric e = Ret e' \<Longrightarrow> en_next_instance e' = en_next_instance e"
  "en_next_instance (mark_ranking_gap rid e) = en_next_instance e"
  "en_next_instance (fst (mark_recovery_gap rid e)) = en_next_instance e"
  "en_next_instance (mark_ingress_loss n e) = en_next_instance e"
  "en_next_instance (fst (apply_assignment rid previous new e)) = en_next_instance e"
  "en_next_instance (fst (apply_committed_score rid opt n e)) = en_next_instance e"
  "en_next_instance (fst (restore_assignments_with_scores rid totals scored e)) = en_next_instance e"
  "en_next_instance (fst (set_entry_metadata rid key md e)) = en_next_instance e"
  "en_next_instance (fst (engine_reset rid e)) = en_next_instance e"
  "en_next_instance (fst (set_paused rid paused e)) = en_next_instance e"
  by (auto simp: engine_create_def Let_def checked_add_def engine_update_def engine_remove_def
      apply_at_with_metadata_def expire_at_def mark_gap_def mark_metric_gap_def mark_ranking_gap_def
      mark_recovery_gap_def mark_ingress_loss_def apply_assignment_def apply_committed_score_def
      restore_assignments_with_scores_def set_entry_metadata_def engine_reset_def set_paused_def
      run_bind_eq_Ret split: option.splits sum.splits prod.splits if_splits run.splits)

lemma engine_step_instances:
  assumes "engine_step op e = Ret e'"
  shows "en_next_instance e' \<le> en_next_instance e + 1"
  using assms next_instance_ops(1) [of _ _ e]
  by (cases op) (auto simp: engine_step_def run_bind_eq_Ret next_instance_ops
      simp del: One_nat_def dest: next_instance_ops(2,4-7))

lemma engine_run_inv:
  assumes "engine_inv e" and "list_all op_ok ops" and "en_next_instance e + length ops \<le> u64_max"
  shows "\<exists>e'. engine_run ops e = Ret e' \<and> engine_inv e'"
  using assms
proof (induction ops arbitrary: e)
  case (Cons op ops)
  then have "en_next_instance e < u64_max" "op_ok op" by simp_all
  then obtain e1 where e1: "engine_step op e = Ret e1" "engine_inv e1"
    using engine_step_inv [OF Cons.prems(1)] by blast
  have "en_next_instance e1 + length ops \<le> u64_max"
    using engine_step_instances [OF e1(1)] Cons.prems(3) by simp
  then show ?case using Cons.IH [OF e1(2)] Cons.prems(2) e1(1) by simp
qed simp



section \<open>Contributions\<close>

text \<open>
  C2. A contribution that is not reported as failed does to each ranking it addresses exactly what
  it should: with \<open>q\<close> the ranking after expiry, it adds the specified score (the sum of delta times
  weight times multiplier over the enabled rules) to the one entry its group key names, when the
  user's limits allow it, and changes no score otherwise.
\<close>

theorem contribution_credited:
  assumes inv: "engine_inv e" and r: "hm_get (en_rankings e) rid = Some r"
    and uses: "uses_source (rk_definition r) (c_source c)" and adr: "addressed c r"
    and q: "expire_ranking now r = Ret (q, res)"
    and option: "c_option c \<noteq> None \<or> \<not> has_vote_source (rk_definition r)"
    and run: "apply_at c now e = Ret (e', fs)" and ok: "\<forall>x. (rid, x) \<notin> set fs"
  shows "\<exists>r'. hm_get (en_rankings e') rid = Some r' \<and>
    (let n = score_spec (rd_sources (rk_definition r)) c in
     if n = 0 then r' = q
     else \<exists>key. group_key (rd_group_by (rk_definition r)) c = Some key \<and>
       (if user_decision q (c_user c) = Inr Allowed
        then scores_of (rk_state r') = (scores_of (rk_state q))(key := scores_of (rk_state q) key + n) \<and>
             ag_total (rk_state r') = ag_total (rk_state q) + n
        else scores_of (rk_state r') = scores_of (rk_state q)))"
proof -
  have rinv: "ranking_inv r" using engine_inv_get [OF inv r] .
  obtain r' f where step: "contribute_to_ranking c now None None r = Ret (r', f)"
    "hm_get (en_rankings e') rid = Some r'" "\<forall>x. (rid, x) \<in> set fs \<longleftrightarrow> f = Some x"
    using apply_at_used [OF inv run [unfolded apply_at_def] r uses] by blast
  have f: "f = None" using step(3) ok by (cases f) auto
  have con: "contributed c q r' None" and d: "rk_definition q = rk_definition r"
    using contribute_to_ranking_spec [OF rinv adr, of now None None] step(1) q f expired_rankingD(2)
    by auto
  have opt: "\<not> (c_option c = None \<and> has_vote_source (rk_definition q))" using option d by auto
  let ?n = "score_spec (rd_sources (rk_definition r)) c"
  show ?thesis
  proof (cases "score (rd_sources (rk_definition r)) c = Inr 0")
    case True
    then have "?n = 0" by (simp add: score_Inr)
    then show ?thesis using con step(2) d True by (simp add: contributed_def)
  next
    case False
    then have "accounted c (score (rd_sources (rk_definition r)) c) q r'"
      using con opt d by (auto simp: contributed_def Let_def)
    then obtain n key where n: "score (rd_sources (rk_definition r)) c = Inr n"
      "group_key (rd_group_by (rk_definition r)) c = Some key"
      "if user_decision q (c_user c) = Inr Allowed then credited (c_user c) key n q r' else held q r'"
      using d by (auto simp: accounted_def)
    have "n = ?n" "n \<noteq> 0" using n(1) False by (auto simp: score_Inr)
    moreover have "scores_of (rk_state r') = scores_of (rk_state q)" if "held q r'"
      using that by (simp add: held_def fun_eq_iff scores_of_def)
    ultimately show ?thesis using n step(2) by (auto simp: credited_def Let_def)
  qed
qed

theorem contribution_credited_witness:
  "\<exists>e' fs r'. apply_at (gift (Some ''bob'') 3) 10 (gift_engine Session None) = Ret (e', fs) \<and>
    hm_get (en_rankings e') ''top'' = Some r' \<and> scores_of (rk_state r') ''bob'' = 6"
proof -
  let ?e = "gift_engine Session None" and ?r = "gift_state Session None"
  let ?c = "gift (Some ''bob'') 3"
  have v: "\<not> definition_invalid (gift_ranking Session None)" by (simp add: gift_ranking_valid)
  have d: "rk_definition ?r = gift_ranking Session None" by (simp add: gift_state_def ranking_new_def)
  have sc: "score_spec (rd_sources (rk_definition ?r)) ?c = 6"
    unfolding d by (simp add: score_spec_def rule_value_def rule_applies_def rule_measured_def
        rule_deltas_def rule_multiplier_def example_defs hm_get_or_def)
  obtain e' fs where run: "apply_at ?c 10 ?e = Ret (e', fs)"
    using engine_inv_apply [OF gift_engine_inv [of Session None], of ?c 10 None None]
    unfolding apply_at_def by blast
  have r: "hm_get (en_rankings ?e) ''top'' = Some ?r" using gift_engine_rankings(1) [OF v] by simp
  have nofail: "\<forall>x. (''top'', x) \<notin> set fs"
    using run gift_engine_rankings [OF v]
    by (auto simp: apply_at_def apply_at_with_metadata_def gift_state_def ranking_new_def
        contribute_to_ranking_def expire_ranking_def account_contribution_def user_decision_def
        accept_contribution_def aggregation_apply_def aggregation_new_def hm_has_def hm_get_or_def
        checked_mul_def checked_add_def u64_max_def group_key_def group_metadata_def has_vote_source_def
        score_def rule_applies_def rule_measured_def rule_multiplier_def rule_deltas_def example_defs)
  obtain r' where "hm_get (en_rankings e') ''top'' = Some r'"
    "let n = score_spec (rd_sources (rk_definition ?r)) ?c in
     if n = 0 then r' = ?r\<lparr>rk_last_time := 10\<rparr>
     else \<exists>key. group_key (rd_group_by (rk_definition ?r)) ?c = Some key \<and>
       (if user_decision (?r\<lparr>rk_last_time := 10\<rparr>) (c_user ?c) = Inr Allowed
        then scores_of (rk_state r') = (scores_of (rk_state (?r\<lparr>rk_last_time := 10\<rparr>)))
               (key := scores_of (rk_state (?r\<lparr>rk_last_time := 10\<rparr>)) key + n) \<and>
             ag_total (rk_state r') = ag_total (rk_state (?r\<lparr>rk_last_time := 10\<rparr>)) + n
        else scores_of (rk_state r') = scores_of (rk_state (?r\<lparr>rk_last_time := 10\<rparr>)))"
    using contribution_credited [OF gift_engine_inv r _ _ _ _ run nofail, of "?r\<lparr>rk_last_time := 10\<rparr>" "Inr ()"]
    by (auto simp: d uses_source_def addressed_def expire_ranking_def gift_state_def ranking_new_def
        has_vote_source_def example_defs)
  then have "scores_of (rk_state r') ''bob'' = 6"
    unfolding sc by (simp add: d group_key_def user_decision_def gift_state_def ranking_new_def example_defs)
  then show ?thesis using run \<open>hm_get (en_rankings e') ''top'' = Some r'\<close> by blast
qed

text \<open>
  No failure is silent: if a contribution is reported as failed for a ranking, that ranking's
  snapshot says \<open>degraded\<close> and counts the rejection.
\<close>

theorem contribution_failure_degrades:
  assumes inv: "engine_inv e" and run: "apply_at_with_metadata c now user g e = Ret (e', fs)"
    and failed: "(rid, x) \<in> set fs" and r: "hm_get (en_rankings e) rid = Some r"
  shows "\<exists>s. engine_snapshot rid e' = Some s \<and> sn_integrity_status s = ''degraded'' \<and> 0 < sn_rejected s"
proof -
  have uses: "uses_source (rk_definition r) (c_source c)"
    using apply_at_unused [OF inv run r] failed by blast
  obtain r' f where step: "contribute_to_ranking c now user g r = Ret (r', f)"
    "hm_get (en_rankings e') rid = Some r'" "f = Some x"
    using apply_at_used [OF inv run r uses] failed by metis
  then have "0 < rk_rejected r'"
    using contribute_to_ranking_total [OF engine_inv_get [OF inv r], of c now user g] by auto
  then show ?thesis using step(2)
    by (simp add: engine_snapshot_def snapshot_unranked_def snapshot_unranked_capped_def Let_def
        complete_snapshot_def rank_snapshot_def)
qed

theorem contribution_failure_degrades_witness:
  "\<exists>e' fs s. apply_at_with_metadata (gift None 3) 10 None None (gift_engine Session None) = Ret (e', fs) \<and>
    engine_snapshot ''top'' e' = Some s \<and> sn_integrity_status s = ''degraded'' \<and> 0 < sn_rejected s"
proof -
  have v: "\<not> definition_invalid (gift_ranking Session None)" by (simp add: gift_ranking_valid)
  obtain e' fs where run: "apply_at_with_metadata (gift None 3) 10 None None (gift_engine Session None) = Ret (e', fs)"
    using engine_inv_apply [OF gift_engine_inv] by blast
  have "(''top'', InvalidKey) \<in> set fs"
    using run gift_engine_rankings [OF v]
    by (auto simp: apply_at_with_metadata_def gift_state_def ranking_new_def
        contribute_to_ranking_def expire_ranking_def account_contribution_def
        checked_mul_def checked_add_def u64_max_def group_key_def has_vote_source_def hm_get_or_def
        score_def rule_applies_def rule_measured_def rule_multiplier_def rule_deltas_def example_defs)
  then show ?thesis
    using contribution_failure_degrades [OF gift_engine_inv run, of "''top''" InvalidKey "gift_state Session None"]
      gift_engine_rankings(1) [OF v] run by auto
qed

text \<open>
  A contribution touches nothing else: a ranking that does not use its source, is paused, or
  belongs to another creator or room is left exactly as it was, and no failure is reported for it.
\<close>

theorem contribution_frame:
  assumes inv: "engine_inv e" and run: "apply_at_with_metadata c now user g e = Ret (e', fs)"
    and r: "hm_get (en_rankings e) rid = Some r"
    and out: "\<not> uses_source (rk_definition r) (c_source c) \<or> \<not> addressed c r"
  shows "hm_get (en_rankings e') rid = Some r \<and> (\<forall>x. (rid, x) \<notin> set fs)"
proof (cases "uses_source (rk_definition r) (c_source c)")
  case True
  then have "contribute_to_ranking c now user g r = Ret (r, None)" using out by (simp add: not_addressed)
  moreover obtain r' f where "contribute_to_ranking c now user g r = Ret (r', f)"
    "hm_get (en_rankings e') rid = Some r'" "\<forall>x. (rid, x) \<in> set fs \<longleftrightarrow> f = Some x"
    using apply_at_used [OF inv run r True] by blast
  ultimately show ?thesis by simp
qed (rule apply_at_unused [OF inv run r])

theorem contribution_frame_witness:
  "\<exists>e' fs. apply_at_with_metadata ((gift None 3)\<lparr>c_room_id := ''r2''\<rparr>) 10 None None (gift_engine Session None) =
      Ret (e', fs) \<and>
    hm_get (en_rankings e') ''top'' = Some (gift_state Session None) \<and> (\<forall>x. (''top'', x) \<notin> set fs)"
proof -
  let ?c = "(gift None 3)\<lparr>c_room_id := ''r2''\<rparr>"
  have v: "\<not> definition_invalid (gift_ranking Session None)" by (simp add: gift_ranking_valid)
  obtain e' fs where run: "apply_at_with_metadata ?c 10 None None (gift_engine Session None) = Ret (e', fs)"
    using engine_inv_apply [OF gift_engine_inv] by blast
  have "\<not> addressed ?c (gift_state Session None)"
    by (simp add: addressed_def gift_state_def ranking_new_def example_defs)
  then show ?thesis
    using contribution_frame [OF gift_engine_inv run, of "''top''" "gift_state Session None"]
      gift_engine_rankings(1) [OF v] run by auto
qed

section \<open>Rolling windows\<close>

text \<open>
  C3. After expiry at time \<open>now\<close>, the score of every key of a rolling ranking is the sum of
  exactly the accepted contributions that are younger than the window's duration; the older ones
  count no more. The clock never goes back: the time used is the later of \<open>now\<close> and the last one.
\<close>

theorem rolling_window_exact:
  assumes inv: "engine_inv e" and r: "hm_get (en_rankings e) rid = Some r"
    and w: "rd_window (rk_definition r) = Rolling duration mx"
    and room: "ag_revision (rk_state r) + length (rk_window_events r) < u64_max"
  shows "\<exists>r'. expire_ranking now r = Ret (r', Inr ()) \<and>
    scores_of (rk_state r') = window_total
      (filter (\<lambda>x. max (rk_last_time r) now - fst x < duration) (rk_window_events r))"
proof -
  have rinv: "ranking_inv r" using engine_inv_get [OF inv r] .
  obtain r' where r': "expire_ranking now r = Ret (r', Inr ())"
    using expire_ranking_rolling_ok [OF rinv w room] by blast
  obtain q res where "expire_ranking now r = Ret (q, res)" "expired_ranking now r q"
    using expire_ranking_inv [OF rinv, of now] by blast
  then have "expired_ranking now r r'" using r' by simp
  then have "window_inv r'" "rk_definition r' = rk_definition r"
    using ranking_inv_window expired_rankingD(1,2) by blast+
  then have "scores_of (rk_state r') = window_total (rk_window_events r')" using w by simp
  then show ?thesis using r' expire_ranking_rolling [OF rinv w r'] by simp
qed

lemmas evaluate = apply_at_with_metadata_def gift_state_def ranking_new_def contribute_to_ranking_def
  expire_ranking_def account_contribution_def user_decision_def accept_contribution_def
  aggregation_apply_def aggregation_new_def hm_has_def hm_get_or_def checked_mul_def checked_add_def
  u64_max_def group_key_def group_metadata_def has_vote_source_def score_def rule_applies_def
  rule_measured_def rule_multiplier_def rule_deltas_def

definition rolling_ops :: "engine_op list" where
  "rolling_ops = [Op_Create (Some example_identity) (gift_ranking (Rolling 10 5) None),
     Op_Apply (gift (Some ''bob'') 3) 10 None None, Op_Apply (gift (Some ''eve'') 1) 15 None None]"

lemma rolling_ops_state:
  "\<exists>e r. engine_run rolling_ops engine_default = Ret e \<and> engine_inv e \<and>
     hm_get (en_rankings e) ''top'' = Some r \<and> rd_window (rk_definition r) = Rolling 10 5 \<and>
     rk_window_events r = [(10, ''bob'', 6), (15, ''eve'', 2)] \<and> rk_last_time r = 15 \<and>
     ag_revision (rk_state r) = 2"
proof -
  have v: "\<not> definition_invalid (gift_ranking (Rolling 10 5) None)" by (simp add: gift_ranking_valid)
  obtain e where e: "engine_run rolling_ops engine_default = Ret e" "engine_inv e"
    using engine_run_inv [OF engine_inv_default, of rolling_ops]
    by (auto simp: rolling_ops_def example_identity_def engine_default_def u64_max_def)
  define e0 where "e0 = gift_engine (Rolling 10 5) None"
  have c: "engine_step (Op_Create (Some example_identity) (gift_ranking (Rolling 10 5) None)) engine_default =
      Ret e0"
    by (simp add: engine_step_def gift_engine_def e0_def)
  have "\<exists>r. hm_get (en_rankings e) ''top'' = Some r \<and> rd_window (rk_definition r) = Rolling 10 5 \<and>
     rk_window_events r = [(10, ''bob'', 6), (15, ''eve'', 2)] \<and> rk_last_time r = 15 \<and>
     ag_revision (rk_state r) = 2"
    using e(1) [unfolded rolling_ops_def engine_run.simps c run_bind_simps] gift_engine_rankings [OF v, folded e0_def]
    by (auto simp: engine_step_def evaluate gift_def gift_ranking_def [of "Rolling 10 5"] gift_rule_def)
  then show ?thesis using e by blast
qed

theorem rolling_window_exact_witness:
  "\<exists>e r r'. engine_run rolling_ops engine_default = Ret e \<and> hm_get (en_rankings e) ''top'' = Some r \<and>
    expire_ranking 20 r = Ret (r', Inr ()) \<and> scores_of (rk_state r') ''bob'' = 0 \<and>
    scores_of (rk_state r') ''eve'' = 2"
proof -
  obtain e r where e: "engine_run rolling_ops engine_default = Ret e" "engine_inv e"
    "hm_get (en_rankings e) ''top'' = Some r" "rd_window (rk_definition r) = Rolling 10 5"
    "rk_window_events r = [(10, ''bob'', 6), (15, ''eve'', 2)]" "rk_last_time r = 15"
    "ag_revision (rk_state r) = 2"
    using rolling_ops_state by blast
  then show ?thesis using rolling_window_exact [OF e(2-4), of 20] by (auto simp: u64_max_def)
qed

section \<open>User limits\<close>




text \<open>
  Between two states of a ranking outside daily windows, one contribution moves a user's count
  only by one, and only if the count was below the maximum and the cooldown since the user's last
  accepted contribution had passed.
\<close>

theorem user_cooldown_respected:
  assumes inv: "engine_inv e" and run: "apply_at_with_metadata c now user g e = Ret (e', fs)"
    and r: "hm_get (en_rankings e) rid = Some r" and r': "hm_get (en_rankings e') rid = Some r'"
    and l: "rd_user_limits (rk_definition r) = Some l" and w: "\<forall>z. rd_window (rk_definition r) \<noteq> Daily z"
    and st: "hm_get (rk_users r) u = Some st" and st': "hm_get (rk_users r') u = Some st'"
    and changed: "st' \<noteq> st"
  shows "us_count st' = us_count st + 1 \<and> within_limits l (us_last_time st') st"
proof -
  have adr: "uses_source (rk_definition r) (c_source c)" "addressed c r"
    using contribution_frame [OF inv run r] r' st st' changed by fastforce+
  have rinv: "ranking_inv r" using engine_inv_get [OF inv r] .
  obtain r1 f where step: "contribute_to_ranking c now user g r = Ret (r1, f)"
    "hm_get (en_rankings e') rid = Some r1"
    using apply_at_used [OF inv run r adr(1)] by blast
  then obtain q res where q: "expire_ranking now r = Ret (q, res)" "expired_ranking now r q"
    and con: "contributed c q r' f"
    using contribute_to_ranking_spec [OF rinv adr(2), of now user g] r' by auto
  have users: "rk_users q = rk_users r"
    using q(1) w by (auto simp: expire_ranking_def Let_def split: window.splits run.splits)
  have d: "rk_definition q = rk_definition r" using q(2) by (rule expired_rankingD)
  have "f = None" and "accounted c (score (rd_sources (rk_definition q)) c) q r'"
    using con users st st' changed by (auto simp: contributed_def Let_def split: option.splits if_splits)
  then have allowed: "user_decision q (c_user c) = Inr Allowed" and
    us: "rk_users r' = (case c_user c of Some v \<Rightarrow> rk_users (count_user v q) | None \<Rightarrow> rk_users q)"
    using users st st' changed d l by (auto simp: accounted_def credited_def held_def split: if_splits)
  obtain v where v: "c_user c = Some v" "case hm_get (rk_users q) v of
      None \<Rightarrow> length (rk_users q) < ul_max_users l | Some st \<Rightarrow> within_limits l (rk_last_time q) st"
    using allowed d l by (auto simp: user_decision_Allowed)
  have "v = u" using us v(1) users st st' changed by (auto simp: count_user_users hm_simps split: if_splits)
  then have "st' = \<lparr>us_count = us_count st + 1, us_last_time = rk_last_time q\<rparr>"
    using us v(1) users st st' by (simp add: count_user_users hm_simps hm_get_or_def)
  then show ?thesis using v(2) \<open>v = u\<close> users st by simp
qed

definition spaced :: user_limits where
  "spaced = \<lparr>ul_max_contributions = Some 2, ul_cooldown_ms = Some 5, ul_max_users = 5\<rparr>"

theorem user_cooldown_respected_witness:
  "\<exists>e fs r. apply_at_with_metadata (gift (Some ''bob'') 3) 10 None None (gift_engine Session (Some spaced)) =
      Ret (e, fs) \<and> hm_get (en_rankings e) ''top'' = Some r \<and>
    (\<exists>e' fs' r' st st'. apply_at_with_metadata (gift (Some ''bob'') 1) 20 None None e = Ret (e', fs') \<and>
      hm_get (en_rankings e') ''top'' = Some r' \<and> hm_get (rk_users r) ''bob'' = Some st \<and>
      hm_get (rk_users r') ''bob'' = Some st' \<and> us_count st' = us_count st + 1 \<and>
      within_limits spaced (us_last_time st') st)"
proof -
  have v: "\<not> definition_invalid (gift_ranking Session (Some spaced))"
    by (simp add: gift_ranking_valid user_limits_invalid_def spaced_def)
  define e0 where "e0 = gift_engine Session (Some spaced)"
  note start = gift_engine_rankings [OF v, folded e0_def]
  obtain e fs where e: "apply_at_with_metadata (gift (Some ''bob'') 3) 10 None None e0 = Ret (e, fs)" "engine_inv e"
    using engine_inv_apply [OF gift_engine_inv [of Session "Some spaced", folded e0_def]] by blast
  obtain e' fs' where e': "apply_at_with_metadata (gift (Some ''bob'') 1) 20 None None e = Ret (e', fs')"
    using engine_inv_apply [OF e(2)] by blast
  define r where "r = the (hm_get (en_rankings e) ''top'')"
  define r' where "r' = the (hm_get (en_rankings e') ''top'')"
  have "hm_get (en_rankings e) ''top'' = Some r \<and> rk_definition r = gift_ranking Session (Some spaced) \<and>
      rk_users r = [(''bob'', \<lparr>us_count = 1, us_last_time = 10\<rparr>)]"
    unfolding r_def using e(1) start
    by (auto simp: evaluate count_user_def gift_def gift_ranking_def gift_rule_def spaced_def)
  moreover have "hm_get (en_rankings e') ''top'' = Some r' \<and>
      rk_users r' = [(''bob'', \<lparr>us_count = 2, us_last_time = 20\<rparr>)]"
    unfolding r'_def using e(1) e' start
    by (auto simp: evaluate count_user_def gift_def gift_ranking_def gift_rule_def spaced_def)
  ultimately show ?thesis
    using user_cooldown_respected [OF e(2) e', of "''top''" r r' spaced "''bob''"] e(1) e'
    by (fastforce simp: e0_def gift_ranking_def)
qed

section \<open>Snapshots\<close>

lemma engine_snapshot_eq:
  assumes inv: "engine_inv e" and r: "hm_get (en_rankings e) rid = Some r"
  shows "engine_snapshot rid e = Some ((complete_snapshot r
      (snapshot_candidates (min (rd_limit (rk_definition r)) u64_max) (rk_state r)))
    \<lparr>sn_entries := number_entries 0 (map (candidate_entry (rk_state r))
      (take (min (rd_limit (rk_definition r)) u64_max) (leaderboard (ag_scores (rk_state r)))))\<rparr>)"
proof -
  let ?n = "min (rd_limit (rk_definition r)) u64_max"
  let ?s = "complete_snapshot r (snapshot_candidates ?n (rk_state r))"
  have a: "agg_inv (rk_state r)" using engine_inv_get [OF inv r] by (rule ranking_inv_state)
  have "sorted (map entry_order (sn_entries ?s))"
    using snapshot_candidates_sorted [OF a, of ?n] unfolding complete_snapshot_simps .
  from rank_snapshot_sorted [OF this, of ?n]
  have "rank_snapshot ?n ?s = ?s\<lparr>sn_entries := number_entries 0 (map (candidate_entry (rk_state r))
      (take ?n (leaderboard (ag_scores (rk_state r)))))\<rparr>"
    unfolding complete_snapshot_simps snapshot_entries [OF a] by (simp add: take_map)
  then show ?thesis using r
    by (simp add: engine_snapshot_def snapshot_unranked_def snapshot_unranked_capped_def Let_def)
qed

lemma snapshot_parts:
  assumes inv: "engine_inv e" and r: "hm_get (en_rankings e) rid = Some r"
    and s: "engine_snapshot rid e = Some s"
  shows "map e_rank (sn_entries s) = [1..<length (sn_entries s) + 1]"
    and "\<forall>x \<in> set (sn_entries s). e_score x = scores_of (rk_state r) (e_key x) \<and> 0 < e_score x"
    and "\<forall>i j. i < j \<and> j < length (sn_entries s) \<longrightarrow>
      e_score (sn_entries s ! j) < e_score (sn_entries s ! i) \<or>
      e_score (sn_entries s ! j) = e_score (sn_entries s ! i) \<and> e_key (sn_entries s ! i) < e_key (sn_entries s ! j)"
    and "length (sn_entries s) = min (min (rd_limit (rk_definition r)) u64_max) (sn_total_participants s)"
    and "\<forall>x k. x \<in> set (sn_entries s) \<and> k \<notin> e_key ` set (sn_entries s) \<longrightarrow>
      scores_of (rk_state r) k < e_score x \<or>
      scores_of (rk_state r) k = e_score x \<and> e_key x < k"
    and "sn_total_score s = hm_sum (ag_scores (rk_state r))"
proof -
  let ?a = "rk_state r" and ?n = "min (rd_limit (rk_definition r)) u64_max"
  let ?L = "leaderboard (ag_scores ?a)"
  have a: "agg_inv ?a" using engine_inv_get [OF inv r] by (rule ranking_inv_state)
  have wf: "hm_wf (ag_scores ?a)" using a by (rule agg_inv_scores)
  have es: "sn_entries s = number_entries 0 (map (candidate_entry ?a) (take ?n ?L))"
    and part: "sn_total_participants s = length (ag_scores ?a)" and tot: "sn_total_score s = ag_total ?a"
    using s engine_snapshot_eq [OF inv r] by (auto simp: snapshot_candidates_def)
  let ?es = "sn_entries s"
  have len: "length ?es = min ?n (length (ag_scores ?a))" by (simp add: es)
  show "length ?es = min ?n (sn_total_participants s)" using len part by simp
  have nth: "?es ! i = (candidate_entry ?a (?L ! i))\<lparr>e_rank := i + 1\<rparr>" if "i < length ?es" for i
    using that len by (simp add: es number_entries_nth)
  show "map e_rank ?es = [1..<length ?es + 1]"
    by (rule nth_equalityI) (simp_all add: nth del: upt_Suc)
  have key: "e_key (?es ! i) = fst (?L ! i)" "e_score (?es ! i) = snd (?L ! i)" if "i < length ?es" for i
    using nth [OF that] by simp_all
  have in_L: "?L ! i \<in> set (ag_scores ?a)" if "i < length ?es" for i
    using that len nth_mem [of i ?L] by simp
  show "\<forall>x \<in> set ?es. e_score x = scores_of ?a (e_key x) \<and> 0 < e_score x"
  proof
    fix x assume "x \<in> set ?es"
    then obtain i where i: "i < length ?es" "x = ?es ! i" by (auto simp: in_set_conv_nth)
    obtain k v where kv: "?L ! i = (k, v)" by force
    then have "hm_get (ag_scores ?a) k = Some v"
      using in_L [OF i(1)] wf by (simp add: hm_get_Some_set)
    then show "e_score x = scores_of ?a (e_key x) \<and> 0 < e_score x"
      using key [OF i(1)] i kv agg_inv_entry [OF a] by (auto simp: scores_of_def hm_get_or_def)
  qed
  have dist: "distinct (map fst ?L)" using distinct_keys_leaderboard [OF wf] .
  show order: "\<forall>i j. i < j \<and> j < length ?es \<longrightarrow>
      e_score (?es ! j) < e_score (?es ! i) \<or>
      e_score (?es ! j) = e_score (?es ! i) \<and> e_key (?es ! i) < e_key (?es ! j)"
  proof (intro allI impI)
    fix i j assume ij: "i < j \<and> j < length ?es"
    then have j: "j < length (ag_scores ?a)" using len by simp
    then have "map fst ?L ! i \<noteq> map fst ?L ! j"
      using ij nth_eq_iff_index_eq [OF dist, of i j] by simp
    then have "fst (?L ! i) \<noteq> fst (?L ! j)" using ij j by simp
    then show "e_score (?es ! j) < e_score (?es ! i) \<or>
      e_score (?es ! j) = e_score (?es ! i) \<and> e_key (?es ! i) < e_key (?es ! j)"
      using leaderboard_order [of i j "ag_scores ?a"] ij j key [of i] key [of j] by auto
  qed
  show "\<forall>x k. x \<in> set ?es \<and> k \<notin> e_key ` set ?es \<longrightarrow>
      scores_of ?a k < e_score x \<or> scores_of ?a k = e_score x \<and> e_key x < k"
  proof (intro allI impI)
    fix x k assume h: "x \<in> set ?es \<and> k \<notin> e_key ` set ?es"
    then obtain i where i: "i < length ?es" "x = ?es ! i" by (auto simp: in_set_conv_nth)
    have x: "(e_key x, e_score x) = ?L ! i" using key [OF i(1)] i(2) by simp
    have keys: "e_key ` set ?es = fst ` set (take ?n ?L)"
      by (simp add: es image_image map_number_entries comp_def flip: set_map)
    show "scores_of ?a k < e_score x \<or> scores_of ?a k = e_score x \<and> e_key x < k"
    proof (cases "hm_get (ag_scores ?a) k")
      case None
      moreover have "0 < e_score x"
        using in_L [OF i(1)] x a by (auto simp: agg_inv_def)
      ultimately show ?thesis by (simp add: scores_of_def hm_get_or_def)
    next
      case (Some v)
      have top: "ranking_index_top ?n (ag_index ?a) = take ?n ?L"
        using ri.top_follows [OF wf agg_inv_index [OF a]] .
      have "(e_key x, e_score x) \<in> set (ranking_index_top ?n (ag_index ?a))"
        using x i(1) len top by (auto simp: in_set_conv_nth)
      moreover have "(k, v) \<notin> set (ranking_index_top ?n (ag_index ?a))"
        using h keys top by force
      moreover have "(k, v) \<in> set (ag_scores ?a)" using Some by (rule map_of_SomeD)
      ultimately show ?thesis
        using ri.top_dominates [OF wf agg_inv_index [OF a]] Some by (simp add: scores_of_def hm_get_or_def)
    qed
  qed
  show "sn_total_score s = hm_sum (ag_scores ?a)" using tot agg_inv_total [OF a] by simp
qed

text \<open>
  C5. The snapshot of a ranking is its leaderboard: the ranks are 1, 2, and so on; every entry shows
  its key's score; scores descend and ties go to the smaller key; as many entries are shown as the
  limit and the participants allow; and every participant left out is behind the last one shown.
  The total is the sum of all participants' scores, shown or not.
\<close>

theorem snapshot_is_leaderboard:
  assumes "engine_inv e" and "hm_get (en_rankings e) rid = Some r" and "engine_snapshot rid e = Some s"
  shows "map e_rank (sn_entries s) = [1..<length (sn_entries s) + 1] \<and>
    (\<forall>x \<in> set (sn_entries s). e_score x = scores_of (rk_state r) (e_key x) \<and> 0 < e_score x) \<and>
    (\<forall>i j. i < j \<and> j < length (sn_entries s) \<longrightarrow>
      e_score (sn_entries s ! j) < e_score (sn_entries s ! i) \<or>
      e_score (sn_entries s ! j) = e_score (sn_entries s ! i) \<and>
      e_key (sn_entries s ! i) < e_key (sn_entries s ! j)) \<and>
    length (sn_entries s) = min (min (rd_limit (rk_definition r)) u64_max) (sn_total_participants s) \<and>
    (\<forall>x k. x \<in> set (sn_entries s) \<and> k \<notin> e_key ` set (sn_entries s) \<longrightarrow>
      scores_of (rk_state r) k < e_score x \<or>
      scores_of (rk_state r) k = e_score x \<and> e_key x < k) \<and>
    sn_total_score s = hm_sum (ag_scores (rk_state r))"
  by (intro conjI snapshot_parts [OF assms])

theorem snapshot_is_leaderboard_witness:
  "\<exists>s. engine_snapshot ''top'' (gift_engine Session None) = Some s \<and>
    map e_rank (sn_entries s) = [1..<length (sn_entries s) + 1] \<and>
    length (sn_entries s) = min (min 10 u64_max) (sn_total_participants s)"
proof -
  have v: "\<not> definition_invalid (gift_ranking Session None)" by (simp add: gift_ranking_valid)
  have r: "hm_get (en_rankings (gift_engine Session None)) ''top'' = Some (gift_state Session None)"
    using gift_engine_rankings(1) [OF v] by simp
  obtain s where s: "engine_snapshot ''top'' (gift_engine Session None) = Some s"
    using engine_snapshot_eq [OF gift_engine_inv r] by blast
  show ?thesis using s snapshot_is_leaderboard [OF gift_engine_inv r s]
    by (simp add: gift_state_def ranking_new_def gift_ranking_def)
qed

section \<open>Scoring\<close>

text \<open>
  C6. The score of a contribution is exact or an error: it is the unbounded sum of delta times
  weight times multiplier over the enabled rules of its source, and it is refused precisely when
  that sum exceeds 64 bits or a gift without identity meets a rule with gift multipliers.
\<close>

theorem score_exact:
  "score rules c = Inr n \<longleftrightarrow>
     n = score_spec rules c \<and> score_spec rules c \<le> u64_max \<and>
     (\<forall>rule \<in> set rules. \<not> ambiguous_gift c rule)"
  by (auto simp: score_Inr)

theorem score_exact_witness: "score [gift_rule] (gift (Some ''bob'') 3) = Inr 6"
  by (subst score_exact) (simp add: score_spec_def rule_value_def rule_applies_def rule_measured_def
      rule_deltas_def rule_multiplier_def ambiguous_gift_def example_defs hm_get_or_def u64_max_def)

section \<open>Checkpoints\<close>

text \<open>
  A checkpoint restored into a fresh ranking of the same definition, in any engine, is
  accepted and gives back the ranking: the same full snapshot (entries, ranks, labels, metadata,
  totals, revision, instance identity, counters, integrity), the same retained window and user
  states, the same pause.
\<close>

theorem checkpoint_restores_ranking:
  assumes inv: "engine_inv e" and r: "hm_get (en_rankings e) rid = Some r"
    and cp: "session_checkpoint rid e = Inr cp"
    and target: "engine_inv e0" "hm_get (en_rankings e0) rid = Some q"
    and fresh: "rk_definition q = rk_definition r" "ag_revision (rk_state q) = 0"
    and rev: "length (ag_scores (rk_state r)) \<le> ag_revision (rk_state r)"
  shows "\<exists>e1 r1. restore_session_checkpoint cp e0 = (e1, Inr ()) \<and>
    hm_get (en_rankings e1) rid = Some r1 \<and> selection_snapshot rid e1 = selection_snapshot rid e \<and>
    rk_window_events r1 = rk_window_events r \<and> rk_last_time r1 = rk_last_time r \<and>
    rk_users r1 = rk_users r \<and> rk_paused r1 = rk_paused r"
proof -
  have rinv: "ranking_inv r" and qinv: "ranking_inv q"
    using engine_inv_get inv r target by blast+
  have rid: "rd_id (rk_definition r) = rid" using inv r by (simp add: engine_inv_def rankings_ok_def)
  have cp_eq: "cp = ranking_checkpoint r" using cp session_checkpoint_eq [OF r] by simp
  obtain r1 where r1: "restore_ranking cp q = Inr r1" "ranking_selection r1 = ranking_selection r"
    "rk_window_events r1 = rk_window_events r" "rk_last_time r1 = rk_last_time r"
    "rk_users r1 = rk_users r" "rk_paused r1 = rk_paused r"
    using checkpoint_round_trip [OF rinv qinv fresh rev] unfolding cp_eq by blast
  have "restore_session_checkpoint cp e0 = (e0\<lparr>en_rankings := hm_insert rid r1 (en_rankings e0)\<rparr>, Inr ())"
    using r1(1) target(2) rid by (simp add: restore_session_checkpoint_def cp_eq ranking_checkpoint_def)
  then show ?thesis using r1 r by (simp add: selection_snapshot_def hm_simps)
qed

theorem checkpoint_restores_ranking_witness:
  "\<exists>cp e1. session_checkpoint ''top'' (gift_engine Session None) = Inr cp \<and>
    restore_session_checkpoint cp (gift_engine Session None) = (e1, Inr ()) \<and>
    selection_snapshot ''top'' e1 = selection_snapshot ''top'' (gift_engine Session None)"
proof -
  have v: "\<not> definition_invalid (gift_ranking Session None)" by (simp add: gift_ranking_valid)
  have r: "hm_get (en_rankings (gift_engine Session None)) ''top'' = Some (gift_state Session None)"
    using gift_engine_rankings(1) [OF v] by simp
  show ?thesis
    using checkpoint_restores_ranking [OF gift_engine_inv r session_checkpoint_eq [OF r] gift_engine_inv r]
      session_checkpoint_eq [OF r]
    by (auto simp: gift_state_def ranking_new_def aggregation_new_def)
qed

text \<open>
  Restoring any decoded checkpoint, damaged or forged, either leaves the engine as it was or
  yields a well-formed engine: entries, total, rolling window and user states agree with each other.
\<close>

theorem checkpoint_restore_safe:
  assumes "engine_inv e" and "checkpoint_typed cp"
    and "restore_session_checkpoint cp e = (e', res)"
  shows "engine_inv e' \<and> (\<forall>x. res = Inl x \<longrightarrow> e' = e)"
  using engine_inv_restore_checkpoint [OF assms(1,2)] assms(3) by auto

theorem checkpoint_restore_safe_witness:
  "\<exists>e' res. restore_session_checkpoint ((ranking_checkpoint (gift_state Session None))
      \<lparr>cp_window_events := [(3, ''x'', 1)]\<rparr>) (gift_engine Session None) = (e', res) \<and>
    engine_inv e' \<and> (\<forall>x. res = Inl x \<longrightarrow> e' = gift_engine Session None)"
proof -
  have "checkpoint_typed ((ranking_checkpoint (gift_state Session None))\<lparr>cp_window_events := [(3, ''x'', 1)]\<rparr>)"
    by (simp add: checkpoint_typed_def ranking_checkpoint_def ranking_selection_def rank_snapshot_def
        complete_snapshot_def snapshot_candidates_def gift_state_def ranking_new_def aggregation_new_def)
  then show ?thesis
    using checkpoint_restore_safe [OF gift_engine_inv] by (metis surj_pair)
qed

section \<open>Diagnostics, updates and the index\<close>

lemma diagnostics_fold:
  assumes "dg_rejected d \<le> u64_max" "dg_dropped d \<le> u64_max" "dg_limited d \<le> u64_max"
    "dg_cooldown_rejected d \<le> u64_max"
  shows "fold diagnostics_add rs d = d
    \<lparr>dg_paused := dg_paused d + length (filter rk_paused rs),
     dg_degraded := dg_degraded d + length (filter (\<lambda>r. rk_rejected r > 0 \<or> rk_dropped r > 0) rs),
     dg_rejected := min (dg_rejected d + sum_list (map rk_rejected rs)) u64_max,
     dg_dropped := min (dg_dropped d + sum_list (map rk_dropped rs)) u64_max,
     dg_limited := min (dg_limited d + sum_list (map rk_limited rs)) u64_max,
     dg_cooldown_rejected := min (dg_cooldown_rejected d + sum_list (map rk_cooldown_rejected rs)) u64_max\<rparr>"
  using assms
proof (induction rs arbitrary: d)
  case (Cons r rs)
  have sat: "min (saturating_add a x + y) u64_max = min (a + (x + y)) u64_max" for a x y
    by (auto simp: saturating_add_def min_def)
  show ?case using Cons.IH [of "diagnostics_add r d"]
    by (simp add: diagnostics_add_def sat)
qed (cases d; simp)

text \<open>
  The diagnostics are the true counts: every counter is the sum over all rankings, cut off at
  the 64-bit maximum and never wrapped.
\<close>

theorem diagnostics_sum:
  "let d = engine_diagnostics e; rs = map snd (en_rankings e) in
   dg_rankings d = length rs \<and> dg_paused d = length (filter rk_paused rs) \<and>
   dg_degraded d = length (filter (\<lambda>r. 0 < rk_rejected r \<or> 0 < rk_dropped r) rs) \<and>
   dg_rejected d = min (sum_list (map rk_rejected rs)) u64_max \<and>
   dg_dropped d = min (sum_list (map rk_dropped rs)) u64_max \<and>
   dg_limited d = min (sum_list (map rk_limited rs)) u64_max \<and>
   dg_cooldown_rejected d = min (sum_list (map rk_cooldown_rejected rs)) u64_max"
  by (simp add: engine_diagnostics_def diagnostics_fold Let_def)

text \<open>
  C7. A definition is replaced only while its ranking is paused, and a change of anything but the
  display limit only together with a reset; a refused update changes nothing. After an accepted
  one the ranking runs under the new definition, all others keep theirs, and without a reset all
  scores stay.
\<close>

theorem update_guarded:
  assumes inv: "engine_inv e" and run: "engine_update identity d reset e = Ret (e', res)"
    and r: "hm_get (en_rankings e) (rd_id d) = Some r"
  shows "engine_inv e' \<and>
    (if is_ok res
     then rk_paused r \<and> (reset \<or> (rk_definition r)\<lparr>rd_limit := rd_limit d\<rparr> = d) \<and>
       definitions_of (en_rankings e') = (definitions_of (en_rankings e))(rd_id d := Some d) \<and>
       (\<exists>r'. hm_get (en_rankings e') (rd_id d) = Some r' \<and>
          scores_of (rk_state r') = (if reset then (\<lambda>_. 0) else scores_of (rk_state r)))
     else e' = e)"
proof -
  from engine_inv_update [OF inv, of identity d reset] run
  have *: "engine_inv e'" "is_ok res \<longrightarrow> definitions_of (en_rankings e') =
      (definitions_of (en_rankings e))(rd_id d := Some d)" "\<not> is_ok res \<longrightarrow> e' = e" by auto
  show ?thesis
  proof (cases "is_ok res")
    case True
    obtain u where u: "validate_update identity d reset e = Inr u"
      using run True
      by (cases "validate_update identity d reset e") (auto simp: engine_update_def is_ok_def split: sum.splits)
    have g: "rk_paused r \<and> (reset \<or> (rk_definition r)\<lparr>rd_limit := rd_limit d\<rparr> = d)"
      using validate_update_Inr [OF u] r by simp
    have reset_scores: "scores_of (aggregation_set_capacity n s) = (\<lambda>_. 0)"
      if "aggregation_reset (rk_state r) = (s, Inr v)" for n s v
      using aggregation_reset_Inr [OF that] by (intro scores_of_empty) (simp add: aggregation_set_capacity_def)
    have touch_scores: "scores_of s = scores_of (rk_state r)"
      if "aggregation_touch (rk_state r) = (s, Inr v)" for s v
      using scores_of_touch [of "rk_state r"] that by simp
    have "\<exists>r'. hm_get (en_rankings e') (rd_id d) = Some r' \<and>
        scores_of (rk_state r') = (if reset then (\<lambda>_. 0) else scores_of (rk_state r))"
      using run True r u reset_scores touch_scores
      by (auto simp: engine_update_def Let_def hm_simps clear_accounting_def split: if_splits prod.splits sum.splits)
    then show ?thesis using * True g by simp
  qed (use * in simp)
qed

theorem update_guarded_witness:
  "\<exists>e' res. engine_update (Some example_identity) (gift_ranking Session None) False (gift_engine Session None) =
      Ret (e', res) \<and> engine_inv e' \<and> \<not> is_ok res \<and> e' = gift_engine Session None"
proof -
  have v: "\<not> definition_invalid (gift_ranking Session None)" by (simp add: gift_ranking_valid)
  have r: "hm_get (en_rankings (gift_engine Session None)) (rd_id (gift_ranking Session None)) =
      Some (gift_state Session None)"
    using gift_engine_rankings(1) [OF v] by (simp add: gift_ranking_def)
  obtain e' res where run: "engine_update (Some example_identity) (gift_ranking Session None) False
      (gift_engine Session None) = Ret (e', res)"
    using engine_inv_update [OF gift_engine_inv] by blast
  have "\<not> rk_paused (gift_state Session None)" by (simp add: gift_state_def ranking_new_def)
  then show ?thesis using update_guarded [OF gift_engine_inv run r] run by (auto split: if_splits)
qed

text \<open>
  At the end of the instance counter, \<open>create\<close> has registered the sources of the new ranking
  before it notices that no instance number is left: the refused ranking stays in the index, and
  the next contribution of one of its sources aborts on \<open>expect("indexed ranking")\<close>.
\<close>

theorem create_overflow_dangles:
  assumes "definition_invalid d = False" and "rule \<in> set (rd_sources d)" and "c_source c = sr_source rule"
  shows "let e = engine_default\<lparr>en_next_instance := u64_max\<rparr>; p = engine_create (Some bytes) d e in
    snd p = Inl RevisionOverflow \<and> apply_at c now (fst p) = Panic"
proof -
  let ?m = "index_sources (rd_id d) (rd_sources d) []"
  have "set (hm_get_or ?m (c_source c) []) = {rd_id d}"
    using index_sources_get [of "rd_id d" "rd_sources d" "[]" "c_source c"] assms(2,3)
    by (auto simp: hm_get_or_def image_iff)
  then obtain ids where "hm_get ?m (c_source c) = Some (rd_id d # ids)"
    by (cases "hm_get ?m (c_source c)"; cases "the (hm_get ?m (c_source c))") (auto simp: hm_get_or_def)
  then show ?thesis using assms(1)
    by (simp add: engine_create_def engine_default_def hm_has_def checked_add_def apply_at_def
        apply_at_with_metadata_def Let_def)
qed

theorem create_overflow_dangles_witness:
  "let p = engine_create (Some example_identity) (gift_ranking Session None)
        (engine_default\<lparr>en_next_instance := u64_max\<rparr>) in
    snd p = Inl RevisionOverflow \<and> apply_at (gift None 1) 0 (fst p) = Panic"
  using create_overflow_dangles [of "gift_ranking Session None" gift_rule "gift None 1" example_identity 0]
  by (simp add: gift_ranking_valid) (simp add: example_defs)

end
