(* ===== verification/Competition_Model.thy ===== *)
theory Competition_Model
  imports Prelude
begin

text \<open>
  The data model of \<open>crates/tiktools-competitions\<close> (\<open>lib.rs\<close>): competition definitions and their
  validation, participation outcomes, actions and results. The Unicode case mapping
  \<open>str::to_lowercase\<close> is a table of the standard library; it is the argument \<open>lower\<close> of the
  definitions that use it, and nothing is assumed about it.
\<close>

section \<open>Text\<close>

text \<open>The \<open>White_Space\<close> characters that \<open>str::trim\<close> removes, in UTF-8.\<close>

definition whitespace :: "string list" where
  "whitespace = map (map char_of)
     ([[9], [10], [11], [12], [13], [32], [194, 133], [194, 160], [225, 154, 128]] @
      map (\<lambda>n. [226, 128, n]) [128..<139] @
      [[226, 128, 168], [226, 128, 169], [226, 128, 175], [226, 129, 159], [227, 128, 128 :: nat]])"

definition starts_with :: "string \<Rightarrow> string \<Rightarrow> bool" where
  "starts_with s p \<longleftrightarrow> take (length p) s = p"

function strip_front :: "string list \<Rightarrow> string \<Rightarrow> string" where
  "strip_front ws s =
     (case find (\<lambda>w. w \<noteq> [] \<and> starts_with s w) ws of
        None \<Rightarrow> s
      | Some w \<Rightarrow> strip_front ws (drop (length w) s))"
  by pat_completeness auto
termination
proof (relation "measure (\<lambda>(ws, s). length s)", simp)
  fix ws s w assume "find (\<lambda>w. w \<noteq> [] \<and> starts_with s w) ws = Some w"
  then have "w \<noteq> []" "take (length w) s = w" by (auto simp: find_Some_iff starts_with_def)
  moreover have "length w \<le> length s"
    using \<open>take (length w) s = w\<close> by (metis length_take min.cobounded1)
  ultimately have "0 < length w" "length w \<le> length s" by simp_all
  then have "length s - length w < length s" by (intro diff_less) linarith+
  then show "((ws, drop (length w) s), ws, s) \<in> measure (\<lambda>(ws, s). length s)" by simp
qed

declare strip_front.simps [simp del]

definition trim :: "string \<Rightarrow> string" where
  "trim s = rev (strip_front (map rev whitespace) (rev (strip_front whitespace s)))"

section \<open>Definitions\<close>

datatype json =
    JNull
  | JBool bool
  | JNumber string
  | JString string
  | JArray "json list"
  | JObject "(string \<times> json) list"

datatype lifecycle = Draft | Active | Paused | Finalizing | Finished | Cancelled | Failed

datatype selection_mode = HighestScore | UniformRandom | WeightedRandom

datatype tie_policy = Manual | Stable | Random | NoWinner

datatype competition_kind =
    Poll
  | WeightedPoll
  | LeaderboardChallenge
  | TeamBattle
  | RandomDraw
  | WeightedDraw
  | Roulette

datatype competition_error =
    InvalidTransition
  | InvalidCandidate
  | DuplicateCandidate
  | Empty
  | ZeroWeight
  | ScoreOverflow
  | ManualTie
  | RandomUnavailable
  | UnknownOption
  | SwitchRefused
  | CompetitionFull
  | VotesExhausted

record winner_action =
  wa_action_id :: string
  wa_inputs :: json

record option_definition =
  od_id :: string
  od_label :: string
  od_commands :: "string list"
  od_gift_ids :: "string list"
  od_image_url :: "string option"
  od_on_win :: "winner_action option"

record competition_definition =
  cd_schema_version :: nat
  cd_id :: string
  cd_name :: string
  cd_kind :: competition_kind
  cd_ranking_id :: string
  cd_options :: "option_definition list"
  cd_selection_mode :: selection_mode
  cd_tie_policy :: tie_policy
  cd_duration_ms :: "u64 option"
  cd_vote_limit :: u64
  cd_allow_switch :: bool
  cd_minimum_participants :: u64
  cd_target_score :: "u64 option"
  cd_on_user_win :: "winner_action option"

definition action_invalid :: "winner_action \<Rightarrow> bool" where
  "action_invalid a \<longleftrightarrow> wa_action_id a = [] \<or> length (wa_action_id a) > 128"

definition header_invalid :: "competition_definition \<Rightarrow> bool" where
  "header_invalid d \<longleftrightarrow>
     cd_schema_version d \<noteq> 1 \<or> cd_id d = [] \<or> length (cd_id d) > 128 \<or> trim (cd_name d) = [] \<or>
     length (cd_name d) > 256 \<or> cd_ranking_id d = [] \<or> length (cd_ranking_id d) > 128 \<or>
     ((cd_options d = []) \<noteq> (cd_kind d = LeaderboardChallenge)) \<or> length (cd_options d) > 256 \<or>
     (cd_kind d = LeaderboardChallenge \<and> cd_selection_mode d \<noteq> HighestScore) \<or>
     (cd_target_score d \<noteq> None \<and> cd_kind d \<noteq> LeaderboardChallenge) \<or> cd_target_score d = Some 0 \<or>
     (cd_on_user_win d \<noteq> None \<and> cd_kind d \<notin> {LeaderboardChallenge, RandomDraw, WeightedDraw}) \<or>
     (case cd_on_user_win d of None \<Rightarrow> False | Some a \<Rightarrow> action_invalid a) \<or>
     (cd_kind d = RandomDraw \<and> cd_selection_mode d \<noteq> UniformRandom) \<or>
     (cd_kind d = WeightedDraw \<and> cd_selection_mode d \<noteq> WeightedRandom) \<or>
     cd_vote_limit d = 0 \<or> cd_duration_ms d = Some 0"

text \<open>
  The three sets that \<open>validate\<close> fills on its way through the options. A set insertion reports
  whether the element was new.
\<close>

fun validate_commands :: "(string \<Rightarrow> string) \<Rightarrow> string list \<Rightarrow> string list \<Rightarrow> competition_error + string list" where
  "validate_commands lower seen [] = Inr seen"
| "validate_commands lower seen (command # rest) =
     (if length command > 128 \<or> \<not> starts_with command ''!'' \<or> trim command \<noteq> command \<or>
         lower command \<in> set seen
      then Inl InvalidCandidate
      else validate_commands lower (lower command # seen) rest)"

fun validate_gifts :: "string list \<Rightarrow> string list \<Rightarrow> competition_error + string list" where
  "validate_gifts seen [] = Inr seen"
| "validate_gifts seen (gift # rest) =
     (if gift = [] \<or> length gift > 128 \<or> gift \<in> set seen then Inl InvalidCandidate
      else validate_gifts (gift # seen) rest)"

fun validate_options ::
  "(string \<Rightarrow> string) \<Rightarrow> string list \<Rightarrow> string list \<Rightarrow> string list \<Rightarrow> option_definition list \<Rightarrow>
   competition_error + unit" where
  "validate_options lower ids commands gifts [] = Inr ()"
| "validate_options lower ids commands gifts (opt # rest) =
     (if od_id opt = [] \<or> length (od_id opt) > 128 \<or> trim (od_label opt) = [] \<or>
         length (od_label opt) > 256 \<or> od_id opt \<in> set ids \<or> length (od_commands opt) > 64 \<or>
         length (od_gift_ids opt) > 256 \<or>
         (case od_on_win opt of None \<Rightarrow> False | Some a \<Rightarrow> action_invalid a)
      then Inl InvalidCandidate
      else case validate_commands lower commands (od_commands opt) of
        Inl err \<Rightarrow> Inl err
      | Inr commands' \<Rightarrow>
        (case validate_gifts gifts (od_gift_ids opt) of
           Inl err \<Rightarrow> Inl err
         | Inr gifts' \<Rightarrow> validate_options lower (od_id opt # ids) commands' gifts' rest))"

definition validate :: "(string \<Rightarrow> string) \<Rightarrow> competition_definition \<Rightarrow> competition_error + unit" where
  "validate lower d =
     (if header_invalid d then Inl InvalidCandidate else validate_options lower [] [] [] (cd_options d))"

definition option_for_command :: "(string \<Rightarrow> string) \<Rightarrow> competition_definition \<Rightarrow> string \<Rightarrow> string option" where
  "option_for_command lower d comment =
     (if length comment > 128 then None
      else (let command = lower (trim comment) in
        map_option od_id
          (find (\<lambda>opt. list_ex (\<lambda>candidate. lower candidate = command) (od_commands opt)) (cd_options d))))"

section \<open>Participation, actions and results\<close>

record command_participation =
  pa_creator_id :: string
  pa_room_id :: string
  pa_participant_id :: string
  pa_event_identity :: string
  pa_command :: string
  pa_received_at :: u64

datatype participation_outcome =
    Accepted (acc_option_id: string) (acc_votes: u64) (acc_switched: bool)
  | Duplicated string
  | IdentityConflict
  | Closed
  | UnknownCommand
  | SwitchForbidden
  | VoteLimit
  | NoCapacity

record action_claim =
  ac_competition_id :: string
  ac_generation :: u64
  ac_idempotency_key :: string
  ac_action :: winner_action

datatype action_status =
    ActionPending
  | ActionRunning
  | ActionCompleted
  | ActionFailed
  | ActionUncertain

datatype action_resolution = ResolvedCompleted | ResolvedFailed

record action_execution =
  ae_competition_id :: string
  ae_generation :: u64
  ae_action_id :: string
  ae_status :: action_status
  ae_reason :: "string option"
  ae_created_at :: u64
  ae_updated_at :: u64

record candidate =
  ca_key :: string
  ca_weight :: u64

record selection =
  se_mode :: selection_mode
  se_tie_policy :: tie_policy
  se_eligible :: "candidate list"
  se_winner :: "string option"

record result_record =
  rr_schema_version :: nat
  rr_competition_id :: string
  rr_generation :: u64
  rr_ranking_id :: string
  rr_ranking_revision :: u64
  rr_finalized_at :: u64
  rr_selection :: selection

section \<open>What validation guarantees\<close>

text \<open>A text that begins and ends with printable ASCII is not trimmed.\<close>

lemma whitespace_edges:
  "list_all (\<lambda>w. w \<noteq> [] \<and> (of_char (hd w) :: nat) \<notin> {33..126} \<and> (of_char (last w) :: nat) \<notin> {33..126}) whitespace"
  by (simp add: whitespace_def upt_rec)

lemma strip_front_none: "list_all (\<lambda>w. w \<noteq> [] \<longrightarrow> \<not> starts_with s w) ws \<Longrightarrow> strip_front ws s = s"
  by (subst strip_front.simps) (auto simp: list_all_iff split: option.split dest!: find_Some_iff [THEN iffD1] nth_mem)

lemma starts_with_hd: "starts_with s w \<Longrightarrow> w \<noteq> [] \<Longrightarrow> s \<noteq> [] \<Longrightarrow> hd s = hd w"
  by (metis starts_with_def hd_take length_greater_0_conv)

lemma trim_printable:
  assumes "s \<noteq> []" and "(of_char (hd s) :: nat) \<in> {33..126}" "(of_char (last s) :: nat) \<in> {33..126}"
  shows "trim s = s"
proof -
  have "list_all (\<lambda>w. w \<noteq> [] \<longrightarrow> \<not> starts_with s w) whitespace"
    using whitespace_edges assms(1,2) starts_with_hd unfolding list_all_iff by metis
  moreover have "list_all (\<lambda>w. w \<noteq> [] \<longrightarrow> \<not> starts_with (rev s) w) (map rev whitespace)"
    using whitespace_edges assms(1,3) starts_with_hd [of "rev s"]
    unfolding list_all_iff by (metis hd_rev imageE image_set rev_is_Nil_conv)
  ultimately show ?thesis by (simp add: trim_def strip_front_none)
qed

lemma validate_commands_Inr:
  "validate_commands lower seen cs = Inr out \<longleftrightarrow>
     out = rev (map lower cs) @ seen \<and> distinct (map lower cs) \<and> lower ` set cs \<inter> set seen = {} \<and>
     (\<forall>command \<in> set cs. length command \<le> 128 \<and> starts_with command ''!'' \<and> trim command = command)"
  by (induction cs arbitrary: seen) auto

lemma validate_gifts_Inr:
  "validate_gifts seen gs = Inr out \<longleftrightarrow>
     out = rev gs @ seen \<and> distinct gs \<and> set gs \<inter> set seen = {} \<and>
     (\<forall>g \<in> set gs. g \<noteq> [] \<and> length g \<le> 128)"
  by (induction gs arbitrary: seen) auto

definition all_commands :: "competition_definition \<Rightarrow> string list" where
  "all_commands d = concat (map od_commands (cd_options d))"

lemma validate_options_Inr:
  "validate_options lower ids commands gifts opts = Inr u \<Longrightarrow>
     distinct (map od_id opts) \<and> od_id ` set opts \<inter> set ids = {} \<and>
     distinct (map lower (concat (map od_commands opts))) \<and>
     lower ` set (concat (map od_commands opts)) \<inter> set commands = {} \<and>
     distinct (concat (map od_gift_ids opts)) \<and> set (concat (map od_gift_ids opts)) \<inter> set gifts = {} \<and>
     (\<forall>opt \<in> set opts. od_id opt \<noteq> [] \<and> length (od_id opt) \<le> 128)"
proof (induction lower ids commands gifts opts rule: validate_options.induct)
  case (2 lower ids commands gifts opt rest)
  from "2.prems" obtain commands' gifts' where
    ok: "\<not> (od_id opt = [] \<or> length (od_id opt) > 128 \<or> trim (od_label opt) = [] \<or>
         length (od_label opt) > 256 \<or> od_id opt \<in> set ids \<or> length (od_commands opt) > 64 \<or>
         length (od_gift_ids opt) > 256 \<or>
         (case od_on_win opt of None \<Rightarrow> False | Some a \<Rightarrow> action_invalid a))"
    and c: "validate_commands lower commands (od_commands opt) = Inr commands'"
    and g: "validate_gifts gifts (od_gift_ids opt) = Inr gifts'"
    and rest: "validate_options lower (od_id opt # ids) commands' gifts' rest = Inr u"
    by (auto split: if_splits sum.splits)
  note IH = "2.IH" [OF ok c g rest]
  have cs: "commands' = rev (map lower (od_commands opt)) @ commands" "distinct (map lower (od_commands opt))"
    "lower ` set (od_commands opt) \<inter> set commands = {}"
    using c by (simp_all add: validate_commands_Inr)
  have gs: "gifts' = rev (od_gift_ids opt) @ gifts" "distinct (od_gift_ids opt)"
    "set (od_gift_ids opt) \<inter> set gifts = {}"
    using g by (simp_all add: validate_gifts_Inr)
  have "set commands' = lower ` set (od_commands opt) \<union> set commands"
    and "set gifts' = set (od_gift_ids opt) \<union> set gifts"
    using cs(1) gs(1) by auto
  note sets = this
  have "distinct (map od_id (opt # rest)) \<and> od_id ` set (opt # rest) \<inter> set ids = {}"
    using IH ok by auto
  moreover have "distinct (map lower (concat (map od_commands (opt # rest)))) \<and>
      lower ` set (concat (map od_commands (opt # rest))) \<inter> set commands = {}"
  proof -
    define A where "A = map lower (od_commands opt)"
    define B where "B = map lower (concat (map od_commands rest))"
    have "distinct A" "set A \<inter> set commands = {}" "set commands' = set A \<union> set commands"
      using cs(2,3) sets(1) by (simp_all add: A_def)
    moreover have "distinct B" "set B \<inter> set commands' = {}"
      using IH unfolding B_def set_map by blast+
    ultimately have "distinct (A @ B) \<and> set (A @ B) \<inter> set commands = {}" by auto
    moreover have "map lower (concat (map od_commands (opt # rest))) = A @ B"
      by (simp add: A_def B_def)
    ultimately show ?thesis by (metis set_map)
  qed
  moreover have "distinct (concat (map od_gift_ids (opt # rest))) \<and>
      set (concat (map od_gift_ids (opt # rest))) \<inter> set gifts = {}"
    using IH gs(2,3) sets(2) by auto
  moreover have "\<forall>q \<in> set (opt # rest). od_id q \<noteq> [] \<and> length (od_id q) \<le> 128"
    using IH ok by auto
  ultimately show ?case by blast
qed simp

lemma validate_Inr:
  assumes "validate lower d = Inr u"
  shows "\<not> header_invalid d" and "distinct (map od_id (cd_options d))"
    and "distinct (map lower (all_commands d))" and "distinct (concat (map od_gift_ids (cd_options d)))"
    and "\<forall>opt \<in> set (cd_options d). od_id opt \<noteq> [] \<and> length (od_id opt) \<le> 128"
  using assms validate_options_Inr [of lower "[]" "[]" "[]" "cd_options d"]
  by (auto simp: validate_def all_commands_def split: if_splits)

end
