(* ===== verification/Command_Index.thy ===== *)
theory Command_Index
  imports Competition_Model
begin

text \<open>
  The routing index for chat commands and native event sources
  (\<open>crates/tiktools-competitions/src/participants.rs\<close>), and its invariant: the index answers
  exactly what a scan over the registered definitions would.
\<close>

section \<open>The index\<close>

type_synonym route_key = "string \<times> string \<times> string"

record command_index =
  ci_routes :: "(route_key, (string, string) hmap) hmap"
  ci_registrations :: "(string, route_key list) hmap"
  ci_route_count :: nat
  ci_source_routes :: "(route_key, string list) hmap"
  ci_source_registrations :: "(string, route_key list) hmap"

record command_route =
  cr_competition_id :: string
  cr_option_id :: string

definition index_default :: command_index where
  "index_default =
     \<lparr>ci_routes = [], ci_registrations = [], ci_route_count = 0, ci_source_routes = [],
      ci_source_registrations = []\<rparr>"

text \<open>Taking one competition out of the bucket of a key; an empty bucket is dropped.\<close>

definition drop_entry :: "('b list \<Rightarrow> 'b list) \<Rightarrow> 'k \<Rightarrow> ('k, 'b list) hmap \<Rightarrow> ('k, 'b list) hmap" where
  "drop_entry del key m =
     (case hm_get m key of
        None \<Rightarrow> m
      | Some bucket \<Rightarrow>
        (let bucket' = del bucket in
         if bucket' = [] then hm_remove key m else hm_insert key bucket' m))"

definition add_entry :: "('b list \<Rightarrow> 'b list) \<Rightarrow> 'k \<Rightarrow> ('k, 'b list) hmap \<Rightarrow> ('k, 'b list) hmap" where
  "add_entry ins key m = hm_insert key (ins (hm_get_or m key [])) m"

definition drop_sources :: "string \<Rightarrow> command_index \<Rightarrow> (route_key, string list) hmap" where
  "drop_sources cid i =
     (case hm_get (ci_source_registrations i) cid of
        None \<Rightarrow> ci_source_routes i
      | Some keys \<Rightarrow> fold (drop_entry (bs_remove cid)) keys (ci_source_routes i))"

text \<open>\<open>remove\<close>: the subtraction from the route count would abort on an underflow.\<close>

definition index_remove :: "string \<Rightarrow> command_index \<Rightarrow> (command_index \<times> bool) run" where
  "index_remove cid i =
     (case hm_get (ci_registrations i) cid of
        None \<Rightarrow> Ret (i, False)
      | Some keys \<Rightarrow>
        if ci_route_count i < length keys then Panic
        else Ret (i
          \<lparr>ci_registrations := hm_remove cid (ci_registrations i),
           ci_route_count := ci_route_count i - length keys,
           ci_source_registrations := hm_remove cid (ci_source_registrations i),
           ci_source_routes := drop_sources cid i,
           ci_routes := fold (drop_entry (hm_remove cid)) keys (ci_routes i)\<rparr>, True))"

definition definition_commands ::
  "(string \<Rightarrow> string) \<Rightarrow> competition_definition \<Rightarrow> (string \<times> string) list" where
  "definition_commands lower d =
     concat (map (\<lambda>opt. map (\<lambda>command. (lower command, od_id opt)) (od_commands opt)) (cd_options d))"

definition index_add ::
  "string \<Rightarrow> string \<Rightarrow> string \<Rightarrow> (string \<times> string) list \<Rightarrow> command_index \<Rightarrow> command_index" where
  "index_add cid creator room commands i =
     (let keys = map (\<lambda>(command, opt). (creator, room, command)) commands in
      i\<lparr>ci_routes := fold (\<lambda>(command, opt). add_entry (hm_insert cid opt) (creator, room, command))
           commands (ci_routes i),
        ci_route_count := ci_route_count i + length keys,
        ci_registrations := hm_insert cid keys (ci_registrations i)\<rparr>)"

definition scope_invalid :: "string \<Rightarrow> string \<Rightarrow> bool" where
  "scope_invalid creator room \<longleftrightarrow>
     creator = [] \<or> length creator > 256 \<or> room = [] \<or> length room > 256"

definition index_register ::
  "(string \<Rightarrow> string) \<Rightarrow> competition_definition \<Rightarrow> string \<Rightarrow> string \<Rightarrow> command_index \<Rightarrow>
   (command_index \<times> (competition_error + unit)) run" where
  "index_register lower d creator room i =
     (case validate lower d of
        Inl err \<Rightarrow> Ret (i, Inl err)
      | Inr _ \<Rightarrow>
        if scope_invalid creator room then Ret (i, Inl InvalidCandidate)
        else if \<not> hm_has (ci_registrations i) (cd_id d) \<and> length (ci_registrations i) \<ge> 128
        then Ret (i, Inl CompetitionFull)
        else
          (let commands = definition_commands lower d in
           if length commands > 2048 \<or> list_ex (\<lambda>(command, _). length command > 512) commands
           then Ret (i, Inl CompetitionFull)
           else
             (let previous = length (hm_get_or (ci_registrations i) (cd_id d) []) in
              if ci_route_count i < previous then Panic
              else if ci_route_count i - previous + length commands > 32768
              then Ret (i, Inl CompetitionFull)
              else run_bind (index_remove (cd_id d) i)
                     (\<lambda>(i', _). Ret (index_add (cd_id d) creator room commands i', Inr ())))))"

definition known_source :: "string \<Rightarrow> bool" where
  "known_source s \<longleftrightarrow> s \<in> {''tiktok.like'', ''tiktok.share'', ''tiktok.gift''}"

definition index_register_sources ::
  "string \<Rightarrow> string \<Rightarrow> string \<Rightarrow> string list \<Rightarrow> command_index \<Rightarrow>
   command_index \<times> (competition_error + unit)" where
  "index_register_sources cid creator room sources i =
     (if \<not> hm_has (ci_registrations i) cid \<or> scope_invalid creator room \<or> length sources > 3 \<or>
         list_ex (\<lambda>s. \<not> known_source s) sources
      then (i, Inl InvalidCandidate)
      else
        (let keys = fold (\<lambda>s. bs_insert (creator, room, s)) sources [];
             routes = drop_sources cid i
         in (i\<lparr>ci_source_routes := fold (add_entry (bs_insert cid)) keys routes,
               ci_source_registrations := hm_insert cid keys (ci_source_registrations i)\<rparr>, Inr ())))"

definition index_matching_source :: "string \<Rightarrow> string \<Rightarrow> string \<Rightarrow> command_index \<Rightarrow> string list" where
  "index_matching_source creator room source i = hm_get_or (ci_source_routes i) (creator, room, source) []"

text \<open>The bucket is a \<open>BTreeMap\<close>: it is read in the order of its keys.\<close>

definition index_matching ::
  "(string \<Rightarrow> string) \<Rightarrow> string \<Rightarrow> string \<Rightarrow> string \<Rightarrow> command_index \<Rightarrow> command_route list" where
  "index_matching lower creator room comment i =
     (if length comment > 128 then []
      else map (\<lambda>(cid, opt). \<lparr>cr_competition_id = cid, cr_option_id = opt\<rparr>)
             (sort_key fst (hm_get_or (ci_routes i) (creator, room, lower (trim comment)) [])))"

section \<open>Buckets\<close>

definition bucket :: "('k, 'b list) hmap \<Rightarrow> 'k \<Rightarrow> 'b list" where
  "bucket m key = hm_get_or m key []"

definition no_empty :: "('k, 'b list) hmap \<Rightarrow> bool" where
  "no_empty m \<longleftrightarrow> (\<forall>key. hm_get m key \<noteq> Some [])"

lemma bucket_drop_entry:
  "remove [] = [] \<Longrightarrow> bucket (drop_entry remove key m) k = (if k = key then remove (bucket m k) else bucket m k)"
  by (auto simp: bucket_def hm_get_or_def drop_entry_def Let_def hm_simps split: option.split)

lemma no_empty_drop_entry: "no_empty m \<Longrightarrow> no_empty (drop_entry remove key m)"
  by (auto simp: no_empty_def drop_entry_def Let_def hm_simps split: option.split)

lemma bucket_add_entry:
  "bucket (add_entry ins key m) k = (if k = key then ins (bucket m k) else bucket m k)"
  by (simp add: bucket_def hm_get_or_def add_entry_def hm_simps)

lemma no_empty_add_entry: "(\<And>b. ins b \<noteq> []) \<Longrightarrow> no_empty m \<Longrightarrow> no_empty (add_entry ins key m)"
  by (auto simp: no_empty_def add_entry_def hm_simps)

lemma bucket_drop_entries:
  assumes "remove [] = []" and "distinct keys"
  shows "bucket (fold (drop_entry remove) keys m) k = (if k \<in> set keys then remove (bucket m k) else bucket m k)"
  using assms(2) by (induction keys arbitrary: m) (auto simp: bucket_drop_entry assms(1))

lemma no_empty_drop_entries: "no_empty m \<Longrightarrow> no_empty (fold (drop_entry remove) keys m)"
  by (induction keys arbitrary: m) (simp_all add: no_empty_drop_entry)

lemma bucket_add_entries:
  assumes "distinct keys"
  shows "bucket (fold (add_entry ins) keys m) k = (if k \<in> set keys then ins (bucket m k) else bucket m k)"
  using assms by (induction keys arbitrary: m) (auto simp: bucket_add_entry)

lemma no_empty_add_entries:
  "(\<And>b. ins b \<noteq> []) \<Longrightarrow> no_empty m \<Longrightarrow> no_empty (fold (add_entry ins) keys m)"
  by (induction keys arbitrary: m) (simp_all add: no_empty_add_entry)

section \<open>The invariant\<close>

text \<open>
  The table the index answers for: per competition its definition and scope. The routes follow the
  table; the source routes and the source registrations mirror each other.
\<close>

type_synonym registration = "competition_definition \<times> string \<times> string"

definition route_keys :: "(string \<Rightarrow> string) \<Rightarrow> registration \<Rightarrow> route_key list" where
  "route_keys lower = (\<lambda>(d, creator, room). map (\<lambda>(command, _). (creator, room, command)) (definition_commands lower d))"

definition routed :: "(string \<Rightarrow> string) \<Rightarrow> registration option \<Rightarrow> route_key \<Rightarrow> string option" where
  "routed lower e key =
     (case e of None \<Rightarrow> None
      | Some (d, creator, room) \<Rightarrow>
        (case key of (creator', room', command) \<Rightarrow>
           if creator' = creator \<and> room' = room then map_of (definition_commands lower d) command else None))"

definition registration_ok :: "(string \<Rightarrow> string) \<Rightarrow> string \<Rightarrow> registration \<Rightarrow> bool" where
  "registration_ok lower cid = (\<lambda>(d, _). cd_id d = cid \<and> validate lower d = Inr ())"

definition routes_ok :: "(string \<Rightarrow> string) \<Rightarrow> command_index \<Rightarrow> (string \<Rightarrow> registration option) \<Rightarrow> bool" where
  "routes_ok lower i t \<longleftrightarrow>
     hm_wf (ci_registrations i) \<and>
     (\<forall>cid. hm_get (ci_registrations i) cid = map_option (route_keys lower) (t cid)) \<and>
     (\<forall>cid e. t cid = Some e \<longrightarrow> registration_ok lower cid e) \<and>
     no_empty (ci_routes i) \<and>
     (\<forall>key. hm_wf (bucket (ci_routes i) key) \<and>
        (\<forall>cid. hm_get (bucket (ci_routes i) key) cid = routed lower (t cid) key)) \<and>
     ci_route_count i = sum_list (map (length \<circ> snd) (ci_registrations i))"

definition sources_ok :: "command_index \<Rightarrow> bool" where
  "sources_ok i \<longleftrightarrow>
     no_empty (ci_source_routes i) \<and>
     (\<forall>key. bs_wf (bucket (ci_source_routes i) key) \<and>
        (\<forall>cid. cid \<in> set (bucket (ci_source_routes i) key) \<longleftrightarrow> key \<in> set (bucket (ci_source_registrations i) cid))) \<and>
     (\<forall>cid. distinct (bucket (ci_source_registrations i) cid)) \<and>
     (\<forall>cid. hm_get (ci_source_registrations i) cid \<noteq> None \<longrightarrow> hm_get (ci_registrations i) cid \<noteq> None)"

definition index_inv :: "(string \<Rightarrow> string) \<Rightarrow> command_index \<Rightarrow> (string \<Rightarrow> registration option) \<Rightarrow> bool" where
  "index_inv lower i t \<longleftrightarrow> routes_ok lower i t \<and> sources_ok i"

lemma index_inv_default: "index_inv lower index_default (\<lambda>_. None)"
  by (simp add: index_inv_def routes_ok_def sources_ok_def index_default_def no_empty_def bucket_def
      hm_get_or_def routed_def)

lemma definition_commands_fst:
  "map fst (definition_commands lower d) = map lower (all_commands d)"
  by (simp add: definition_commands_def all_commands_def map_concat comp_def)

lemma distinct_definition_commands:
  "validate lower d = Inr () \<Longrightarrow> distinct (map fst (definition_commands lower d))"
  using validate_Inr(3) by (simp add: definition_commands_fst)

lemma route_keys_eq:
  "route_keys lower (d, c, r) = map (\<lambda>command. (c, r, command)) (map fst (definition_commands lower d))"
  by (simp add: route_keys_def case_prod_beta)

lemma distinct_route_keys:
  assumes "registration_ok lower cid e"
  shows "distinct (route_keys lower e)"
proof -
  obtain d c r where e: "e = (d, c, r)" by (metis prod_cases3)
  have "distinct (map fst (definition_commands lower d))"
    using assms distinct_definition_commands by (simp add: e registration_ok_def)
  then show ?thesis unfolding e route_keys_eq
    by (subst distinct_map) (simp add: inj_on_def)
qed

lemma routes_okD:
  assumes "routes_ok lower i t"
  shows "hm_wf (ci_registrations i)"
    and "hm_get (ci_registrations i) cid = map_option (route_keys lower) (t cid)"
    and "t cid = Some e \<Longrightarrow> registration_ok lower cid e"
    and "no_empty (ci_routes i)"
    and "hm_wf (bucket (ci_routes i) key)"
    and "hm_get (bucket (ci_routes i) key) cid = routed lower (t cid) key"
    and "ci_route_count i = sum_list (map (length \<circ> snd) (ci_registrations i))"
  using assms unfolding routes_ok_def by blast+

lemma routes_okI:
  assumes "hm_wf (ci_registrations i)"
    and "\<And>cid. hm_get (ci_registrations i) cid = map_option (route_keys lower) (t cid)"
    and "\<And>cid e. t cid = Some e \<Longrightarrow> registration_ok lower cid e"
    and "no_empty (ci_routes i)"
    and "\<And>key. hm_wf (bucket (ci_routes i) key)"
    and "\<And>key cid. hm_get (bucket (ci_routes i) key) cid = routed lower (t cid) key"
    and "ci_route_count i = sum_list (map (length \<circ> snd) (ci_registrations i))"
  shows "routes_ok lower i t"
  using assms unfolding routes_ok_def by blast

lemma length_sum_remove:
  fixes m :: "('k, 'b list) hmap"
  assumes "hm_wf m" and "hm_get m k = Some v"
  shows "sum_list (map (length \<circ> snd) m) = length v + sum_list (map (length \<circ> snd) (hm_remove k m))"
  using assms
proof (induction m)
  case (Cons p m)
  then show ?case by (cases p) (auto simp: hm_wf_def delete_id image_iff)
qed simp

subsection \<open>Removal\<close>

lemma routed_in_keys: "routed lower (Some e) key \<noteq> None \<longleftrightarrow> key \<in> set (route_keys lower e)"
proof -
  obtain d c r where e: "e = (d, c, r)" by (metis prod_cases3)
  obtain c' r' cmd where key: "key = (c', r', cmd)" by (metis prod_cases3)
  have "map_of (definition_commands lower d) cmd \<noteq> None \<longleftrightarrow> cmd \<in> set (map fst (definition_commands lower d))"
    by (simp add: map_of_eq_None_iff)
  then show ?thesis unfolding e route_keys_eq by (auto simp: key routed_def)
qed

definition without :: "string \<Rightarrow> route_key list \<Rightarrow> command_index \<Rightarrow> command_index" where
  "without cid keys i = i
     \<lparr>ci_registrations := hm_remove cid (ci_registrations i),
      ci_route_count := ci_route_count i - length keys,
      ci_source_registrations := hm_remove cid (ci_source_registrations i),
      ci_source_routes := drop_sources cid i,
      ci_routes := fold (drop_entry (hm_remove cid)) keys (ci_routes i)\<rparr>"

lemma routes_ok_drop:
  assumes ok: "routes_ok lower i t" and reg: "t cid = Some e"
  shows "routes_ok lower (without cid (route_keys lower e) i) (t(cid := None)) \<and>
    length (route_keys lower e) \<le> ci_route_count i"
proof -
  note D = routes_okD [OF ok]
  have get: "hm_get (ci_registrations i) cid = Some (route_keys lower e)" using D(2) reg by simp
  note sum = length_sum_remove [OF D(1) get]
  let ?i = "without cid (route_keys lower e) i"
  have bucket: "bucket (ci_routes ?i) key = (if key \<in> set (route_keys lower e)
      then hm_remove cid (bucket (ci_routes i) key) else bucket (ci_routes i) key)" for key
    using distinct_route_keys [OF D(3) [OF reg]] unfolding without_def
    by (simp add: bucket_drop_entries)
  have "routes_ok lower ?i (t(cid := None))"
  proof (rule routes_okI)
    fix key k
    show "hm_wf (bucket (ci_routes ?i) key)" using D(5) by (simp add: bucket)
    have "key \<notin> set (route_keys lower e) \<Longrightarrow> routed lower (t cid) key = None"
      using routed_in_keys [of lower e key] reg by auto
    then show "hm_get (bucket (ci_routes ?i) key) k = routed lower ((t(cid := None)) k) key"
      using D(6) [of key] by (auto simp: bucket hm_get_remove routed_def)
  next
    fix k show "hm_get (ci_registrations ?i) k = map_option (route_keys lower) ((t(cid := None)) k)"
      using D(2) by (simp add: without_def hm_get_remove)
  next
    fix k e assume "(t(cid := None)) k = Some e"
    then show "registration_ok lower k e" using D(3) by (simp split: if_splits)
  qed (use D(1,4,7) sum in \<open>simp_all add: without_def no_empty_drop_entries\<close>)
  then show ?thesis using sum D(7) by simp
qed

lemma bucket_none: "hm_get m k = None \<Longrightarrow> bucket m k = []"
  and bucket_some: "hm_get m k = Some v \<Longrightarrow> bucket m k = v"
  by (simp_all add: bucket_def hm_get_or_def)

lemma bucket_insert: "bucket (hm_insert k v m) k' = (if k' = k then v else bucket m k')"
  and bucket_remove: "bucket (hm_remove k m) k' = (if k' = k then [] else bucket m k')"
  by (simp_all add: bucket_def hm_get_or_def hm_simps)

lemma drop_sources_bucket:
  assumes "sources_ok i"
  shows "bucket (drop_sources cid i) key =
      (if key \<in> set (bucket (ci_source_registrations i) cid) then bs_remove cid (bucket (ci_source_routes i) key)
       else bucket (ci_source_routes i) key)" and "no_empty (drop_sources cid i)"
    and "bs_wf (bucket (drop_sources cid i) key)"
    and "k \<in> set (bucket (drop_sources cid i) key) \<longleftrightarrow> k \<noteq> cid \<and> key \<in> set (bucket (ci_source_registrations i) k)"
proof -
  note ok = assms [unfolded sources_ok_def]
  show b: "bucket (drop_sources cid i) key =
      (if key \<in> set (bucket (ci_source_registrations i) cid) then bs_remove cid (bucket (ci_source_routes i) key)
       else bucket (ci_source_routes i) key)"
  proof (cases "hm_get (ci_source_registrations i) cid")
    case None
    then show ?thesis by (simp add: drop_sources_def bucket_none)
  next
    case (Some keys)
    then have "distinct keys" using ok bucket_some by metis
    moreover have "bs_remove cid [] = []" by (simp add: bs_remove_def)
    ultimately show ?thesis using Some by (simp add: drop_sources_def bucket_some bucket_drop_entries)
  qed
  show "no_empty (drop_sources cid i)"
    using ok by (simp add: drop_sources_def no_empty_drop_entries split: option.split)
  have w: "bs_wf (bucket (ci_source_routes i) key)"
    and m: "k \<in> set (bucket (ci_source_routes i) key) \<longleftrightarrow> key \<in> set (bucket (ci_source_registrations i) k)" for k
    using ok by blast+
  show "bs_wf (bucket (drop_sources cid i) key)" using b w by simp
  show "k \<in> set (bucket (drop_sources cid i) key) \<longleftrightarrow> k \<noteq> cid \<and> key \<in> set (bucket (ci_source_registrations i) k)"
    using b w m by auto
qed

lemma sources_ok_without:
  assumes ok: "sources_ok i"
  shows "sources_ok (without cid keys i)"
proof -
  note ok' = ok [unfolded sources_ok_def]
  have "distinct (bucket (hm_remove cid (ci_source_registrations i)) k)" for k
    using ok' by (simp add: bucket_remove)
  moreover have "hm_get (hm_remove cid (ci_source_registrations i)) k \<noteq> None \<Longrightarrow>
      hm_get (hm_remove cid (ci_registrations i)) k \<noteq> None" for k
    using ok' by (cases "k = cid") (simp_all add: hm_get_remove)
  moreover have "k \<in> set (bucket (drop_sources cid i) key) \<longleftrightarrow>
      key \<in> set (bucket (hm_remove cid (ci_source_registrations i)) k)" for k key
    using drop_sources_bucket(4) [OF ok] by (simp add: bucket_remove)
  ultimately show ?thesis using drop_sources_bucket(2,3) [OF ok]
    unfolding sources_ok_def without_def by simp
qed

lemma index_remove_spec:
  assumes "index_inv lower i t"
  shows "\<exists>i'. index_remove cid i = Ret (i', t cid \<noteq> None) \<and> index_inv lower i' (t(cid := None)) \<and>
    (t cid = None \<longrightarrow> i' = i)"
proof (cases "t cid")
  case None
  then have "index_remove cid i = Ret (i, False)"
    using assms routes_okD(2) [of lower i t cid] by (simp add: index_inv_def index_remove_def)
  moreover have "t(cid := None) = t" using None by auto
  ultimately show ?thesis using assms None by simp
next
  case (Some e)
  have ok: "routes_ok lower i t" "sources_ok i" using assms by (simp_all add: index_inv_def)
  note r = routes_ok_drop [OF ok(1) Some]
  have "hm_get (ci_registrations i) cid = Some (route_keys lower e)"
    using routes_okD(2) [OF ok(1)] Some by simp
  then have "index_remove cid i = Ret (without cid (route_keys lower e) i, True)"
    using r by (simp add: index_remove_def without_def)
  then show ?thesis using r sources_ok_without [OF ok(2)] Some by (simp add: index_inv_def)
qed

subsection \<open>Registration\<close>

lemma bucket_add_routes:
  assumes "distinct (map fst commands)"
  shows "bucket (fold (\<lambda>(command, opt). add_entry (hm_insert cid opt) (c, r, command)) commands m) (c', r', cmd) =
    (if c' = c \<and> r' = r
     then (case map_of commands cmd of None \<Rightarrow> bucket m (c', r', cmd)
           | Some opt \<Rightarrow> hm_insert cid opt (bucket m (c', r', cmd)))
     else bucket m (c', r', cmd))"
  using assms
proof (induction commands arbitrary: m)
  case (Cons p commands)
  obtain a b where p: "p = (a, b)" by force
  have "map_of commands a = None" using Cons.prems p by (simp add: map_of_eq_None_iff)
  then show ?case using Cons p by (auto simp: bucket_add_entry split: option.split)
qed simp

lemma hm_insert_nonempty [simp]: "hm_insert k v m \<noteq> []"
  by (cases m) auto

lemma no_empty_add_routes:
  "no_empty m \<Longrightarrow> no_empty (fold (\<lambda>(command, opt). add_entry (hm_insert cid opt) (c, r, command)) commands m)"
  by (induction commands arbitrary: m) (auto simp: no_empty_add_entry)

lemma hm_sum_length_insert:
  "hm_get m k = None \<Longrightarrow> sum_list (map (length \<circ> snd) (hm_insert k v m)) = length v + sum_list (map (length \<circ> snd) m)"
  by (induction m) (auto split: if_splits)

lemma index_add_inv:
  assumes inv: "index_inv lower i t" and new: "t cid = None" and e: "registration_ok lower cid (d, c, r)"
  shows "index_inv lower (index_add cid c r (definition_commands lower d) i) (t(cid := Some (d, c, r)))"
proof -
  have ok: "routes_ok lower i t" "sources_ok i" using inv by (simp_all add: index_inv_def)
  note D = routes_okD [OF ok(1)]
  let ?i = "index_add cid c r (definition_commands lower d) i"
  have dist: "distinct (map fst (definition_commands lower d))"
    using e distinct_definition_commands by (simp add: registration_ok_def)
  have keys: "map (\<lambda>(command, opt). (c, r, command)) (definition_commands lower d) = route_keys lower (d, c, r)"
    by (simp add: route_keys_def case_prod_beta)
  have regs: "ci_registrations ?i = hm_insert cid (route_keys lower (d, c, r)) (ci_registrations i)"
    by (simp add: index_add_def Let_def keys)
  have fresh: "hm_get (ci_registrations i) cid = None" using D(2) new by simp
  have b: "bucket (ci_routes ?i) (c', r', cmd) =
    (if c' = c \<and> r' = r
     then (case map_of (definition_commands lower d) cmd of None \<Rightarrow> bucket (ci_routes i) (c', r', cmd)
           | Some opt \<Rightarrow> hm_insert cid opt (bucket (ci_routes i) (c', r', cmd)))
     else bucket (ci_routes i) (c', r', cmd))" for c' r' cmd
    by (simp add: index_add_def Let_def bucket_add_routes [OF dist])
  have "routes_ok lower ?i (t(cid := Some (d, c, r)))"
  proof (rule routes_okI)
    show "hm_wf (ci_registrations ?i)" using D(1) regs by simp
    show "no_empty (ci_routes ?i)" using D(4) by (simp add: index_add_def Let_def no_empty_add_routes)
    show "ci_route_count ?i = sum_list (map (length \<circ> snd) (ci_registrations ?i))"
      using hm_sum_length_insert [OF fresh, of "route_keys lower (d, c, r)"] D(7) regs
      by (simp add: index_add_def Let_def route_keys_def)
    fix k show "hm_get (ci_registrations ?i) k = map_option (route_keys lower) ((t(cid := Some (d, c, r))) k)"
      using D(2) regs by (simp add: hm_get_insert)
    fix e' assume "(t(cid := Some (d, c, r))) k = Some e'"
    then show "registration_ok lower k e'" using D(3) e by (auto split: if_splits)
  next
    fix key :: route_key and k
    obtain c' r' cmd where key: "key = (c', r', cmd)" by (metis prod_cases3)
    show "hm_wf (bucket (ci_routes ?i) key)" using D(5) by (simp add: key b split: option.split)
    have "hm_get (bucket (ci_routes i) key) cid = None" using D(6) new by (simp add: routed_def)
    then show "hm_get (bucket (ci_routes ?i) key) k = routed lower ((t(cid := Some (d, c, r))) k) key"
      using D(6) [of key] by (auto simp: key b routed_def hm_get_insert split: option.split)
  qed
  moreover have "sources_ok ?i"
    using ok(2) regs unfolding sources_ok_def by (simp add: index_add_def Let_def hm_get_insert)
  ultimately show ?thesis by (simp add: index_inv_def)
qed

definition remove_registered :: "string \<Rightarrow> command_index \<Rightarrow> command_index" where
  "remove_registered cid i = (case index_remove cid i of Panic \<Rightarrow> i | Ret (i', _) \<Rightarrow> i')"

definition add_registered :: "(string \<Rightarrow> string) \<Rightarrow> string \<Rightarrow> registration \<Rightarrow> command_index \<Rightarrow> command_index" where
  "add_registered lower cid = (\<lambda>(d, c, r). index_add cid c r (definition_commands lower d))"

interpretation commands: registry "add_registered lower" remove_registered "index_inv lower" index_default
  "registration_ok lower" for lower
proof unfold_locales
  fix i t cid e
  assume "index_inv lower i t" "t cid = None" "registration_ok lower cid e"
  then show "index_inv lower (add_registered lower cid e i) (t(cid := Some e))"
    by (cases e) (simp add: add_registered_def index_add_inv)
next
  fix i t cid assume "index_inv lower i t"
  then show "index_inv lower (remove_registered cid i) (t(cid := None))"
    using index_remove_spec [of lower i t cid] by (auto simp: remove_registered_def)
qed (rule index_inv_default)

text \<open>
  The limits: every registration is accepted or refused as a whole.
\<close>

definition accepts ::
  "(string \<Rightarrow> string) \<Rightarrow> competition_definition \<Rightarrow> string \<Rightarrow> string \<Rightarrow> command_index \<Rightarrow> bool" where
  "accepts lower d creator room i \<longleftrightarrow>
     validate lower d = Inr () \<and> \<not> scope_invalid creator room \<and>
     (hm_has (ci_registrations i) (cd_id d) \<or> length (ci_registrations i) < 128) \<and>
     length (definition_commands lower d) \<le> 2048 \<and>
     list_all (\<lambda>(command, _). length command \<le> 512) (definition_commands lower d) \<and>
     ci_route_count i - length (hm_get_or (ci_registrations i) (cd_id d) []) +
       length (definition_commands lower d) \<le> 32768"

lemma registration_counted:
  assumes "index_inv lower i t"
  shows "length (hm_get_or (ci_registrations i) cid []) \<le> ci_route_count i"
proof -
  have ok: "routes_ok lower i t" using assms by (simp add: index_inv_def)
  note D = routes_okD [OF ok]
  show ?thesis
    using length_sum_remove [OF D(1), of cid] D(7) by (auto simp: hm_get_or_def split: option.split)
qed

lemma index_register_spec:
  assumes inv: "index_inv lower i t"
  shows "\<exists>i' res. index_register lower d creator room i = Ret (i', res) \<and>
    (is_ok res \<longleftrightarrow> accepts lower d creator room i) \<and>
    index_inv lower i' (if is_ok res then t(cd_id d := Some (d, creator, room)) else t) \<and>
    (\<not> is_ok res \<longrightarrow> i' = i)"
proof (cases "accepts lower d creator room i")
  case False
  have "\<exists>err. index_register lower d creator room i = Ret (i, Inl err)"
    using False registration_counted [OF inv, of "cd_id d"]
    by (auto simp: index_register_def accepts_def Let_def list_ex_iff list_all_iff not_le not_less
        split: sum.split)
  then obtain err where "index_register lower d creator room i = Ret (i, Inl err)" by blast
  then show ?thesis using inv False by (intro exI [of _ i] exI [of _ "Inl err"]) simp
next
  case True
  obtain i1 where rem: "index_remove (cd_id d) i = Ret (i1, t (cd_id d) \<noteq> None)"
    "index_inv lower i1 (t(cd_id d := None))"
    using index_remove_spec [OF inv] by blast
  let ?i = "index_add (cd_id d) creator room (definition_commands lower d) i1"
  have "index_register lower d creator room i = Ret (?i, Inr ())"
    using True rem(1) registration_counted [OF inv, of "cd_id d"]
    by (auto simp: index_register_def accepts_def Let_def list_ex_iff list_all_iff not_le not_less)
  moreover have "index_inv lower ?i ((t(cd_id d := None))(cd_id d := Some (d, creator, room)))"
    using rem(2) True by (intro index_add_inv) (simp_all add: registration_ok_def accepts_def)
  ultimately show ?thesis using True by simp
qed

subsection \<open>Lookups\<close>

lemma map_of_commands:
  "map_of (definition_commands lower d) cmd =
     map_option od_id (find (\<lambda>opt. list_ex (\<lambda>candidate. lower candidate = cmd) (od_commands opt)) (cd_options d))"
proof -
  have one: "map_of (map (\<lambda>command. (lower command, oid)) cs) cmd =
      (if list_ex (\<lambda>candidate. lower candidate = cmd) cs then Some oid else None)" for oid cs
    by (induction cs) auto
  have "map_of (concat (map (\<lambda>opt. map (\<lambda>command. (lower command, od_id opt)) (od_commands opt)) opts)) cmd =
      map_option od_id (find (\<lambda>opt. list_ex (\<lambda>candidate. lower candidate = cmd) (od_commands opt)) opts)" for opts
    by (induction opts) (auto simp: one map_add_def)
  then show ?thesis by (simp add: definition_commands_def)
qed

lemma index_matching_spec:
  assumes "index_inv lower i t"
  shows "set (index_matching lower creator room comment i) =
      {\<lparr>cr_competition_id = cid, cr_option_id = opt\<rparr> | cid opt.
         \<exists>d. t cid = Some (d, creator, room) \<and> option_for_command lower d comment = Some opt}"
    and "sorted_wrt (<) (map cr_competition_id (index_matching lower creator room comment i))"
proof -
  have ok: "routes_ok lower i t" using assms by (simp add: index_inv_def)
  note D = routes_okD [OF ok]
  let ?key = "(creator, room, lower (trim comment))"
  let ?b = "bucket (ci_routes i) ?key"
  have m: "index_matching lower creator room comment i = (if length comment > 128 then []
      else map (\<lambda>(cid, opt). \<lparr>cr_competition_id = cid, cr_option_id = opt\<rparr>) (sort_key fst ?b))"
    by (simp add: index_matching_def bucket_def)
  have in_b: "(cid, opt) \<in> set ?b \<longleftrightarrow> routed lower (t cid) ?key = Some opt" for cid opt
    using D(6) [of ?key cid] hm_get_Some_set [OF D(5) [of ?key], of cid opt] by simp
  have look: "length comment \<le> 128 \<Longrightarrow> (routed lower (t cid) ?key = Some opt) =
      (\<exists>d. t cid = Some (d, creator, room) \<and> option_for_command lower d comment = Some opt)" for cid opt
    by (auto simp: routed_def option_for_command_def Let_def map_of_commands split: option.splits if_splits)
  show "set (index_matching lower creator room comment i) =
      {\<lparr>cr_competition_id = cid, cr_option_id = opt\<rparr> | cid opt.
         \<exists>d. t cid = Some (d, creator, room) \<and> option_for_command lower d comment = Some opt}"
  proof (cases "length comment > 128")
    case True
    then show ?thesis by (simp add: m option_for_command_def)
  next
    case False
    then show ?thesis using in_b look by (force simp: m)
  qed
  have "distinct (map fst ?b)" using D(5) by (simp add: hm_wf_def)
  then have "distinct (map fst (sort_key fst ?b))"
    by (metis distinct_map distinct_sort set_sort)
  then have "sorted_wrt (<) (map fst (sort_key fst ?b))" by (simp add: strict_sorted_iff)
  then show "sorted_wrt (<) (map cr_competition_id (index_matching lower creator room comment i))"
    by (simp add: m case_prod_beta comp_def)
qed

lemma set_source_keys:
  "bs_wf acc \<Longrightarrow> bs_wf (fold (\<lambda>s. bs_insert (creator, room, s)) sources acc) \<and>
   set (fold (\<lambda>s. bs_insert (creator, room, s)) sources acc) = set acc \<union> (\<lambda>s. (creator, room, s)) ` set sources"
  by (induction sources arbitrary: acc) auto

lemma index_register_sources_spec:
  assumes inv: "index_inv lower i t" and run: "index_register_sources cid creator room sources i = (i', res)"
  shows "index_inv lower i' t" and "is_ok res \<longleftrightarrow> t cid \<noteq> None \<and> \<not> scope_invalid creator room \<and>
      length sources \<le> 3 \<and> (\<forall>s \<in> set sources. known_source s)"
    and "\<not> is_ok res \<Longrightarrow> i' = i"
    and "is_ok res \<Longrightarrow> k \<in> set (index_matching_source c r s i') \<longleftrightarrow>
      (if k = cid then c = creator \<and> r = room \<and> s \<in> set sources else k \<in> set (index_matching_source c r s i))"
proof -
  have ok: "routes_ok lower i t" "sources_ok i" using inv by (simp_all add: index_inv_def)
  have has: "hm_has (ci_registrations i) cid \<longleftrightarrow> t cid \<noteq> None"
    using routes_okD(2) [OF ok(1), of cid] by (simp add: hm_has_def)
  let ?bad = "\<not> hm_has (ci_registrations i) cid \<or> scope_invalid creator room \<or> length sources > 3 \<or>
      list_ex (\<lambda>s. \<not> known_source s) sources"
  define keys where "keys = fold (\<lambda>s. bs_insert (creator, room, s)) sources []"
  define i2 where "i2 = i\<lparr>ci_source_routes := fold (add_entry (bs_insert cid)) keys (drop_sources cid i),
      ci_source_registrations := hm_insert cid keys (ci_source_registrations i)\<rparr>"
  have res: "(i', res) = (if ?bad then (i, Inl InvalidCandidate) else (i2, Inr ()))"
    unfolding run [symmetric] index_register_sources_def keys_def i2_def Let_def ..
  show "is_ok res \<longleftrightarrow> t cid \<noteq> None \<and> \<not> scope_invalid creator room \<and>
      length sources \<le> 3 \<and> (\<forall>s \<in> set sources. known_source s)"
    using res has by (auto simp: list_ex_iff split: if_splits)
  show "\<not> is_ok res \<Longrightarrow> i' = i" using res by (auto split: if_splits)
  have keys: "bs_wf keys" "set keys = (\<lambda>s. (creator, room, s)) ` set sources"
    using set_source_keys [of "[]" creator room sources] unfolding keys_def by auto
  then have dk: "distinct keys" by (simp add: bs_wf_def)
  note drop = drop_sources_bucket [OF ok(2), where cid = cid]
  have b: "bucket (ci_source_routes i2) key = (if key \<in> set keys then bs_insert cid (bucket (drop_sources cid i) key)
      else bucket (drop_sources cid i) key)" for key
    by (simp add: i2_def bucket_add_entries [OF dk])
  have mem: "k \<in> set (bucket (ci_source_routes i2) key) \<longleftrightarrow>
      (if k = cid then key \<in> set keys else key \<in> set (bucket (ci_source_registrations i) k))" for k key
    by (auto simp: b drop(4))
  have mem_old: "k \<in> set (bucket (ci_source_routes i) key) \<longleftrightarrow> key \<in> set (bucket (ci_source_registrations i) k)" for k key
    using ok(2) unfolding sources_ok_def by blast
  show "k \<in> set (index_matching_source c r s i') \<longleftrightarrow>
      (if k = cid then c = creator \<and> r = room \<and> s \<in> set sources else k \<in> set (index_matching_source c r s i))"
    if "is_ok res"
  proof -
    have "i' = i2" using that res by (auto split: if_splits)
    then show ?thesis using mem [of k "(c, r, s)"] mem_old [of k "(c, r, s)"] keys(2)
      by (auto simp: index_matching_source_def bucket_def)
  qed
  have "sources_ok i2" if "\<not> ?bad"
  proof -
    have "bs_insert cid b \<noteq> []" for b using bs_set_insert [of cid b] by (metis empty_iff empty_set insertI1)
    then have "no_empty (ci_source_routes i2)" using drop(2) by (simp add: i2_def no_empty_add_entries)
    moreover have "bs_wf (bucket (ci_source_routes i2) key)" for key using drop(3) by (simp add: b)
    moreover have "bucket (ci_source_registrations i2) k =
        (if k = cid then keys else bucket (ci_source_registrations i) k)" for k
      by (simp add: i2_def bucket_insert)
    moreover have "hm_get (ci_source_registrations i2) k \<noteq> None \<longrightarrow> hm_get (ci_registrations i2) k \<noteq> None" for k
      using ok(2) that unfolding sources_ok_def by (auto simp: i2_def hm_get_insert hm_has_def)
    moreover have "distinct (bucket (ci_source_registrations i) k)" for k
      using ok(2) unfolding sources_ok_def by blast
    ultimately show ?thesis using mem dk unfolding sources_ok_def by simp
  qed
  moreover have "routes_ok lower i2 t" using ok(1) unfolding routes_ok_def i2_def by simp
  ultimately show "index_inv lower i' t" using res inv by (auto simp: index_inv_def split: if_splits)
qed

section \<open>The limits\<close>

definition index_limits :: "command_index \<Rightarrow> bool" where
  "index_limits i \<longleftrightarrow> length (ci_registrations i) \<le> 128 \<and> ci_route_count i \<le> 32768 \<and>
     list_all (\<lambda>(_, keys). length keys \<le> 2048) (ci_registrations i)"

lemma list_all_remove: "list_all P m \<Longrightarrow> list_all P (hm_remove k m)"
  by (auto simp: list_all_iff hm_set_remove)

lemma length_remove_le: "length (hm_remove k m) \<le> length m"
  by (induction m) auto

lemma index_limits_remove:
  assumes "index_limits i" and "index_remove cid i = Ret (i', b)"
  shows "index_limits i'"
proof (cases "hm_get (ci_registrations i) cid")
  case None
  then show ?thesis using assms by (simp add: index_remove_def)
next
  case (Some keys)
  then show ?thesis
    using assms list_all_remove [of _ "ci_registrations i" cid] length_remove_le [of cid "ci_registrations i"]
    by (auto simp: index_remove_def index_limits_def split: if_splits)
qed

lemma index_remove_count:
  assumes "index_remove cid i = Ret (i', b)"
  shows "ci_route_count i' = ci_route_count i - length (hm_get_or (ci_registrations i) cid []) \<and>
    ci_registrations i' = hm_remove cid (ci_registrations i)"
proof (cases "hm_get (ci_registrations i) cid")
  case None
  then have "hm_remove cid (ci_registrations i) = ci_registrations i"
    by (simp add: map_of_eq_None_iff delete_id)
  then show ?thesis using assms None by (simp add: index_remove_def hm_get_or_def)
next
  case (Some keys)
  then show ?thesis using assms by (auto simp: index_remove_def hm_get_or_def split: if_splits)
qed

lemma index_limits_register:
  assumes wf: "hm_wf (ci_registrations i)" and lim: "index_limits i"
    and run: "index_register lower d creator room i = Ret (i', res)"
  shows "index_limits i'"
proof (cases res)
  case (Inl e)
  then have "i' = i" using run
    by (auto simp: index_register_def Let_def run_bind_eq_Ret split: sum.splits if_splits prod.splits)
  then show ?thesis using lim by simp
next
  case (Inr u)
  let ?cs = "definition_commands lower d" and ?regs = "ci_registrations i" and ?id = "cd_id d"
  obtain i1 b where i1: "index_remove ?id i = Ret (i1, b)" "i' = index_add ?id creator room ?cs i1"
    and chk: "hm_has ?regs ?id \<or> length ?regs < 128" "length ?cs \<le> 2048"
      "ci_route_count i - length (hm_get_or ?regs ?id []) + length ?cs \<le> 32768"
    using run Inr
    by (auto simp: index_register_def Let_def run_bind_eq_Ret split: sum.splits if_splits prod.splits)
  note c = index_remove_count [OF i1(1)]
  have "length (hm_insert ?id v (hm_remove ?id ?regs)) \<le> 128" for v
  proof -
    have "hm_has ?regs ?id \<Longrightarrow> 0 < length ?regs" by (auto simp: hm_has_def)
    then show ?thesis
      using chk(1) lim wf by (auto simp: hm_len_insert hm_len_remove hm_simps index_limits_def)
  qed
  moreover have "list_all (\<lambda>(_, keys). length keys \<le> 2048)
      (hm_insert ?id (map (\<lambda>(command, opt). (creator, room, command)) ?cs) (hm_remove ?id ?regs))"
    using lim chk(2) hm_wf_remove [OF wf, of ?id] list_all_remove [of _ ?regs ?id]
    by (auto simp: index_limits_def list_all_iff hm_set_insert)
  ultimately show ?thesis using chk(3) c i1(2) by (simp add: index_add_def index_limits_def Let_def)
qed

section \<open>Sequences of calls\<close>

datatype index_op =
    Ix_Register competition_definition string string
  | Ix_Remove string
  | Ix_Sources string string string "string list"

definition index_step :: "(string \<Rightarrow> string) \<Rightarrow> index_op \<Rightarrow> command_index \<Rightarrow> command_index run" where
  "index_step lower op i =
     (case op of
        Ix_Register d creator room \<Rightarrow> run_bind (index_register lower d creator room i) (\<lambda>(i', _). Ret i')
      | Ix_Remove cid \<Rightarrow> run_bind (index_remove cid i) (\<lambda>(i', _). Ret i')
      | Ix_Sources cid creator room sources \<Rightarrow> Ret (fst (index_register_sources cid creator room sources i)))"

fun index_run :: "(string \<Rightarrow> string) \<Rightarrow> index_op list \<Rightarrow> command_index \<Rightarrow> command_index run" where
  "index_run lower [] i = Ret i"
| "index_run lower (op # ops) i = run_bind (index_step lower op i) (index_run lower ops)"

definition index_ok :: "(string \<Rightarrow> string) \<Rightarrow> command_index \<Rightarrow> bool" where
  "index_ok lower i \<longleftrightarrow> index_limits i \<and> (\<exists>t. index_inv lower i t)"

lemma index_ok_default: "index_ok lower index_default"
  using index_inv_default [of lower] by (auto simp: index_ok_def index_limits_def index_default_def)

lemma index_step_ok:
  assumes "index_ok lower i"
  shows "\<exists>i'. index_step lower op i = Ret i' \<and> index_ok lower i'"
proof -
  obtain t where lim: "index_limits i" and inv: "index_inv lower i t"
    using assms by (auto simp: index_ok_def)
  have wf: "hm_wf (ci_registrations i)" using inv by (simp add: index_inv_def routes_ok_def)
  show ?thesis
  proof (cases op)
    case (Ix_Register d creator room)
    then show ?thesis
      using index_register_spec [OF inv, of d creator room] index_limits_register [OF wf lim]
      by (fastforce simp: index_step_def index_ok_def)
  next
    case (Ix_Remove cid)
    then show ?thesis
      using index_remove_spec [OF inv, of cid] index_limits_remove [OF lim]
      by (fastforce simp: index_step_def index_ok_def)
  next
    case (Ix_Sources cid creator room sources)
    obtain i' res where run: "index_register_sources cid creator room sources i = (i', res)" by force
    have "ci_registrations i' = ci_registrations i \<and> ci_route_count i' = ci_route_count i"
      using run by (auto simp: index_register_sources_def Let_def split: if_splits)
    then show ?thesis
      using index_register_sources_spec(1) [OF inv run] lim run Ix_Sources
      by (auto simp: index_step_def index_ok_def index_limits_def)
  qed
qed

lemma index_run_ok: "index_ok lower i \<Longrightarrow> \<exists>i'. index_run lower ops i = Ret i' \<and> index_ok lower i'"
proof (induction ops arbitrary: i)
  case (Cons op ops)
  then show ?case using index_step_ok [of lower i op] by fastforce
qed simp

end
