(* ===== verification/Lifecycle.thy ===== *)
theory Lifecycle
  imports Competition_Model
begin

text \<open>
  The durable lifecycle (\<open>LifecycleState\<close>) and the in-memory routing state machine (\<open>Competition\<close>)
  of \<open>crates/tiktools-competitions/src/lib.rs\<close>. Both are driven by host timestamps.
\<close>

section \<open>The durable lifecycle\<close>

record lifecycle_state =
  ls_lifecycle :: lifecycle
  ls_generation :: u64
  ls_deadline_ms :: "u64 option"
  ls_remaining_ms :: "u64 option"

definition lifecycle_default :: lifecycle_state where
  "lifecycle_default =
     \<lparr>ls_lifecycle = Draft, ls_generation = 0, ls_deadline_ms = None, ls_remaining_ms = None\<rparr>"

datatype transition = Start | Pause | Resume | Cancel | Finish | Expire

definition is_due :: "u64 \<Rightarrow> lifecycle_state \<Rightarrow> bool" where
  "is_due now s \<longleftrightarrow> ls_lifecycle s = Active \<and>
     (case ls_deadline_ms s of None \<Rightarrow> False | Some d \<Rightarrow> now \<ge> d)"

text \<open>\<open>now.checked_add(d).ok_or(Overflow)\<close> under \<open>Option::map\<close> and \<open>transpose\<close>.\<close>

definition later :: "u64 \<Rightarrow> u64 option \<Rightarrow> competition_error + u64 option" where
  "later now duration =
     (case duration of None \<Rightarrow> Inr None
      | Some d \<Rightarrow> (case checked_add now d of None \<Rightarrow> Inl ScoreOverflow | Some t \<Rightarrow> Inr (Some t)))"

definition transition ::
  "transition \<Rightarrow> u64 \<Rightarrow> u64 option \<Rightarrow> lifecycle_state \<Rightarrow>
   (lifecycle_state \<times> (competition_error + unit)) run" where
  "transition t now duration s =
     (if t = Start \<and> ls_lifecycle s = Draft then
        (case later now duration of
           Inl err \<Rightarrow> Ret (s, Inl err)
         | Inr deadline \<Rightarrow>
           (case checked_add (ls_generation s) 1 of
              None \<Rightarrow> Ret (s, Inl ScoreOverflow)
            | Some generation \<Rightarrow>
              Ret (s\<lparr>ls_deadline_ms := deadline, ls_generation := generation, ls_lifecycle := Active\<rparr>,
                   Inr ())))
      else if t = Pause \<and> ls_lifecycle s = Active \<and> \<not> is_due now s then
        (case ls_deadline_ms s of
           None \<Rightarrow> Ret (s\<lparr>ls_remaining_ms := None, ls_deadline_ms := None, ls_lifecycle := Paused\<rparr>, Inr ())
         | Some deadline \<Rightarrow>
           if deadline < now then Panic
           else Ret (s\<lparr>ls_remaining_ms := Some (deadline - now), ls_deadline_ms := None,
                       ls_lifecycle := Paused\<rparr>, Inr ()))
      else if t = Resume \<and> ls_lifecycle s = Paused then
        (case later now (ls_remaining_ms s) of
           Inl err \<Rightarrow> Ret (s, Inl err)
         | Inr deadline \<Rightarrow>
           Ret (s\<lparr>ls_deadline_ms := deadline, ls_remaining_ms := None, ls_lifecycle := Active\<rparr>, Inr ()))
      else if t = Cancel \<and> ls_lifecycle s \<in> {Draft, Active, Paused} then
        Ret (s\<lparr>ls_lifecycle := Cancelled, ls_deadline_ms := None, ls_remaining_ms := None\<rparr>, Inr ())
      else if t = Finish \<and> ls_lifecycle s \<in> {Active, Paused} then
        Ret (s\<lparr>ls_lifecycle := Finalizing, ls_deadline_ms := None, ls_remaining_ms := None\<rparr>, Inr ())
      else if t = Expire \<and> is_due now s then
        Ret (s\<lparr>ls_lifecycle := Finalizing, ls_deadline_ms := None\<rparr>, Inr ())
      else Ret (s, Inl InvalidTransition))"

text \<open>An open competition keeps exactly the clock its phase needs, a closed one keeps none.\<close>

definition lifecycle_inv :: "lifecycle_state \<Rightarrow> bool" where
  "lifecycle_inv s \<longleftrightarrow>
     ls_generation s \<le> u64_max \<and>
     (ls_lifecycle s \<noteq> Active \<longrightarrow> ls_deadline_ms s = None) \<and>
     (ls_lifecycle s \<noteq> Paused \<longrightarrow> ls_remaining_ms s = None)"

definition terminal :: "lifecycle \<Rightarrow> bool" where
  "terminal l \<longleftrightarrow> l \<in> {Finalizing, Finished, Cancelled, Failed}"

lemma lifecycle_inv_default: "lifecycle_inv lifecycle_default"
  by (simp add: lifecycle_inv_def lifecycle_default_def)

lemma later_Inr: "later now duration = Inr t \<longleftrightarrow>
    t = map_option (\<lambda>d. now + d) duration \<and> (\<forall>d. duration = Some d \<longrightarrow> now + d \<le> u64_max)"
  by (auto simp: later_def checked_add_def split: option.split)

lemma transition_total:
  "\<exists>s' res. transition t now duration s = Ret (s', res) \<and> (\<forall>e. res = Inl e \<longrightarrow> s' = s)"
  by (auto simp: transition_def is_due_def split: option.splits sum.splits)

lemma lifecycle_inv_transition:
  assumes "lifecycle_inv s" and "transition t now duration s = Ret (s', res)"
  shows "lifecycle_inv s'"
  using assms
  by (auto simp: transition_def lifecycle_inv_def is_due_def checked_add_def
      split: if_splits option.splits sum.splits)

lemma transition_generation:
  assumes "transition t now duration s = Ret (s', res)"
  shows "ls_generation s' = ls_generation s +
    (if t = Start \<and> ls_lifecycle s = Draft \<and> is_ok res then 1 else 0)"
  using assms
  by (auto simp: transition_def checked_add_def is_ok_def split: if_splits option.splits sum.splits)

definition lifecycle_step :: "transition \<times> u64 \<times> u64 option \<Rightarrow> lifecycle_state \<Rightarrow> lifecycle_state" where
  "lifecycle_step e s =
     (case e of (t, now, duration) \<Rightarrow>
        (case transition t now duration s of Panic \<Rightarrow> s | Ret (s', _) \<Rightarrow> s'))"

interpretation lc: monotone_machine lifecycle_step lifecycle_inv ls_generation
  by unfold_locales
    (auto simp: lifecycle_step_def transition_generation intro: lifecycle_inv_transition split: run.splits)

lemma terminal_step: "terminal (ls_lifecycle s) \<Longrightarrow> lifecycle_step e s = s"
  by (cases e) (auto simp: lifecycle_step_def transition_def terminal_def is_due_def)

lemma terminal_run: "terminal (ls_lifecycle s) \<Longrightarrow> fold lifecycle_step es s = s"
  by (induction es arbitrary: s) (simp_all add: terminal_step)

section \<open>The routing state machine\<close>

record participant =
  pt_option :: string
  pt_votes :: u64

record competition =
  co_lifecycle :: lifecycle
  co_options :: "string list"
  co_participants :: "(string, participant) hmap"
  co_capacity :: nat
  co_vote_limit :: u64
  co_allow_switch :: bool
  co_remaining_ms :: "u64 option"
  co_deadline_ms :: "u64 option"

fun collect_options :: "string list \<Rightarrow> string list \<Rightarrow> competition_error + string list" where
  "collect_options acc [] = Inr acc"
| "collect_options acc (opt # rest) =
     (if opt = [] \<or> length opt > 512 then Inl InvalidCandidate
      else if opt \<in> set acc then Inl DuplicateCandidate
      else collect_options (bs_insert opt acc) rest)"

definition competition_new :: "string list \<Rightarrow> nat \<Rightarrow> u64 \<Rightarrow> bool \<Rightarrow> competition_error + competition" where
  "competition_new options capacity vote_limit allow_switch =
     (case collect_options [] options of
        Inl err \<Rightarrow> Inl err
      | Inr opts \<Rightarrow>
        if opts = [] \<or> length opts > 256 \<or> capacity = 0 \<or> capacity > 100000 \<or> vote_limit = 0
        then Inl CompetitionFull
        else Inr \<lparr>co_lifecycle = Draft, co_options = opts, co_participants = [], co_capacity = capacity,
          co_vote_limit = vote_limit, co_allow_switch = allow_switch, co_remaining_ms = None,
          co_deadline_ms = None\<rparr>)"

type_synonym competition_result = "competition \<times> (competition_error + unit)"

definition competition_start :: "u64 \<Rightarrow> u64 option \<Rightarrow> competition \<Rightarrow> competition_result" where
  "competition_start now duration c =
     (if co_lifecycle c \<noteq> Draft then (c, Inl InvalidTransition)
      else case later now duration of
        Inl err \<Rightarrow> (c, Inl err)
      | Inr deadline \<Rightarrow> (c\<lparr>co_deadline_ms := deadline, co_lifecycle := Active\<rparr>, Inr ()))"

definition competition_pause :: "u64 \<Rightarrow> competition \<Rightarrow> competition_result" where
  "competition_pause now c =
     (if co_lifecycle c \<noteq> Active then (c, Inl InvalidTransition)
      else (c\<lparr>co_remaining_ms := map_option (\<lambda>d. saturating_sub d now) (co_deadline_ms c),
              co_deadline_ms := None, co_lifecycle := Paused\<rparr>, Inr ()))"

definition competition_resume :: "u64 \<Rightarrow> competition \<Rightarrow> competition_result" where
  "competition_resume now c =
     (if co_lifecycle c \<noteq> Paused then (c, Inl InvalidTransition)
      else case later now (co_remaining_ms c) of
        Inl err \<Rightarrow> (c, Inl err)
      | Inr deadline \<Rightarrow>
        (c\<lparr>co_deadline_ms := deadline, co_remaining_ms := None, co_lifecycle := Active\<rparr>, Inr ()))"

definition competition_is_due :: "u64 \<Rightarrow> competition \<Rightarrow> bool" where
  "competition_is_due now c \<longleftrightarrow> co_lifecycle c = Active \<and>
     (case co_deadline_ms c of None \<Rightarrow> False | Some d \<Rightarrow> now \<ge> d)"

definition begin_finalizing :: "competition \<Rightarrow> competition_result" where
  "begin_finalizing c =
     (if co_lifecycle c \<notin> {Active, Paused} then (c, Inl InvalidTransition)
      else (c\<lparr>co_lifecycle := Finalizing, co_deadline_ms := None\<rparr>, Inr ()))"

definition competition_finish :: "competition \<Rightarrow> competition_result" where
  "competition_finish c =
     (if co_lifecycle c \<noteq> Finalizing then (c, Inl InvalidTransition)
      else (c\<lparr>co_lifecycle := Finished\<rparr>, Inr ()))"

definition competition_cancel :: "competition \<Rightarrow> competition_result" where
  "competition_cancel c =
     (if co_lifecycle c \<notin> {Draft, Active, Paused} then (c, Inl InvalidTransition)
      else (c\<lparr>co_lifecycle := Cancelled, co_deadline_ms := None\<rparr>, Inr ()))"

definition competition_vote :: "u64 \<Rightarrow> string \<Rightarrow> string \<Rightarrow> competition \<Rightarrow> competition_result" where
  "competition_vote now user opt c =
     (if co_lifecycle c \<noteq> Active \<or> competition_is_due now c then (c, Inl InvalidTransition)
      else if user = [] \<or> length user > 512 then (c, Inl InvalidCandidate)
      else if opt \<notin> set (co_options c) then (c, Inl UnknownOption)
      else case hm_get (co_participants c) user of
        Some p \<Rightarrow>
          if pt_option p \<noteq> opt \<and> \<not> co_allow_switch c then (c, Inl SwitchRefused)
          else if pt_votes p \<ge> co_vote_limit c \<and> pt_option p = opt then (c, Inl VotesExhausted)
          else
            (let votes = (if pt_votes p \<ge> co_vote_limit c then pt_votes p else pt_votes p + 1) in
             (c\<lparr>co_participants := hm_insert user \<lparr>pt_option = opt, pt_votes = votes\<rparr> (co_participants c)\<rparr>,
              Inr ()))
      | None \<Rightarrow>
          if length (co_participants c) \<ge> co_capacity c then (c, Inl CompetitionFull)
          else (c\<lparr>co_participants := hm_insert user \<lparr>pt_option = opt, pt_votes = 1\<rparr> (co_participants c)\<rparr>,
                Inr ()))"

definition selected_option :: "u64 \<Rightarrow> string \<Rightarrow> competition \<Rightarrow> string option" where
  "selected_option now user c =
     (if co_lifecycle c \<noteq> Active \<or> competition_is_due now c then None
      else map_option pt_option (hm_get (co_participants c) user))"

definition participant_ok :: "competition \<Rightarrow> string \<times> participant \<Rightarrow> bool" where
  "participant_ok c = (\<lambda>(user, p). user \<noteq> [] \<and> length user \<le> 512 \<and> pt_option p \<in> set (co_options c) \<and>
     0 < pt_votes p \<and> pt_votes p \<le> co_vote_limit c)"

definition competition_inv :: "competition \<Rightarrow> bool" where
  "competition_inv c \<longleftrightarrow>
     bs_wf (co_options c) \<and> co_options c \<noteq> [] \<and> length (co_options c) \<le> 256 \<and>
     0 < co_vote_limit c \<and> co_vote_limit c \<le> u64_max \<and> co_capacity c \<le> 100000 \<and>
     hm_wf (co_participants c) \<and> length (co_participants c) \<le> co_capacity c \<and>
     list_all (participant_ok c) (co_participants c) \<and>
     (co_lifecycle c = Draft \<longrightarrow> co_participants c = [])"

lemma collect_options_spec:
  assumes "collect_options acc options = Inr out" and "bs_wf acc"
  shows "bs_wf out \<and> set out = set acc \<union> set options \<and> distinct options \<and> set options \<inter> set acc = {}"
  using assms by (induction acc options rule: collect_options.induct) (auto split: if_splits)

lemma competition_inv_new:
  assumes "competition_new options capacity vote_limit allow = Inr c" and "vote_limit \<le> u64_max"
  shows "competition_inv c \<and> co_lifecycle c = Draft \<and> set (co_options c) = set options"
proof (cases "collect_options [] options")
  case (Inl e)
  then show ?thesis using assms by (simp add: competition_new_def)
next
  case (Inr opts)
  have "bs_wf opts \<and> set opts = set options" using collect_options_spec [OF Inr] by simp
  moreover have "opts \<noteq> [] \<and> length opts \<le> 256 \<and> capacity \<le> 100000 \<and> 0 < vote_limit"
    and "c = \<lparr>co_lifecycle = Draft, co_options = opts, co_participants = [], co_capacity = capacity,
          co_vote_limit = vote_limit, co_allow_switch = allow, co_remaining_ms = None,
          co_deadline_ms = None\<rparr>"
    using assms(1) unfolding competition_new_def Inr by (simp_all split: if_splits)
  ultimately show ?thesis using assms(2) by (simp add: competition_inv_def)
qed

datatype competition_op =
    Co_Start u64 "u64 option"
  | Co_Pause u64
  | Co_Resume u64
  | Co_Finalize
  | Co_Finish
  | Co_Cancel
  | Co_Vote u64 string string

definition competition_step :: "competition_op \<Rightarrow> competition \<Rightarrow> competition" where
  "competition_step op c = fst
     (case op of
        Co_Start now duration \<Rightarrow> competition_start now duration c
      | Co_Pause now \<Rightarrow> competition_pause now c
      | Co_Resume now \<Rightarrow> competition_resume now c
      | Co_Finalize \<Rightarrow> begin_finalizing c
      | Co_Finish \<Rightarrow> competition_finish c
      | Co_Cancel \<Rightarrow> competition_cancel c
      | Co_Vote now user opt \<Rightarrow> competition_vote now user opt c)"

text \<open>What an accepted vote does to the one participant who cast it.\<close>

definition voted :: "string \<Rightarrow> competition \<Rightarrow> participant option \<Rightarrow> participant" where
  "voted opt c old =
     (case old of None \<Rightarrow> \<lparr>pt_option = opt, pt_votes = 1\<rparr>
      | Some p \<Rightarrow> \<lparr>pt_option = opt, pt_votes = (if pt_votes p < co_vote_limit c then pt_votes p + 1 else pt_votes p)\<rparr>)"

lemma competition_vote_Inr:
  assumes "competition_vote now user opt c = (c', Inr ())"
  shows "c' = c\<lparr>co_participants := hm_insert user (voted opt c (hm_get (co_participants c) user))
      (co_participants c)\<rparr> \<and> co_lifecycle c = Active \<and> \<not> competition_is_due now c \<and>
    user \<noteq> [] \<and> length user \<le> 512 \<and> opt \<in> set (co_options c) \<and>
    (hm_get (co_participants c) user = None \<longrightarrow> length (co_participants c) < co_capacity c) \<and>
    (\<forall>p. hm_get (co_participants c) user = Some p \<longrightarrow>
       (pt_option p = opt \<or> co_allow_switch c) \<and> (pt_votes p < co_vote_limit c \<or> pt_option p \<noteq> opt))"
  using assms
  by (auto simp: competition_vote_def voted_def Let_def split: if_splits option.splits)

lemma competition_vote_Inl: "competition_vote now user opt c = (c', Inl e) \<Longrightarrow> c' = c"
  by (auto simp: competition_vote_def Let_def split: if_splits option.splits)

lemma competition_inv_vote:
  assumes inv: "competition_inv c"
  shows "competition_inv (fst (competition_vote now user opt c))"
proof (cases "snd (competition_vote now user opt c)")
  case (Inl e)
  then have "fst (competition_vote now user opt c) = c"
    using competition_vote_Inl by (metis prod.collapse)
  then show ?thesis using inv by simp
next
  case (Inr u)
  then obtain c' where run: "competition_vote now user opt c = (c', Inr ())"
    by (cases "competition_vote now user opt c") auto
  note v = competition_vote_Inr [OF run]
  let ?p = "voted opt c (hm_get (co_participants c) user)"
  have old: "0 < pt_votes p \<and> pt_votes p \<le> co_vote_limit c" if "hm_get (co_participants c) user = Some p" for p
    using inv map_of_SomeD [OF that] by (auto simp: competition_inv_def list_all_iff participant_ok_def)
  have p: "participant_ok c (user, ?p)"
    using v old inv by (auto simp: participant_ok_def voted_def competition_inv_def split: option.split)
  have len: "length (hm_insert user ?p (co_participants c)) \<le> co_capacity c"
    using inv v by (auto simp: hm_len_insert competition_inv_def hm_get_None)
  have "list_all (participant_ok c) (hm_insert user ?p (co_participants c))"
    using inv p by (auto simp: competition_inv_def list_all_iff hm_set_insert)
  then have "list_all (participant_ok c') (hm_insert user ?p (co_participants c))"
    using v by (simp add: participant_ok_def)
  then show ?thesis using run v inv len by (simp add: competition_inv_def)
qed

lemma competition_inv_same:
  assumes "competition_inv c" and "co_options c' = co_options c" and "co_participants c' = co_participants c"
    and "co_capacity c' = co_capacity c" and "co_vote_limit c' = co_vote_limit c"
    and "co_lifecycle c' = Draft \<longrightarrow> co_lifecycle c = Draft"
  shows "competition_inv c'"
proof -
  have "participant_ok c' = participant_ok c" using assms by (simp add: participant_ok_def)
  then show ?thesis using assms by (simp add: competition_inv_def)
qed

lemmas lifecycle_ops = competition_start_def competition_pause_def competition_resume_def
  begin_finalizing_def competition_finish_def competition_cancel_def

interpretation co: invariant_machine competition_step competition_inv
proof
  fix c op assume inv: "competition_inv c"
  show "competition_inv (competition_step op c)"
  proof (cases op)
    case (Co_Vote now user opt)
    then show ?thesis using competition_inv_vote [OF inv] by (simp add: competition_step_def)
  qed (rule competition_inv_same [OF inv];
      simp add: competition_step_def lifecycle_ops split: sum.split)+
qed

end
