(* ===== verification/Selection.thy ===== *)
theory Selection
  imports Competition_Model "HOL-Library.Word"
begin

text \<open>
  Winner selection (\<open>crates/tiktools-competitions/src/lib.rs\<close>): rejection sampling on 64-bit
  words, the frozen candidate list, ties, tickets, the validation of stored selections and their
  presentation. The system's random source \<open>getrandom::fill\<close> is an argument: the word the \<open>n\<close>-th
  call delivers, or nothing when the call fails.
\<close>

section \<open>Random numbers below a bound\<close>

type_synonym random_source = "nat \<Rightarrow> 64 word option"

definition threshold :: "64 word \<Rightarrow> 64 word" where
  "threshold bound = (- bound) mod bound"

partial_function (option) sample ::
  "random_source \<Rightarrow> 64 word \<Rightarrow> nat \<Rightarrow> (competition_error + 64 word) option" where
  "sample draws bound n =
     (case draws n of
        None \<Rightarrow> Some (Inl RandomUnavailable)
      | Some v \<Rightarrow> if threshold bound \<le> v then Some (Inr (v mod bound)) else sample draws bound (n + 1))"

definition random_below :: "random_source \<Rightarrow> 64 word \<Rightarrow> (competition_error + 64 word) option" where
  "random_below draws bound = (if bound = 0 then Some (Inl ZeroWeight) else sample draws bound 0)"

text \<open>The loop ends at the first draw that fails or is accepted, with what that draw says.\<close>

definition settles :: "random_source \<Rightarrow> 64 word \<Rightarrow> nat \<Rightarrow> bool" where
  "settles draws bound n \<longleftrightarrow>
     (case draws n of None \<Rightarrow> True | Some v \<Rightarrow> threshold bound \<le> v)"

lemma sample_skip:
  assumes "\<forall>i. n \<le> i \<and> i < n + k \<longrightarrow> \<not> settles draws bound i"
  shows "sample draws bound n = sample draws bound (n + k)"
  using assms
proof (induction k)
  case (Suc k)
  have "\<not> settles draws bound (n + k)" using Suc.prems by simp
  then have "sample draws bound (n + k) = sample draws bound (n + k + 1)"
    by (subst sample.simps) (auto simp: settles_def split: option.splits)
  then show ?case using Suc by simp
qed simp

lemma sample_ends:
  assumes "settles draws bound k" and "\<forall>i<k. \<not> settles draws bound i"
  shows "sample draws bound 0 =
    (case draws k of None \<Rightarrow> Some (Inl RandomUnavailable) | Some v \<Rightarrow> Some (Inr (v mod bound)))"
proof -
  have "sample draws bound 0 = sample draws bound k"
    using sample_skip [of 0 k draws bound] assms(2) by simp
  then show ?thesis using assms(1)
    by (simp add: settles_def sample.simps [of draws bound k] split: option.splits)
qed

lemma random_below_ends:
  assumes "\<exists>n. settles draws bound n"
  shows "\<exists>res. random_below draws bound = Some res"
proof -
  define k where "k = (LEAST n. settles draws bound n)"
  have "settles draws bound k" unfolding k_def using assms by (rule LeastI_ex)
  moreover have "\<forall>i<k. \<not> settles draws bound i" unfolding k_def using not_less_Least by blast
  ultimately have "\<exists>res. sample draws bound 0 = Some res"
    by (auto simp: sample_ends split: option.split)
  then show ?thesis by (simp add: random_below_def)
qed

lemma sample_below:
  assumes "sample draws bound n = Some (Inr v)" and "bound \<noteq> 0"
  shows "unat v < unat bound"
proof -
  have "case r of Inl e \<Rightarrow> e = RandomUnavailable | Inr v \<Rightarrow> bound \<noteq> 0 \<longrightarrow> v < bound"
    if "sample draws bound n = Some r" for r
    using that
  proof (induction rule: sample.raw_induct [rotated, consumes 1, case_names step])
    case (step sample' draws' bound' n' r')
    then show ?case
      by (auto split: option.splits if_splits simp: word_mod_less_divisor word_neq_0_conv)
  qed
  from this [OF assms(1)] assms(2) show ?thesis by (simp add: word_less_nat_alt)
qed

lemma random_below_Inr:
  "random_below draws bound = Some (Inr v) \<Longrightarrow> bound \<noteq> 0 \<and> unat v < unat bound"
  using sample_below by (auto simp: random_below_def split: if_splits)

subsection \<open>No modulo bias\<close>

lemma card_residue_block:
  fixes b :: nat
  assumes "r < b"
  shows "card {v. T \<le> v \<and> v < T + q * b \<and> v mod b = r} = q"
proof (induction q)
  case (Suc q)
  let ?S = "\<lambda>q. {v. T \<le> v \<and> v < T + q * b \<and> v mod b = r}"
  let ?base = "T + q * b"
  have b: "0 < b" using assms by simp
  obtain k m where base: "?base = k * b + m" and m: "m < b"
  proof
    show "?base = ?base div b * b + ?base mod b" by (rule div_mult_mod_eq [symmetric])
    show "?base mod b < b" using b by (rule mod_less_divisor)
  qed
  define x where "x = (if m \<le> r then k * b + r else (k + 1) * b + r)"
  have x: "?base \<le> x" "x < ?base + b" using base assms m by (simp_all add: x_def)
  have xm: "x mod b = r" using assms unfolding x_def by (simp only: mod_mult_self3 mod_less split: if_split) simp
  have apart: "v + b \<le> w" if "v div b < w div b" "v mod b = w mod b" for v w
  proof -
    have "(v div b + 1) * b \<le> w div b * b" using that(1) by (intro mult_le_mono1) simp
    then have "v div b * b + b \<le> w div b * b" by (simp add: add.commute)
    then show ?thesis
      using div_mult_mod_eq [of v b] div_mult_mod_eq [of w b] that(2) by linarith
  qed
  have uniq: "v = x" if v: "?base \<le> v" "v < ?base + b" "v mod b = r" for v
  proof -
    have "\<not> v div b < x div b" using apart [of v x] v x xm by linarith
    moreover have "\<not> x div b < v div b" using apart [of x v] v x xm by linarith
    ultimately have "v div b = x div b" by linarith
    then show ?thesis using v(3) xm by (metis div_mult_mod_eq)
  qed
  have "?S (Suc q) = insert x (?S q)"
  proof (rule set_eqI)
    fix v
    have "T + Suc q * b = ?base + b" by simp
    moreover have "v \<in> insert x (?S q) \<longleftrightarrow> v = x \<or> T \<le> v \<and> v < ?base \<and> v mod b = r" by simp
    ultimately show "v \<in> ?S (Suc q) \<longleftrightarrow> v \<in> insert x (?S q)"
      using x xm uniq [of v] by (cases "v < ?base") auto
  qed
  moreover have "x \<notin> ?S q" using x by simp
  moreover have "finite (?S q)" by simp
  ultimately show ?case using Suc by simp
qed simp

text \<open>
  Every remainder is the result of equally many of the accepted words, and more than half of all
  words are accepted, so no outcome is favoured and the loop is short.
\<close>

lemma unat_threshold: "bound \<noteq> 0 \<Longrightarrow> unat (threshold bound) = 2 ^ 64 mod unat bound"
proof -
  assume b: "bound \<noteq> (0 :: 64 word)"
  have lt: "unat bound < 2 ^ 64" using unsigned_less [of bound] by simp
  have pos: "0 < unat bound" using b by (simp add: unat_gt_0)
  have "bound + word_of_nat (2 ^ 64 - unat bound) = word_of_nat (unat bound + (2 ^ 64 - unat bound))"
    by simp
  also have "unat bound + (2 ^ 64 - unat bound) = 2 ^ 64" using lt by simp
  also have "(word_of_nat (2 ^ 64) :: 64 word) = 0" by simp
  finally have "- bound = word_of_nat (2 ^ 64 - unat bound)" by (rule minus_unique)
  then have "unat (- bound) = 2 ^ 64 - unat bound"
    using pos by (simp add: unat_of_nat take_bit_nat_eq_self)
  then have "unat (threshold bound) = (2 ^ 64 - unat bound) mod unat bound"
    unfolding threshold_def unat_mod_distrib by simp
  also have "\<dots> = (2 ^ 64 - unat bound + unat bound) mod unat bound" by simp
  also have "2 ^ 64 - unat bound + unat bound = (2 ^ 64 :: nat)" using lt by simp
  finally show ?thesis .
qed

lemma card_word_nat:
  "card {v :: 64 word. P (unat v)} = card {n :: nat. n < 2 ^ 64 \<and> P n}"
proof (rule bij_betw_same_card [of unat], rule bij_betw_imageI)
  show "inj_on unat {v :: 64 word. P (unat v)}" by (rule inj_onI) (simp add: word_unat_eq_iff)
  show "unat ` {v :: 64 word. P (unat v)} = {n. n < 2 ^ 64 \<and> P n}"
  proof (intro equalityI subsetI)
    fix n assume "n \<in> {n :: nat. n < 2 ^ 64 \<and> P n}"
    then have "n < 2 ^ 64" "P n" by simp_all
    then have "unat (word_of_nat n :: 64 word) = n" by (simp add: unat_of_nat take_bit_nat_eq_self)
    then show "n \<in> unat ` {v :: 64 word. P (unat v)}" using \<open>P n\<close>
      by (intro image_eqI [of _ _ "word_of_nat n"]) simp_all
  next
    fix n assume "n \<in> unat ` {v :: 64 word. P (unat v)}"
    then obtain v :: "64 word" where "n = unat v" "P (unat v)" by blast
    then show "n \<in> {n. n < 2 ^ 64 \<and> P n}" using unsigned_less [of v] by simp
  qed
qed

lemma accepted_words:
  assumes "bound \<noteq> 0" and "r < unat bound"
  shows "card {v. threshold bound \<le> v \<and> unat (v mod bound) = r} = 2 ^ 64 div unat bound"
proof -
  let ?b = "unat bound" and ?N = "2 ^ 64 :: nat"
  have "{v. threshold bound \<le> v \<and> unat (v mod bound) = r} =
      {v. ?N mod ?b \<le> unat v \<and> unat v mod ?b = r}"
    using unat_threshold [OF assms(1)] by (simp add: word_le_nat_alt unat_mod_distrib)
  also have "card \<dots> = card {n. n < ?N \<and> ?N mod ?b \<le> n \<and> n mod ?b = r}"
    by (rule card_word_nat)
  also have "{n. n < ?N \<and> ?N mod ?b \<le> n \<and> n mod ?b = r} =
      {n. ?N mod ?b \<le> n \<and> n < ?N mod ?b + ?N div ?b * ?b \<and> n mod ?b = r}"
    unfolding mod_div_mult_eq by blast
  also have "card \<dots> = ?N div ?b" using assms(2) by (rule card_residue_block)
  finally show ?thesis .
qed

lemma most_words_accepted:
  assumes "bound \<noteq> 0"
  shows "2 ^ 64 < 2 * card {v. threshold bound \<le> v}"
proof -
  let ?b = "unat bound" and ?N = "2 ^ 64 :: nat"
  have pos: "0 < ?b" using assms by (simp add: unat_gt_0)
  have lt: "?b < ?N" using unsigned_less [of bound] by simp
  have "{v. threshold bound \<le> v} = {v. ?N mod ?b \<le> unat v}"
    using unat_threshold [OF assms] by (simp add: word_le_nat_alt)
  then have "card {v. threshold bound \<le> v} = card {n. n < ?N \<and> ?N mod ?b \<le> n}"
    using card_word_nat [of "\<lambda>n. ?N mod ?b \<le> n"] by simp
  also have "{n. n < ?N \<and> ?N mod ?b \<le> n} = {?N mod ?b..<?N}" by auto
  finally have c: "card {v. threshold bound \<le> v} = ?N - ?N mod ?b" by simp
  have "?b \<le> ?N div ?b * ?b" using lt pos by (metis div_greater_zero_iff less_imp_le mult_le_mono1 mult_1 Suc_leI One_nat_def)
  moreover have "?N mod ?b < ?b" using pos by (rule mod_less_divisor)
  moreover have "?N = ?N div ?b * ?b + ?N mod ?b" by simp
  ultimately show ?thesis using c by linarith
qed

section \<open>Selecting a winner\<close>

definition highest :: "candidate list \<Rightarrow> u64" where
  "highest cs = fold max (map ca_weight cs) 0"

text \<open>The loop that walks the ticket through the candidates.\<close>

fun pick_ticket :: "u64 \<Rightarrow> candidate list \<Rightarrow> string option" where
  "pick_ticket ticket [] = None"
| "pick_ticket ticket (c # cs) =
     (if ticket < ca_weight c then Some (ca_key c) else pick_ticket (ticket - ca_weight c) cs)"

fun any_pair :: "('a \<Rightarrow> 'a \<Rightarrow> bool) \<Rightarrow> 'a list \<Rightarrow> bool" where
  "any_pair P (x # y # rest) \<longleftrightarrow> P x y \<or> any_pair P (y # rest)"
| "any_pair P _ \<longleftrightarrow> False"

text \<open>Picking an element by a random index; an index out of range would abort.\<close>

definition pick_index :: "random_source \<Rightarrow> candidate list \<Rightarrow> (competition_error + string option) run option" where
  "pick_index draws cs =
     map_option (\<lambda>res. case res of
         Inl err \<Rightarrow> Ret (Inl err)
       | Inr i \<Rightarrow> if unat i < length cs then Ret (Inr (Some (ca_key (cs ! unat i)))) else Panic)
       (random_below draws (word_of_nat (length cs)))"

definition choose_winner ::
  "random_source \<Rightarrow> candidate list \<Rightarrow> selection_mode \<Rightarrow> tie_policy \<Rightarrow>
   (competition_error + string option) run option" where
  "choose_winner draws eligible mode tie =
     (case mode of
        HighestScore \<Rightarrow>
          (let tied = filter (\<lambda>c. ca_weight c = highest eligible) eligible in
           if length tied = 1 then Some (Ret (Inr (Some (ca_key (tied ! 0)))))
           else (case tie of
               Manual \<Rightarrow> Some (Ret (Inl ManualTie))
             | NoWinner \<Rightarrow> Some (Ret (Inr None))
             | Stable \<Rightarrow> Some (if tied = [] then Panic else Ret (Inr (Some (ca_key (tied ! 0)))))
             | Random \<Rightarrow> pick_index draws tied))
      | UniformRandom \<Rightarrow> pick_index draws eligible
      | WeightedRandom \<Rightarrow>
          (case try_sum 0 (map ca_weight eligible) of
             None \<Rightarrow> Some (Ret (Inl ScoreOverflow))
           | Some acc \<Rightarrow>
             map_option (\<lambda>res. case res of
                 Inl err \<Rightarrow> Ret (Inl err)
               | Inr ticket \<Rightarrow> Ret (Inr (pick_ticket (unat ticket) eligible)))
               (random_below draws (word_of_nat acc))))"

definition select ::
  "random_source \<Rightarrow> candidate list \<Rightarrow> selection_mode \<Rightarrow> tie_policy \<Rightarrow>
   (competition_error + selection) run option" where
  "select draws eligible mode tie =
     (if eligible = [] \<or> length eligible > 100000 then Some (Ret (Inl Empty))
      else if list_ex (\<lambda>c. ca_key c = [] \<or> length (ca_key c) > 512) eligible
      then Some (Ret (Inl InvalidCandidate))
      else
        (let frozen = sort_key ca_key eligible in
         if any_pair (\<lambda>x y. ca_key x = ca_key y) frozen then Some (Ret (Inl DuplicateCandidate))
         else map_option (\<lambda>r. run_bind r (\<lambda>res. case res of
             Inl err \<Rightarrow> Ret (Inl err)
           | Inr winner \<Rightarrow> Ret (Inr \<lparr>se_mode = mode, se_tie_policy = tie, se_eligible = frozen,
               se_winner = winner\<rparr>)))
           (choose_winner draws frozen mode tie)))"

section \<open>Validation of stored selections\<close>

definition validate_mode :: "selection \<Rightarrow> candidate option \<Rightarrow> (competition_error + unit) run" where
  "validate_mode s chosen =
     (case se_mode s of
        HighestScore \<Rightarrow>
          (case filter (\<lambda>c. ca_weight c = highest (se_eligible s)) (se_eligible s) of
             [] \<Rightarrow> Panic
           | first # others \<Rightarrow>
             (let tied = (others \<noteq> []) in
              if chosen = None \<and> (se_tie_policy s \<noteq> NoWinner \<or> \<not> tied) then Ret (Inl InvalidCandidate)
              else case chosen of
                None \<Rightarrow> Ret (Inr ())
              | Some c \<Rightarrow>
                if ca_weight c \<noteq> highest (se_eligible s) \<or> (tied \<and> se_tie_policy s = NoWinner) \<or>
                   (tied \<and> se_tie_policy s = Stable \<and> ca_key c \<noteq> ca_key first)
                then Ret (Inl InvalidCandidate) else Ret (Inr ())))
      | UniformRandom \<Rightarrow> Ret (if chosen = None then Inl InvalidCandidate else Inr ())
      | WeightedRandom \<Rightarrow>
          (case try_sum 0 (map ca_weight (se_eligible s)) of
             None \<Rightarrow> Ret (Inl ScoreOverflow)
           | Some acc \<Rightarrow>
             Ret (if acc = 0 \<or> (case chosen of None \<Rightarrow> True | Some c \<Rightarrow> ca_weight c = 0)
                  then Inl ZeroWeight else Inr ())))"

definition validate_selection :: "selection \<Rightarrow> (competition_error + unit) run" where
  "validate_selection s =
     (if se_eligible s = [] then Ret (if se_winner s = None then Inr () else Inl Empty)
      else if length (se_eligible s) > 100000 then Ret (Inl Empty)
      else if list_ex (\<lambda>c. ca_key c = [] \<or> length (ca_key c) > 512) (se_eligible s)
      then Ret (Inl InvalidCandidate)
      else if any_pair (\<lambda>x y. ca_key x \<ge> ca_key y) (se_eligible s) then Ret (Inl DuplicateCandidate)
      else case se_winner s of
        None \<Rightarrow> validate_mode s None
      | Some key \<Rightarrow>
        (case find (\<lambda>c. ca_key c = key) (se_eligible s) of
           None \<Rightarrow> Ret (Inl InvalidCandidate)
         | Some c \<Rightarrow> validate_mode s (Some c)))"

definition select_manual :: "candidate list \<Rightarrow> string \<Rightarrow> (competition_error + selection) run" where
  "select_manual eligible winner =
     (if eligible = [] \<or> length eligible > 100000 \<or> winner = [] then Ret (Inl InvalidCandidate)
      else
        (let frozen = sort_key ca_key eligible; mx = highest frozen in
         if length (filter (\<lambda>c. ca_weight c = mx) frozen) < 2 \<or>
            \<not> list_ex (\<lambda>c. ca_key c = winner \<and> ca_weight c = mx) frozen
         then Ret (Inl InvalidCandidate)
         else
           (let s = \<lparr>se_mode = HighestScore, se_tie_policy = Manual, se_eligible = frozen,
              se_winner = Some winner\<rparr>
            in run_bind (validate_selection s)
                 (\<lambda>res. case res of Inl err \<Rightarrow> Ret (Inl err) | Inr _ \<Rightarrow> Ret (Inr s)))))"

section \<open>Presentation\<close>

record reveal_selection =
  rs_mode :: selection_mode
  rs_eligible :: "candidate list"
  rs_winner :: "string option"

record reveal_snapshot =
  rv_schema_version :: nat
  rv_competition_id :: string
  rv_ranking_id :: string
  rv_generation :: u64
  rv_selection :: reveal_selection
  rv_eligible_count :: nat
  rv_other_weight :: u64

definition shown_candidates :: "selection \<Rightarrow> competition_error + candidate list" where
  "shown_candidates s =
     (let shown = take 256 (se_eligible s) in
      case se_winner s of
        None \<Rightarrow> Inr shown
      | Some winner \<Rightarrow>
        if list_ex (\<lambda>c. ca_key c = winner) shown then Inr shown
        else (case find (\<lambda>c. ca_key c = winner) (se_eligible s) of
            None \<Rightarrow> Inl InvalidCandidate
          | Some c \<Rightarrow> Inr (butlast shown @ [c])))"

definition candidate_weight :: "selection \<Rightarrow> candidate \<Rightarrow> u64" where
  "candidate_weight s c = (if se_mode s = WeightedRandom then ca_weight c else 1)"

definition reveal_snapshot :: "result_record \<Rightarrow> (competition_error + reveal_snapshot) run" where
  "reveal_snapshot r =
     (let s = rr_selection r in
      run_bind (validate_selection s) (\<lambda>res. case res of
        Inl err \<Rightarrow> Ret (Inl err)
      | Inr _ \<Rightarrow>
        (case shown_candidates s of
           Inl err \<Rightarrow> Ret (Inl err)
         | Inr shown \<Rightarrow>
           (case try_sum 0 (map (candidate_weight s)
                   (filter (\<lambda>c. ca_key c \<notin> ca_key ` set shown) (se_eligible s))) of
              None \<Rightarrow> Ret (Inl ScoreOverflow)
            | Some other \<Rightarrow>
              Ret (Inr \<lparr>rv_schema_version = rr_schema_version r, rv_competition_id = rr_competition_id r,
                rv_ranking_id = rr_ranking_id r, rv_generation = rr_generation r,
                rv_selection = \<lparr>rs_mode = se_mode s, rs_eligible = shown, rs_winner = se_winner s\<rparr>,
                rv_eligible_count = length (se_eligible s), rv_other_weight = other\<rparr>)))))"

end
