(* ===== verification/Competition_Guarantees.thy ===== *)
theory Competition_Guarantees
  imports Lifecycle Selection_Facts "HOL-Library.Multiset"
begin

text \<open>
  The properties of \<open>crates/tiktools-competitions\<close>: what a winner selection promises, that draws
  are fair, what the presentation shows, and how the lifecycle and the voting state machine
  behave.
\<close>

section \<open>Winner selection\<close>

definition example_candidates :: "candidate list" where
  "example_candidates = [\<lparr>ca_key = ''b'', ca_weight = 1\<rparr>, \<lparr>ca_key = ''a'', ca_weight = 3\<rparr>]"

definition drawn :: "64 word \<Rightarrow> random_source" where
  "drawn w = (\<lambda>_. Some w)"

text \<open>
  C14. A selection that returns a record has frozen exactly the given candidates in key order, has
  chosen a winner its mode and tie policy allow (a leader, any candidate, or one that holds a
  ticket), and the record passes the validation that every later reader applies to it.
\<close>

theorem selection_sound:
  assumes "select draws eligible mode tie = Some (Ret (Inr s))"
  shows "mset (se_eligible s) = mset eligible \<and> sorted_wrt (<) (map ca_key (se_eligible s)) \<and>
    se_mode s = mode \<and> se_tie_policy s = tie \<and>
    winner_ok (se_eligible s) mode tie (se_winner s) \<and> validate_selection s = Ret (Inr ())"
proof -
  from select_result [OF assms] have s: "se_mode s = mode" "se_tie_policy s = tie"
    "se_eligible s = sort_key ca_key eligible" "eligible \<noteq> []" "length eligible \<le> 100000"
    "\<forall>c \<in> set eligible. ca_key c \<noteq> [] \<and> length (ca_key c) \<le> 512"
    "sorted_wrt (<) (map ca_key (se_eligible s))" "winner_ok (se_eligible s) mode tie (se_winner s)"
    by auto
  have "se_eligible s \<noteq> []" using s(3,4) by (metis length_0_conv length_sort)
  then have "validate_selection s = Ret (Inr ())" using s by (intro validate_frozen) simp_all
  then show ?thesis using s by simp
qed

theorem selection_sound_witness:
  "\<exists>s. select (drawn 0) example_candidates HighestScore Manual = Some (Ret (Inr s)) \<and>
    se_winner s = Some ''a'' \<and> mset (se_eligible s) = mset example_candidates \<and>
    validate_selection s = Ret (Inr ())"
proof -
  have "sort_key ca_key example_candidates = rev example_candidates"
    by (simp add: example_candidates_def)
  then have *: "select (drawn 0) example_candidates HighestScore Manual = Some (Ret (Inr
      \<lparr>se_mode = HighestScore, se_tie_policy = Manual, se_eligible = rev example_candidates,
       se_winner = Some ''a''\<rparr>))"
    by (simp add: select_def choose_winner_def example_candidates_def highest_def Let_def)
  show ?thesis using selection_sound [OF *] * by simp
qed

lemma choose_winner_ends:
  assumes "\<And>bound. bound \<noteq> 0 \<Longrightarrow> \<exists>n. settles draws bound n"
  shows "\<exists>r. choose_winner draws eligible mode tie = Some r"
proof -
  have ends: "\<exists>res. random_below draws bound = Some res" for bound
  proof (cases "bound = 0")
    case False
    then show ?thesis using random_below_ends assms by blast
  qed (simp add: random_below_def)
  show ?thesis
    by (cases "try_sum 0 (map ca_weight eligible)")
      (simp_all add: choose_winner_def pick_index_def Let_def ends split: selection_mode.split tie_policy.split)
qed

text \<open>
  C15. A selection ends and never aborts: as soon as the random source fails or delivers one word
  above the rejection threshold, the sampling loop stops, no index leaves its list, and the result
  is a record or an error.
\<close>

theorem selection_ends:
  assumes "\<And>bound. bound \<noteq> 0 \<Longrightarrow> \<exists>n. settles draws bound n"
  shows "\<exists>res. select draws eligible mode tie = Some (Ret res)"
proof -
  have "\<exists>r. select draws eligible mode tie = Some r"
    using choose_winner_ends [OF assms] by (fastforce simp: select_def Let_def)
  then obtain r where r: "select draws eligible mode tie = Some r" by blast
  from select_result [OF this] r show ?thesis by blast
qed

theorem selection_ends_witness:
  "\<exists>res. select (drawn (- 1)) example_candidates UniformRandom Manual = Some (Ret res)"
proof (rule selection_ends)
  fix bound :: "64 word"
  show "\<exists>n. settles (drawn (- 1)) bound n" by (simp add: settles_def drawn_def)
qed

text \<open>
  C16. The weighted draw is exactly fair. Of the 64-bit words that the sampling loop accepts, each
  candidate wins with its weight times the same number of words, so the odds are the weights
  without any modulo bias; and more than half of all words are accepted.
\<close>

theorem weighted_draw_fair:
  assumes "distinct (map ca_key cs)" and "c \<in> set cs"
    and w: "0 < sum_list (map ca_weight cs)" "sum_list (map ca_weight cs) \<le> u64_max"
  shows "let total = sum_list (map ca_weight cs); bound = word_of_nat total in
    card {v. threshold bound \<le> v \<and> pick_ticket (unat (v mod bound)) cs = Some (ca_key c)} =
      ca_weight c * (2 ^ 64 div total) \<and>
    2 ^ 64 < 2 * card {v. threshold bound \<le> v}"
proof -
  define W where "W = sum_list (map ca_weight cs)"
  define b where "b = (word_of_nat W :: 64 word)"
  have ub: "unat b = W" using unat_small w(2) by (simp add: W_def b_def)
  have "W \<noteq> 0" using w(1) W_def by linarith
  then have "unat b \<noteq> 0" using ub by simp
  then have b0: "b \<noteq> 0" by (metis unat_0)
  let ?T = "{t. t < W \<and> pick_ticket t cs = Some (ca_key c)}"
  let ?V = "\<lambda>t. {v. threshold b \<le> v \<and> unat (v mod b) = t}"
  have lt: "unat (v mod b) < W" for v
    using word_mod_less_divisor [of b v] b0 ub by (simp add: word_less_nat_alt word_neq_0_conv)
  have "{v. threshold b \<le> v \<and> pick_ticket (unat (v mod b)) cs = Some (ca_key c)} = (\<Union>t\<in>?T. ?V t)"
    using lt by auto
  also have "card \<dots> = (\<Sum>t\<in>?T. card (?V t))"
    by (rule card_UN_disjoint) auto
  also have "\<dots> = (\<Sum>t\<in>?T. 2 ^ 64 div W)"
    using accepted_words [OF b0] ub by (intro sum.cong) auto
  also have "\<dots> = ca_weight c * (2 ^ 64 div W)"
    using ticket_count [OF assms(1,2)] by (simp add: W_def)
  finally show ?thesis using most_words_accepted [OF b0] by (simp add: Let_def W_def b_def)
qed

theorem weighted_draw_fair_witness:
  "card {v :: 64 word. threshold 4 \<le> v \<and> pick_ticket (unat (v mod 4)) example_candidates = Some ''a''} =
     3 * 2 ^ 62 \<and> 2 ^ 64 < 2 * card {v :: 64 word. threshold 4 \<le> v}"
proof -
  have sum: "sum_list (map ca_weight example_candidates) = 4"
    and "distinct (map ca_key example_candidates)"
    and "\<lparr>ca_key = ''a'', ca_weight = 3\<rparr> \<in> set example_candidates"
    by (simp_all add: example_candidates_def)
  then show ?thesis
    using weighted_draw_fair [of example_candidates "\<lparr>ca_key = ''a'', ca_weight = 3\<rparr>"]
    unfolding sum by (simp add: u64_max_def)
qed

section \<open>Presentation\<close>

lemma validate_selection_Inr:
  assumes "validate_selection s = Ret (Inr ())"
  shows "length (se_eligible s) \<le> 100000 \<and> sorted_wrt (<) (map ca_key (se_eligible s)) \<and>
    (\<forall>c \<in> set (se_eligible s). ca_key c \<noteq> [] \<and> length (ca_key c) \<le> 512) \<and>
    (\<forall>w. se_winner s = Some w \<longrightarrow> (\<exists>c \<in> set (se_eligible s). ca_key c = w)) \<and>
    (se_mode s = WeightedRandom \<longrightarrow> sum_list (map ca_weight (se_eligible s)) \<le> u64_max)"
proof (cases "se_eligible s = []")
  case True
  then show ?thesis using assms by (auto simp: validate_selection_def u64_max_def split: if_splits)
next
  case False
  have vm: "sum_list (map ca_weight (se_eligible s)) \<le> u64_max"
    if "validate_mode s ch = Ret (Inr ())" "se_mode s = WeightedRandom" for ch
    using that by (auto simp: validate_mode_def try_sum_Some split: option.splits if_splits)
  have *: "length (se_eligible s) \<le> 100000" "\<not> any_pair (\<lambda>x y. ca_key x \<ge> ca_key y) (se_eligible s)"
    using assms False by (auto simp: validate_selection_def split: if_splits)
  have legal: "\<forall>c \<in> set (se_eligible s). ca_key c \<noteq> [] \<and> length (ca_key c) \<le> 512"
    using assms False by (auto simp: validate_selection_def list_ex_iff split: if_splits)
  have strict: "sorted_wrt (<) (map ca_key (se_eligible s))" using *(2) not_any_pair_strict by blast
  show ?thesis
  proof (cases "se_winner s")
    case None
    then have "validate_mode s None = Ret (Inr ())"
      using assms False by (auto simp: validate_selection_def split: if_splits)
    then show ?thesis using *(1) strict legal None vm by simp
  next
    case (Some w)
    then obtain c where "find (\<lambda>c. ca_key c = w) (se_eligible s) = Some c"
      "validate_mode s (Some c) = Ret (Inr ())"
      using assms False by (auto simp: validate_selection_def split: if_splits option.splits)
    moreover from this(1) have "c \<in> set (se_eligible s)" "ca_key c = w"
      by (auto simp: find_Some_iff)
    ultimately show ?thesis using *(1) strict legal Some vm by auto
  qed
qed

lemma sum_shown:
  fixes f :: "'a \<Rightarrow> nat"
  assumes "distinct (map g cs)" and "distinct shown" and "set shown \<subseteq> set cs"
  shows "sum_list (map f shown) + sum_list (map f (filter (\<lambda>c. g c \<notin> g ` set shown) cs)) = sum_list (map f cs)"
proof -
  have inj: "inj_on g (set cs)" and d: "distinct cs" using assms(1) by (simp_all add: distinct_map)
  have "sum_list (map f shown) = sum f (set shown)"
    and "sum_list (map f (filter (\<lambda>c. g c \<notin> g ` set shown) cs)) = sum f {c \<in> set cs. g c \<notin> g ` set shown}"
    and "sum_list (map f cs) = sum f (set cs)"
    using assms(2) d by (simp_all add: sum_list_distinct_conv_sum_set)
  moreover have "{c \<in> set cs. g c \<notin> g ` set shown} = set cs - set shown"
    using inj_on_image_mem_iff [OF inj _ assms(3)] by auto
  ultimately show ?thesis using assms(3) by (simp add: sum.subset_diff [of "set shown" "set cs"] add.commute)
qed

lemma shown_candidates_spec:
  assumes d: "distinct (map ca_key (se_eligible s))"
    and w: "\<forall>w. se_winner s = Some w \<longrightarrow> (\<exists>c \<in> set (se_eligible s). ca_key c = w)"
  shows "\<exists>shown. shown_candidates s = Inr shown \<and> distinct shown \<and> set shown \<subseteq> set (se_eligible s) \<and>
    length shown = min 256 (length (se_eligible s)) \<and> (\<forall>w. se_winner s = Some w \<longrightarrow> w \<in> ca_key ` set shown)"
proof -
  let ?cs = "se_eligible s"
  have dc: "distinct ?cs" using d by (simp add: distinct_map)
  show ?thesis
  proof (cases "\<exists>w. se_winner s = Some w \<and> \<not> list_ex (\<lambda>c. ca_key c = w) (take 256 ?cs)")
    case False
    then have "shown_candidates s = Inr (take 256 ?cs)"
      by (auto simp: shown_candidates_def Let_def split: option.split)
    then show ?thesis using False dc by (auto simp: list_ex_iff min.commute dest: in_set_takeD)
  next
    case True
    then obtain key where key: "se_winner s = Some key" "\<not> list_ex (\<lambda>c. ca_key c = key) (take 256 ?cs)"
      by blast
    obtain c where c: "find (\<lambda>c. ca_key c = key) ?cs = Some c"
      using w key(1) by (cases "find (\<lambda>c. ca_key c = key) ?cs") (auto simp: find_None_iff)
    then have c': "c \<in> set ?cs" "ca_key c = key" by (auto simp: find_Some_iff)
    have fresh: "c \<notin> set (take 256 ?cs)" using key(2) c'(2) by (auto simp: list_ex_iff)
    have ne: "take 256 ?cs \<noteq> []" using c'(1) by auto
    let ?shown = "butlast (take 256 ?cs) @ [c]"
    have "shown_candidates s = Inr ?shown"
      using key c unfolding shown_candidates_def Let_def by simp
    moreover have "distinct ?shown" using dc fresh by (auto simp: distinct_butlast dest: in_set_butlastD)
    moreover have "set ?shown \<subseteq> set ?cs" using c'(1) by (auto dest: in_set_butlastD in_set_takeD)
    moreover have "length ?shown = min 256 (length ?cs)" using ne c'(1) by (auto simp: min_def)
    moreover have "key \<in> ca_key ` set ?shown" using c'(2) by auto
    ultimately show ?thesis using key(1) by (intro exI [of _ ?shown]) simp
  qed
qed

text \<open>
  The presentation of any stored result is bounded and honest: at most 256 candidates are
  shown, the winner among them, all from the frozen set, and the weights shown plus the remaining
  weight are exactly the weights of everyone; no valid result fails to be presented.
\<close>

theorem reveal_complete:
  assumes "validate_selection (rr_selection r) = Ret (Inr ())"
  shows "let s = rr_selection r; weigh = candidate_weight s in
    \<exists>v. reveal_snapshot r = Ret (Inr v) \<and> length (rs_eligible (rv_selection v)) \<le> 256 \<and>
      set (rs_eligible (rv_selection v)) \<subseteq> set (se_eligible s) \<and> rs_winner (rv_selection v) = se_winner s \<and>
      (\<forall>w. se_winner s = Some w \<longrightarrow> w \<in> ca_key ` set (rs_eligible (rv_selection v))) \<and>
      rv_eligible_count v = length (se_eligible s) \<and>
      sum_list (map weigh (rs_eligible (rv_selection v))) + rv_other_weight v = sum_list (map weigh (se_eligible s))"
proof -
  let ?s = "rr_selection r"
  note v = validate_selection_Inr [OF assms]
  have d: "distinct (map ca_key (se_eligible ?s))"
    using v strict_sorted_iff by blast
  obtain shown where shown: "shown_candidates ?s = Inr shown" "distinct shown"
    "set shown \<subseteq> set (se_eligible ?s)" "length shown = min 256 (length (se_eligible ?s))"
    "\<forall>w. se_winner ?s = Some w \<longrightarrow> w \<in> ca_key ` set shown"
    using shown_candidates_spec [OF d] v by blast
  let ?rest = "filter (\<lambda>c. ca_key c \<notin> ca_key ` set shown) (se_eligible ?s)"
  note sums = sum_shown [OF d shown(2,3), of "candidate_weight ?s"]
  have "sum_list (map (candidate_weight ?s) (se_eligible ?s)) \<le> u64_max"
  proof (cases "se_mode ?s = WeightedRandom")
    case True
    then have "candidate_weight ?s = ca_weight" by (simp add: candidate_weight_def fun_eq_iff)
    then show ?thesis using v True by simp
  next
    case False
    then have "candidate_weight ?s = (\<lambda>_. 1)" by (simp add: candidate_weight_def fun_eq_iff)
    then have "sum_list (map (candidate_weight ?s) (se_eligible ?s)) = length (se_eligible ?s)"
      by (simp add: sum_list_triv)
    then show ?thesis using v by (simp add: u64_max_def)
  qed
  then have "sum_list (map (candidate_weight ?s) ?rest) \<le> u64_max" using sums by linarith
  then have "try_sum 0 (map (candidate_weight ?s) ?rest) = Some (sum_list (map (candidate_weight ?s) ?rest))"
    by (simp add: try_sum_Some)
  then show ?thesis using assms shown sums by (simp add: reveal_snapshot_def Let_def)
qed

theorem reveal_complete_witness:
  "\<exists>v. reveal_snapshot \<lparr>rr_schema_version = 1, rr_competition_id = ''c'', rr_generation = 1,
      rr_ranking_id = ''r'', rr_ranking_revision = 0, rr_finalized_at = 5,
      rr_selection = \<lparr>se_mode = HighestScore, se_tie_policy = Manual, se_eligible = rev example_candidates,
        se_winner = Some ''a''\<rparr>\<rparr> = Ret (Inr v) \<and> rs_winner (rv_selection v) = Some ''a'' \<and>
    rv_other_weight v = 0"
proof -
  let ?s = "\<lparr>se_mode = HighestScore, se_tie_policy = Manual, se_eligible = rev example_candidates,
        se_winner = Some ''a''\<rparr>"
  let ?r = "\<lparr>rr_schema_version = 1, rr_competition_id = ''c'', rr_generation = 1,
      rr_ranking_id = ''r'', rr_ranking_revision = 0, rr_finalized_at = 5, rr_selection = ?s\<rparr>"
  have "validate_selection (rr_selection ?r) = Ret (Inr ())"
    by (simp add: validate_selection_def validate_mode_def example_candidates_def highest_def)
  from reveal_complete [OF this] show ?thesis
    by (auto simp: reveal_snapshot_def Let_def validate_selection_def validate_mode_def
        example_candidates_def highest_def shown_candidates_def)
qed

lemma sort_key_facts:
  "mset (sort_key f xs) = mset xs" "set (sort_key f xs) = set xs"
  "distinct (map f (sort_key f xs)) \<longleftrightarrow> distinct (map f xs)"
  by (simp_all, metis mset_eq_imp_distinct_iff mset_map mset_sort)

text \<open>
  A tie left to the host is resolved only among the tied leaders: a manual selection is
  accepted exactly when at least two candidates share the highest weight, the chosen one is among
  them, and keys are distinct and of legal length; it records the choice, and it never aborts.
\<close>

theorem manual_choice_is_tied_leader:
  "let frozen = sort_key ca_key eligible; leaders = filter (\<lambda>c. ca_weight c = highest frozen) frozen;
     ok = (length eligible \<le> 100000 \<and> 2 \<le> length leaders \<and> winner \<in> ca_key ` set leaders \<and>
       distinct (map ca_key eligible) \<and> list_all (\<lambda>c. ca_key c \<noteq> [] \<and> length (ca_key c) \<le> 512) eligible)
   in (if ok then select_manual eligible winner = Ret (Inr \<lparr>se_mode = HighestScore, se_tie_policy = Manual,
         se_eligible = frozen, se_winner = Some winner\<rparr>)
       else \<exists>e. select_manual eligible winner = Ret (Inl e))"
proof -
  let ?f = "sort_key ca_key eligible"
  let ?l = "filter (\<lambda>c. ca_weight c = highest ?f) ?f"
  let ?s = "\<lparr>se_mode = HighestScore, se_tie_policy = Manual, se_eligible = ?f, se_winner = Some winner\<rparr>"
  have leader: "list_ex (\<lambda>c. ca_key c = winner \<and> ca_weight c = highest ?f) ?f \<longleftrightarrow> winner \<in> ca_key ` set ?l"
    by (auto simp: list_ex_iff)
  show ?thesis
  proof (cases "length eligible \<le> 100000 \<and> 2 \<le> length ?l \<and> winner \<in> ca_key ` set ?l \<and>
       distinct (map ca_key eligible) \<and> list_all (\<lambda>c. ca_key c \<noteq> [] \<and> length (ca_key c) \<le> 512) eligible")
    case True
    then obtain c where c: "c \<in> set ?l" "winner = ca_key c" by blast
    then have ce: "c \<in> set eligible" by simp
    have "sorted_wrt (<) (map ca_key ?f)"
      using True sort_key_facts(3) [of ca_key eligible] by (simp add: strict_sorted_iff)
    moreover have "?f \<noteq> []" using ce sort_key_facts(2) [of ca_key eligible] by (metis empty_iff empty_set)
    ultimately have "validate_selection ?s = Ret (Inr ())"
      using True c by (intro validate_frozen) (auto simp: list_all_iff)
    moreover have "eligible \<noteq> []" "winner \<noteq> []" using ce c(2) True by (auto simp: list_all_iff)
    ultimately show ?thesis using True leader by (simp add: select_manual_def Let_def)
  next
    case False
    have "\<exists>e. select_manual eligible winner = Ret (Inl e)"
    proof (rule ccontr)
      assume neg: "\<not> ?thesis"
      have nf: "eligible \<noteq> []" "length eligible \<le> 100000" "\<not> length ?l < 2" "winner \<in> ca_key ` set ?l"
        using neg leader by (auto simp: select_manual_def Let_def split: if_splits)
      have "\<exists>res. validate_selection ?s = Ret res"
      proof -
        have "?l \<noteq> []" using nf(3) by auto
        then obtain x xs where "?l = x # xs" by (cases ?l) auto
        then show ?thesis
          by (auto simp: validate_selection_def validate_mode_def Let_def split: option.split)
      qed
      then have v: "validate_selection ?s = Ret (Inr ())"
        using neg nf leader
        by (auto simp: select_manual_def Let_def split: if_splits sum.splits)
      note f = validate_selection_Inr [OF v]
      then have "distinct (map ca_key eligible)"
        using strict_sorted_iff [of "map ca_key ?f"] sort_key_facts(3) [of ca_key eligible] by simp
      then show False using False nf f by (auto simp: list_all_iff)
    qed
    then show ?thesis using False unfolding Let_def by (simp only: if_False)
  qed
qed

section \<open>The lifecycle\<close>

definition generation_inv :: "lifecycle_state \<Rightarrow> bool" where
  "generation_inv s \<longleftrightarrow> ls_generation s \<le> 1 \<and> (ls_lifecycle s = Draft \<longrightarrow> ls_generation s = 0)"

interpretation lg: invariant_machine lifecycle_step generation_inv
proof
  fix s :: lifecycle_state and e :: "transition \<times> u64 \<times> u64 option" assume inv: "generation_inv s"
  obtain t now duration where e: "e = (t, now, duration)" by (metis prod_cases3)
  show "generation_inv (lifecycle_step e s)"
    using inv by (auto simp: e lifecycle_step_def transition_def generation_inv_def checked_add_def
        split: option.split sum.split)
qed

text \<open>
  From the draft state, no sequence of lifecycle requests at any host times aborts, breaks the
  clock invariant (a deadline only while active, remaining time only while paused) or opens a
  second generation; every further request is answered, and a refused one changes nothing.
\<close>

theorem lifecycle_safe:
  "let s = fold lifecycle_step es lifecycle_default in
   lifecycle_inv s \<and> ls_generation s \<le> 1 \<and>
   (\<exists>s' res. transition t now duration s = Ret (s', res) \<and> (is_ok res \<or> s' = s))"
proof -
  let ?s = "fold lifecycle_step es lifecycle_default"
  have "lifecycle_inv ?s" using lc.run_inv lifecycle_inv_default by blast
  moreover have "generation_inv ?s"
    by (rule lg.run_inv) (simp add: generation_inv_def lifecycle_default_def)
  moreover obtain s' res where "transition t now duration ?s = Ret (s', res)" "\<forall>e. res = Inl e \<longrightarrow> s' = ?s"
    using transition_total by blast
  ultimately show ?thesis by (cases res) (auto simp: generation_inv_def is_ok_def)
qed



text \<open>
  A pause keeps the time that was left: after pausing before the deadline and resuming, the
  competition is due exactly when the remaining time has passed since the resumption.
\<close>

theorem pause_keeps_clock:
  assumes "ls_lifecycle s = Active" and "ls_deadline_ms s = Some d" and "t1 < d"
    and "t2 + (d - t1) \<le> u64_max"
  shows "\<exists>p r. transition Pause t1 any s = Ret (p, Inr ()) \<and> transition Resume t2 any' p = Ret (r, Inr ()) \<and>
    ls_lifecycle r = Active \<and> ls_generation r = ls_generation s \<and> ls_remaining_ms r = None \<and>
    \<not> is_due now p \<and> (is_due now r = (t2 + (d - t1) \<le> now))"
  using assms by (simp add: transition_def is_due_def later_def checked_add_def)

theorem pause_keeps_clock_witness:
  "\<exists>p r. transition Pause 30 None \<lparr>ls_lifecycle = Active, ls_generation = 1, ls_deadline_ms = Some 100,
      ls_remaining_ms = None\<rparr> = Ret (p, Inr ()) \<and> transition Resume 500 None p = Ret (r, Inr ()) \<and>
    \<not> is_due 569 r"
  using pause_keeps_clock [of "\<lparr>ls_lifecycle = Active, ls_generation = 1, ls_deadline_ms = Some 100,
      ls_remaining_ms = None\<rparr>" 100 30 500 None None 569]
  by (auto simp: u64_max_def)

section \<open>Voting\<close>

lemma competition_step_frame:
  "co_options (competition_step op c) = co_options c \<and> co_capacity (competition_step op c) = co_capacity c \<and>
   co_vote_limit (competition_step op c) = co_vote_limit c"
proof (cases op)
  case (Co_Vote now user opt)
  obtain c' res where run: "competition_vote now user opt c = (c', res)" by force
  show ?thesis
  proof (cases res)
    case (Inl e)
    then show ?thesis using competition_vote_Inl run Co_Vote by (fastforce simp: competition_step_def)
  next
    case (Inr u)
    then have "competition_vote now user opt c = (c', Inr ())" using run by simp
    note competition_vote_Inr [OF this]
    then show ?thesis using run Co_Vote by (simp add: competition_step_def)
  qed
qed (auto simp: competition_step_def lifecycle_ops split: sum.split)

lemma competition_run_frame:
  "co_options (fold competition_step ops c) = co_options c \<and>
   co_capacity (fold competition_step ops c) = co_capacity c \<and>
   co_vote_limit (fold competition_step ops c) = co_vote_limit c"
  by (induction ops arbitrary: c) (simp_all add: competition_step_frame)

lemma competition_new_fields:
  assumes "competition_new options capacity limit allow = Inr c"
  shows "co_capacity c = capacity \<and> co_vote_limit c = limit"
  using assms by (auto simp: competition_new_def split: sum.splits if_splits)

text \<open>
  C18. Whatever is voted, paused, resumed or finalized in whatever order, the participants never
  exceed the capacity, and each holds at least one and at most the allowed number of votes, all on
  an option of the competition.
\<close>

theorem votes_bounded:
  assumes "competition_new options capacity limit allow = Inr c" and "limit \<le> u64_max"
  shows "let p = co_participants (fold competition_step ops c) in
    length p \<le> capacity \<and> distinct (map fst p) \<and>
    list_all (\<lambda>(user, v). user \<noteq> [] \<and> pt_option v \<in> set options \<and> 0 < pt_votes v \<and> pt_votes v \<le> limit) p"
proof -
  let ?c = "fold competition_step ops c"
  from competition_inv_new [OF assms] have c: "competition_inv c" "set (co_options c) = set options" by auto
  have "competition_inv ?c" using co.run_inv c(1) by blast
  then show ?thesis
    using competition_run_frame [of ops c] competition_new_fields [OF assms(1)] c(2)
    by (auto simp: competition_inv_def participant_ok_def list_all_iff hm_wf_def Let_def)
qed

theorem votes_bounded_witness:
  "\<exists>c. competition_new [''a'', ''b''] 1 2 True = Inr c \<and>
    (let p = co_participants (fold competition_step
        [Co_Start 0 None, Co_Vote 1 ''u'' ''a'', Co_Vote 2 ''u'' ''a'', Co_Vote 3 ''u'' ''a'',
         Co_Vote 4 ''w'' ''a''] c) in
     length p \<le> 1 \<and> distinct (map fst p) \<and>
     list_all (\<lambda>(user, v). user \<noteq> [] \<and> pt_option v \<in> set [''a'', ''b''] \<and> 0 < pt_votes v \<and> pt_votes v \<le> 2) p)"
proof -
  obtain c where "competition_new [''a'', ''b''] 1 2 True = Inr c"
    by (simp add: competition_new_def bs_insert_def insort_insert_key_def)
  moreover have "2 \<le> u64_max" by (simp add: u64_max_def)
  ultimately show ?thesis using votes_bounded by blast
qed

text \<open>
  C19. An accepted vote moves exactly one participant: to the chosen option, with one more vote up
  to the limit. It is accepted only while the competition runs, before its deadline, for a known
  option, within capacity, and for another option only if switching is allowed. A refused vote
  changes nothing.
\<close>

theorem vote_exact:
  assumes "competition_vote now user opt c = (c', res)"
  shows "if is_ok res
    then co_lifecycle c = Active \<and> \<not> competition_is_due now c \<and> opt \<in> set (co_options c) \<and>
      (case hm_get (co_participants c) user of
         None \<Rightarrow> length (co_participants c) < co_capacity c
       | Some p \<Rightarrow> (pt_option p = opt \<or> co_allow_switch c) \<and>
           (pt_votes p < co_vote_limit c \<or> pt_option p \<noteq> opt)) \<and>
      hm_get (co_participants c') = (hm_get (co_participants c))
        (user := Some (voted opt c (hm_get (co_participants c) user)))
    else c' = c"
proof (cases res)
  case (Inl e)
  then show ?thesis using assms competition_vote_Inl by (simp add: is_ok_def)
next
  case (Inr u)
  then have "competition_vote now user opt c = (c', Inr ())" using assms by simp
  note v = competition_vote_Inr [OF this]
  then have "hm_get (co_participants c') = (hm_get (co_participants c))
        (user := Some (voted opt c (hm_get (co_participants c) user)))"
    by (simp add: fun_eq_iff hm_get_insert)
  then show ?thesis using v Inr by (auto simp: is_ok_def split: option.split)
qed

theorem vote_exact_witness:
  "competition_vote 1 ''u'' ''a'' \<lparr>co_lifecycle = Active, co_options = [''a''], co_participants = [],
     co_capacity = 1, co_vote_limit = 1, co_allow_switch = False, co_remaining_ms = None,
     co_deadline_ms = None\<rparr> =
   (\<lparr>co_lifecycle = Active, co_options = [''a''],
     co_participants = [(''u'', \<lparr>pt_option = ''a'', pt_votes = 1\<rparr>)],
     co_capacity = 1, co_vote_limit = 1, co_allow_switch = False, co_remaining_ms = None,
     co_deadline_ms = None\<rparr>, Inr ())"
proof -
  let ?c = "\<lparr>co_lifecycle = Active, co_options = [''a''], co_participants = [], co_capacity = 1,
     co_vote_limit = 1, co_allow_switch = False, co_remaining_ms = None, co_deadline_ms = None\<rparr>"
  obtain c' res where run: "competition_vote 1 ''u'' ''a'' ?c = (c', res)" by force
  from vote_exact [OF run] run show ?thesis
    by (simp add: competition_vote_def competition_is_due_def is_ok_def voted_def Let_def)
qed

section \<open>Commands\<close>

lemma distinct_concat_owner:
  assumes "distinct (map f (concat (map g xs)))" and "x \<in> set xs" "y \<in> set xs"
    and "a \<in> set (g x)" "b \<in> set (g y)" "f a = f b"
  shows "x = y"
  using assms
proof (induction xs)
  case (Cons z zs)
  have sep: "f ` set (g z) \<inter> f ` (\<Union>w\<in>set zs. set (g w)) = {}" using Cons.prems(1) by auto
  consider "x = z" "y = z" | "x = z" "y \<in> set zs" | "x \<in> set zs" "y = z" | "x \<in> set zs" "y \<in> set zs"
    using Cons.prems by auto
  then show ?case
  proof cases
    case 2
    then have "f a \<in> f ` set (g z) \<inter> f ` (\<Union>w\<in>set zs. set (g w))" using Cons.prems by auto
    then show ?thesis using sep by simp
  next
    case 3
    then have "f b \<in> f ` set (g z) \<inter> f ` (\<Union>w\<in>set zs. set (g w))" using Cons.prems by auto
    then show ?thesis using sep by simp
  next
    case 4
    then show ?thesis using Cons by simp
  qed simp
qed simp

text \<open>
  In a validated definition a chat command means at most one option: the lookup returns an
  option exactly when one of its commands equals the comment up to case and surrounding space,
  and no second option has such a command.
\<close>

theorem command_unambiguous:
  assumes "validate lower d = Inr ()"
  shows "option_for_command lower d comment = Some oid \<longleftrightarrow>
    length comment \<le> 128 \<and>
    (\<exists>opt. opt \<in> set (cd_options d) \<and> od_id opt = oid \<and>
       lower (trim comment) \<in> lower ` set (od_commands opt) \<and>
       (\<nexists>opt'. opt' \<in> set (cd_options d) \<and> opt' \<noteq> opt \<and>
          lower (trim comment) \<in> lower ` set (od_commands opt')))"
proof -
  let ?hit = "\<lambda>opt. list_ex (\<lambda>candidate. lower candidate = lower (trim comment)) (od_commands opt)"
  have hit: "?hit opt \<longleftrightarrow> lower (trim comment) \<in> lower ` set (od_commands opt)" for opt
    unfolding list_ex_iff image_iff by metis
  have uniq: "x = y" if "x \<in> set (cd_options d)" "y \<in> set (cd_options d)" "?hit x" "?hit y" for x y
  proof -
    obtain a b where "a \<in> set (od_commands x)" "b \<in> set (od_commands y)" "lower a = lower b"
      using \<open>?hit x\<close> \<open>?hit y\<close> by (auto simp: list_ex_iff)
    then show ?thesis
      using distinct_concat_owner [of lower od_commands "cd_options d" x y a b] that(1,2)
        validate_Inr(3) [OF assms] by (simp add: all_commands_def)
  qed
  show ?thesis
  proof (cases "find ?hit (cd_options d)")
    case None
    then have "option_for_command lower d comment = None"
      by (simp add: option_for_command_def Let_def)
    moreover have "opt \<in> set (cd_options d) \<Longrightarrow> lower (trim comment) \<notin> lower ` set (od_commands opt)" for opt
      using None hit by (auto simp: find_None_iff simp del: list_ex_iff)
    ultimately show ?thesis by (metis option.distinct(1))
  next
    case (Some opt)
    then have "opt \<in> set (cd_options d)" "?hit opt" by (auto simp: find_Some_iff)
    note opt = this
    have "option_for_command lower d comment = (if length comment > 128 then None else Some (od_id opt))"
      using Some by (simp add: option_for_command_def Let_def)
    moreover have "\<nexists>opt'. opt' \<in> set (cd_options d) \<and> opt' \<noteq> opt \<and>
        lower (trim comment) \<in> lower ` set (od_commands opt')"
      using uniq [OF _ opt(1) _ opt(2)] hit by metis
    moreover have "oid = od_id opt" if "opt2 \<in> set (cd_options d)" "od_id opt2 = oid"
      "lower (trim comment) \<in> lower ` set (od_commands opt2)" for opt2
      using uniq [OF that(1) opt(1) _ opt(2)] that hit by metis
    moreover have "lower (trim comment) \<in> lower ` set (od_commands opt)" using opt(2) hit by metis
    ultimately show ?thesis using opt(1) by (metis not_less option.inject option.distinct(1))
  qed
qed

definition example_option :: "string \<Rightarrow> string \<Rightarrow> option_definition" where
  "example_option oid command =
     \<lparr>od_id = oid, od_label = oid, od_commands = [command], od_gift_ids = [], od_image_url = None,
      od_on_win = None\<rparr>"

definition example_poll :: competition_definition where
  "example_poll =
     \<lparr>cd_schema_version = 1, cd_id = ''poll'', cd_name = ''Poll'', cd_kind = Poll, cd_ranking_id = ''top'',
      cd_options = [example_option ''a'' ''!a'', example_option ''b'' ''!b''],
      cd_selection_mode = HighestScore, cd_tie_policy = Manual, cd_duration_ms = None, cd_vote_limit = 1,
      cd_allow_switch = False, cd_minimum_participants = 0, cd_target_score = None, cd_on_user_win = None\<rparr>"

lemma validate_example_poll: "validate id example_poll = Inr ()"
proof -
  have t: "trim ''a'' = ''a'' \<and> trim ''b'' = ''b'' \<and> trim ''!a'' = ''!a'' \<and> trim ''!b'' = ''!b'' \<and> trim ''Poll'' = ''Poll''"
    by (simp add: trim_printable)
  then show ?thesis
    by (simp add: validate_def header_invalid_def example_poll_def example_option_def starts_with_def)
qed

theorem command_unambiguous_witness:
  "option_for_command id example_poll ''!b'' = Some ''b''"
proof (rule iffD2 [OF command_unambiguous [OF validate_example_poll]],
    intro conjI exI [of _ "example_option ''b'' ''!b''"])
  have t: "trim ''!b'' = ''!b''" by (simp add: trim_printable)
  show "id (trim ''!b'') \<in> id ` set (od_commands (example_option ''b'' ''!b''))"
    unfolding t by (simp add: example_option_def)
  show "\<nexists>opt'. opt' \<in> set (cd_options example_poll) \<and> opt' \<noteq> example_option ''b'' ''!b'' \<and>
      id (trim ''!b'') \<in> id ` set (od_commands opt')"
    unfolding t by (auto simp: example_poll_def example_option_def)
qed (simp_all add: example_poll_def example_option_def)

end
