(* ===== verification/Index_Guarantees.thy ===== *)
theory Index_Guarantees
  imports Command_Index Competition_Guarantees
begin

text \<open>
  The properties of the command index: it refines a table of registered definitions, and its
  lookups answer what a scan over that table would.
\<close>

text \<open>
  C20. Registering a definition refines one update of an abstract table. It is accepted exactly
  within the limits of the index; an accepted one replaces the whole previous registration of that
  competition and nothing else, a refused one leaves the index as it was, and none aborts.
\<close>

theorem register_refines_table:
  assumes "index_inv lower i t"
  shows "\<exists>i' res. index_register lower d creator room i = Ret (i', res) \<and>
    (is_ok res = accepts lower d creator room i) \<and>
    index_inv lower i' (if is_ok res then t(cd_id d := Some (d, creator, room)) else t) \<and>
    (is_ok res \<or> i' = i)"
  using index_register_spec [OF assms, of d creator room] by blast

lemma accepts_example: "accepts id example_poll ''c'' ''r'' index_default"
proof -
  have "definition_commands id example_poll = [(''!a'', ''a''), (''!b'', ''b'')]"
    by (simp add: definition_commands_def example_poll_def example_option_def)
  then show ?thesis
    by (simp add: accepts_def validate_example_poll scope_invalid_def index_default_def hm_get_or_def)
qed

lemma example_index:
  obtains i' where "index_register id example_poll ''c'' ''r'' index_default = Ret (i', Inr ())"
    "index_inv id i' ((\<lambda>_. None)(''poll'' := Some (example_poll, ''c'', ''r'')))"
proof -
  have "cd_id example_poll = ''poll''" by (simp add: example_poll_def)
  then show ?thesis
    using index_register_spec [OF index_inv_default, of id example_poll "''c''" "''r''"] accepts_example that
    by (auto simp: is_ok_iff)
qed

theorem register_refines_table_witness:
  "\<exists>i'. index_register id example_poll ''c'' ''r'' index_default = Ret (i', Inr ()) \<and>
    index_inv id i' ((\<lambda>_. None)(''poll'' := Some (example_poll, ''c'', ''r'')))"
proof -
  obtain i' res where "index_register id example_poll ''c'' ''r'' index_default = Ret (i', res)"
    "is_ok res" "index_inv id i' ((\<lambda>_. None)(cd_id example_poll := Some (example_poll, ''c'', ''r'')))"
    using register_refines_table [OF index_inv_default, of id example_poll "''c''" "''r''"] accepts_example
    by auto
  moreover have "cd_id example_poll = ''poll''" by (simp add: example_poll_def)
  moreover have "res = Inr ()" using \<open>is_ok res\<close> by (cases res) simp_all
  ultimately show ?thesis by auto
qed

text \<open>
  C21. Looking up a comment answers exactly what a scan over all registered definitions would: one
  route, in the order of the ids, for every competition of that creator and room one of whose
  options has the command.
\<close>

theorem matching_is_scan:
  assumes "index_inv lower i t"
  shows "set (index_matching lower creator room comment i) =
      {\<lparr>cr_competition_id = cid, cr_option_id = opt\<rparr> | cid opt.
         \<exists>d. t cid = Some (d, creator, room) \<and> option_for_command lower d comment = Some opt} \<and>
    sorted_wrt (<) (map cr_competition_id (index_matching lower creator room comment i))"
  using index_matching_spec [OF assms] by blast

theorem matching_is_scan_witness:
  "\<exists>i'. index_register id example_poll ''c'' ''r'' index_default = Ret (i', Inr ()) \<and>
    set (index_matching id ''c'' ''r'' ''!b'' i') = {\<lparr>cr_competition_id = ''poll'', cr_option_id = ''b''\<rparr>}"
proof -
  obtain i' where i': "index_register id example_poll ''c'' ''r'' index_default = Ret (i', Inr ())"
    "index_inv id i' ((\<lambda>_. None)(''poll'' := Some (example_poll, ''c'', ''r'')))"
    by (rule example_index)
  have "option_for_command id example_poll ''!b'' = Some ''b''"
    by (simp add: option_for_command_def example_poll_def example_option_def trim_printable)
  then have "{\<lparr>cr_competition_id = cid, cr_option_id = opt\<rparr> | cid opt.
         \<exists>d. ((\<lambda>_. None)(''poll'' := Some (example_poll, ''c'', ''r''))) cid = Some (d, ''c'', ''r'') \<and>
           option_for_command id d ''!b'' = Some opt} =
      {\<lparr>cr_competition_id = ''poll'', cr_option_id = ''b''\<rparr>}"
    by auto
  then show ?thesis using matching_is_scan [OF i'(2), of "''c''" "''r''" "''!b''"] i'(1) by metis
qed

text \<open>
  No sequence of registrations, removals and source registrations aborts: the running route
  count never underflows, at most 128 competitions with 2,048 routes each and 32,768 routes in all
  are held, and the index stays consistent.
\<close>

theorem index_never_aborts:
  "\<exists>i. index_run lower ops index_default = Ret i \<and> length (ci_registrations i) \<le> 128 \<and>
    ci_route_count i \<le> 32768 \<and> ci_route_count i = sum_list (map (length \<circ> snd) (ci_registrations i)) \<and>
    list_all (\<lambda>(_, keys). length keys \<le> 2048) (ci_registrations i) \<and> sources_ok i"
proof -
  obtain i where i: "index_run lower ops index_default = Ret i" "index_ok lower i"
    using index_run_ok [OF index_ok_default] by blast
  then obtain t where "index_limits i" "routes_ok lower i t" "sources_ok i"
    by (auto simp: index_ok_def index_inv_def)
  then show ?thesis using i(1) routes_okD(7) [of lower i t] by (simp add: index_limits_def)
qed

text \<open>
  Source routes are replaced as a whole: after an accepted registration the competition is
  found under exactly the given sources of its scope, every other competition under the sources it
  had, and a refused registration changes nothing.
\<close>

theorem sources_replaced:
  assumes "index_inv lower i t" and "index_register_sources cid creator room sources i = (i', res)"
  shows "index_inv lower i' t \<and>
    (if is_ok res
     then t cid \<noteq> None \<and> (k \<in> set (index_matching_source c r s i')) =
       (if k = cid then c = creator \<and> r = room \<and> s \<in> set sources
        else k \<in> set (index_matching_source c r s i))
     else i' = i)"
  using index_register_sources_spec [OF assms] by simp

theorem sources_replaced_witness:
  "\<exists>i i' res. index_register_sources ''poll'' ''c'' ''r'' [''tiktok.like''] i = (i', res) \<and> is_ok res \<and>
    ''poll'' \<in> set (index_matching_source ''c'' ''r'' ''tiktok.like'' i') \<and>
    ''poll'' \<notin> set (index_matching_source ''c'' ''r'' ''tiktok.gift'' i')"
proof -
  obtain i where i: "index_register id example_poll ''c'' ''r'' index_default = Ret (i, Inr ())"
    "index_inv id i ((\<lambda>_. None)(''poll'' := Some (example_poll, ''c'', ''r'')))"
    by (rule example_index)
  obtain i' res where run: "index_register_sources ''poll'' ''c'' ''r'' [''tiktok.like''] i = (i', res)"
    by force
  have "is_ok res"
    using index_register_sources_spec(2) [OF i(2) run] by (simp add: scope_invalid_def known_source_def)
  then show ?thesis
    using sources_replaced [OF i(2) run, of "''poll''" "''c''" "''r''"] run
    by (intro exI [of _ i] exI [of _ i'] exI [of _ res]) simp
qed

end
