(* ===== verification/Decimal.thy ===== *)
theory Decimal
  imports Prelude
begin

text \<open>
  Decimal text. The database keeps 64-bit scores, quantities and prices as text columns, written
  with \<open>u64::to_string\<close> and read with \<open>str::parse\<close>. The interface the store relies on is an
  encoding that reads back what was written.
\<close>

section \<open>Encodings\<close>

locale text_encoding =
  fixes encode :: "'a \<Rightarrow> string"
    and decode :: "string \<Rightarrow> 'a option"
    and valid :: "'a \<Rightarrow> bool"
  assumes decode_encode: "valid x \<Longrightarrow> decode (encode x) = Some x"
begin

lemma encode_eq: "valid x \<Longrightarrow> valid y \<Longrightarrow> encode x = encode y \<longleftrightarrow> x = y"
  by (metis decode_encode option.inject)

lemma decode_all:
  "list_all valid xs \<Longrightarrow> those (map (decode \<circ> encode) xs) = Some xs"
  by (induction xs) (simp_all add: decode_encode)

end

section \<open>Unsigned numbers\<close>

definition digit_char :: "nat \<Rightarrow> char" where
  "digit_char d = char_of (48 + d)"

definition digit_value :: "char \<Rightarrow> nat option" where
  "digit_value c = (let n = of_char c in if 48 \<le> n \<and> n \<le> 57 then Some (n - 48) else None)"

fun to_string :: "u64 \<Rightarrow> string" where
  "to_string n = (if n < 10 then [digit_char n] else to_string (n div 10) @ [digit_char (n mod 10)])"

declare to_string.simps [simp del]

fun parse_digits :: "u64 \<Rightarrow> string \<Rightarrow> u64 option" where
  "parse_digits acc [] = Some acc"
| "parse_digits acc (c # cs) =
     (case digit_value c of
        None \<Rightarrow> None
      | Some d \<Rightarrow>
        (case checked_mul acc 10 of
           None \<Rightarrow> None
         | Some tens \<Rightarrow> (case checked_add tens d of None \<Rightarrow> None | Some acc' \<Rightarrow> parse_digits acc' cs)))"

definition parse_u64 :: "string \<Rightarrow> u64 option" where
  "parse_u64 s =
     (case s of
        [] \<Rightarrow> None
      | c # cs \<Rightarrow>
        if c = CHR ''+'' then (if cs = [] then None else parse_digits 0 cs) else parse_digits 0 s)"

lemma digit_value_char: "d < 10 \<Longrightarrow> digit_value (digit_char d) = Some d"
  by (simp add: digit_value_def digit_char_def)

lemma parse_digits_append:
  "parse_digits acc (xs @ ys) = (case parse_digits acc xs of None \<Rightarrow> None | Some acc' \<Rightarrow> parse_digits acc' ys)"
  by (induction acc xs rule: parse_digits.induct) (auto split: option.split)

lemma parse_to_string: "n \<le> u64_max \<Longrightarrow> parse_digits 0 (to_string n) = Some n"
proof (induction n rule: to_string.induct)
  case (1 n)
  show ?case
  proof (cases "n < 10")
    case True
    then show ?thesis
      by (subst to_string.simps) (simp add: digit_value_char checked_mul_def checked_add_def u64_max_def)
  next
    case False
    have "n div 10 * 10 \<le> n" by simp
    then have "n div 10 \<le> u64_max" "n div 10 * 10 \<le> u64_max" using 1 by linarith+
    then have "parse_digits 0 (to_string (n div 10)) = Some (n div 10)" using 1 False by simp
    then show ?thesis
      using False 1(2) \<open>n div 10 * 10 \<le> u64_max\<close>
      by (subst to_string.simps)
        (simp add: parse_digits_append digit_value_char checked_mul_def checked_add_def)
  qed
qed

lemma to_string_head: "\<exists>d < 10. \<exists>cs. to_string n = digit_char d # cs"
proof (induction n rule: to_string.induct)
  case (1 n)
  then show ?case by (subst to_string.simps) (cases "n < 10"; fastforce)
qed

lemma digit_not_plus: "d < 10 \<Longrightarrow> digit_char d \<noteq> CHR ''+''"
  using digit_value_char [of d] by (auto simp: digit_value_def)

interpretation u64_text: text_encoding to_string parse_u64 "\<lambda>n. n \<le> u64_max"
proof
  fix n :: nat assume n: "n \<le> u64_max"
  obtain d cs where "d < 10" "to_string n = digit_char d # cs" using to_string_head by blast
  then show "parse_u64 (to_string n) = Some n"
    using parse_to_string [OF n] digit_not_plus by (simp add: parse_u64_def)
qed

end
