(* ===== verification/Store_Model.thy ===== *)
theory Store_Model
  imports Decimal Lifecycle Selection_Facts
begin

text \<open>
  The competition tables of \<open>crates/tiktools-core/src/db/sqlite\<close> (\<open>schema.rs\<close>) and the access to
  them. A table is the map from its primary key to its row. Columns that hold JSON carry the value
  \<open>serde_json\<close> reads from them, or nothing when the text does not decode; decimal text columns are
  strings. \<open>INTEGER\<close> columns are 64-bit signed integers.

  A method runs in one SQLite transaction: an error or a return without \<open>commit\<close> rolls back. Errors
  of the database file itself are not modelled; they roll back as well.
\<close>

section \<open>Errors and transactions\<close>

datatype db_error = Db_Invalid string | Db_Json | Db_Sql

definition bind_result :: "'e + 'a \<Rightarrow> ('a \<Rightarrow> 'e + 'b) \<Rightarrow> 'e + 'b" where
  "bind_result r f = (case r of Inl err \<Rightarrow> Inl err | Inr x \<Rightarrow> f x)"

lemma bind_result_simps [simp]:
  "bind_result (Inl err) f = Inl err"
  "bind_result (Inr x) f = f x"
  by (simp_all add: bind_result_def)

lemma bind_result_Inr: "bind_result r f = Inr y \<longleftrightarrow> (\<exists>x. r = Inr x \<and> f x = Inr y)"
  by (cases r) simp_all

text \<open>The body of a transaction yields its result and, when it commits, the new tables.\<close>

type_synonym ('s, 'a) body = "db_error + ('a \<times> 's option)"

definition transact :: "'s \<Rightarrow> ('s, 'a) body \<Rightarrow> 's \<times> (db_error + 'a)" where
  "transact s b =
     (case b of
        Inl err \<Rightarrow> (s, Inl err)
      | Inr (x, None) \<Rightarrow> (s, Inr x)
      | Inr (x, Some s') \<Rightarrow> (s', Inr x))"

lemma transact_simps [simp]:
  "transact s (Inl err) = (s, Inl err)"
  "transact s (Inr (x, None)) = (s, Inr x)"
  "transact s (Inr (x, Some s')) = (s', Inr x)"
  by (simp_all add: transact_def)

lemma transact_cases:
  "transact s b = (s', res) \<longleftrightarrow>
     (\<exists>err. b = Inl err \<and> s' = s \<and> res = Inl err) \<or>
     (\<exists>x. b = Inr (x, None) \<and> s' = s \<and> res = Inr x) \<or> (\<exists>x. b = Inr (x, Some s') \<and> res = Inr x)"
  by (auto simp: transact_def split: sum.splits prod.splits option.splits)

section \<open>Integers\<close>

text \<open>\<open>i64::try_from\<close>, and the casts \<open>as i64\<close> and \<open>as u64\<close>, which wrap.\<close>

definition try_i64 :: "string \<Rightarrow> u64 \<Rightarrow> db_error + int" where
  "try_i64 msg n = (if n \<le> i64_max then Inr (int n) else Inl (Db_Invalid msg))"

definition as_i64 :: "u64 \<Rightarrow> int" where
  "as_i64 n = (if n \<le> i64_max then int n else int n - 2 ^ 64)"

definition as_u64 :: "int \<Rightarrow> u64" where
  "as_u64 i = nat (i mod 2 ^ 64)"

lemma try_i64_Inr: "try_i64 msg n = Inr i \<longleftrightarrow> i = int n \<and> n \<le> i64_max"
  by (auto simp: try_i64_def)

lemma as_i64_small [simp]: "n \<le> i64_max \<Longrightarrow> as_i64 n = int n"
  by (simp add: as_i64_def)

lemma as_u64_small [simp]: "0 \<le> i \<Longrightarrow> i \<le> int i64_max \<Longrightarrow> as_u64 i = nat i"
  by (simp add: as_u64_def i64_max_def)

lemma as_u64_nat [simp]: "n \<le> i64_max \<Longrightarrow> as_u64 (int n) = n"
  by (simp add: as_u64_def i64_max_def nat_mod_as_int [symmetric])

section \<open>Tables\<close>

type_synonym generation_key = "string \<times> int"
type_synonym member_key = "string \<times> int \<times> string"
type_synonym scored_key = "string \<times> int \<times> string \<times> string"
type_synonym combo_key = "string \<times> int \<times> string \<times> string \<times> string"

record scope_row =
  sc_creator_id :: string
  sc_room_id :: string

record definition_row =
  dr_ranking_id :: string
  dr_schema_version :: nat
  dr_definition :: "competition_definition option"

datatype integrity_status = Integrity_Open | Integrity_Clean | Integrity_Degraded

record count_row =
  ct_participants :: int
  ct_contributions :: int

record participant_row =
  pr_option_id :: string
  pr_votes :: int
  pr_updated_at :: int

record contribution_row =
  cn_participant_id :: string
  cn_option_id :: string
  cn_created_at :: int

record receipt_row =
  gr_participant_id :: string
  gr_gift_id :: string
  gr_group_id :: string
  gr_observed_quantity :: string
  gr_price :: string

record combo_row =
  cb_quantity :: string
  cb_diamonds :: string

record scored_row =
  sd_participant_id :: string
  sd_option_id :: "string option"
  sd_score :: string
  sd_created_at :: int

record result_row =
  rw_ranking_id :: string
  rw_created_at :: int
  rw_result :: "result_record option"

record outbox_row =
  ob_action_id :: string
  ob_idempotency_key :: string
  ob_action :: "winner_action option"
  ob_status :: action_status
  ob_created_at :: int
  ob_updated_at :: int

record diagnostic_row =
  di_reason :: string
  di_updated_at :: int

record store =
  st_scopes :: "(string, scope_row) hmap"
  st_definitions :: "(string, definition_row) hmap"
  st_states :: "(string, lifecycle_state option) hmap"
  st_integrity :: "(generation_key, integrity_status) hmap"
  st_owners :: "(generation_key, string) hmap"
  st_counts :: "(generation_key, count_row) hmap"
  st_participants :: "(member_key, participant_row) hmap"
  st_contributions :: "(member_key, contribution_row) hmap"
  st_gift_participants :: "(member_key, unit) hmap"
  st_receipts :: "(member_key, receipt_row) hmap"
  st_combo_prices :: "(combo_key, string) hmap"
  st_combo_counts :: "(generation_key, int) hmap"
  st_combos :: "(combo_key, combo_row) hmap"
  st_scored :: "(scored_key, scored_row) hmap"
  st_results :: "(generation_key, result_row) hmap"
  st_outbox :: "(generation_key, outbox_row) hmap"
  st_diagnostics :: "(generation_key, diagnostic_row) hmap"

definition store_empty :: store where
  "store_empty =
     \<lparr>st_scopes = [], st_definitions = [], st_states = [], st_integrity = [], st_owners = [],
      st_counts = [], st_participants = [], st_contributions = [], st_gift_participants = [],
      st_receipts = [], st_combo_prices = [], st_combo_counts = [], st_combos = [], st_scored = [],
      st_results = [], st_outbox = [], st_diagnostics = []\<rparr>"

text \<open>\<open>INSERT\<close> fails on an existing primary key; \<open>ON CONFLICT DO UPDATE\<close> is a plain map update.\<close>

definition insert_row :: "'k \<Rightarrow> 'v \<Rightarrow> ('k, 'v) hmap \<Rightarrow> db_error + ('k, 'v) hmap" where
  "insert_row k v m = (if hm_has m k then Inl Db_Sql else Inr (hm_insert k v m))"

lemma insert_row_Inr: "insert_row k v m = Inr m' \<longleftrightarrow> hm_get m k = None \<and> m' = hm_insert k v m"
  by (auto simp: insert_row_def hm_has_def)

lemma insert_row_fresh: "hm_get m k = None \<Longrightarrow> insert_row k v m = Inr (hm_insert k v m)"
  by (simp add: insert_row_def hm_has_def)

definition decoded :: "'a option \<Rightarrow> db_error + 'a" where
  "decoded column = (case column of None \<Rightarrow> Inl Db_Json | Some x \<Rightarrow> Inr x)"

lemma decoded_simps [simp]:
  "decoded None = Inl Db_Json"
  "decoded (Some x) = Inr x"
  by (simp_all add: decoded_def)

text \<open>\<open>EXISTS(SELECT 1 FROM competition_integrity_owners \<dots>)\<close>\<close>

definition owns :: "string \<Rightarrow> int \<Rightarrow> string \<Rightarrow> store \<Rightarrow> bool" where
  "owns cid generation owner s \<longleftrightarrow> hm_get (st_owners s) (cid, generation) = Some owner"

definition owner_changed :: db_error where
  "owner_changed = Db_Invalid ''competition owner changed''"

section \<open>Stored results\<close>

text \<open>
  The validation of a stored selection never aborts, so \<open>validate().map_err(\<dots>)?\<close> is a test.
\<close>

lemma validate_selection_total: "\<exists>res. validate_selection s = Ret res"
proof -
  have "\<exists>res. validate_mode s ch = Ret res" if ne: "se_eligible s \<noteq> []" for ch
  proof -
    obtain x xs where "filter (\<lambda>c. ca_weight c = highest (se_eligible s)) (se_eligible s) = x # xs"
      using leaders_nonempty [OF ne] by (cases "filter (\<lambda>c. ca_weight c = highest (se_eligible s)) (se_eligible s)") auto
    then show ?thesis
      by (auto simp: validate_mode_def Let_def split: selection_mode.split option.split)
  qed
  then show ?thesis
    by (auto simp: validate_selection_def split: option.split)
qed

definition selection_valid :: "selection \<Rightarrow> bool" where
  "selection_valid s \<longleftrightarrow> validate_selection s = Ret (Inr ())"

definition decode_result ::
  "string \<Rightarrow> int \<Rightarrow> string \<Rightarrow> int \<Rightarrow> result_record option \<Rightarrow> db_error + result_record" where
  "decode_result cid generation ranking created_at column =
     (case column of
        None \<Rightarrow> Inl Db_Json
      | Some r \<Rightarrow>
        if rr_schema_version r \<noteq> 1 \<or> cid = [] \<or> length cid > 128 \<or> ranking = [] \<or> length ranking > 128 \<or>
           generation \<le> 0 \<or> created_at < 0 \<or> rr_competition_id r \<noteq> cid \<or> rr_ranking_id r \<noteq> ranking \<or>
           rr_generation r \<noteq> as_u64 generation \<or> rr_finalized_at r \<noteq> as_u64 created_at
        then Inl (Db_Invalid ''stored competition result identity mismatch'')
        else if \<not> selection_valid (rr_selection r)
        then Inl (Db_Invalid ''invalid stored competition selection'')
        else Inr r)"

end
