(* ===== verification/Store_Lifecycle.thy ===== *)
theory Store_Lifecycle
  imports Store_Model
begin

text \<open>
  Definitions, lifecycle transitions, run ownership, results and the action outbox of
  \<open>crates/tiktools-core/src/db/sqlite/competitions.rs\<close>.
\<close>

section \<open>Definitions\<close>

definition stored_definition :: "competition_definition \<Rightarrow> definition_row" where
  "stored_definition d =
     \<lparr>dr_ranking_id = cd_ranking_id d, dr_schema_version = cd_schema_version d, dr_definition = Some d\<rparr>"

definition insert_competition_definition ::
  "(string \<Rightarrow> string) \<Rightarrow> competition_definition \<Rightarrow> store \<Rightarrow> store \<times> (db_error + unit)" where
  "insert_competition_definition lower d s =
     (case validate lower d of
        Inl _ \<Rightarrow> (s, Inl (Db_Invalid ''invalid competition definition''))
      | Inr _ \<Rightarrow> transact s
          (bind_result (insert_row (cd_id d) (stored_definition d) (st_definitions s)) (\<lambda>definitions.
           bind_result (insert_row (cd_id d) (Some lifecycle_default) (st_states s)) (\<lambda>states.
           Inr ((), Some (s\<lparr>st_definitions := definitions, st_states := states\<rparr>))))))"

fun decode_all :: "'a option list \<Rightarrow> db_error + 'a list" where
  "decode_all [] = Inr []"
| "decode_all (column # rest) =
     bind_result (decoded column) (\<lambda>x. bind_result (decode_all rest) (\<lambda>xs. Inr (x # xs)))"

definition load_competition_definitions :: "store \<Rightarrow> db_error + competition_definition list" where
  "load_competition_definitions s = decode_all (map (dr_definition \<circ> snd) (sort_key fst (st_definitions s)))"

text \<open>
  \<open>json_extract(state_json, '$.lifecycle')\<close>: on text that is no JSON the query fails.
\<close>

definition lifecycle_in :: "string \<Rightarrow> lifecycle set \<Rightarrow> store \<Rightarrow> db_error + bool" where
  "lifecycle_in cid phases s =
     (case hm_get (st_states s) cid of
        None \<Rightarrow> Inr False
      | Some None \<Rightarrow> Inl Db_Sql
      | Some (Some state) \<Rightarrow> Inr (ls_lifecycle state \<in> phases))"

definition has_result :: "string \<Rightarrow> store \<Rightarrow> bool" where
  "has_result cid s \<longleftrightarrow> list_ex (\<lambda>((cid', _), _). cid' = cid) (st_results s)"

definition update_competition_definition ::
  "(string \<Rightarrow> string) \<Rightarrow> competition_definition \<Rightarrow> store \<Rightarrow> store \<times> (db_error + bool)" where
  "update_competition_definition lower d s =
     (case validate lower d of
        Inl _ \<Rightarrow> (s, Inl (Db_Invalid ''invalid competition definition''))
      | Inr _ \<Rightarrow> transact s
          (if \<not> hm_has (st_definitions s) (cd_id d) then Inr (False, None)
           else bind_result (lifecycle_in (cd_id d) {Draft} s) (\<lambda>draft.
             if draft \<and> \<not> has_result (cd_id d) s
             then Inr (True, Some (s\<lparr>st_definitions := hm_insert (cd_id d) (stored_definition d) (st_definitions s)\<rparr>))
             else Inr (False, None))))"

text \<open>\<open>DELETE FROM table WHERE competition_id=?1\<close>\<close>

definition without_competition :: "string \<Rightarrow> ((string \<times> 'k) \<times> 'v) list \<Rightarrow> ((string \<times> 'k) \<times> 'v) list" where
  "without_competition cid m = filter (\<lambda>((cid', _), _). cid' \<noteq> cid) m"

definition delete_scoped :: "string \<Rightarrow> store \<Rightarrow> store" where
  "delete_scoped cid s = s
     \<lparr>st_contributions := without_competition cid (st_contributions s),
      st_scored := without_competition cid (st_scored s),
      st_receipts := without_competition cid (st_receipts s),
      st_gift_participants := without_competition cid (st_gift_participants s),
      st_combo_prices := without_competition cid (st_combo_prices s),
      st_combos := without_competition cid (st_combos s),
      st_combo_counts := without_competition cid (st_combo_counts s),
      st_participants := without_competition cid (st_participants s),
      st_counts := without_competition cid (st_counts s),
      st_integrity := without_competition cid (st_integrity s),
      st_owners := without_competition cid (st_owners s),
      st_states := hm_remove cid (st_states s)\<rparr>"

definition delete_competition_definition :: "string \<Rightarrow> store \<Rightarrow> store \<times> (db_error + bool)" where
  "delete_competition_definition cid s = transact s
     (if \<not> hm_has (st_definitions s) cid then Inr (False, Some s)
      else bind_result (lifecycle_in cid {Draft, Cancelled} s) (\<lambda>closed.
        if closed \<and> \<not> has_result cid s
        then Inr (True, Some (delete_scoped cid (s\<lparr>st_definitions := hm_remove cid (st_definitions s)\<rparr>)))
        else Inr (False, Some s)))"

definition load_competition_state :: "string \<Rightarrow> store \<Rightarrow> db_error + lifecycle_state option" where
  "load_competition_state cid s =
     (case hm_get (st_states s) cid of
        None \<Rightarrow> Inr None
      | Some column \<Rightarrow> bind_result (decoded column) (\<lambda>state. Inr (Some state)))"

section \<open>Transitions\<close>

definition joined :: "string \<Rightarrow> store \<Rightarrow> (competition_definition option \<times> lifecycle_state option) option" where
  "joined cid s =
     (case hm_get (st_definitions s) cid of
        None \<Rightarrow> None
      | Some d \<Rightarrow> map_option (\<lambda>state. (dr_definition d, state)) (hm_get (st_states s) cid))"

fun debug_error :: "competition_error \<Rightarrow> string" where
  "debug_error InvalidTransition = ''InvalidTransition''"
| "debug_error InvalidCandidate = ''InvalidCandidate''"
| "debug_error DuplicateCandidate = ''DuplicateCandidate''"
| "debug_error Empty = ''Empty''"
| "debug_error ZeroWeight = ''ZeroWeight''"
| "debug_error ScoreOverflow = ''Overflow''"
| "debug_error ManualTie = ''ManualTie''"
| "debug_error RandomUnavailable = ''RandomUnavailable''"
| "debug_error UnknownOption = ''UnknownOption''"
| "debug_error SwitchRefused = ''SwitchForbidden''"
| "debug_error CompetitionFull = ''Capacity''"
| "debug_error VotesExhausted = ''VoteLimit''"

text \<open>A start opens the integrity checkpoint and the ownership of its generation.\<close>

definition open_generation :: "string \<Rightarrow> u64 \<Rightarrow> string option \<Rightarrow> store \<Rightarrow> db_error + store" where
  "open_generation cid generation owner s =
     bind_result (try_i64 ''invalid generation'' generation) (\<lambda>g.
     bind_result (insert_row (cid, g) Integrity_Open (st_integrity s)) (\<lambda>integrity.
     (case owner of
        None \<Rightarrow> Inr (s\<lparr>st_integrity := integrity\<rparr>)
      | Some o' \<Rightarrow> bind_result (insert_row (cid, g) o' (st_owners s)) (\<lambda>owners.
          Inr (s\<lparr>st_integrity := integrity, st_owners := owners\<rparr>)))))"

definition transition_competition_owned ::
  "string \<Rightarrow> transition \<Rightarrow> u64 \<Rightarrow> string option \<Rightarrow> store \<Rightarrow>
   (store \<times> (db_error + lifecycle_state option)) run" where
  "transition_competition_owned cid t now owner s =
     (case joined cid s of
        None \<Rightarrow> Ret (s, Inr None)
      | Some (definition, column) \<Rightarrow>
        (case (definition, column) of
           (Some d, Some state) \<Rightarrow>
             if t \<noteq> Start \<and> ls_lifecycle state \<noteq> Draft \<and>
                (case owner of None \<Rightarrow> False | Some o' \<Rightarrow> \<not> owns cid (as_i64 (ls_generation state)) o' s)
             then Ret (s, Inl owner_changed)
             else run_bind (transition t now (cd_duration_ms d) state) (\<lambda>(state', res).
               Ret (transact s
                 (case res of
                    Inl err \<Rightarrow> Inl (Db_Invalid (''invalid lifecycle transition: '' @ debug_error err))
                  | Inr _ \<Rightarrow>
                    (let s1 = s\<lparr>st_states := hm_insert cid (Some state') (st_states s)\<rparr> in
                     if t = Start
                     then bind_result (open_generation cid (ls_generation state') owner s1)
                            (\<lambda>s2. Inr (Some state', Some s2))
                     else Inr (Some state', Some s1)))))
         | _ \<Rightarrow> Ret (s, Inl Db_Json)))"

definition begin_competition_recovery ::
  "string \<Rightarrow> u64 \<Rightarrow> string \<Rightarrow> store \<Rightarrow> store \<times> (db_error + bool)" where
  "begin_competition_recovery cid generation owner s = transact s
     (bind_result (try_i64 ''invalid generation'' generation) (\<lambda>g.
        Inr (hm_get (st_integrity s) (cid, g) = Some Integrity_Clean,
             Some (s\<lparr>st_integrity := hm_insert (cid, g) Integrity_Open (st_integrity s),
                     st_owners := hm_insert (cid, g) owner (st_owners s)\<rparr>))))"

fun save_checkpoints :: "(string \<times> u64 \<times> bool) list \<Rightarrow> string \<Rightarrow> store \<Rightarrow> db_error + store" where
  "save_checkpoints [] owner s = Inr s"
| "save_checkpoints ((cid, generation, clean) # rest) owner s =
     bind_result (try_i64 ''invalid generation'' generation) (\<lambda>g.
       if hm_get (st_integrity s) (cid, g) = Some Integrity_Open \<and> owns cid g owner s
       then save_checkpoints rest owner
         (s\<lparr>st_integrity := hm_insert (cid, g) (if clean then Integrity_Clean else Integrity_Degraded) (st_integrity s)\<rparr>)
       else Inl (Db_Invalid ''competition integrity checkpoint missing''))"

definition save_competition_integrity ::
  "(string \<times> u64 \<times> bool) list \<Rightarrow> string \<Rightarrow> store \<Rightarrow> store \<times> (db_error + unit)" where
  "save_competition_integrity checkpoints owner s = transact s
     (bind_result (save_checkpoints checkpoints owner s) (\<lambda>s'. Inr ((), Some s')))"

definition finalizing_competitions :: "store \<Rightarrow> db_error + string list" where
  "finalizing_competitions s =
     (if list_ex (\<lambda>(_, column). column = None) (st_states s) then Inl Db_Sql
      else
        (let ids = take 129 (sort (map fst
             (filter (\<lambda>(_, column). map_option ls_lifecycle column = Some Finalizing) (st_states s))))
         in if length ids > 128 then Inl (Db_Invalid ''competition capacity exceeded'') else Inr ids))"

text \<open>The scan over all states; a row of another owner is left alone.\<close>

fun expire_rows ::
  "u64 \<Rightarrow> string option \<Rightarrow> (string \<times> lifecycle_state option) list \<Rightarrow> store \<Rightarrow> nat \<Rightarrow>
   (db_error + store \<times> nat) run" where
  "expire_rows now owner [] s expired = Ret (Inr (s, expired))"
| "expire_rows now owner ((cid, column) # rest) s expired =
     (case column of
        None \<Rightarrow> Ret (Inl Db_Json)
      | Some state \<Rightarrow>
        if \<not> is_due now state then expire_rows now owner rest s expired
        else if (case owner of None \<Rightarrow> False | Some o' \<Rightarrow> \<not> owns cid (as_i64 (ls_generation state)) o' s)
        then expire_rows now owner rest s expired
        else run_bind (transition Expire now None state) (\<lambda>(state', res).
          case res of
            Inl err \<Rightarrow> Ret (Inl (Db_Invalid (''invalid expiry: '' @ debug_error err)))
          | Inr _ \<Rightarrow> expire_rows now owner rest
              (s\<lparr>st_states := hm_insert cid (Some state') (st_states s)\<rparr>) (expired + 1)))"

definition expire_due_competitions_owned ::
  "u64 \<Rightarrow> string option \<Rightarrow> store \<Rightarrow> (store \<times> (db_error + nat)) run" where
  "expire_due_competitions_owned now owner s =
     run_bind (expire_rows now owner (st_states s) s 0) (\<lambda>res.
       Ret (transact s (bind_result res (\<lambda>(s', expired). Inr (expired, Some s')))))"

end
