(* ===== verification/Store_Routing.thy ===== *)
theory Store_Routing
  imports Store_Lifecycle
begin

text \<open>
  Routing of votes, scored events and gifts into the competition tables
  (\<open>crates/tiktools-core/src/db/sqlite/competitions.rs\<close>, \<open>gift_accounting.rs\<close>), and the
  projections that are rebuilt from them after a restart and at a draw.
\<close>

section \<open>Shared steps\<close>

definition closed_phase :: "lifecycle \<Rightarrow> bool" where
  "closed_phase l \<longleftrightarrow> l \<in> {Draft, Finalizing, Finished, Cancelled, Failed}"

text \<open>The join with the ranking whose scope the event must match.\<close>

definition scoped ::
  "string \<Rightarrow> string \<Rightarrow> string \<Rightarrow> store \<Rightarrow> (competition_definition option \<times> lifecycle_state option) option" where
  "scoped cid creator room s =
     (case hm_get (st_definitions s) cid of
        None \<Rightarrow> None
      | Some d \<Rightarrow>
        (case (hm_get (st_states s) cid, hm_get (st_scopes s) (dr_ranking_id d)) of
           (Some state, Some a) \<Rightarrow>
             if sc_creator_id a = creator \<and> sc_room_id a = room then Some (dr_definition d, state) else None
         | _ \<Rightarrow> None))"

definition counts_of :: "generation_key \<Rightarrow> store \<Rightarrow> count_row" where
  "counts_of k s = hm_get_or (st_counts s) k \<lparr>ct_participants = 0, ct_contributions = 0\<rparr>"

definition bump_counts :: "generation_key \<Rightarrow> int \<Rightarrow> store \<Rightarrow> store" where
  "bump_counts k new_participants s =
     (let row = counts_of k s in
      s\<lparr>st_counts := hm_insert k
          \<lparr>ct_participants = ct_participants row + new_participants,
           ct_contributions = ct_contributions row + 1\<rparr> (st_counts s)\<rparr>)"

definition bad_counters :: db_error where
  "bad_counters = Db_Invalid ''invalid participation counters''"

definition input_invalid :: "string \<Rightarrow> string \<Rightarrow> string \<Rightarrow> string \<Rightarrow> u64 \<Rightarrow> bool" where
  "input_invalid creator room participant identity now \<longleftrightarrow>
     creator = [] \<or> length creator > 256 \<or> room = [] \<or> length room > 256 \<or>
     participant = [] \<or> length participant > 512 \<or> identity = [] \<or> length identity > 512 \<or>
     now > i64_max"

section \<open>Command votes\<close>

type_synonym prior_vote = "(string \<times> u64) option"

definition record_ignored_command ::
  "string \<Rightarrow> int \<Rightarrow> string \<Rightarrow> string \<Rightarrow> string \<Rightarrow> u64 \<Rightarrow> participation_outcome \<Rightarrow> store \<Rightarrow>
   (store, participation_outcome option \<times> prior_vote) body" where
  "record_ignored_command cid g identity participant opt now outcome s =
     (let count = ct_contributions (counts_of (cid, g) s) in
      if count < 0 then Inl bad_counters
      else if count \<ge> 500000 then Inr ((Some NoCapacity, None), None)
      else
        (let s1 = bump_counts (cid, g) 0 s in
         bind_result (insert_row (cid, g, identity)
             \<lparr>cn_participant_id = participant, cn_option_id = opt, cn_created_at = as_i64 now\<rparr> (st_contributions s1))
           (\<lambda>contributions. Inr ((Some outcome, None), Some (s1\<lparr>st_contributions := contributions\<rparr>)))))"

definition accept_vote ::
  "string \<Rightarrow> int \<Rightarrow> command_participation \<Rightarrow> string \<Rightarrow> int \<Rightarrow> bool \<Rightarrow> int \<Rightarrow> prior_vote \<Rightarrow> store \<Rightarrow>
   (store, participation_outcome option \<times> prior_vote) body" where
  "accept_vote cid g input opt votes switched new_participants prior s =
     (let participant = pa_participant_id input; now = as_i64 (pa_received_at input);
          s1 = bump_counts (cid, g) new_participants s;
          s2 = s1\<lparr>st_participants := hm_insert (cid, g, participant)
             \<lparr>pr_option_id = opt, pr_votes = votes, pr_updated_at = now\<rparr> (st_participants s1)\<rparr>
      in bind_result (insert_row (cid, g, pa_event_identity input)
             \<lparr>cn_participant_id = participant, cn_option_id = opt, cn_created_at = now\<rparr> (st_contributions s2))
           (\<lambda>contributions. Inr ((Some (Accepted opt (as_u64 votes) switched), prior),
              Some (s2\<lparr>st_contributions := contributions\<rparr>))))"

definition cast_vote ::
  "string \<Rightarrow> int \<Rightarrow> competition_definition \<Rightarrow> command_participation \<Rightarrow> string \<Rightarrow> store \<Rightarrow>
   (store, participation_outcome option \<times> prior_vote) body" where
  "cast_vote cid g d input opt s =
     (let participant = pa_participant_id input;
          existing = hm_get (st_participants s) (cid, g, participant);
          counts = counts_of (cid, g) s;
          ignore = (\<lambda>outcome. record_ignored_command cid g (pa_event_identity input) participant opt
            (pa_received_at input) outcome s)
      in if ct_participants counts < 0 \<or> ct_contributions counts < 0 then Inl bad_counters
         else if ct_contributions counts \<ge> 500000 then Inr ((Some NoCapacity, None), None)
         else case existing of
           None \<Rightarrow>
             (let gift = hm_has (st_gift_participants s) (cid, g, participant) in
              if ct_participants counts \<ge> 100000 \<and> \<not> gift then Inr ((Some NoCapacity, None), None)
              else accept_vote cid g input opt 1 False (if gift then 0 else 1) None s)
         | Some row \<Rightarrow>
             (let switched = (pr_option_id row \<noteq> opt);
                  prior = Some (pr_option_id row, as_u64 (pr_votes row)) in
              if switched \<and> \<not> cd_allow_switch d then ignore SwitchForbidden
              else if pr_votes row \<le> 0 then Inl (Db_Invalid ''invalid participant vote count'')
              else if as_u64 (pr_votes row) \<ge> cd_vote_limit d
              then (if \<not> switched then ignore VoteLimit
                    else accept_vote cid g input opt (pr_votes row) switched 0 prior s)
              else if pr_votes row \<ge> int i64_max then Inl (Db_Invalid ''vote count overflow'')
              else accept_vote cid g input opt (pr_votes row + 1) switched 0 prior s))"

definition route_command_body ::
  "(string \<Rightarrow> string) \<Rightarrow> string \<Rightarrow> command_participation \<Rightarrow> string option \<Rightarrow> store \<Rightarrow>
   (store, participation_outcome option \<times> prior_vote) body" where
  "route_command_body lower cid input owner s =
     (case scoped cid (pa_creator_id input) (pa_room_id input) s of
        None \<Rightarrow> Inr ((None, None), None)
      | Some (dcolumn, scolumn) \<Rightarrow>
        bind_result (decoded dcolumn) (\<lambda>d. bind_result (decoded scolumn) (\<lambda>state.
          if closed_phase (ls_lifecycle state) then Inr ((Some Closed, None), None)
          else bind_result (try_i64 ''invalid generation'' (ls_generation state)) (\<lambda>g.
            if (case owner of None \<Rightarrow> False | Some o' \<Rightarrow> \<not> owns cid g o' s) then Inl owner_changed
            else
              (let opt = option_for_command lower d (pa_command input) in
               case hm_get (st_contributions s) (cid, g, pa_event_identity input) of
                 Some prior \<Rightarrow>
                   Inr ((Some (if cn_participant_id prior = pa_participant_id input \<and> opt = Some (cn_option_id prior)
                               then Duplicated (cn_option_id prior) else IdentityConflict), None), None)
               | None \<Rightarrow>
                   if ls_lifecycle state \<noteq> Active \<or> is_due (pa_received_at input) state
                   then (case opt of
                       None \<Rightarrow> Inr ((Some Closed, None), None)
                     | Some o' \<Rightarrow> record_ignored_command cid g (pa_event_identity input)
                         (pa_participant_id input) o' (pa_received_at input) Closed s)
                   else (case opt of
                       None \<Rightarrow> Inr ((Some UnknownCommand, None), None)
                     | Some o' \<Rightarrow> cast_vote cid g d input o' s))))))"

definition route_competition_command ::
  "(string \<Rightarrow> string) \<Rightarrow> string \<Rightarrow> command_participation \<Rightarrow> string option \<Rightarrow> store \<Rightarrow>
   store \<times> (db_error + participation_outcome option \<times> prior_vote)" where
  "route_competition_command lower cid input owner s =
     (if input_invalid (pa_creator_id input) (pa_room_id input) (pa_participant_id input)
           (pa_event_identity input) (pa_received_at input)
      then (s, Inl (Db_Invalid ''invalid participation identity''))
      else transact s (route_command_body lower cid input owner s))"

section \<open>Scored events\<close>

record scored_input =
  si_creator_id :: string
  si_room_id :: string
  si_participant_id :: string
  si_event_identity :: string
  si_source :: string
  si_score :: u64
  si_received_at :: u64

datatype scored_outcome =
    ScoredAccepted string
  | ScoredDuplicate
  | ScoredConflict
  | ScoredUnassigned
  | ScoredClosed
  | ScoredCapacity

definition scored_input_invalid :: "scored_input \<Rightarrow> bool" where
  "scored_input_invalid input \<longleftrightarrow>
     input_invalid (si_creator_id input) (si_room_id input) (si_participant_id input)
       (si_event_identity input) (si_received_at input) \<or>
     si_source input \<notin> {''tiktok.like'', ''tiktok.share''} \<or> si_score input = 0"

definition record_scored ::
  "string \<Rightarrow> int \<Rightarrow> lifecycle_state \<Rightarrow> scored_input \<Rightarrow> store \<Rightarrow> (store, scored_outcome option) body" where
  "record_scored cid g state input s =
     (let ended = (ls_lifecycle state \<noteq> Active \<or> is_due (si_received_at input) state);
          opt = (if ended then None
                 else map_option pr_option_id (hm_get (st_participants s) (cid, g, si_participant_id input)));
          outcome = (if ended then ScoredClosed
                     else case opt of Some o' \<Rightarrow> ScoredAccepted o' | None \<Rightarrow> ScoredUnassigned);
          count = ct_contributions (counts_of (cid, g) s)
      in if count < 0 then Inl bad_counters
         else if count \<ge> 500000 then Inr (Some ScoredCapacity, None)
         else
           (let s1 = bump_counts (cid, g) 0 s in
            bind_result (insert_row (cid, g, si_source input, si_event_identity input)
                \<lparr>sd_participant_id = si_participant_id input, sd_option_id = opt,
                 sd_score = to_string (si_score input), sd_created_at = as_i64 (si_received_at input)\<rparr>
                (st_scored s1))
              (\<lambda>scored. Inr (Some outcome, Some (s1\<lparr>st_scored := scored\<rparr>)))))"

definition route_competition_score ::
  "string \<Rightarrow> scored_input \<Rightarrow> string option \<Rightarrow> store \<Rightarrow> store \<times> (db_error + scored_outcome option)" where
  "route_competition_score cid input owner s =
     (if scored_input_invalid input then (s, Inl (Db_Invalid ''invalid scored participation''))
      else transact s
        (case scoped cid (si_creator_id input) (si_room_id input) s of
           None \<Rightarrow> Inr (None, None)
         | Some (_, scolumn) \<Rightarrow>
           bind_result (decoded scolumn) (\<lambda>state.
             if closed_phase (ls_lifecycle state) then Inr (Some ScoredClosed, None)
             else bind_result (try_i64 ''invalid generation'' (ls_generation state)) (\<lambda>g.
               if (case owner of None \<Rightarrow> False | Some o' \<Rightarrow> \<not> owns cid g o' s) then Inl owner_changed
               else case hm_get (st_scored s) (cid, g, si_source input, si_event_identity input) of
                 Some prior \<Rightarrow>
                   Inr (Some (if sd_participant_id prior = si_participant_id input \<and>
                                 sd_score prior = to_string (si_score input)
                              then ScoredDuplicate else ScoredConflict), None)
               | None \<Rightarrow> record_scored cid g state input s))))"

end
