(* ===== verification/Store_Gifts.thy ===== *)
theory Store_Gifts
  imports Store_Routing
begin

text \<open>
  Gift streaks: the high-water accounting of \<open>gift_accounting.rs\<close>, and the routing of a gift
  packet with its receipt, its combo and its score in one transaction
  (\<open>route_competition_gift\<close> in \<open>competitions.rs\<close>). The engine's score of a delta is the argument
  \<open>score\<close>, as in the code.
\<close>

section \<open>High-water accounting\<close>

record gift_delta =
  gd_quantity :: u64
  gd_diamonds :: "u64 option"

definition combo_identity_invalid :: "string \<Rightarrow> string \<Rightarrow> string \<Rightarrow> string \<Rightarrow> u64 \<Rightarrow> bool" where
  "combo_identity_invalid cid participant gift combo observed \<longleftrightarrow>
     cid = [] \<or> length cid > 128 \<or> participant = [] \<or> length participant > 512 \<or>
     gift = [] \<or> length gift > 128 \<or> combo = [] \<or> length combo > 128 \<or> observed = 0"

definition combo_target :: "u64 \<Rightarrow> u64 option \<Rightarrow> db_error + u64 option" where
  "combo_target quantity price =
     (case price of
        None \<Rightarrow> Inr None
      | Some p \<Rightarrow>
        (case checked_mul quantity p of
           None \<Rightarrow> Inl (Db_Invalid ''gift diamonds overflow'')
         | Some target \<Rightarrow> Inr (Some target)))"

text \<open>The stored high-water marks, or a new combo that counts against the capacity.\<close>

definition previous_combo :: "generation_key \<Rightarrow> combo_key \<Rightarrow> store \<Rightarrow> db_error + (u64 \<times> u64) \<times> store" where
  "previous_combo gk k s =
     (case hm_get (st_combos s) k of
        Some row \<Rightarrow>
          (case parse_u64 (cb_quantity row) of
             None \<Rightarrow> Inl (Db_Invalid ''invalid gift quantity'')
           | Some quantity \<Rightarrow>
             (case parse_u64 (cb_diamonds row) of
                None \<Rightarrow> Inl (Db_Invalid ''invalid gift diamonds'')
              | Some diamonds \<Rightarrow> Inr ((quantity, diamonds), s)))
      | None \<Rightarrow>
          (let count = hm_get_or (st_combo_counts s) gk 0 in
           if count \<ge> 100000 then Inl (Db_Invalid ''gift combo capacity exceeded'')
           else Inr ((0, 0), s\<lparr>st_combo_counts := hm_insert gk (count + 1) (st_combo_counts s)\<rparr>)))"

definition advance_combo ::
  "string \<Rightarrow> u64 \<Rightarrow> string \<Rightarrow> string \<Rightarrow> string \<Rightarrow> u64 \<Rightarrow> u64 option \<Rightarrow> store \<Rightarrow>
   db_error + gift_delta \<times> store" where
  "advance_combo cid generation participant gift combo observed price s =
     (if combo_identity_invalid cid participant gift combo observed
      then Inl (Db_Invalid ''invalid gift combo identity'')
      else bind_result (try_i64 ''invalid generation'' generation) (\<lambda>g.
        bind_result (previous_combo (cid, g) (cid, g, participant, gift, combo) s) (\<lambda>((old_quantity, old_diamonds), s1).
          (let quantity = max old_quantity observed in
           bind_result (combo_target quantity price) (\<lambda>target.
             (let diamonds = map_option (\<lambda>t. saturating_sub t old_diamonds) target;
                  high = (case target of None \<Rightarrow> old_diamonds | Some t \<Rightarrow> max t old_diamonds) in
              Inr (\<lparr>gd_quantity = quantity - old_quantity, gd_diamonds = diamonds\<rparr>,
                   s1\<lparr>st_combos := hm_insert (cid, g, participant, gift, combo)
                        \<lparr>cb_quantity = to_string quantity, cb_diamonds = to_string high\<rparr> (st_combos s1)\<rparr>)))))))"

section \<open>Routing a gift\<close>

record gift_input =
  gi_creator_id :: string
  gi_room_id :: string
  gi_participant_id :: string
  gi_event_identity :: string
  gi_gift_id :: string
  gi_group_id :: string
  gi_observed_quantity :: u64
  gi_price :: u64
  gi_received_at :: u64

datatype gift_outcome =
    GiftAccepted string u64
  | GiftDuplicate
  | GiftConflict
  | GiftClosed
  | GiftUnassigned
  | GiftZero
  | GiftCapacity

definition gift_input_invalid :: "gift_input \<Rightarrow> string \<Rightarrow> bool" where
  "gift_input_invalid input owner \<longleftrightarrow>
     input_invalid (gi_creator_id input) (gi_room_id input) (gi_participant_id input)
       (gi_event_identity input) (gi_received_at input) \<or>
     gi_gift_id input = [] \<or> length (gi_gift_id input) > 128 \<or>
     gi_group_id input = [] \<or> length (gi_group_id input) > 128 \<or>
     gi_observed_quantity input = 0 \<or> gi_price input = 0 \<or> owner = []"

definition gift_receipt :: "gift_input \<Rightarrow> receipt_row" where
  "gift_receipt input =
     \<lparr>gr_participant_id = gi_participant_id input, gr_gift_id = gi_gift_id input,
      gr_group_id = gi_group_id input, gr_observed_quantity = to_string (gi_observed_quantity input),
      gr_price = to_string (gi_price input)\<rparr>"

definition gift_combo_key :: "string \<Rightarrow> int \<Rightarrow> gift_input \<Rightarrow> combo_key" where
  "gift_combo_key cid g input = (cid, g, gi_participant_id input, gi_gift_id input, gi_group_id input)"

text \<open>A combo keeps the price of its first packet, and must be seen from its beginning.\<close>

definition fix_price :: "string \<Rightarrow> int \<Rightarrow> gift_input \<Rightarrow> store \<Rightarrow> db_error + store" where
  "fix_price cid g input s =
     (case hm_get (st_combo_prices s) (gift_combo_key cid g input) of
        Some price \<Rightarrow>
          if price \<noteq> to_string (gi_price input) then Inl (Db_Invalid ''gift combo price changed'') else Inr s
      | None \<Rightarrow>
          if gi_observed_quantity input > 1 then Inl (Db_Invalid ''gift combo began before observation'')
          else Inr (s\<lparr>st_combo_prices := hm_insert (gift_combo_key cid g input) (to_string (gi_price input))
                 (st_combo_prices s)\<rparr>))"

definition gift_score :: "(u64 \<Rightarrow> u64 \<Rightarrow> string \<Rightarrow> db_error + u64) \<Rightarrow> gift_delta \<Rightarrow> string \<Rightarrow> db_error + u64" where
  "gift_score score delta gift =
     (if gd_quantity delta = 0 then Inr 0
      else (case gd_diamonds delta of
          None \<Rightarrow> Inl (Db_Invalid ''gift price missing'')
        | Some diamonds \<Rightarrow> score (gd_quantity delta) diamonds gift))"

definition gift_option :: "string \<Rightarrow> int \<Rightarrow> competition_definition \<Rightarrow> gift_input \<Rightarrow> store \<Rightarrow> string option" where
  "gift_option cid g d input s =
     (case find (\<lambda>opt. gi_gift_id input \<in> set (od_gift_ids opt)) (cd_options d) of
        Some opt \<Rightarrow> Some (od_id opt)
      | None \<Rightarrow> map_option pr_option_id (hm_get (st_participants s) (cid, g, gi_participant_id input)))"

text \<open>
  The bookkeeping at the end: a credited giver who has not voted counts as a participant. A full
  competition returns without a commit.
\<close>

definition record_gift ::
  "string \<Rightarrow> int \<Rightarrow> gift_input \<Rightarrow> gift_outcome \<Rightarrow> string option \<Rightarrow> u64 \<Rightarrow> store \<Rightarrow>
   (store, gift_outcome option) body" where
  "record_gift cid g input outcome credited score s =
     (let member = (cid, g, gi_participant_id input);
          known = hm_has (st_participants s) member \<or> hm_has (st_gift_participants s) member;
          new = (credited \<noteq> None \<and> \<not> known)
      in if new \<and> ct_participants (counts_of (cid, g) s) \<ge> 100000 then Inr (Some GiftCapacity, None)
         else
           (let s1 = (if new then s\<lparr>st_gift_participants := hm_insert member () (st_gift_participants s)\<rparr> else s);
                s2 = bump_counts (cid, g) (if new then 1 else 0) s1
            in bind_result (insert_row (cid, g, gi_event_identity input) (gift_receipt input) (st_receipts s2))
                 (\<lambda>receipts. let s3 = s2\<lparr>st_receipts := receipts\<rparr> in
                   (case credited of
                      None \<Rightarrow> Inr (Some outcome, Some s3)
                    | Some opt \<Rightarrow>
                      bind_result (insert_row (cid, g, ''tiktok.gift'', gi_event_identity input)
                          \<lparr>sd_participant_id = gi_participant_id input, sd_option_id = Some opt,
                           sd_score = to_string score, sd_created_at = as_i64 (gi_received_at input)\<rparr>
                          (st_scored s3))
                        (\<lambda>scored. Inr (Some outcome, Some (s3\<lparr>st_scored := scored\<rparr>)))))))"

definition credit_gift ::
  "string \<Rightarrow> int \<Rightarrow> competition_definition option \<Rightarrow> lifecycle_state \<Rightarrow> gift_input \<Rightarrow>
   (u64 \<Rightarrow> u64 \<Rightarrow> string \<Rightarrow> db_error + u64) \<Rightarrow> store \<Rightarrow> (store, gift_outcome option) body" where
  "credit_gift cid g dcolumn state input score s =
     bind_result (fix_price cid g input s) (\<lambda>s1.
     bind_result (advance_combo cid (ls_generation state) (gi_participant_id input) (gi_gift_id input)
         (gi_group_id input) (gi_observed_quantity input) (Some (gi_price input)) s1) (\<lambda>(delta, s2).
     bind_result (gift_score score delta (gi_gift_id input)) (\<lambda>points.
     bind_result (decoded dcolumn) (\<lambda>d.
       (let ended = (ls_lifecycle state \<noteq> Active \<or> is_due (gi_received_at input) state);
            opt = (if ended then None else gift_option cid g d input s2);
            outcome = (if ended then GiftClosed
                       else if points = 0 then GiftZero
                       else case opt of Some o' \<Rightarrow> GiftAccepted o' points | None \<Rightarrow> GiftUnassigned);
            credited = (case outcome of GiftAccepted _ _ \<Rightarrow> opt | _ \<Rightarrow> None)
        in record_gift cid g input outcome credited points s2)))))"

definition route_competition_gift ::
  "string \<Rightarrow> gift_input \<Rightarrow> string \<Rightarrow> (u64 \<Rightarrow> u64 \<Rightarrow> string \<Rightarrow> db_error + u64) \<Rightarrow> store \<Rightarrow>
   store \<times> (db_error + gift_outcome option)" where
  "route_competition_gift cid input owner score s =
     (if gift_input_invalid input owner then (s, Inl (Db_Invalid ''invalid gift contribution''))
      else transact s
        (case scoped cid (gi_creator_id input) (gi_room_id input) s of
           None \<Rightarrow> Inr (None, None)
         | Some (dcolumn, scolumn) \<Rightarrow>
           bind_result (decoded scolumn) (\<lambda>state.
             if ls_lifecycle state \<notin> {Active, Paused} then Inr (Some GiftClosed, None)
             else bind_result (try_i64 ''invalid generation'' (ls_generation state)) (\<lambda>g.
               if \<not> owns cid g owner s then Inl owner_changed
               else case hm_get (st_receipts s) (cid, g, gi_event_identity input) of
                 Some prior \<Rightarrow>
                   Inr (Some (if prior = gift_receipt input then GiftDuplicate else GiftConflict), None)
               | None \<Rightarrow>
                 (let count = ct_contributions (counts_of (cid, g) s) in
                  if count < 0 then Inl bad_counters
                  else if count \<ge> 500000 then Inr (Some GiftCapacity, None)
                  else credit_gift cid g dcolumn state input score s)))))"

section \<open>Projections\<close>

text \<open>A \<open>BTreeMap\<close> of sums is read in key order.\<close>

fun add_scores :: "(string, u64) hmap \<Rightarrow> nat \<Rightarrow> scored_row list \<Rightarrow> db_error + (string, u64) hmap" where
  "add_scores totals index [] = Inr totals"
| "add_scores totals index (row # rest) =
     (if index \<ge> 500000 then Inl (Db_Invalid ''scored contribution capacity exceeded'')
      else case sd_option_id row of
        None \<Rightarrow> Inl Db_Sql
      | Some opt \<Rightarrow>
        (case parse_u64 (sd_score row) of
           None \<Rightarrow> Inl (Db_Invalid ''invalid score'')
         | Some score \<Rightarrow>
           (case checked_add (hm_get_or totals opt 0) score of
              None \<Rightarrow> Inl (Db_Invalid ''score overflow'')
            | Some new_total \<Rightarrow>
              (let totals' = hm_insert opt new_total totals in
               if length totals' > 256 then Inl (Db_Invalid ''option capacity exceeded'')
               else add_scores totals' (index + 1) rest))))"

definition credited_rows :: "string \<Rightarrow> int \<Rightarrow> store \<Rightarrow> scored_row list" where
  "credited_rows cid g s =
     map snd (filter (\<lambda>((cid', g', _, _), row). cid' = cid \<and> g' = g \<and> sd_option_id row \<noteq> None) (st_scored s))"

definition competition_scored_totals :: "string \<Rightarrow> u64 \<Rightarrow> store \<Rightarrow> db_error + (string \<times> u64) list" where
  "competition_scored_totals cid generation s =
     bind_result (try_i64 ''invalid generation'' generation) (\<lambda>g.
     bind_result (add_scores [] 0 (take 500001 (credited_rows cid g s))) (\<lambda>totals.
       Inr (sort_key fst totals)))"

definition member_rows :: "string \<Rightarrow> int \<Rightarrow> store \<Rightarrow> (string \<times> participant_row) list" where
  "member_rows cid g s =
     map (\<lambda>((_, _, participant), row). (participant, row))
       (filter (\<lambda>((cid', g', _), _). cid' = cid \<and> g' = g) (st_participants s))"

text \<open>\<open>SELECT option_id, SUM(votes) \<dots> GROUP BY option_id\<close>; SQLite refuses a sum beyond 64 bits.\<close>

definition votes_for :: "string \<Rightarrow> (string \<times> participant_row) list \<Rightarrow> int" where
  "votes_for opt rows = sum_list (map (pr_votes \<circ> snd) (filter (\<lambda>(_, row). pr_option_id row = opt) rows))"

fun collect_totals :: "nat \<Rightarrow> (string \<times> int) list \<Rightarrow> db_error + (string \<times> u64) list" where
  "collect_totals n [] = Inr []"
| "collect_totals n ((opt, votes) # rest) =
     (if n = 256 \<or> votes \<le> 0 then Inl (Db_Invalid ''invalid vote projection'')
      else bind_result (collect_totals (n + 1) rest) (\<lambda>totals. Inr ((opt, as_u64 votes) # totals)))"

definition competition_vote_totals :: "string \<Rightarrow> u64 \<Rightarrow> store \<Rightarrow> db_error + (string \<times> u64) list" where
  "competition_vote_totals cid generation s =
     bind_result (try_i64 ''invalid generation'' generation) (\<lambda>g.
       (let rows = member_rows cid g s;
            opts = take 257 (sort (remdups (map (pr_option_id \<circ> snd) rows))) in
        if list_ex (\<lambda>opt. \<bar>votes_for opt rows\<bar> > int i64_max) opts then Inl Db_Sql
        else collect_totals 0 (map (\<lambda>opt. (opt, votes_for opt rows)) opts)))"

fun draw_candidates :: "nat \<Rightarrow> string list \<Rightarrow> db_error + candidate list" where
  "draw_candidates n [] = Inr []"
| "draw_candidates n (key # rest) =
     (if n \<ge> 100000 then Inl (Db_Invalid ''draw capacity exceeded'')
      else if key = [] \<or> length key > 512 then Inl (Db_Invalid ''invalid participant'')
      else bind_result (draw_candidates (n + 1) rest)
             (\<lambda>cs. Inr (\<lparr>ca_key = key, ca_weight = 1\<rparr> # cs)))"

definition gift_members :: "string \<Rightarrow> int \<Rightarrow> store \<Rightarrow> string list" where
  "gift_members cid g s =
     map (\<lambda>((_, _, participant), _). participant)
       (filter (\<lambda>((cid', g', _), _). cid' = cid \<and> g' = g) (st_gift_participants s))"

definition competition_draw_participants :: "string \<Rightarrow> u64 \<Rightarrow> store \<Rightarrow> db_error + candidate list" where
  "competition_draw_participants cid generation s =
     bind_result (try_i64 ''invalid generation'' generation) (\<lambda>g.
       draw_candidates 0 (take 100001 (sort (remdups (map fst (member_rows cid g s) @ gift_members cid g s)))))"

definition draw_member_invalid :: "string \<Rightarrow> bool" where
  "draw_member_invalid participant \<longleftrightarrow> participant = [] \<or> length participant > 512"

definition invalid_draw :: db_error where
  "invalid_draw = Db_Invalid ''invalid draw participants''"

fun weigh_votes ::
  "u64 \<Rightarrow> (string, u64) hmap \<Rightarrow> (string \<times> participant_row) list \<Rightarrow> db_error + (string, u64) hmap" where
  "weigh_votes vote_weight weights [] = Inr weights"
| "weigh_votes vote_weight weights ((participant, row) # rest) =
     (if draw_member_invalid participant \<or> pr_votes row \<le> 0 \<or> length weights \<ge> 100000 then Inl invalid_draw
      else case checked_mul (as_u64 (pr_votes row)) vote_weight of
        None \<Rightarrow> Inl (Db_Invalid ''draw weight overflow'')
      | Some weight \<Rightarrow> weigh_votes vote_weight (hm_insert participant weight weights) rest)"

fun admit_gift_members :: "(string, u64) hmap \<Rightarrow> string list \<Rightarrow> db_error + (string, u64) hmap" where
  "admit_gift_members weights [] = Inr weights"
| "admit_gift_members weights (participant # rest) =
     (if draw_member_invalid participant \<or> (\<not> hm_has weights participant \<and> length weights \<ge> 100000)
      then Inl invalid_draw
      else admit_gift_members
        (if hm_has weights participant then weights else hm_insert participant 0 weights) rest)"

fun weigh_scores ::
  "(string, u64) hmap \<Rightarrow> nat \<Rightarrow> scored_row list \<Rightarrow> db_error + (string, u64) hmap" where
  "weigh_scores weights index [] = Inr weights"
| "weigh_scores weights index (row # rest) =
     (if index \<ge> 500000 then Inl (Db_Invalid ''draw contribution capacity exceeded'')
      else case parse_u64 (sd_score row) of
        None \<Rightarrow> Inl (Db_Invalid ''invalid contribution score'')
      | Some score \<Rightarrow>
        (case hm_get weights (sd_participant_id row) of
           None \<Rightarrow> Inl (Db_Invalid ''draw participant missing'')
         | Some weight \<Rightarrow>
           (case checked_add weight score of
              None \<Rightarrow> Inl (Db_Invalid ''draw weight overflow'')
            | Some weight' \<Rightarrow> weigh_scores (hm_insert (sd_participant_id row) weight' weights) (index + 1) rest)))"

definition competition_weighted_draw_participants ::
  "string \<Rightarrow> u64 \<Rightarrow> u64 \<Rightarrow> store \<Rightarrow> db_error + candidate list" where
  "competition_weighted_draw_participants cid generation vote_weight s =
     bind_result (try_i64 ''invalid generation'' generation) (\<lambda>g.
     bind_result (weigh_votes vote_weight [] (take 100001 (member_rows cid g s))) (\<lambda>voted.
     bind_result (admit_gift_members voted (take 100001 (gift_members cid g s))) (\<lambda>admitted.
     bind_result (weigh_scores admitted 0 (take 500001 (credited_rows cid g s))) (\<lambda>weights.
       Inr (map (\<lambda>(key, weight). \<lparr>ca_key = key, ca_weight = weight\<rparr>) (sort_key fst weights))))))"

definition competition_participant_count :: "string \<Rightarrow> u64 \<Rightarrow> store \<Rightarrow> db_error + u64" where
  "competition_participant_count cid generation s =
     bind_result (try_i64 ''invalid generation'' generation) (\<lambda>g.
       (let count = ct_participants (counts_of (cid, g) s) in
        if count < 0 then Inl (Db_Invalid ''invalid participant count'') else Inr (nat count)))"

end
