(* ===== verification/Store_Results.thy ===== *)
theory Store_Results
  imports Store_Lifecycle
begin

text \<open>
  Winner records and the action outbox (\<open>crates/tiktools-core/src/db/sqlite/competitions.rs\<close>). The
  JSON text of an idempotency key is the argument \<open>keys\<close>: what \<open>serde_json\<close> writes for the array of
  the constant tag, the competition and the generation.
\<close>

type_synonym key_text = "string \<Rightarrow> u64 \<Rightarrow> string"

section \<open>Results\<close>

definition result_invalid :: "result_record \<Rightarrow> bool" where
  "result_invalid r \<longleftrightarrow>
     rr_schema_version r \<noteq> 1 \<or> rr_competition_id r = [] \<or> length (rr_competition_id r) > 128 \<or>
     rr_ranking_id r = [] \<or> length (rr_ranking_id r) > 128 \<or> rr_generation r > i64_max \<or>
     rr_finalized_at r > i64_max \<or> length (se_eligible (rr_selection r)) > 100000"

definition user_winner :: "competition_definition \<Rightarrow> bool" where
  "user_winner d \<longleftrightarrow> cd_kind d \<in> {RandomDraw, WeightedDraw, LeaderboardChallenge}"

definition expected_action :: "competition_definition \<Rightarrow> selection \<Rightarrow> winner_action option" where
  "expected_action d s =
     (case se_winner s of
        None \<Rightarrow> None
      | Some winner \<Rightarrow>
        if user_winner d then cd_on_user_win d
        else (case find (\<lambda>opt. od_id opt = winner) (cd_options d) of None \<Rightarrow> None | Some opt \<Rightarrow> od_on_win opt))"

text \<open>The outbox table: primary key and the unique idempotency key.\<close>

definition insert_outbox :: "generation_key \<Rightarrow> outbox_row \<Rightarrow> store \<Rightarrow> db_error + store" where
  "insert_outbox k row s =
     (if hm_has (st_outbox s) k \<or>
         list_ex (\<lambda>(_, other). ob_idempotency_key other = ob_idempotency_key row) (st_outbox s)
      then Inl Db_Sql
      else Inr (s\<lparr>st_outbox := hm_insert k row (st_outbox s)\<rparr>))"

definition queue_action :: "key_text \<Rightarrow> result_record \<Rightarrow> winner_action option \<Rightarrow> store \<Rightarrow> db_error + store" where
  "queue_action keys r action s =
     (case action of
        None \<Rightarrow> Inr s
      | Some a \<Rightarrow> insert_outbox (rr_competition_id r, as_i64 (rr_generation r))
          \<lparr>ob_action_id = wa_action_id a, ob_idempotency_key = keys (rr_competition_id r) (rr_generation r),
           ob_action = Some a, ob_status = ActionPending, ob_created_at = as_i64 (rr_finalized_at r),
           ob_updated_at = as_i64 (rr_finalized_at r)\<rparr> s)"

definition store_competition_result_once ::
  "key_text \<Rightarrow> result_record \<Rightarrow> winner_action option \<Rightarrow> string option \<Rightarrow> store \<Rightarrow>
   store \<times> (db_error + result_record \<times> bool)" where
  "store_competition_result_once keys r action owner s =
     (let cid = rr_competition_id r; g = as_i64 (rr_generation r) in
      if result_invalid r then (s, Inl (Db_Invalid ''invalid competition result''))
      else if \<not> selection_valid (rr_selection r) then (s, Inl (Db_Invalid ''invalid selection''))
      else if (case action of None \<Rightarrow> False
               | Some a \<Rightarrow> action_invalid a \<or> se_winner (rr_selection r) = None)
      then (s, Inl (Db_Invalid ''invalid winner action''))
      else transact s
        (case hm_get (st_results s) (cid, g) of
           Some row \<Rightarrow>
             bind_result (decode_result cid g (rw_ranking_id row) (rw_created_at row) (rw_result row))
               (\<lambda>stored. Inr ((stored, False), Some s))
         | None \<Rightarrow>
           if (case owner of None \<Rightarrow> False | Some o' \<Rightarrow> \<not> owns cid g o' s) then Inl owner_changed
           else (case joined cid s of
               None \<Rightarrow> Inl (Db_Invalid ''competition not found'')
             | Some (dcolumn, scolumn) \<Rightarrow>
               bind_result (decoded dcolumn) (\<lambda>d. bind_result (decoded scolumn) (\<lambda>state.
                 if ls_lifecycle state \<noteq> Finalizing \<or> ls_generation state \<noteq> rr_generation r \<or>
                    cd_ranking_id d \<noteq> rr_ranking_id r \<or> cd_selection_mode d \<noteq> se_mode (rr_selection r) \<or>
                    cd_tie_policy d \<noteq> se_tie_policy (rr_selection r)
                 then Inl (Db_Invalid ''result does not match finalizing competition'')
                 else if action \<noteq> expected_action d (rr_selection r)
                 then Inl (Db_Invalid ''winner action does not match definition'')
                 else
                   (let finished = state\<lparr>ls_lifecycle := Finished, ls_deadline_ms := None,
                          ls_remaining_ms := None\<rparr>;
                        s1 = s\<lparr>st_states := hm_insert cid (Some finished) (st_states s)\<rparr>;
                        row = \<lparr>rw_ranking_id = rr_ranking_id r, rw_created_at = as_i64 (rr_finalized_at r),
                          rw_result = Some r\<rparr>
                    in bind_result (insert_row (cid, g) row (st_results s1)) (\<lambda>results.
                       bind_result (queue_action keys r action (s1\<lparr>st_results := results\<rparr>)) (\<lambda>s2.
                       Inr ((r, True), Some s2)))))))))"

definition load_competition_result :: "string \<Rightarrow> u64 \<Rightarrow> store \<Rightarrow> db_error + result_record option" where
  "load_competition_result cid generation s =
     bind_result (try_i64 ''invalid generation'' generation) (\<lambda>g.
       case hm_get (st_results s) (cid, g) of
         None \<Rightarrow> Inr None
       | Some row \<Rightarrow>
         bind_result (decode_result cid g (rw_ranking_id row) (rw_created_at row) (rw_result row))
           (\<lambda>r. Inr (Some r)))"

fun decode_rows :: "(generation_key \<times> result_row) list \<Rightarrow> db_error + result_record list" where
  "decode_rows [] = Inr []"
| "decode_rows (((cid, g), row) # rest) =
     bind_result (decode_result cid g (rw_ranking_id row) (rw_created_at row) (rw_result row))
       (\<lambda>r. bind_result (decode_rows rest) (\<lambda>rs. Inr (r # rs)))"

definition list_competition_results ::
  "string \<Rightarrow> u64 option \<Rightarrow> nat \<Rightarrow> store \<Rightarrow> db_error + result_record list" where
  "list_competition_results cid before limit s =
     (if limit = 0 \<or> limit > 21 then Inl (Db_Invalid ''invalid result page size'')
      else bind_result (case before of None \<Rightarrow> Inr None
          | Some b \<Rightarrow> bind_result (try_i64 ''invalid result cursor'' b) (\<lambda>i. Inr (Some i))) (\<lambda>cursor.
        decode_rows (take limit (rev (sort_key (\<lambda>((_, g), _). g)
          (filter (\<lambda>((cid', g), _). cid' = cid \<and> (case cursor of None \<Rightarrow> True | Some c \<Rightarrow> g < c))
            (st_results s)))))))"

fun latest_rows ::
  "bool \<Rightarrow> nat \<Rightarrow> (generation_key \<times> result_row) list \<Rightarrow> db_error + result_record list" where
  "latest_rows skip_invalid index [] = Inr []"
| "latest_rows skip_invalid index (((cid, g), row) # rest) =
     (if index \<ge> 128 then Inl (Db_Invalid ''competition result capacity exceeded'')
      else case decode_result cid g (rw_ranking_id row) (rw_created_at row) (rw_result row) of
        Inr r \<Rightarrow> bind_result (latest_rows skip_invalid (index + 1) rest) (\<lambda>rs. Inr (r # rs))
      | Inl err \<Rightarrow> if skip_invalid then latest_rows skip_invalid (index + 1) rest else Inl err)"

definition latest_competition_results_impl :: "bool \<Rightarrow> store \<Rightarrow> db_error + result_record list" where
  "latest_competition_results_impl skip_invalid s =
     (if list_ex (\<lambda>((cid, _), _). hm_get (st_states s) cid = Some None) (st_results s) then Inl Db_Sql
      else latest_rows skip_invalid 0 (take 129 (sort_key (\<lambda>((cid, _), _). cid)
        (filter (\<lambda>((cid, g), _). case hm_get (st_states s) cid of
             Some (Some state) \<Rightarrow> ls_lifecycle state = Finished \<and> g = int (ls_generation state)
           | _ \<Rightarrow> False) (st_results s)))))"

section \<open>The action outbox\<close>

datatype action_claim_outcome =
    ClaimMissing
  | ClaimInvalid string
  | Claimed action_claim

definition try_u64 :: "string \<Rightarrow> int \<Rightarrow> db_error + u64" where
  "try_u64 msg i = (if 0 \<le> i then Inr (nat i) else Inl (Db_Invalid msg))"

definition competition_action :: "string \<Rightarrow> u64 \<Rightarrow> store \<Rightarrow> db_error + action_execution option" where
  "competition_action cid generation s =
     bind_result (try_i64 ''invalid generation'' generation) (\<lambda>g.
       case hm_get (st_outbox s) (cid, g) of
         None \<Rightarrow> Inr None
       | Some row \<Rightarrow>
         bind_result (try_u64 ''invalid action timestamp'' (ob_created_at row)) (\<lambda>created.
         bind_result (try_u64 ''invalid action timestamp'' (ob_updated_at row)) (\<lambda>updated.
           Inr (Some \<lparr>ae_competition_id = cid, ae_generation = as_u64 g, ae_action_id = ob_action_id row,
             ae_status = ob_status row,
             ae_reason = map_option di_reason (hm_get (st_diagnostics s) (cid, g)),
             ae_created_at = created, ae_updated_at = updated\<rparr>))))"

text \<open>\<open>UPDATE competition_action_outbox SET status, updated_at WHERE key AND status\<close>: the row count is one or zero.\<close>

definition set_status ::
  "generation_key \<Rightarrow> action_status \<Rightarrow> action_status \<Rightarrow> int \<Rightarrow> store \<Rightarrow> store option" where
  "set_status k from_status to_status now s =
     (case hm_get (st_outbox s) k of
        None \<Rightarrow> None
      | Some row \<Rightarrow>
        if ob_status row = from_status
        then Some (s\<lparr>st_outbox := hm_insert k (row\<lparr>ob_status := to_status, ob_updated_at := now\<rparr>) (st_outbox s)\<rparr>)
        else None)"

definition put_diagnostic :: "generation_key \<Rightarrow> string \<Rightarrow> int \<Rightarrow> store \<Rightarrow> store" where
  "put_diagnostic k reason now s =
     s\<lparr>st_diagnostics := hm_insert k \<lparr>di_reason = reason, di_updated_at = now\<rparr> (st_diagnostics s)\<rparr>"

definition resolve_uncertain_competition_action ::
  "string \<Rightarrow> u64 \<Rightarrow> action_resolution \<Rightarrow> u64 \<Rightarrow> store \<Rightarrow> store \<times> (db_error + bool)" where
  "resolve_uncertain_competition_action cid generation resolution now s = transact s
     (bind_result (try_i64 ''invalid generation'' generation) (\<lambda>g.
      bind_result (try_i64 ''invalid timestamp'' now) (\<lambda>n.
        (let status = (case resolution of ResolvedCompleted \<Rightarrow> ActionCompleted | ResolvedFailed \<Rightarrow> ActionFailed) in
         Inr (case set_status (cid, g) ActionUncertain status n s of
                None \<Rightarrow> (False, None)
              | Some s' \<Rightarrow> (True, Some s'))))))"

definition allowed_reasons :: "string list" where
  "allowed_reasons =
     [''result_unavailable'', ''competition_unavailable'', ''ranking_unavailable'', ''action_unavailable'',
      ''action_disabled'', ''invalid_inputs'', ''invalid_action'', ''winner_unavailable'',
      ''preparation_interrupted'', ''execution_failed'', ''execution_interrupted'',
      ''operator_marked_uncertain'', ''invalid_outbox_record'', ''action_reference_mismatch'']"

definition record_competition_action_outcome ::
  "string \<Rightarrow> u64 \<Rightarrow> action_status \<Rightarrow> string option \<Rightarrow> int \<Rightarrow> store \<Rightarrow> store \<times> (db_error + bool)" where
  "record_competition_action_outcome cid generation status reason now s = transact s
     (bind_result (try_i64 ''invalid generation'' generation) (\<lambda>g.
        if status \<notin> {ActionCompleted, ActionFailed, ActionUncertain}
        then Inl (Db_Invalid ''invalid action outcome'')
        else if (case reason of None \<Rightarrow> False | Some r \<Rightarrow> r \<notin> set allowed_reasons)
        then Inl (Db_Invalid ''invalid action reason'')
        else (case set_status (cid, g) ActionRunning status now s of
            None \<Rightarrow> Inr (False, None)
          | Some s' \<Rightarrow>
            Inr (True, Some (case reason of None \<Rightarrow> s' | Some r \<Rightarrow> put_diagnostic (cid, g) r now s')))))"

fun generations_u64 :: "generation_key list \<Rightarrow> db_error + (string \<times> u64) list" where
  "generations_u64 [] = Inr []"
| "generations_u64 ((cid, g) # rest) =
     bind_result (try_u64 ''invalid generation'' g)
       (\<lambda>n. bind_result (generations_u64 rest) (\<lambda>items. Inr ((cid, n) # items)))"

definition pending_competition_actions :: "store \<Rightarrow> db_error + (string \<times> u64) list" where
  "pending_competition_actions s =
     generations_u64 (map fst (take 32 (sort_key (\<lambda>((cid, _), row). (ob_created_at row, cid))
       (filter (\<lambda>(_, row). ob_status row = ActionPending) (st_outbox s)))))"

definition mark_competition_action_uncertain ::
  "string \<Rightarrow> u64 \<Rightarrow> int \<Rightarrow> store \<Rightarrow> store \<times> (db_error + bool)" where
  "mark_competition_action_uncertain cid generation now s =
     record_competition_action_outcome cid generation ActionUncertain (Some ''operator_marked_uncertain'') now s"

definition claim_competition_action_detailed ::
  "key_text \<Rightarrow> string \<Rightarrow> u64 \<Rightarrow> int \<Rightarrow> store \<Rightarrow> store \<times> (db_error + action_claim_outcome)" where
  "claim_competition_action_detailed keys cid generation now s = transact s
     (bind_result (try_i64 ''invalid generation'' generation) (\<lambda>g.
        case hm_get (st_outbox s) (cid, g) of
          None \<Rightarrow> Inr (ClaimMissing, None)
        | Some row \<Rightarrow>
          if ob_status row \<noteq> ActionPending then Inr (ClaimMissing, None)
          else
            (let broken = Inr (ClaimInvalid (ob_action_id row),
                 map_option (put_diagnostic (cid, g) ''invalid_outbox_record'' now)
                   (set_status (cid, g) ActionPending ActionFailed now s)) in
             case ob_action row of
               None \<Rightarrow> broken
             | Some a \<Rightarrow>
               if wa_action_id a \<noteq> ob_action_id row \<or> ob_action_id row = [] \<or> length (ob_action_id row) > 128 \<or>
                  ob_idempotency_key row \<noteq> keys cid (as_u64 g)
               then broken
               else Inr (Claimed \<lparr>ac_competition_id = cid, ac_generation = as_u64 g,
                    ac_idempotency_key = ob_idempotency_key row, ac_action = a\<rparr>,
                  set_status (cid, g) ActionPending ActionRunning now s))))"

definition interrupt_row :: "int \<Rightarrow> outbox_row \<Rightarrow> outbox_row" where
  "interrupt_row now row =
     (if ob_status row = ActionRunning then row\<lparr>ob_status := ActionUncertain, ob_updated_at := now\<rparr> else row)"

definition mark_interrupted_competition_actions_uncertain :: "int \<Rightarrow> store \<Rightarrow> store \<times> (db_error + nat)" where
  "mark_interrupted_competition_actions_uncertain now s =
     (s\<lparr>st_outbox := map (\<lambda>(k, row). (k, interrupt_row now row)) (st_outbox s)\<rparr>,
      Inr (length (filter (\<lambda>(_, row). ob_status row = ActionRunning) (st_outbox s))))"

section \<open>Preparing a claimed action\<close>

text \<open>
  The checks of \<open>execute_competition_action\<close> (\<open>services/competition_actions.rs\<close>) on the stored
  result and the definition, before the action itself is looked up: the winner, or the reason
  that is recorded with the failure.
\<close>

definition prepare_winner ::
  "(db_error + result_record option) \<Rightarrow> competition_definition option \<Rightarrow> action_claim \<Rightarrow> string + string" where
  "prepare_winner result definition claim =
     (case result of
        Inl _ \<Rightarrow> Inl ''result_unavailable''
      | Inr None \<Rightarrow> Inl ''result_unavailable''
      | Inr (Some r) \<Rightarrow>
        (case definition of
           None \<Rightarrow> Inl ''competition_unavailable''
         | Some d \<Rightarrow>
           (case se_winner (rr_selection r) of
              None \<Rightarrow> Inl ''winner_unavailable''
            | Some winner \<Rightarrow>
              if (case find (\<lambda>opt. od_id opt = winner) (cd_options d) of None \<Rightarrow> None | Some opt \<Rightarrow> od_on_win opt)
                 \<noteq> Some (ac_action claim)
              then Inl ''action_reference_mismatch'' else Inr winner)))"

end
