(* ===== verification/Store_Effects.thy ===== *)
theory Store_Effects
  imports Store_Gifts Store_Results
begin

text \<open>
  What each transaction can do to the tables: it leaves them alone, or it makes one named change.
  The properties of the store are proved over these changes and not over the methods.
\<close>

section \<open>Votes\<close>

definition ignored_store ::
  "string \<Rightarrow> int \<Rightarrow> string \<Rightarrow> contribution_row \<Rightarrow> store \<Rightarrow> store" where
  "ignored_store cid g identity row s =
     (bump_counts (cid, g) 0 s)\<lparr>st_contributions := hm_insert (cid, g, identity) row (st_contributions s)\<rparr>"

definition voted_store ::
  "string \<Rightarrow> int \<Rightarrow> string \<Rightarrow> string \<Rightarrow> participant_row \<Rightarrow> int \<Rightarrow> contribution_row \<Rightarrow> store \<Rightarrow> store" where
  "voted_store cid g identity participant prow new row s =
     (bump_counts (cid, g) new s)
       \<lparr>st_participants := hm_insert (cid, g, participant) prow (st_participants s),
        st_contributions := hm_insert (cid, g, identity) row (st_contributions s)\<rparr>"

lemma bump_counts_frame [simp]:
  "st_scopes (bump_counts k n s) = st_scopes s"
  "st_definitions (bump_counts k n s) = st_definitions s"
  "st_states (bump_counts k n s) = st_states s"
  "st_integrity (bump_counts k n s) = st_integrity s"
  "st_owners (bump_counts k n s) = st_owners s"
  "st_participants (bump_counts k n s) = st_participants s"
  "st_contributions (bump_counts k n s) = st_contributions s"
  "st_gift_participants (bump_counts k n s) = st_gift_participants s"
  "st_receipts (bump_counts k n s) = st_receipts s"
  "st_combo_prices (bump_counts k n s) = st_combo_prices s"
  "st_combo_counts (bump_counts k n s) = st_combo_counts s"
  "st_combos (bump_counts k n s) = st_combos s"
  "st_scored (bump_counts k n s) = st_scored s"
  "st_results (bump_counts k n s) = st_results s"
  "st_outbox (bump_counts k n s) = st_outbox s"
  "st_diagnostics (bump_counts k n s) = st_diagnostics s"
  by (simp_all add: bump_counts_def Let_def)

text \<open>The outcomes that leave a receipt of an ineligible command, and those that leave nothing.\<close>

definition ignored_outcome :: "participation_outcome \<Rightarrow> bool" where
  "ignored_outcome o' \<longleftrightarrow> o' \<in> {Closed, SwitchForbidden, VoteLimit}"

lemma record_ignored_effect:
  assumes "record_ignored_command cid g identity participant opt now outcome s = Inr ((res, prior), Some s')"
  shows "res = Some outcome \<and> prior = None \<and> hm_get (st_contributions s) (cid, g, identity) = None \<and>
    0 \<le> ct_contributions (counts_of (cid, g) s) \<and> ct_contributions (counts_of (cid, g) s) < 500000 \<and>
    s' = ignored_store cid g identity
      \<lparr>cn_participant_id = participant, cn_option_id = opt, cn_created_at = as_i64 now\<rparr> s"
  using assms
  by (auto simp: record_ignored_command_def Let_def bind_result_Inr insert_row_Inr ignored_store_def
      split: if_splits)

lemma record_ignored_None:
  "record_ignored_command cid g identity participant opt now outcome s = Inr (x, None) \<Longrightarrow> x = (Some NoCapacity, None)"
  by (auto simp: record_ignored_command_def Let_def bind_result_Inr split: if_splits)

lemma accept_vote_effect:
  assumes "accept_vote cid g input opt votes switched new prior s = Inr ((res, prior'), so)"
  shows "res = Some (Accepted opt (as_u64 votes) switched) \<and> prior' = prior \<and>
    hm_get (st_contributions s) (cid, g, pa_event_identity input) = None \<and>
    so = Some (voted_store cid g (pa_event_identity input) (pa_participant_id input)
      \<lparr>pr_option_id = opt, pr_votes = votes, pr_updated_at = as_i64 (pa_received_at input)\<rparr> new
      \<lparr>cn_participant_id = pa_participant_id input, cn_option_id = opt,
       cn_created_at = as_i64 (pa_received_at input)\<rparr> s)"
  using assms by (auto simp: accept_vote_def Let_def bind_result_Inr insert_row_Inr voted_store_def)

text \<open>The votes an accepted command leaves its participant with.\<close>

definition next_votes :: "competition_definition \<Rightarrow> string \<Rightarrow> participant_row option \<Rightarrow> int" where
  "next_votes d opt old =
     (case old of None \<Rightarrow> 1
      | Some row \<Rightarrow> if as_u64 (pr_votes row) \<ge> cd_vote_limit d then pr_votes row else pr_votes row + 1)"

definition vote_allowed :: "competition_definition \<Rightarrow> string \<Rightarrow> participant_row option \<Rightarrow> bool" where
  "vote_allowed d opt old =
     (case old of None \<Rightarrow> True
      | Some row \<Rightarrow> 0 < pr_votes row \<and> (pr_option_id row = opt \<or> cd_allow_switch d) \<and>
          (as_u64 (pr_votes row) < cd_vote_limit d \<or> pr_option_id row \<noteq> opt))"

lemma cast_vote_effect:
  assumes "cast_vote cid g d input opt s = Inr ((res, prior), Some s')"
  shows "hm_get (st_contributions s) (cid, g, pa_event_identity input) = None \<and>
    0 \<le> ct_contributions (counts_of (cid, g) s) \<and> ct_contributions (counts_of (cid, g) s) < 500000 \<and>
    ((\<exists>o'. res = Some o' \<and> ignored_outcome o') \<and>
       s' = ignored_store cid g (pa_event_identity input)
         \<lparr>cn_participant_id = pa_participant_id input, cn_option_id = opt,
          cn_created_at = as_i64 (pa_received_at input)\<rparr> s \<or>
     (let member = (cid, g, pa_participant_id input); old = hm_get (st_participants s) member;
        gift = hm_has (st_gift_participants s) member in
      res = Some (Accepted opt (as_u64 (next_votes d opt old)) (case old of None \<Rightarrow> False | Some row \<Rightarrow> pr_option_id row \<noteq> opt)) \<and>
      prior = map_option (\<lambda>row. (pr_option_id row, as_u64 (pr_votes row))) old \<and>
      vote_allowed d opt old \<and> 0 \<le> ct_participants (counts_of (cid, g) s) \<and>
      (old = None \<longrightarrow> gift \<or> ct_participants (counts_of (cid, g) s) < 100000) \<and>
      s' = voted_store cid g (pa_event_identity input) (pa_participant_id input)
        \<lparr>pr_option_id = opt, pr_votes = next_votes d opt old, pr_updated_at = as_i64 (pa_received_at input)\<rparr>
        (if old = None \<and> \<not> gift then 1 else 0)
        \<lparr>cn_participant_id = pa_participant_id input, cn_option_id = opt,
         cn_created_at = as_i64 (pa_received_at input)\<rparr> s))"
proof (cases "hm_get (st_participants s) (cid, g, pa_participant_id input)")
  case None
  then show ?thesis using assms
    by (auto simp: cast_vote_def Let_def next_votes_def vote_allowed_def not_le
        dest!: accept_vote_effect split: if_splits)
next
  case (Some row)
  let ?ignore = "\<lambda>o'. record_ignored_command cid g (pa_event_identity input) (pa_participant_id input) opt
      (pa_received_at input) o' s"
  have c: "0 \<le> ct_contributions (counts_of (cid, g) s)" "0 \<le> ct_participants (counts_of (cid, g) s)"
    "ct_contributions (counts_of (cid, g) s) < 500000"
    using assms by (auto simp: cast_vote_def Let_def split: if_splits)
  consider (switch) "?ignore SwitchForbidden = Inr ((res, prior), Some s')"
    | (limit) "?ignore VoteLimit = Inr ((res, prior), Some s')"
    | (accept) "vote_allowed d opt (Some row)"
      "accept_vote cid g input opt (next_votes d opt (Some row)) (pr_option_id row \<noteq> opt) 0
         (Some (pr_option_id row, as_u64 (pr_votes row))) s = Inr ((res, prior), Some s')"
    using assms Some
    by (auto simp: cast_vote_def Let_def next_votes_def vote_allowed_def split: if_splits)
  then show ?thesis
  proof cases
    case switch
    then show ?thesis using record_ignored_effect [OF switch] by (simp add: ignored_outcome_def)
  next
    case limit
    then show ?thesis using record_ignored_effect [OF limit] by (simp add: ignored_outcome_def)
  next
    case accept
    then show ?thesis using accept_vote_effect [OF accept(2)] Some c by simp
  qed
qed

text \<open>What a routed command did: nothing, an ignored receipt, or a vote.\<close>

lemma route_command_effect:
  assumes "route_competition_command lower cid input owner s = (s', res)" and ne: "s' \<noteq> s"
  shows "\<exists>g opt d state. hm_get (st_contributions s) (cid, g, pa_event_identity input) = None \<and>
       0 \<le> ct_contributions (counts_of (cid, g) s) \<and> ct_contributions (counts_of (cid, g) s) < 500000 \<and>
       scoped cid (pa_creator_id input) (pa_room_id input) s = Some (Some d, Some state) \<and>
       g = int (ls_generation state) \<and> option_for_command lower d (pa_command input) = Some opt \<and>
       ((\<exists>o' prior. res = Inr (Some o', prior) \<and> ignored_outcome o') \<and>
         s' = ignored_store cid g (pa_event_identity input)
           \<lparr>cn_participant_id = pa_participant_id input, cn_option_id = opt,
            cn_created_at = as_i64 (pa_received_at input)\<rparr> s \<or>
        (let member = (cid, g, pa_participant_id input); old = hm_get (st_participants s) member;
           gift = hm_has (st_gift_participants s) member in
         res = Inr (Some (Accepted opt (as_u64 (next_votes d opt old))
            (case old of None \<Rightarrow> False | Some row \<Rightarrow> pr_option_id row \<noteq> opt)),
            map_option (\<lambda>row. (pr_option_id row, as_u64 (pr_votes row))) old) \<and>
         ls_lifecycle state = Active \<and> \<not> is_due (pa_received_at input) state \<and>
         vote_allowed d opt old \<and> 0 \<le> ct_participants (counts_of (cid, g) s) \<and>
         (old = None \<longrightarrow> gift \<or> ct_participants (counts_of (cid, g) s) < 100000) \<and>
         s' = voted_store cid g (pa_event_identity input) (pa_participant_id input)
           \<lparr>pr_option_id = opt, pr_votes = next_votes d opt old, pr_updated_at = as_i64 (pa_received_at input)\<rparr>
           (if old = None \<and> \<not> gift then 1 else 0)
           \<lparr>cn_participant_id = pa_participant_id input, cn_option_id = opt,
            cn_created_at = as_i64 (pa_received_at input)\<rparr> s))"
proof -
  obtain r prior where body: "route_command_body lower cid input owner s = Inr ((r, prior), Some s')"
    and res: "res = Inr (r, prior)"
    using assms ne by (auto simp: route_competition_command_def transact_cases split: if_splits)
  obtain d state g where d: "scoped cid (pa_creator_id input) (pa_room_id input) s = Some (Some d, Some state)"
    and open_: "\<not> closed_phase (ls_lifecycle state)" and g: "g = int (ls_generation state)"
    and none: "hm_get (st_contributions s) (cid, g, pa_event_identity input) = None"
    and rest: "(if ls_lifecycle state \<noteq> Active \<or> is_due (pa_received_at input) state
       then (case option_for_command lower d (pa_command input) of
           None \<Rightarrow> Inr ((Some Closed, None), None)
         | Some o' \<Rightarrow> record_ignored_command cid g (pa_event_identity input)
             (pa_participant_id input) o' (pa_received_at input) Closed s)
       else (case option_for_command lower d (pa_command input) of
           None \<Rightarrow> Inr ((Some UnknownCommand, None), None)
         | Some o' \<Rightarrow> cast_vote cid g d input o' s)) = Inr ((r, prior), Some s')"
    using body
    by (auto simp: route_command_body_def bind_result_Inr decoded_def try_i64_Inr Let_def
        split: option.splits if_splits)
  obtain opt where opt: "option_for_command lower d (pa_command input) = Some opt"
    using rest by (auto split: if_splits option.splits)
  show ?thesis
  proof (cases "ls_lifecycle state \<noteq> Active \<or> is_due (pa_received_at input) state")
    case True
    then have "record_ignored_command cid g (pa_event_identity input)
        (pa_participant_id input) opt (pa_received_at input) Closed s = Inr ((r, prior), Some s')"
      using rest opt by simp
    note e = record_ignored_effect [OF this]
    show ?thesis
      by (rule exI [of _ g], rule exI [of _ opt], rule exI [of _ d], rule exI [of _ state])
        (use e d g none opt res in \<open>simp add: ignored_outcome_def\<close>)
  next
    case False
    then have "cast_vote cid g d input opt s = Inr ((r, prior), Some s')" using rest opt by simp
    note e = cast_vote_effect [OF this]
    show ?thesis
      by (rule exI [of _ g], rule exI [of _ opt], rule exI [of _ d], rule exI [of _ state])
        (use e d g none opt res False in \<open>auto simp: Let_def\<close>)
  qed
qed

lemma route_command_cases:
  assumes "route_competition_command lower cid input owner s = (s', res)" and "s' \<noteq> s"
  obtains (ignored) g opt d state o' prior where
      "hm_get (st_contributions s) (cid, g, pa_event_identity input) = None"
      "0 \<le> ct_contributions (counts_of (cid, g) s)" "ct_contributions (counts_of (cid, g) s) < 500000"
      "scoped cid (pa_creator_id input) (pa_room_id input) s = Some (Some d, Some state)"
      "g = int (ls_generation state)" "option_for_command lower d (pa_command input) = Some opt"
      "res = Inr (Some o', prior)" "ignored_outcome o'"
      "s' = ignored_store cid g (pa_event_identity input)
         \<lparr>cn_participant_id = pa_participant_id input, cn_option_id = opt,
          cn_created_at = as_i64 (pa_received_at input)\<rparr> s"
  | (voted) g opt d state old where
      "hm_get (st_contributions s) (cid, g, pa_event_identity input) = None"
      "0 \<le> ct_contributions (counts_of (cid, g) s)" "ct_contributions (counts_of (cid, g) s) < 500000"
      "scoped cid (pa_creator_id input) (pa_room_id input) s = Some (Some d, Some state)"
      "g = int (ls_generation state)" "option_for_command lower d (pa_command input) = Some opt"
      "old = hm_get (st_participants s) (cid, g, pa_participant_id input)"
      "res = Inr (Some (Accepted opt (as_u64 (next_votes d opt old))
         (case old of None \<Rightarrow> False | Some row \<Rightarrow> pr_option_id row \<noteq> opt)),
         map_option (\<lambda>row. (pr_option_id row, as_u64 (pr_votes row))) old)"
      "ls_lifecycle state = Active" "\<not> is_due (pa_received_at input) state"
      "vote_allowed d opt old" "0 \<le> ct_participants (counts_of (cid, g) s)"
      "old = None \<longrightarrow> hm_has (st_gift_participants s) (cid, g, pa_participant_id input) \<or>
         ct_participants (counts_of (cid, g) s) < 100000"
      "s' = voted_store cid g (pa_event_identity input) (pa_participant_id input)
         \<lparr>pr_option_id = opt, pr_votes = next_votes d opt old, pr_updated_at = as_i64 (pa_received_at input)\<rparr>
         (if old = None \<and> \<not> hm_has (st_gift_participants s) (cid, g, pa_participant_id input) then 1 else 0)
         \<lparr>cn_participant_id = pa_participant_id input, cn_option_id = opt,
          cn_created_at = as_i64 (pa_received_at input)\<rparr> s"
  using route_command_effect [OF assms, unfolded Let_def]
proof (elim exE conjE disjE, goal_cases)
  case (1 g opt d state o' prior)
  then show ?case by (intro ignored)
next
  case (2 g opt d state)
  then show ?case by (intro voted [OF _ _ _ _ _ _ refl])
qed

section \<open>Scored events\<close>

definition scored_store ::
  "string \<Rightarrow> int \<Rightarrow> string \<Rightarrow> string \<Rightarrow> scored_row \<Rightarrow> store \<Rightarrow> store" where
  "scored_store cid g source identity row s =
     (bump_counts (cid, g) 0 s)\<lparr>st_scored := hm_insert (cid, g, source, identity) row (st_scored s)\<rparr>"

lemma record_scored_effect:
  assumes "record_scored cid g state input s = Inr (res, Some s')"
  shows "\<exists>opt. hm_get (st_scored s) (cid, g, si_source input, si_event_identity input) = None \<and>
    0 \<le> ct_contributions (counts_of (cid, g) s) \<and> ct_contributions (counts_of (cid, g) s) < 500000 \<and>
    opt = (if ls_lifecycle state \<noteq> Active \<or> is_due (si_received_at input) state then None
           else map_option pr_option_id (hm_get (st_participants s) (cid, g, si_participant_id input))) \<and>
    res = Some (if ls_lifecycle state \<noteq> Active \<or> is_due (si_received_at input) state then ScoredClosed
                else case opt of Some o' \<Rightarrow> ScoredAccepted o' | None \<Rightarrow> ScoredUnassigned) \<and>
    s' = scored_store cid g (si_source input) (si_event_identity input)
      \<lparr>sd_participant_id = si_participant_id input, sd_option_id = opt,
       sd_score = to_string (si_score input), sd_created_at = as_i64 (si_received_at input)\<rparr> s"
  using assms
  by (auto simp: record_scored_def Let_def bind_result_Inr insert_row_Inr scored_store_def split: if_splits)

lemma route_score_effect:
  assumes "route_competition_score cid input owner s = (s', res)" and ne: "s' \<noteq> s"
  shows "\<exists>g opt. hm_get (st_scored s) (cid, g, si_source input, si_event_identity input) = None \<and>
    si_source input \<in> {''tiktok.like'', ''tiktok.share''} \<and>
    0 \<le> ct_contributions (counts_of (cid, g) s) \<and> ct_contributions (counts_of (cid, g) s) < 500000 \<and>
    (opt \<noteq> None \<longrightarrow> opt = map_option pr_option_id (hm_get (st_participants s) (cid, g, si_participant_id input))) \<and>
    (\<forall>o'. res = Inr (Some (ScoredAccepted o')) \<longleftrightarrow> opt = Some o') \<and>
    s' = scored_store cid g (si_source input) (si_event_identity input)
      \<lparr>sd_participant_id = si_participant_id input, sd_option_id = opt,
       sd_score = to_string (si_score input), sd_created_at = as_i64 (si_received_at input)\<rparr> s"
proof -
  obtain r g state where rec: "record_scored cid g state input s = Inr (r, Some s')" and res: "res = Inr r"
    and source: "si_source input \<in> {''tiktok.like'', ''tiktok.share''}"
    using assms
    by (auto simp: route_competition_score_def scored_input_invalid_def transact_cases bind_result_Inr
        split: if_splits option.splits)
  from record_scored_effect [OF rec] obtain opt where e:
    "hm_get (st_scored s) (cid, g, si_source input, si_event_identity input) = None"
    "0 \<le> ct_contributions (counts_of (cid, g) s)" "ct_contributions (counts_of (cid, g) s) < 500000"
    "opt = (if ls_lifecycle state \<noteq> Active \<or> is_due (si_received_at input) state then None
           else map_option pr_option_id (hm_get (st_participants s) (cid, g, si_participant_id input)))"
    "r = Some (if ls_lifecycle state \<noteq> Active \<or> is_due (si_received_at input) state then ScoredClosed
                else case opt of Some o' \<Rightarrow> ScoredAccepted o' | None \<Rightarrow> ScoredUnassigned)"
    "s' = scored_store cid g (si_source input) (si_event_identity input)
      \<lparr>sd_participant_id = si_participant_id input, sd_option_id = opt,
       sd_score = to_string (si_score input), sd_created_at = as_i64 (si_received_at input)\<rparr> s"
    by blast
  have "res = Inr (Some (ScoredAccepted o')) \<longleftrightarrow> opt = Some o'" for o'
    using e(4,5) res by (auto split: option.splits if_splits)
  then show ?thesis using e source
    by (intro exI [of _ g] exI [of _ opt]) (auto split: if_splits)
qed

lemma route_score_cases:
  assumes "route_competition_score cid input owner s = (s', res)" and "s' \<noteq> s"
  obtains g opt where "hm_get (st_scored s) (cid, g, si_source input, si_event_identity input) = None"
    "si_source input \<in> {''tiktok.like'', ''tiktok.share''}"
    "0 \<le> ct_contributions (counts_of (cid, g) s)" "ct_contributions (counts_of (cid, g) s) < 500000"
    "opt \<noteq> None \<longrightarrow> opt = map_option pr_option_id (hm_get (st_participants s) (cid, g, si_participant_id input))"
    "\<forall>o'. res = Inr (Some (ScoredAccepted o')) \<longleftrightarrow> opt = Some o'"
    "s' = scored_store cid g (si_source input) (si_event_identity input)
      \<lparr>sd_participant_id = si_participant_id input, sd_option_id = opt,
       sd_score = to_string (si_score input), sd_created_at = as_i64 (si_received_at input)\<rparr> s"
  using route_score_effect [OF assms] by (elim exE conjE) (rule that)

section \<open>Gifts\<close>

definition gift_store ::
  "string \<Rightarrow> int \<Rightarrow> gift_input \<Rightarrow> bool \<Rightarrow> (string \<times> u64) option \<Rightarrow>
   (combo_key, string) hmap \<Rightarrow> (combo_key, combo_row) hmap \<Rightarrow> (generation_key, int) hmap \<Rightarrow> store \<Rightarrow> store" where
  "gift_store cid g input new credited prices combos combo_counts s =
     (bump_counts (cid, g) (if new then 1 else 0) s)
       \<lparr>st_combo_prices := prices, st_combos := combos, st_combo_counts := combo_counts,
        st_gift_participants := (if new
          then hm_insert (cid, g, gi_participant_id input) () (st_gift_participants s)
          else st_gift_participants s),
        st_receipts := hm_insert (cid, g, gi_event_identity input) (gift_receipt input) (st_receipts s),
        st_scored := (case credited of
            None \<Rightarrow> st_scored s
          | Some (opt, points) \<Rightarrow> hm_insert (cid, g, ''tiktok.gift'', gi_event_identity input)
              \<lparr>sd_participant_id = gi_participant_id input, sd_option_id = Some opt,
               sd_score = to_string points, sd_created_at = as_i64 (gi_received_at input)\<rparr> (st_scored s))\<rparr>"

definition known_member :: "member_key \<Rightarrow> store \<Rightarrow> bool" where
  "known_member k s \<longleftrightarrow> hm_has (st_participants s) k \<or> hm_has (st_gift_participants s) k"

lemma record_gift_effect:
  assumes "record_gift cid g input outcome credited points s = Inr (res, Some s')"
  shows "res = Some outcome \<and> hm_get (st_receipts s) (cid, g, gi_event_identity input) = None \<and>
    (credited \<noteq> None \<longrightarrow> hm_get (st_scored s) (cid, g, ''tiktok.gift'', gi_event_identity input) = None) \<and>
    (let new = (credited \<noteq> None \<and> \<not> known_member (cid, g, gi_participant_id input) s) in
     (new \<longrightarrow> ct_participants (counts_of (cid, g) s) < 100000) \<and>
     s' = gift_store cid g input new (map_option (\<lambda>opt. (opt, points)) credited)
       (st_combo_prices s) (st_combos s) (st_combo_counts s) s)"
proof (cases credited)
  case None
  then show ?thesis using assms
    by (auto simp: record_gift_def Let_def bind_result_Inr insert_row_Inr gift_store_def bump_counts_def
        counts_of_def)
next
  case (Some opt)
  then show ?thesis using assms
    by (auto simp: record_gift_def Let_def bind_result_Inr insert_row_Inr gift_store_def bump_counts_def
        counts_of_def known_member_def split: if_splits)
qed

text \<open>The combo tables after a packet, and nothing else.\<close>

definition combo_frame :: "store \<Rightarrow> store \<Rightarrow> bool" where
  "combo_frame s s' \<longleftrightarrow> s' = s\<lparr>st_combo_prices := st_combo_prices s', st_combos := st_combos s',
     st_combo_counts := st_combo_counts s'\<rparr>"

lemma combo_frame_trans: "combo_frame s s' \<Longrightarrow> combo_frame s' s'' \<Longrightarrow> combo_frame s s''"
  unfolding combo_frame_def by (cases s; cases s'; cases s'') simp

lemma fix_price_frame: "fix_price cid g input s = Inr s' \<Longrightarrow> combo_frame s s'"
  by (auto simp: fix_price_def combo_frame_def split: option.splits if_splits)

lemma previous_combo_frame: "previous_combo gk k s = Inr (old, s') \<Longrightarrow> combo_frame s s'"
  by (auto simp: previous_combo_def combo_frame_def Let_def split: option.splits if_splits)

lemma advance_combo_frame:
  assumes "advance_combo cid generation participant gift combo observed price s = Inr (delta, s')"
  shows "combo_frame s s'"
proof -
  obtain gk k old s1 row where "previous_combo gk k s = Inr (old, s1)"
    "s' = s1\<lparr>st_combos := hm_insert k row (st_combos s1)\<rparr>"
    using assms
    by (auto simp: advance_combo_def Let_def bind_result_Inr split: if_splits prod.splits)
  then show ?thesis using previous_combo_frame [of gk k s old s1] combo_frame_trans [of s s1 s']
    by (simp add: combo_frame_def)
qed

lemma combo_frame_store:
  "combo_frame s s' \<Longrightarrow> gift_store cid g input new credited prices combos cc s' =
     gift_store cid g input new credited prices combos cc s"
  unfolding combo_frame_def
  by (cases s; cases s'; cases credited) (simp_all add: gift_store_def bump_counts_def counts_of_def Let_def case_prod_beta)

lemma combo_frame_tables:
  assumes "combo_frame s s'"
  shows "st_counts s' = st_counts s" "st_participants s' = st_participants s"
    "st_gift_participants s' = st_gift_participants s" "st_receipts s' = st_receipts s"
    "st_scored s' = st_scored s"
  using assms unfolding combo_frame_def by (cases s; cases s'; simp)+

lemma credit_gift_effect:
  assumes "credit_gift cid g dcolumn state input score s = Inr (res, Some s')"
  shows "\<exists>credited prices combos cc. hm_get (st_receipts s) (cid, g, gi_event_identity input) = None \<and>
    (\<forall>opt points. res = Some (GiftAccepted opt points) \<longleftrightarrow> credited = Some (opt, points)) \<and>
    (credited \<noteq> None \<longrightarrow> hm_get (st_scored s) (cid, g, ''tiktok.gift'', gi_event_identity input) = None) \<and>
    (let new = (credited \<noteq> None \<and> \<not> known_member (cid, g, gi_participant_id input) s) in
     (new \<longrightarrow> ct_participants (counts_of (cid, g) s) < 100000) \<and>
     s' = gift_store cid g input new credited prices combos cc s)"
proof -
  obtain s1 s2 delta points d where steps: "fix_price cid g input s = Inr s1"
    "advance_combo cid (ls_generation state) (gi_participant_id input) (gi_gift_id input)
       (gi_group_id input) (gi_observed_quantity input) (Some (gi_price input)) s1 = Inr (delta, s2)"
    and rest: "(let ended = (ls_lifecycle state \<noteq> Active \<or> is_due (gi_received_at input) state);
            opt = (if ended then None else gift_option cid g d input s2);
            outcome = (if ended then GiftClosed
                       else if points = 0 then GiftZero
                       else case opt of Some o' \<Rightarrow> GiftAccepted o' points | None \<Rightarrow> GiftUnassigned);
            credited = (case outcome of GiftAccepted _ _ \<Rightarrow> opt | _ \<Rightarrow> None)
        in record_gift cid g input outcome credited points s2) = Inr (res, Some s')"
    using assms by (auto simp: credit_gift_def bind_result_Inr split: prod.splits)
  define opt where "opt = (if ls_lifecycle state \<noteq> Active \<or> is_due (gi_received_at input) state \<or> points = 0
      then None else gift_option cid g d input s2)"
  obtain outcome where rec: "record_gift cid g input outcome opt points s2 = Inr (res, Some s')"
    and out: "\<And>o' n. outcome = GiftAccepted o' n \<longleftrightarrow> map_option (\<lambda>opt. (opt, points)) opt = Some (o', n)"
    using rest unfolding Let_def opt_def by (auto split: if_splits option.splits)
  have fr: "combo_frame s s2"
    using combo_frame_trans fix_price_frame [OF steps(1)] advance_combo_frame [OF steps(2)] by blast
  note t = combo_frame_tables [OF fr]
  have [simp]: "counts_of k s2 = counts_of k s" "known_member m s2 = known_member m s" for k m
    using t by (simp_all add: counts_of_def known_member_def)
  let ?c = "map_option (\<lambda>opt. (opt, points)) opt"
  let ?new = "opt \<noteq> None \<and> \<not> known_member (cid, g, gi_participant_id input) s"
  have r: "res = Some outcome" "hm_get (st_receipts s) (cid, g, gi_event_identity input) = None"
    "opt \<noteq> None \<longrightarrow> hm_get (st_scored s) (cid, g, ''tiktok.gift'', gi_event_identity input) = None"
    "?new \<longrightarrow> ct_participants (counts_of (cid, g) s) < 100000"
    "s' = gift_store cid g input ?new ?c (st_combo_prices s2) (st_combos s2) (st_combo_counts s2) s"
    using record_gift_effect [OF rec] t combo_frame_store [OF fr] by (simp_all add: Let_def)
  have c: "?c \<noteq> None \<longleftrightarrow> opt \<noteq> None" by simp
  show ?thesis
  proof (intro exI conjI)
    show "hm_get (st_receipts s) (cid, g, gi_event_identity input) = None" by (rule r(2))
    show "\<forall>o' n. res = Some (GiftAccepted o' n) \<longleftrightarrow> ?c = Some (o', n)" using r(1) out by blast
    show "?c \<noteq> None \<longrightarrow> hm_get (st_scored s) (cid, g, ''tiktok.gift'', gi_event_identity input) = None"
      unfolding c by (rule r(3))
    show "let new = (?c \<noteq> None \<and> \<not> known_member (cid, g, gi_participant_id input) s) in
     (new \<longrightarrow> ct_participants (counts_of (cid, g) s) < 100000) \<and>
     s' = gift_store cid g input new ?c (st_combo_prices s2) (st_combos s2) (st_combo_counts s2) s"
      unfolding Let_def c using r(4,5) by blast
  qed
qed

lemma route_gift_effect:
  assumes "route_competition_gift cid input owner score s = (s', res)" and ne: "s' \<noteq> s"
  shows "\<exists>g credited prices combos cc.
    0 \<le> ct_contributions (counts_of (cid, g) s) \<and> ct_contributions (counts_of (cid, g) s) < 500000 \<and>
    hm_get (st_receipts s) (cid, g, gi_event_identity input) = None \<and>
    (\<forall>opt points. res = Inr (Some (GiftAccepted opt points)) \<longleftrightarrow> credited = Some (opt, points)) \<and>
    (credited \<noteq> None \<longrightarrow> hm_get (st_scored s) (cid, g, ''tiktok.gift'', gi_event_identity input) = None) \<and>
    (let new = (credited \<noteq> None \<and> \<not> known_member (cid, g, gi_participant_id input) s) in
     (new \<longrightarrow> ct_participants (counts_of (cid, g) s) < 100000) \<and>
     s' = gift_store cid g input new credited prices combos cc s)"
proof -
  obtain r g dcolumn state where rec: "credit_gift cid g dcolumn state input score s = Inr (r, Some s')"
    and res: "res = Inr r"
    and c: "0 \<le> ct_contributions (counts_of (cid, g) s)" "ct_contributions (counts_of (cid, g) s) < 500000"
    using assms
    by (auto simp: route_competition_gift_def transact_cases bind_result_Inr Let_def not_less not_le
        split: if_splits option.splits)
  from credit_gift_effect [OF rec] obtain credited prices combos cc where e:
    "hm_get (st_receipts s) (cid, g, gi_event_identity input) = None"
    "\<forall>opt points. r = Some (GiftAccepted opt points) \<longleftrightarrow> credited = Some (opt, points)"
    "credited \<noteq> None \<longrightarrow> hm_get (st_scored s) (cid, g, ''tiktok.gift'', gi_event_identity input) = None"
    "let new = (credited \<noteq> None \<and> \<not> known_member (cid, g, gi_participant_id input) s) in
     (new \<longrightarrow> ct_participants (counts_of (cid, g) s) < 100000) \<and>
     s' = gift_store cid g input new credited prices combos cc s"
    by blast
  have "\<forall>opt points. res = Inr (Some (GiftAccepted opt points)) \<longleftrightarrow> credited = Some (opt, points)"
    using e(2) res by simp
  then show ?thesis using c e by blast
qed

lemma route_gift_cases:
  assumes "route_competition_gift cid input owner score s = (s', res)" and "s' \<noteq> s"
  obtains g credited prices combos cc where
    "0 \<le> ct_contributions (counts_of (cid, g) s)" "ct_contributions (counts_of (cid, g) s) < 500000"
    "hm_get (st_receipts s) (cid, g, gi_event_identity input) = None"
    "\<forall>opt points. res = Inr (Some (GiftAccepted opt points)) \<longleftrightarrow> credited = Some (opt, points)"
    "credited \<noteq> None \<longrightarrow> hm_get (st_scored s) (cid, g, ''tiktok.gift'', gi_event_identity input) = None"
    "credited \<noteq> None \<and> \<not> known_member (cid, g, gi_participant_id input) s \<longrightarrow>
       ct_participants (counts_of (cid, g) s) < 100000"
    "s' = gift_store cid g input (credited \<noteq> None \<and> \<not> known_member (cid, g, gi_participant_id input) s)
       credited prices combos cc s"
  using route_gift_effect [OF assms, unfolded Let_def] by (elim exE conjE) (rule that)

section \<open>What a change says about its event\<close>

lemma route_command_named:
  assumes "route_competition_command lower cid input owner s = (s', res)" and "s' \<noteq> s"
  shows "pa_participant_id input \<noteq> [] \<and> length (pa_participant_id input) \<le> 512"
  using assms by (auto simp: route_competition_command_def input_invalid_def split: if_splits)

lemma route_gift_named:
  assumes "route_competition_gift cid input owner score s = (s', res)" and "s' \<noteq> s"
  shows "gi_participant_id input \<noteq> [] \<and> length (gi_participant_id input) \<le> 512"
  using assms
  by (auto simp: route_competition_gift_def gift_input_invalid_def input_invalid_def split: if_splits)

lemma record_gift_outcome:
  "record_gift cid g input outcome credited points s = Inr (Some (GiftAccepted opt n), so) \<Longrightarrow>
     outcome = GiftAccepted opt n"
  by (auto simp: record_gift_def Let_def bind_result_Inr split: if_splits option.splits)

text \<open>The points of an accepted gift are what the engine scored, and they are not zero.\<close>

lemma credit_gift_points:
  assumes "credit_gift cid g dcolumn state input score s = Inr (Some (GiftAccepted opt points), so)"
  shows "0 < points \<and> (\<exists>quantity diamonds. score quantity diamonds (gi_gift_id input) = Inr points)"
proof -
  obtain delta opt' s2 points' outcome credited where points: "gift_score score delta (gi_gift_id input) = Inr points'"
    and out: "outcome = (if ls_lifecycle state \<noteq> Active \<or> is_due (gi_received_at input) state then GiftClosed
         else if points' = 0 then GiftZero
         else case opt' of Some o' \<Rightarrow> GiftAccepted o' points' | None \<Rightarrow> GiftUnassigned)"
    and rec: "record_gift cid g input outcome credited points' s2 = Inr (Some (GiftAccepted opt points), so)"
    using assms unfolding credit_gift_def Let_def bind_result_Inr split_paired_Ex prod.case by blast
  have "points' = points" and "points \<noteq> 0"
    using record_gift_outcome [OF rec] out by (auto split: if_splits option.splits)
  then show ?thesis using points
    by (auto simp: gift_score_def split: if_splits option.splits)
qed

lemma route_gift_points:
  assumes "route_competition_gift cid input owner score s = (s', Inr (Some (GiftAccepted opt points)))" and "s' \<noteq> s"
  shows "0 < points \<and> (\<exists>quantity diamonds. score quantity diamonds (gi_gift_id input) = Inr points)"
proof -
  obtain g dcolumn state so where "credit_gift cid g dcolumn state input score s =
      Inr (Some (GiftAccepted opt points), so)"
    using assms
    by (auto simp: route_competition_gift_def transact_cases bind_result_Inr Let_def
        split: if_splits option.splits)
  then show ?thesis by (rule credit_gift_points)
qed

lemma hm_insert_changes: "hm_get m k = None \<Longrightarrow> hm_insert k v m \<noteq> m"
  by (metis hm_get_insert option.distinct(1))

lemma cast_vote_accepted:
  assumes "cast_vote cid g d input opt' s = Inr ((Some (Accepted opt votes switched), prior), so)"
  shows "\<exists>s'. so = Some s'"
  using assms
  by (auto simp: cast_vote_def accept_vote_def record_ignored_command_def Let_def bind_result_Inr
      split: if_splits option.splits)

lemma accepted_changes:
  assumes "route_competition_command lower cid input owner s = (s', Inr (Some (Accepted opt votes switched), prior))"
  shows "s' \<noteq> s"
proof -
  obtain g d opt' so where cast: "cast_vote cid g d input opt' s = Inr ((Some (Accepted opt votes switched), prior), so)"
    and so: "s' = (case so of None \<Rightarrow> s | Some t \<Rightarrow> t)"
    using assms
    by (auto simp: route_competition_command_def route_command_body_def transact_cases bind_result_Inr
        record_ignored_command_def Let_def split: if_splits option.splits)
  then obtain t where t: "so = Some t" "s' = t" using cast_vote_accepted [OF cast] by auto
  note e = cast_vote_effect [OF cast [unfolded t(1)]]
  then have "hm_get (st_contributions s) (cid, g, pa_event_identity input) = None"
    and "\<exists>row. st_contributions t = hm_insert (cid, g, pa_event_identity input) row (st_contributions s)"
    by (auto simp: Let_def ignored_store_def voted_store_def)
  then show ?thesis unfolding t(2) using hm_insert_changes by metis
qed

end
