(* ===== verification/Store_Machine.thy ===== *)
theory Store_Machine
  imports Store_Effects
begin

text \<open>
  The store as one state machine: every mutating method is an operation, rankings may change their
  scope at any time, and the accounting tables stay consistent. The texts the host depends on
  (lower-casing, the key text, the engine's score) are fixed in an environment.
\<close>

record store_env =
  se_lower :: "string \<Rightarrow> string"
  se_keys :: key_text
  se_score :: "u64 \<Rightarrow> u64 \<Rightarrow> string \<Rightarrow> db_error + u64"

datatype store_op =
    St_Scopes "(string, scope_row) hmap"
  | St_Insert competition_definition
  | St_Update competition_definition
  | St_Delete string
  | St_Transition string transition u64 "string option"
  | St_Recover string u64 string
  | St_Save "(string \<times> u64 \<times> bool) list" string
  | St_Expire u64 "string option"
  | St_Command string command_participation "string option"
  | St_Score string scored_input "string option"
  | St_Gift string gift_input string
  | St_Result result_record "winner_action option" "string option"
  | St_Claim string u64 int
  | St_Outcome string u64 action_status "string option" int
  | St_Resolve string u64 action_resolution u64
  | St_Interrupt int

definition settled :: "'s \<Rightarrow> ('s \<times> 'r) run \<Rightarrow> 's" where
  "settled s r = (case r of Panic \<Rightarrow> s | Ret (s', _) \<Rightarrow> s')"

definition store_step :: "store_env \<Rightarrow> store_op \<Rightarrow> store \<Rightarrow> store" where
  "store_step env op s =
     (case op of
        St_Scopes scopes \<Rightarrow> s\<lparr>st_scopes := scopes\<rparr>
      | St_Insert d \<Rightarrow> fst (insert_competition_definition (se_lower env) d s)
      | St_Update d \<Rightarrow> fst (update_competition_definition (se_lower env) d s)
      | St_Delete cid \<Rightarrow> fst (delete_competition_definition cid s)
      | St_Transition cid t now owner \<Rightarrow> settled s (transition_competition_owned cid t now owner s)
      | St_Recover cid generation owner \<Rightarrow> fst (begin_competition_recovery cid generation owner s)
      | St_Save checkpoints owner \<Rightarrow> fst (save_competition_integrity checkpoints owner s)
      | St_Expire now owner \<Rightarrow> settled s (expire_due_competitions_owned now owner s)
      | St_Command cid input owner \<Rightarrow> fst (route_competition_command (se_lower env) cid input owner s)
      | St_Score cid input owner \<Rightarrow> fst (route_competition_score cid input owner s)
      | St_Gift cid input owner \<Rightarrow> fst (route_competition_gift cid input owner (se_score env) s)
      | St_Result r action owner \<Rightarrow> fst (store_competition_result_once (se_keys env) r action owner s)
      | St_Claim cid generation now \<Rightarrow> fst (claim_competition_action_detailed (se_keys env) cid generation now s)
      | St_Outcome cid generation status reason now \<Rightarrow>
          fst (record_competition_action_outcome cid generation status reason now s)
      | St_Resolve cid generation resolution now \<Rightarrow>
          fst (resolve_uncertain_competition_action cid generation resolution now s)
      | St_Interrupt now \<Rightarrow> fst (mark_interrupted_competition_actions_uncertain now s))"

section \<open>What the operations leave alone\<close>

definition vote_tables where
  "vote_tables s = (st_counts s, st_participants s, st_contributions s, st_gift_participants s, st_receipts s, st_scored s)"

definition routing_op :: "store_op \<Rightarrow> bool" where
  "routing_op op \<longleftrightarrow> (case op of St_Command _ _ _ \<Rightarrow> True | St_Score _ _ _ \<Rightarrow> True | St_Gift _ _ _ \<Rightarrow> True | _ \<Rightarrow> False)"

lemma not_Inl_unit [simp]: "(\<forall>err. r \<noteq> Inl err) \<longleftrightarrow> r = Inr ()"
  by (cases r) auto

lemma fst_transact:
  "fst (transact s b) = (case b of Inr (_, Some s') \<Rightarrow> s' | _ \<Rightarrow> s)"
  by (simp add: transact_def split: sum.split prod.split option.split)

lemma fst_transact_P:
  assumes "P s" and "\<And>x s'. b = Inr (x, Some s') \<Longrightarrow> P s'"
  shows "P (fst (transact s b))"
  using assms by (simp add: fst_transact split: sum.split prod.split option.split)

lemma save_checkpoints_frame:
  "save_checkpoints cs owner s = Inr s' \<Longrightarrow>
     vote_tables s' = vote_tables s \<and> st_results s' = st_results s \<and> st_outbox s' = st_outbox s"
  by (induction cs owner s rule: save_checkpoints.induct)
    (auto simp: bind_result_Inr vote_tables_def split: if_splits)

lemma expire_rows_frame:
  "expire_rows now owner rows s n = Ret (Inr (s', m)) \<Longrightarrow>
     vote_tables s' = vote_tables s \<and> st_results s' = st_results s \<and> st_outbox s' = st_outbox s"
proof (induction now owner rows s n rule: expire_rows.induct)
  case (2 now owner cid column rest s n)
  then show ?case
    by (auto simp: run_bind_eq_Ret vote_tables_def split: option.splits if_splits sum.splits prod.splits)
qed simp

lemma set_status_frame:
  "set_status k a b now s = Some s' \<Longrightarrow> vote_tables s' = vote_tables s \<and> st_results s' = st_results s"
  by (auto simp: set_status_def vote_tables_def split: option.splits if_splits)

lemma put_diagnostic_frame [simp]:
  "vote_tables (put_diagnostic k r now s) = vote_tables s" "st_results (put_diagnostic k r now s) = st_results s"
  "st_outbox (put_diagnostic k r now s) = st_outbox s"
  by (simp_all add: put_diagnostic_def vote_tables_def)

lemma open_generation_frame:
  "open_generation cid g owner s = Inr s' \<Longrightarrow>
     vote_tables s' = vote_tables s \<and> st_results s' = st_results s \<and> st_outbox s' = st_outbox s"
  by (auto simp: open_generation_def bind_result_Inr vote_tables_def split: option.splits)

lemma transition_frame:
  "transition_competition_owned cid t now owner s = Ret (s', res) \<Longrightarrow>
     vote_tables s' = vote_tables s \<and> st_results s' = st_results s \<and> st_outbox s' = st_outbox s"
proof (cases "joined cid s")
  case (Some p)
  assume run: "transition_competition_owned cid t now owner s = Ret (s', res)"
  show ?thesis
  proof (cases "s' = s")
    case False
    then obtain state s2 where "s' = s\<lparr>st_states := hm_insert cid state (st_states s)\<rparr> \<or>
        open_generation cid s2 owner (s\<lparr>st_states := hm_insert cid state (st_states s)\<rparr>) = Inr s'"
      using run Some
      by (auto simp: transition_competition_owned_def run_bind_eq_Ret transact_cases bind_result_Inr Let_def
          split: option.splits if_splits sum.splits prod.splits)
    then show ?thesis by (auto simp: vote_tables_def dest: open_generation_frame)
  qed simp
qed (simp add: transition_competition_owned_def)

lemma queue_action_frame:
  "queue_action keys r a s = Inr s' \<Longrightarrow> vote_tables s' = vote_tables s \<and> st_results s' = st_results s"
  by (auto simp: queue_action_def insert_outbox_def vote_tables_def split: option.splits if_splits)

text \<open>Storing a result: the tables after a new one.\<close>

lemma store_result_new:
  assumes "store_competition_result_once keys r action owner s = (s', res)" and "s' \<noteq> s"
  shows "\<exists>s1 d state. hm_get (st_results s) (rr_competition_id r, as_i64 (rr_generation r)) = None \<and>
    res = Inr (r, True) \<and> \<not> result_invalid r \<and> selection_valid (rr_selection r) \<and>
    joined (rr_competition_id r) s = Some (Some d, Some state) \<and> ls_lifecycle state = Finalizing \<and>
    ls_generation state = rr_generation r \<and> action = expected_action d (rr_selection r) \<and>
    s1 = s\<lparr>st_states := hm_insert (rr_competition_id r)
        (Some (state\<lparr>ls_lifecycle := Finished, ls_deadline_ms := None, ls_remaining_ms := None\<rparr>)) (st_states s),
      st_results := hm_insert (rr_competition_id r, as_i64 (rr_generation r))
        \<lparr>rw_ranking_id = rr_ranking_id r, rw_created_at = as_i64 (rr_finalized_at r), rw_result = Some r\<rparr>
        (st_results s)\<rparr> \<and>
    queue_action keys r action s1 = Inr s'"
  using assms
  by (auto simp: store_competition_result_once_def Let_def transact_cases bind_result_Inr insert_row_Inr
      decoded_def split: option.splits if_splits prod.splits)

text \<open>A claim takes a pending row: to running with a claim, or to failed with a diagnostic.\<close>

lemma claim_effect:
  assumes "claim_competition_action_detailed keys cid generation now s = (s', res)"
  shows "s' = s \<and> (\<forall>c. res \<noteq> Inr (Claimed c)) \<or>
    (\<exists>s1 row. hm_get (st_outbox s) (cid, int generation) = Some row \<and> ob_status row = ActionPending \<and>
      generation \<le> i64_max \<and>
      (set_status (cid, int generation) ActionPending ActionRunning now s = Some s' \<and>
        (\<exists>a. ob_action row = Some a \<and> wa_action_id a = ob_action_id row \<and>
          ob_idempotency_key row = keys cid generation \<and>
          res = Inr (Claimed \<lparr>ac_competition_id = cid, ac_generation = generation,
            ac_idempotency_key = ob_idempotency_key row, ac_action = a\<rparr>)) \<or>
       set_status (cid, int generation) ActionPending ActionFailed now s = Some s1 \<and>
        s' = put_diagnostic (cid, int generation) ''invalid_outbox_record'' now s1 \<and>
        res = Inr (ClaimInvalid (ob_action_id row))))"
proof (cases "generation \<le> i64_max")
  case False
  then show ?thesis using assms
    by (auto simp: claim_competition_action_detailed_def try_i64_def)
next
  case True
  let ?k = "(cid, int generation)"
  show ?thesis
  proof (cases "hm_get (st_outbox s) ?k")
    case None
    then show ?thesis using assms True by (auto simp: claim_competition_action_detailed_def try_i64_def)
  next
    case (Some row)
    show ?thesis
    proof (cases "ob_status row = ActionPending")
      case False
      then show ?thesis using assms True Some
        by (auto simp: claim_competition_action_detailed_def try_i64_def)
    next
      case pending: True
      then have set: "\<exists>s1. set_status ?k ActionPending st now s = Some s1" for st
        using Some by (simp add: set_status_def)
      obtain s1 s2 where s12: "set_status ?k ActionPending ActionFailed now s = Some s1"
        "set_status ?k ActionPending ActionRunning now s = Some s2"
        using set by metis
      show ?thesis
      proof (cases "\<exists>a. ob_action row = Some a \<and> wa_action_id a = ob_action_id row \<and> ob_action_id row \<noteq> [] \<and>
          length (ob_action_id row) \<le> 128 \<and> ob_idempotency_key row = keys cid generation")
        case ok: True
        then show ?thesis using assms True Some pending s12
          by (auto simp: claim_competition_action_detailed_def try_i64_def Let_def)
      next
        case bad: False
        then have "claim_competition_action_detailed keys cid generation now s =
            (put_diagnostic ?k ''invalid_outbox_record'' now s1, Inr (ClaimInvalid (ob_action_id row)))"
          using True Some pending s12
          by (auto simp: claim_competition_action_detailed_def try_i64_def Let_def split: option.split)
        then show ?thesis using assms True Some pending s12 by auto
      qed
    qed
  qed
qed

lemma vote_tables_routing:
  assumes "\<not> routing_op op" and "\<forall>cid. op \<noteq> St_Delete cid"
  shows "vote_tables (store_step env op s) = vote_tables s"
proof (cases op)
  case (St_Insert d)
  then show ?thesis
    by (auto simp: store_step_def insert_competition_definition_def fst_transact vote_tables_def bind_result_Inr
        split: sum.split prod.split option.split)
next
  case (St_Update d)
  then show ?thesis
    by (auto simp: store_step_def update_competition_definition_def fst_transact vote_tables_def bind_result_Inr
        split: sum.split prod.split option.split)
next
  case (St_Transition cid t now owner)
  then show ?thesis using transition_frame
    by (auto simp: store_step_def settled_def split: run.split prod.split)
next
  case (St_Recover cid generation owner)
  then show ?thesis
    by (auto simp: store_step_def begin_competition_recovery_def try_i64_def vote_tables_def)
next
  case (St_Save checkpoints owner)
  then show ?thesis using save_checkpoints_frame
    by (auto simp: store_step_def save_competition_integrity_def fst_transact bind_result_Inr
        split: sum.split prod.split option.split)
next
  case (St_Expire now owner)
  then show ?thesis using expire_rows_frame
    by (fastforce simp: store_step_def settled_def expire_due_competitions_owned_def run_bind_eq_Ret
        transact_cases bind_result_Inr split: run.split prod.splits)
next
  case (St_Result r action owner)
  obtain s' res where run: "store_competition_result_once (se_keys env) r action owner s = (s', res)" by force
  show ?thesis
  proof (cases "s' = s")
    case False
    from store_result_new [OF run False] show ?thesis
      using St_Result run by (auto simp: store_step_def vote_tables_def dest!: queue_action_frame)
  qed (use St_Result run in \<open>simp add: store_step_def\<close>)
next
  case (St_Claim cid generation now)
  obtain s' res where run: "claim_competition_action_detailed (se_keys env) cid generation now s = (s', res)" by force
  show ?thesis
  proof (cases "s' = s")
    case False
    from claim_effect [OF run] False show ?thesis
      using St_Claim run by (auto simp: store_step_def dest!: set_status_frame)
  qed (use St_Claim run in \<open>simp add: store_step_def\<close>)
next
  case (St_Outcome cid generation status reason now)
  then show ?thesis using set_status_frame
    by (auto simp: store_step_def record_competition_action_outcome_def fst_transact bind_result_Inr Let_def
        split: sum.splits prod.splits option.splits if_splits)
next
  case (St_Resolve cid generation resolution now)
  then show ?thesis using set_status_frame
    by (auto simp: store_step_def resolve_uncertain_competition_action_def fst_transact bind_result_Inr Let_def
        split: sum.splits prod.splits option.splits if_splits)
qed (use assms in \<open>simp_all add: routing_op_def store_step_def vote_tables_def
    mark_interrupted_competition_actions_uncertain_def\<close>)

section \<open>Rows that stay\<close>

lemma hm_get_without:
  "hm_get (without_competition cid m) k = (if fst k = cid then None else hm_get m k)"
  by (induction m) (auto simp: without_competition_def case_prod_beta)

lemma delete_cases:
  "fst (delete_competition_definition cid s) = s \<or>
   fst (delete_competition_definition cid s) = delete_scoped cid (s\<lparr>st_definitions := hm_remove cid (st_definitions s)\<rparr>)"
  by (auto simp: delete_competition_definition_def fst_transact bind_result_Inr
      split: sum.splits prod.splits option.splits if_splits)

text \<open>
  Every operation leaves the accounting tables, drops those of one competition, or makes one of
  the four changes of a routed event.
\<close>

lemma store_step_change:
  obtains (same) "vote_tables (store_step env op s) = vote_tables s"
  | (deleted) cid where "op = St_Delete cid"
      "store_step env op s = delete_scoped cid (s\<lparr>st_definitions := hm_remove cid (st_definitions s)\<rparr>)"
  | (ignored) cid g identity row where
      "hm_get (st_contributions s) (cid, g, identity) = None"
      "0 \<le> ct_contributions (counts_of (cid, g) s)" "ct_contributions (counts_of (cid, g) s) < 500000"
      "store_step env op s = ignored_store cid g identity row s"
  | (voted) cid g identity participant d opt now row where
      "hm_get (st_contributions s) (cid, g, identity) = None"
      "0 \<le> ct_contributions (counts_of (cid, g) s)" "ct_contributions (counts_of (cid, g) s) < 500000"
      "vote_allowed d opt (hm_get (st_participants s) (cid, g, participant))"
      "known_member (cid, g, participant) s \<or> ct_participants (counts_of (cid, g) s) < 100000"
      "store_step env op s = voted_store cid g identity participant
         \<lparr>pr_option_id = opt, pr_votes = next_votes d opt (hm_get (st_participants s) (cid, g, participant)),
          pr_updated_at = now\<rparr>
         (if known_member (cid, g, participant) s then 0 else 1) row s"
      "participant \<noteq> []" "length participant \<le> 512"
  | (scored) cid g source identity row where
      "hm_get (st_scored s) (cid, g, source, identity) = None" "source \<noteq> ''tiktok.gift''"
      "0 \<le> ct_contributions (counts_of (cid, g) s)" "ct_contributions (counts_of (cid, g) s) < 500000"
      "sd_option_id row = None \<or> hm_has (st_participants s) (cid, g, sd_participant_id row)"
      "store_step env op s = scored_store cid g source identity row s"
      "\<exists>input owner. op = St_Score cid input owner \<and> sd_score row = to_string (si_score input)"
  | (gift) cid g input new credited prices combos cc where
      "hm_get (st_receipts s) (cid, g, gi_event_identity input) = None"
      "credited \<noteq> None \<longrightarrow> hm_get (st_scored s) (cid, g, ''tiktok.gift'', gi_event_identity input) = None"
      "0 \<le> ct_contributions (counts_of (cid, g) s)" "ct_contributions (counts_of (cid, g) s) < 500000"
      "new = (credited \<noteq> None \<and> \<not> known_member (cid, g, gi_participant_id input) s)"
      "new \<longrightarrow> ct_participants (counts_of (cid, g) s) < 100000"
      "store_step env op s = gift_store cid g input new credited prices combos cc s"
      "gi_participant_id input \<noteq> []" "length (gi_participant_id input) \<le> 512"
      "\<forall>opt points. credited = Some (opt, points) \<longrightarrow>
         0 < points \<and> (\<exists>quantity diamonds gift. se_score env quantity diamonds gift = Inr points)"
proof (cases "routing_op op \<or> (\<exists>cid. op = St_Delete cid)")
  case False
  then have "vote_tables (store_step env op s) = vote_tables s" by (intro vote_tables_routing) auto
  then show ?thesis by (rule same)
next
  case True
  then consider cid where "op = St_Delete cid" | cid input owner where "op = St_Command cid input owner"
    | cid input owner where "op = St_Score cid input owner" | cid input owner where "op = St_Gift cid input owner"
    by (cases op) (auto simp: routing_op_def)
  then show ?thesis
  proof cases
    case 1
    then show ?thesis using delete_cases [of cid s] same deleted [of cid] by (auto simp: store_step_def)
  next
    case 2
    obtain s' res where run: "route_competition_command (se_lower env) cid input owner s = (s', res)" by force
    then have st: "store_step env op s = s'" using 2 by (simp add: store_step_def)
    show ?thesis
    proof (cases "s' = s")
      case True
      then show ?thesis using same st by simp
    next
      case False
      from run False show ?thesis
      proof (cases rule: route_command_cases)
        case c: (ignored g opt d state o' prior)
        show ?thesis by (rule ignored [OF c(1-3)]) (use c(9) st in simp)
      next
        case c: (voted g opt d state old)
        let ?k = "(cid, g, pa_participant_id input)"
        have kn: "known_member ?k s \<longleftrightarrow> \<not> (old = None \<and> \<not> hm_has (st_gift_participants s) ?k)"
          using c(7) by (simp add: known_member_def hm_has_def)
        have m: "known_member ?k s \<or> ct_participants (counts_of (cid, g) s) < 100000" using kn c(13) by auto
        have a: "vote_allowed d opt (hm_get (st_participants s) ?k)" using c(7,11) by simp
        have "(if old = None \<and> \<not> hm_has (st_gift_participants s) ?k then 1 else 0) =
            (if known_member ?k s then 0 else (1 :: int))" using kn by auto
        then show ?thesis using voted [OF c(1-3) a m] c(7,14) st route_command_named [OF run False] by simp
      qed
    qed
  next
    case 3
    obtain s' res where run: "route_competition_score cid input owner s = (s', res)" by force
    then have st: "store_step env op s = s'" using 3 by (simp add: store_step_def)
    show ?thesis
    proof (cases "s' = s")
      case True
      then show ?thesis using same st by simp
    next
      case False
      from run False show ?thesis
      proof (cases rule: route_score_cases)
        case c: (1 g opt)
        have "si_source input \<noteq> ''tiktok.gift''" using c(2) by auto
        then show ?thesis
          by (rule scored [OF c(1) _ c(3,4) _ st [unfolded c(7)]]) (use c(5) 3 in \<open>auto simp: hm_has_def\<close>)
      qed
    qed
  next
    case 4
    obtain s' res where run: "route_competition_gift cid input owner (se_score env) s = (s', res)" by force
    then have st: "store_step env op s = s'" using 4 by (simp add: store_step_def)
    show ?thesis
    proof (cases "s' = s")
      case True
      then show ?thesis using same st by simp
    next
      case False
      from run False show ?thesis
      proof (cases rule: route_gift_cases)
        case c: (1 g credited prices combos cc)
        have points: "\<forall>opt points. credited = Some (opt, points) \<longrightarrow>
            0 < points \<and> (\<exists>quantity diamonds gift. se_score env quantity diamonds gift = Inr points)"
        proof (intro allI impI)
          fix opt points assume "credited = Some (opt, points)"
          then have "res = Inr (Some (GiftAccepted opt points))" using c(4) by simp
          from route_gift_points [OF run [unfolded this] False]
          show "0 < points \<and> (\<exists>quantity diamonds gift. se_score env quantity diamonds gift = Inr points)"
            by (elim conjE exE) (intro conjI exI)
        qed
        show ?thesis
          by (rule gift [OF c(3,5,1,2) refl c(6) _ _ _ points])
            (use c(7) st route_gift_named [OF run False] in simp_all)
      qed
    qed
  qed
qed

lemmas change_defs = vote_tables_def delete_scoped_def ignored_store_def voted_store_def scored_store_def
  gift_store_def hm_get_without hm_get_insert

lemma contribution_stays:
  assumes "hm_get (st_contributions s) k = Some row" and "op \<noteq> St_Delete (fst k)"
  shows "hm_get (st_contributions (store_step env op s)) k = Some row"
  by (cases rule: store_step_change [of env op s]) (use assms in \<open>auto simp: change_defs\<close>)

lemma receipt_stays:
  assumes "hm_get (st_receipts s) k = Some row" and "op \<noteq> St_Delete (fst k)"
  shows "hm_get (st_receipts (store_step env op s)) k = Some row"
  by (cases rule: store_step_change [of env op s]) (use assms in \<open>auto simp: change_defs\<close>)

end
