(* ===== verification/Store_Inv.thy ===== *)
theory Store_Inv
  imports Store_Machine
begin

text \<open>
  The accounting invariant of the store: per generation the counters are the numbers of recorded
  events and of known participants, inside their bounds, and the rows are those a later projection
  relies on. Every operation keeps it.
\<close>

section \<open>Counting rows of a generation\<close>

definition in_generation :: "string \<Rightarrow> int \<Rightarrow> (string \<times> int \<times> 'k) \<times> 'v \<Rightarrow> bool" where
  "in_generation cid g p \<longleftrightarrow> fst (fst p) = cid \<and> fst (snd (fst p)) = g"

definition row_count :: "string \<Rightarrow> int \<Rightarrow> (string \<times> int \<times> 'k, 'v) hmap \<Rightarrow> nat" where
  "row_count cid g m = length (filter (in_generation cid g) m)"

lemma in_generation_simp [simp]: "in_generation cid g ((c, g', k), v) \<longleftrightarrow> c = cid \<and> g' = g"
  by (simp add: in_generation_def)

lemma hm_insert_fresh: "hm_get m k = None \<Longrightarrow> hm_insert k v m = m @ [(k, v)]"
  by (induction m) (auto split: if_splits)

lemma row_count_fresh:
  "hm_get m (c, g', k) = None \<Longrightarrow>
   row_count cid g (hm_insert (c, g', k) v m) = row_count cid g m + (if c = cid \<and> g' = g then 1 else 0)"
  by (simp add: row_count_def hm_insert_fresh)

lemma row_count_empty [simp]: "row_count cid g [] = 0"
  by (simp add: row_count_def)

lemma row_count_without:
  "row_count cid g (without_competition c m) = (if cid = c then 0 else row_count cid g m)"
  by (induction m) (auto simp: row_count_def without_competition_def in_generation_def)

lemma wf_without [simp]: "hm_wf m \<Longrightarrow> hm_wf (without_competition c m)"
  by (induction m) (auto simp: hm_wf_def without_competition_def)

lemma set_without: "set (without_competition c m) = {p \<in> set m. fst (fst p) \<noteq> c}"
  by (auto simp: without_competition_def)

text \<open>The votes of a generation, and the events of one kind.\<close>

definition vote_sum :: "string \<Rightarrow> int \<Rightarrow> (member_key, participant_row) hmap \<Rightarrow> int" where
  "vote_sum cid g m = sum_list (map (pr_votes \<circ> snd) (filter (in_generation cid g) m))"

lemma vote_sum_Cons [simp]:
  "vote_sum cid g (p # m) = (if in_generation cid g p then pr_votes (snd p) else 0) + vote_sum cid g m"
  by (simp add: vote_sum_def)

lemma vote_sum_Nil [simp]: "vote_sum cid g [] = 0"
  by (simp add: vote_sum_def)

lemma vote_sum_insert:
  "vote_sum cid g (hm_insert (c, g', k) row m) =
   vote_sum cid g m + (if c = cid \<and> g' = g
     then pr_votes row - (case hm_get m (c, g', k) of None \<Rightarrow> 0 | Some old \<Rightarrow> pr_votes old) else 0)"
  by (induction m) auto

lemma vote_sum_without: "vote_sum cid g (without_competition c m) = (if cid = c then 0 else vote_sum cid g m)"
  by (induction m) (auto simp: without_competition_def in_generation_def)

definition gift_scored :: "scored_key \<times> scored_row \<Rightarrow> bool" where
  "gift_scored p \<longleftrightarrow> fst (snd (snd (fst p))) = ''tiktok.gift''"

definition gift_rows :: "store \<Rightarrow> (scored_key, scored_row) hmap" where
  "gift_rows s = filter gift_scored (st_scored s)"

definition plain_rows :: "store \<Rightarrow> (scored_key, scored_row) hmap" where
  "plain_rows s = filter (\<lambda>p. \<not> gift_scored p) (st_scored s)"

lemma row_count_filter_fresh:
  "hm_get m (c, g', k) = None \<Longrightarrow>
   row_count cid g (filter P (hm_insert (c, g', k) v m)) =
   row_count cid g (filter P m) + (if c = cid \<and> g' = g \<and> P ((c, g', k), v) then 1 else 0)"
  by (simp add: row_count_def hm_insert_fresh)

lemma row_count_filter_without:
  "row_count cid g (filter P (without_competition c m)) = (if cid = c then 0 else row_count cid g (filter P m))"
  by (induction m) (auto simp: row_count_def without_competition_def in_generation_def)

lemma row_count_split: "row_count cid g (filter P m) + row_count cid g (filter (\<lambda>p. \<not> P p) m) = row_count cid g m"
  by (induction m) (auto simp: row_count_def)

section \<open>Known participants\<close>

text \<open>Everyone who voted or was credited with a gift, as the draw reads them.\<close>

definition members :: "string \<Rightarrow> int \<Rightarrow> store \<Rightarrow> string set" where
  "members cid g s = set (map fst (member_rows cid g s) @ gift_members cid g s)"

lemma members_known: "p \<in> members cid g s \<longleftrightarrow> known_member (cid, g, p) s"
proof -
  have "p \<in> fst ` set (member_rows cid g s) \<longleftrightarrow> (cid, g, p) \<in> hm_keys (st_participants s)"
    by (force simp: member_rows_def image_iff)
  moreover have "p \<in> set (gift_members cid g s) \<longleftrightarrow> (cid, g, p) \<in> hm_keys (st_gift_participants s)"
    by (force simp: gift_members_def image_iff)
  ultimately show ?thesis by (simp add: members_def known_member_def hm_has_keys)
qed

lemma members_cong:
  "(\<And>p. known_member (cid, g, p) s' \<longleftrightarrow> known_member (cid, g, p) s) \<Longrightarrow> members cid g s' = members cid g s"
  by (auto simp: members_known)

lemma members_insert:
  "(\<And>p. known_member (cid, g, p) s' \<longleftrightarrow> p = q \<or> known_member (cid, g, p) s) \<Longrightarrow>
   members cid g s' = insert q (members cid g s)"
  by (auto simp: members_known)

lemma finite_members [simp]: "finite (members cid g s)"
  by (simp add: members_def)

section \<open>The invariant\<close>

definition generation_ok :: "string \<Rightarrow> int \<Rightarrow> store \<Rightarrow> bool" where
  "generation_ok cid g s \<longleftrightarrow>
     ct_contributions (counts_of (cid, g) s) =
       int (row_count cid g (st_contributions s) + row_count cid g (st_receipts s) + row_count cid g (plain_rows s)) \<and>
     ct_contributions (counts_of (cid, g) s) \<le> 500000 \<and>
     row_count cid g (gift_rows s) \<le> row_count cid g (st_receipts s) \<and>
     vote_sum cid g (st_participants s) \<le> int (row_count cid g (st_contributions s)) \<and>
     ct_participants (counts_of (cid, g) s) = int (card (members cid g s)) \<and>
     ct_participants (counts_of (cid, g) s) \<le> 100000"

definition member_row_ok :: "member_key \<times> participant_row \<Rightarrow> bool" where
  "member_row_ok p \<longleftrightarrow> 0 < pr_votes (snd p) \<and> \<not> draw_member_invalid (snd (snd (fst p)))"

definition credit_ok :: "store \<Rightarrow> scored_key \<times> scored_row \<Rightarrow> bool" where
  "credit_ok s p \<longleftrightarrow> (\<exists>n. n \<le> u64_max \<and> sd_score (snd p) = to_string n) \<and>
     (sd_option_id (snd p) \<noteq> None \<longrightarrow> known_member (fst (fst p), fst (snd (fst p)), sd_participant_id (snd p)) s)"

definition store_inv :: "store \<Rightarrow> bool" where
  "store_inv s \<longleftrightarrow>
     (\<forall>cid g. generation_ok cid g s) \<and>
     hm_wf (st_participants s) \<and> hm_wf (st_gift_participants s) \<and> hm_wf (st_scored s) \<and>
     (\<forall>p \<in> set (st_participants s). member_row_ok p) \<and>
     (\<forall>p \<in> set (st_gift_participants s). \<not> draw_member_invalid (snd (snd (fst p)))) \<and>
     (\<forall>p \<in> set (st_scored s). credit_ok s p)"

lemma store_inv_empty: "store_inv store_empty"
  by (simp add: store_inv_def generation_ok_def store_empty_def counts_of_def hm_get_or_def
      plain_rows_def gift_rows_def members_def member_rows_def gift_members_def)

lemmas generation_frame = generation_ok_def counts_of_def plain_rows_def gift_rows_def members_def
  member_rows_def gift_members_def

lemma store_inv_cong:
  assumes "vote_tables s' = vote_tables s"
  shows "store_inv s' \<longleftrightarrow> store_inv s"
  using assms
  by (simp add: store_inv_def generation_frame credit_ok_def known_member_def vote_tables_def)

section \<open>What each change keeps\<close>

lemma counts_of_bump:
  "counts_of k' (bump_counts k n s) =
     (if k' = k then \<lparr>ct_participants = ct_participants (counts_of k s) + n,
        ct_contributions = ct_contributions (counts_of k s) + 1\<rparr> else counts_of k' s)"
  by (simp add: bump_counts_def Let_def counts_of_def hm_get_or_def hm_simps)

lemma counts_of_change:
  "counts_of k' (ignored_store cid g i row s) = counts_of k' (bump_counts (cid, g) 0 s)"
  "counts_of k' (voted_store cid g i p prow new row s) = counts_of k' (bump_counts (cid, g) new s)"
  "counts_of k' (scored_store cid g src i srow s) = counts_of k' (bump_counts (cid, g) 0 s)"
  "counts_of k' (gift_store cid g input b credited prices combos cc s) =
     counts_of k' (bump_counts (cid, g) (if b then 1 else 0) s)"
  by (simp_all add: ignored_store_def voted_store_def scored_store_def gift_store_def counts_of_def)

lemma known_change:
  "known_member m (ignored_store cid g i row s) \<longleftrightarrow> known_member m s"
  "known_member m (voted_store cid g i p prow new row s) \<longleftrightarrow> m = (cid, g, p) \<or> known_member m s"
  "known_member m (scored_store cid g src i srow s) \<longleftrightarrow> known_member m s"
  "known_member m (gift_store cid g input b credited prices combos cc s) \<longleftrightarrow>
     (b \<and> m = (cid, g, gi_participant_id input)) \<or> known_member m s"
  by (auto simp: known_member_def ignored_store_def voted_store_def scored_store_def gift_store_def hm_simps)

lemma known_delete:
  "known_member m (delete_scoped cid (s\<lparr>st_definitions := ds\<rparr>)) \<longleftrightarrow> fst m \<noteq> cid \<and> known_member m s"
  by (auto simp: known_member_def delete_scoped_def hm_has_def hm_get_without)

lemma counts_delete:
  "counts_of (c, g) (delete_scoped cid (s\<lparr>st_definitions := ds\<rparr>)) =
     (if c = cid then \<lparr>ct_participants = 0, ct_contributions = 0\<rparr> else counts_of (c, g) s)"
  by (simp add: counts_of_def delete_scoped_def hm_get_or_def hm_get_without)

lemma members_change:
  "members c h (ignored_store cid g i row s) = members c h s"
  "members c h (voted_store cid g i p prow new row s) =
     (if c = cid \<and> h = g then insert p (members c h s) else members c h s)"
  "members c h (scored_store cid g src i srow s) = members c h s"
  "members c h (gift_store cid g input b credited prices combos cc s) =
     (if b \<and> c = cid \<and> h = g then insert (gi_participant_id input) (members c h s) else members c h s)"
  by (auto simp: members_known known_change)

lemma members_delete:
  "members c h (delete_scoped cid (s\<lparr>st_definitions := ds\<rparr>)) = (if c = cid then {} else members c h s)"
  by (auto simp: members_known known_delete)

lemma generation_delete:
  assumes "generation_ok c h s"
  shows "generation_ok c h (delete_scoped cid (s\<lparr>st_definitions := ds\<rparr>))"
  using assms unfolding generation_ok_def counts_delete members_delete
  by (simp add: delete_scoped_def plain_rows_def gift_rows_def row_count_without row_count_filter_without
      vote_sum_without)

lemma generation_ignored:
  assumes "generation_ok c h s" "hm_get (st_contributions s) (cid, g, i) = None"
    "ct_contributions (counts_of (cid, g) s) < 500000"
  shows "generation_ok c h (ignored_store cid g i row s)"
  using assms unfolding generation_ok_def counts_of_change counts_of_bump members_change
  by (auto simp: ignored_store_def plain_rows_def gift_rows_def row_count_fresh)

lemma generation_scored:
  assumes "generation_ok c h s" "hm_get (st_scored s) (cid, g, src, i) = None" "src \<noteq> ''tiktok.gift''"
    "ct_contributions (counts_of (cid, g) s) < 500000"
  shows "generation_ok c h (scored_store cid g src i row s)"
  using assms unfolding generation_ok_def counts_of_change counts_of_bump members_change
  by (auto simp: scored_store_def plain_rows_def gift_rows_def row_count_filter_fresh gift_scored_def)

lemma generation_gift:
  assumes "generation_ok c h s" "hm_get (st_receipts s) (cid, g, gi_event_identity input) = None"
    "credited \<noteq> None \<longrightarrow> hm_get (st_scored s) (cid, g, ''tiktok.gift'', gi_event_identity input) = None"
    "ct_contributions (counts_of (cid, g) s) < 500000"
    "b \<longrightarrow> \<not> known_member (cid, g, gi_participant_id input) s"
    "b \<longrightarrow> ct_participants (counts_of (cid, g) s) < 100000"
  shows "generation_ok c h (gift_store cid g input b credited prices combos cc s)"
  using assms unfolding generation_ok_def counts_of_change counts_of_bump members_change
  by (cases credited) (auto simp: gift_store_def plain_rows_def gift_rows_def row_count_fresh row_count_filter_fresh
      gift_scored_def members_known [symmetric])

lemma next_votes_step:
  "vote_allowed d opt old \<Longrightarrow> 0 < next_votes d opt old \<and>
     next_votes d opt old \<le> (case old of None \<Rightarrow> 0 | Some row \<Rightarrow> pr_votes row) + 1"
  by (auto simp: vote_allowed_def next_votes_def split: option.splits)

lemma generation_voted:
  assumes "generation_ok c h s" "hm_get (st_contributions s) (cid, g, i) = None"
    "ct_contributions (counts_of (cid, g) s) < 500000"
    "pr_votes prow \<le> (case hm_get (st_participants s) (cid, g, p) of None \<Rightarrow> 0 | Some row \<Rightarrow> pr_votes row) + 1"
    "known_member (cid, g, p) s \<or> ct_participants (counts_of (cid, g) s) < 100000"
  shows "generation_ok c h (voted_store cid g i p prow (if known_member (cid, g, p) s then 0 else 1) row s)"
  using assms unfolding generation_ok_def counts_of_change counts_of_bump members_change members_known [symmetric]
  by (auto simp: voted_store_def plain_rows_def gift_rows_def row_count_fresh vote_sum_insert insert_absorb)

section \<open>Every operation keeps the invariant\<close>

text \<open>The numbers of an operation and of the engine's score are 64-bit unsigned.\<close>

definition op_typed :: "store_op \<Rightarrow> bool" where
  "op_typed op \<longleftrightarrow> (case op of St_Score _ input _ \<Rightarrow> si_score input \<le> u64_max | _ \<Rightarrow> True)"

definition env_typed :: "store_env \<Rightarrow> bool" where
  "env_typed env \<longleftrightarrow> (\<forall>quantity diamonds gift points. se_score env quantity diamonds gift = Inr points \<longrightarrow> points \<le> u64_max)"

lemma change_frame [simp]:
  "st_participants (ignored_store cid g i row s) = st_participants s"
  "st_gift_participants (ignored_store cid g i row s) = st_gift_participants s"
  "st_scored (ignored_store cid g i row s) = st_scored s"
  "st_participants (voted_store cid g i p prow new row s) = hm_insert (cid, g, p) prow (st_participants s)"
  "st_gift_participants (voted_store cid g i p prow new row s) = st_gift_participants s"
  "st_scored (voted_store cid g i p prow new row s) = st_scored s"
  "st_participants (scored_store cid g src i srow s) = st_participants s"
  "st_gift_participants (scored_store cid g src i srow s) = st_gift_participants s"
  "st_scored (scored_store cid g src i srow s) = hm_insert (cid, g, src, i) srow (st_scored s)"
  "st_participants (gift_store cid g input b credited prices combos cc s) = st_participants s"
  by (simp_all add: ignored_store_def voted_store_def scored_store_def gift_store_def)

lemma credit_ok_mono:
  "credit_ok s p \<Longrightarrow> (\<And>m. known_member m s \<Longrightarrow> known_member m s') \<Longrightarrow> credit_ok s' p"
  by (auto simp: credit_ok_def)

lemma set_insert_row: "q \<in> set (hm_insert k v m) \<Longrightarrow> q = (k, v) \<or> q \<in> set m"
  by (induction m) (auto split: if_splits)

lemma store_inv_step:
  assumes inv: "store_inv s" and typed: "op_typed op" "env_typed env"
  shows "store_inv (store_step env op s)"
proof (cases rule: store_step_change [of env op s])
  case same
  from store_inv_cong [OF this] inv show ?thesis by (rule iffD2)
next
  case c: (deleted cid)
  have "credit_ok (delete_scoped cid (s\<lparr>st_definitions := ds\<rparr>)) p"
    if "p \<in> set (st_scored s)" "fst (fst p) \<noteq> cid" for p ds
    using inv that by (auto simp: store_inv_def credit_ok_def known_delete)
  then have "\<forall>p \<in> set (st_scored (delete_scoped cid (s\<lparr>st_definitions := ds\<rparr>))).
      credit_ok (delete_scoped cid (s\<lparr>st_definitions := ds\<rparr>)) p" for ds
    by (simp add: delete_scoped_def set_without)
  moreover have "\<forall>c h. generation_ok c h (delete_scoped cid (s\<lparr>st_definitions := ds\<rparr>))" for ds
    using inv by (simp add: store_inv_def generation_delete)
  ultimately show ?thesis unfolding c(2) store_inv_def
    using inv by (simp add: store_inv_def) (simp add: delete_scoped_def set_without)
next
  case c: (ignored cid g identity row)
  have "\<forall>p \<in> set (st_scored s). credit_ok (ignored_store cid g identity row s) p"
    using inv by (auto simp: store_inv_def known_change intro: credit_ok_mono)
  then show ?thesis unfolding c(4) store_inv_def
    using inv c(1,3) by (simp add: store_inv_def generation_ignored)
next
  case c: (voted cid g identity participant d opt now row)
  let ?s = "voted_store cid g identity participant
      \<lparr>pr_option_id = opt, pr_votes = next_votes d opt (hm_get (st_participants s) (cid, g, participant)),
       pr_updated_at = now\<rparr> (if known_member (cid, g, participant) s then 0 else 1) row s"
  note nv = next_votes_step [OF c(4)]
  have "\<forall>p \<in> set (st_scored s). credit_ok ?s p"
    using inv by (auto simp: store_inv_def known_change intro: credit_ok_mono)
  moreover have "\<forall>c h. generation_ok c h ?s"
    using inv nv c(1,3,5) by (intro allI generation_voted) (auto simp: store_inv_def)
  moreover have "\<forall>p \<in> set (st_participants ?s). member_row_ok p"
    using inv nv c(7,8)
    by (auto simp: store_inv_def voted_store_def member_row_ok_def draw_member_invalid_def dest!: set_insert_row)
  ultimately show ?thesis unfolding c(6) store_inv_def
    using inv by (simp add: store_inv_def)
next
  case c: (scored cid g source identity row)
  let ?s = "scored_store cid g source identity row s"
  have row: "credit_ok ?s ((cid, g, source, identity), row)"
    using c(5,7) typed(1) by (auto simp: credit_ok_def known_change known_member_def op_typed_def)
  have "\<forall>p \<in> set (st_scored s). credit_ok ?s p"
    using inv by (auto simp: store_inv_def known_change intro: credit_ok_mono)
  then have "\<forall>p \<in> set (st_scored ?s). credit_ok ?s p"
    using row by (auto simp: scored_store_def dest!: set_insert_row)
  moreover have "\<forall>c h. generation_ok c h ?s"
    using inv c(1,2,4) by (simp add: store_inv_def generation_scored)
  ultimately show ?thesis unfolding c(6) store_inv_def
    using inv by (simp add: store_inv_def)
next
  case c: (gift cid g input new credited prices combos cc)
  let ?s = "gift_store cid g input new credited prices combos cc s"
  have old: "\<forall>p \<in> set (st_scored s). credit_ok ?s p"
    using inv by (auto simp: store_inv_def known_change intro: credit_ok_mono)
  have "credit_ok ?s ((cid, g, ''tiktok.gift'', gi_event_identity input),
      \<lparr>sd_participant_id = gi_participant_id input, sd_option_id = Some opt,
       sd_score = to_string points, sd_created_at = now\<rparr>)" if "credited = Some (opt, points)" for opt points now
  proof -
    have "points \<le> u64_max" using that c(10) typed(2) unfolding env_typed_def by blast
    then show ?thesis using that c(5) by (auto simp: credit_ok_def known_change)
  qed
  then have "\<forall>p \<in> set (st_scored ?s). credit_ok ?s p"
    using old by (auto simp: gift_store_def split: option.splits dest!: set_insert_row)
  moreover have "\<forall>c h. generation_ok c h ?s"
    using inv c(1-6) by (auto simp: store_inv_def intro!: generation_gift)
  moreover have "\<forall>p \<in> set (st_gift_participants ?s). \<not> draw_member_invalid (snd (snd (fst p)))"
    using inv c(8,9) by (auto simp: store_inv_def gift_store_def draw_member_invalid_def dest!: set_insert_row)
  ultimately show ?thesis unfolding c(7) store_inv_def
    using inv by (simp add: store_inv_def) (simp add: gift_store_def split: option.split)
qed

end
