(* ===== verification/Store_Projections.thy ===== *)
theory Store_Projections
  imports Store_Inv
begin

text \<open>
  The projections over consistent tables: the reads that rebuild totals and draw participants stay
  inside their capacities and compute the sums of the recorded rows. \<open>participant_weight\<close> is the
  reference for the weighted draw.
\<close>

section \<open>Draw participants\<close>

lemma draw_candidates_ok:
  assumes "n + length keys \<le> 100000" and "\<forall>k \<in> set keys. \<not> draw_member_invalid k"
  shows "draw_candidates n keys = Inr (map (\<lambda>k. \<lparr>ca_key = k, ca_weight = 1\<rparr>) keys)"
  using assms by (induction keys arbitrary: n) (auto simp: draw_member_invalid_def)

lemma members_valid:
  assumes "store_inv s" and "p \<in> members cid g s"
  shows "\<not> draw_member_invalid p"
proof -
  have "(cid, g, p) \<in> fst ` set (st_participants s) \<or> (cid, g, p) \<in> fst ` set (st_gift_participants s)"
    using assms(2) by (simp add: members_known known_member_def hm_has_keys)
  then show ?thesis using assms(1) by (fastforce simp: store_inv_def member_row_ok_def)
qed

lemma members_card:
  "store_inv s \<Longrightarrow> card (members cid g s) \<le> 100000"
  by (simp add: store_inv_def generation_ok_def) (metis nat_le_iff of_nat_le_iff of_nat_numeral)

lemma draw_participants_members:
  assumes inv: "store_inv s" and gen: "n \<le> i64_max"
  shows "competition_draw_participants cid n s =
    Inr (map (\<lambda>k. \<lparr>ca_key = k, ca_weight = 1\<rparr>) (sorted_list_of_set (members cid (int n) s)))"
proof -
  let ?l = "map fst (member_rows cid (int n) s) @ gift_members cid (int n) s"
  have eq: "sort (remdups ?l) = sorted_list_of_set (members cid (int n) s)"
    unfolding members_def by (rule sorted_list_of_set_sort_remdups [symmetric])
  have "length (sort (remdups ?l)) = card (members cid (int n) s)"
    unfolding eq by simp
  then have "length (sort (remdups ?l)) \<le> 100000" using members_card [OF inv] by simp
  then have "take 100001 (sort (remdups ?l)) = sorted_list_of_set (members cid (int n) s)"
    unfolding eq [symmetric] by (intro take_all) simp
  moreover have "draw_candidates 0 (sorted_list_of_set (members cid (int n) s)) =
      Inr (map (\<lambda>k. \<lparr>ca_key = k, ca_weight = 1\<rparr>) (sorted_list_of_set (members cid (int n) s)))"
    using members_card [OF inv] members_valid [OF inv] by (intro draw_candidates_ok) simp_all
  ultimately show ?thesis using gen by (simp add: competition_draw_participants_def try_i64_def)
qed

section \<open>Vote totals\<close>

lemma collect_totals_ok:
  "n + length ps \<le> 256 \<Longrightarrow> \<forall>(opt, v) \<in> set ps. 0 < v \<Longrightarrow>
     collect_totals n ps = Inr (map (\<lambda>(opt, v). (opt, as_u64 v)) ps)"
  by (induction ps arbitrary: n) auto

lemma collect_totals_many:
  "n + length ps > 256 \<Longrightarrow> n \<le> 256 \<Longrightarrow> collect_totals n ps = Inl (Db_Invalid ''invalid vote projection'')"
proof (induction ps arbitrary: n)
  case (Cons p ps)
  obtain opt v where p: "p = (opt, v)" by force
  show ?case
  proof (cases "n = 256 \<or> v \<le> 0")
    case False
    then have "collect_totals (n + 1) ps = Inl (Db_Invalid ''invalid vote projection'')"
      using Cons.prems by (intro Cons.IH) auto
    then show ?thesis using False p by simp
  qed (auto simp: p)
qed simp

lemma votes_for_le:
  "\<forall>(p, row) \<in> set rows. 0 < pr_votes row \<Longrightarrow>
     0 \<le> votes_for opt rows \<and> votes_for opt rows \<le> sum_list (map (pr_votes \<circ> snd) rows)"
  by (induction rows) (auto simp: votes_for_def)

lemma votes_for_Cons:
  "votes_for opt (r # rows) = (if pr_option_id (snd r) = opt then pr_votes (snd r) else 0) + votes_for opt rows"
  by (cases r) (simp add: votes_for_def)

lemma votes_for_pos:
  "\<forall>(p, row) \<in> set rows. 0 < pr_votes row \<Longrightarrow> opt \<in> set (map (pr_option_id \<circ> snd) rows) \<Longrightarrow> 0 < votes_for opt rows"
proof (induction rows)
  case (Cons r rows)
  have rest: "0 \<le> votes_for opt rows" and r: "0 < pr_votes (snd r)"
    using Cons.prems(1) votes_for_le [of rows opt] by (simp_all add: case_prod_beta)
  show ?case
  proof (cases "pr_option_id (snd r) = opt")
    case True
    then show ?thesis using rest r by (simp add: votes_for_Cons)
  next
    case False
    then have "0 < votes_for opt rows" using Cons by (intro Cons.IH) auto
    then show ?thesis using False by (simp add: votes_for_Cons)
  qed
qed simp

lemma votes_for_sum:
  "distinct opts \<Longrightarrow> set (map (pr_option_id \<circ> snd) rows) \<subseteq> set opts \<Longrightarrow>
     sum_list (map (\<lambda>opt. votes_for opt rows) opts) = sum_list (map (pr_votes \<circ> snd) rows)"
proof (induction rows)
  case (Cons r rows)
  have "sum_list (map (\<lambda>opt. if pr_option_id (snd r) = opt then pr_votes (snd r) else 0) opts) = pr_votes (snd r)"
    using Cons.prems by (simp add: sum_list_distinct_conv_sum_set)
  then show ?case using Cons by (simp add: votes_for_Cons sum_list_addf)
qed (simp add: votes_for_def sum_list_triv)

lemma member_rows_sum: "sum_list (map (pr_votes \<circ> snd) (member_rows cid g s)) = vote_sum cid g (st_participants s)"
proof -
  have "sum_list (map (pr_votes \<circ> snd) (map (\<lambda>((_, _, participant), row). (participant, row))
      (filter (\<lambda>((cid', g', _), _). cid' = cid \<and> g' = g) m))) = vote_sum cid g m" for m
    by (induction m) auto
  then show ?thesis by (simp only: member_rows_def)
qed

lemma member_rows_pos:
  "store_inv s \<Longrightarrow> \<forall>(p, row) \<in> set (member_rows cid g s). 0 < pr_votes row"
  by (fastforce simp: store_inv_def member_rows_def member_row_ok_def)

lemma vote_sum_bound: "store_inv s \<Longrightarrow> vote_sum cid g (st_participants s) \<le> 500000"
  unfolding store_inv_def generation_ok_def by (smt (verit) of_nat_0_le_iff of_nat_add)

text \<open>At most 256 options can be counted; then the totals are the sums and add up to all votes.\<close>

definition voted_options :: "string \<Rightarrow> int \<Rightarrow> store \<Rightarrow> string list" where
  "voted_options cid g s = sort (remdups (map (pr_option_id \<circ> snd) (member_rows cid g s)))"

lemma votes_for_bound:
  assumes "store_inv s"
  shows "0 \<le> votes_for opt (member_rows cid g s) \<and> votes_for opt (member_rows cid g s) \<le> 500000"
  using votes_for_le [OF member_rows_pos [OF assms], of opt cid g] vote_sum_bound [OF assms, of cid g]
  by (simp add: member_rows_sum)

lemma vote_totals_spec:
  assumes inv: "store_inv s" and gen: "n \<le> i64_max"
  shows "competition_vote_totals cid n s =
    (if length (voted_options cid (int n) s) > 256 then Inl (Db_Invalid ''invalid vote projection'')
     else Inr (map (\<lambda>opt. (opt, nat (votes_for opt (member_rows cid (int n) s)))) (voted_options cid (int n) s)))"
proof -
  let ?rows = "member_rows cid (int n) s"
  let ?opts = "voted_options cid (int n) s"
  have small: "\<not> list_ex (\<lambda>opt. \<bar>votes_for opt ?rows\<bar> > int i64_max) (take 257 ?opts)"
  proof -
    have "\<not> \<bar>votes_for opt ?rows\<bar> > int i64_max" for opt
      using votes_for_bound [OF inv, of opt cid "int n"] by (simp add: i64_max_def)
    then show ?thesis by (simp add: list_ex_iff)
  qed
  have pos: "\<forall>(opt, v) \<in> set (map (\<lambda>opt. (opt, votes_for opt ?rows)) (take 257 ?opts)). 0 < v"
    using votes_for_pos [OF member_rows_pos [OF inv]] by (auto simp: voted_options_def dest!: in_set_takeD)
  have as: "as_u64 (votes_for opt ?rows) = nat (votes_for opt ?rows)" for opt
    using votes_for_bound [OF inv, of opt cid "int n"] by (intro as_u64_small) (simp_all add: i64_max_def)
  have run: "competition_vote_totals cid n s =
      collect_totals 0 (map (\<lambda>opt. (opt, votes_for opt ?rows)) (take 257 ?opts))"
    using gen small by (simp add: competition_vote_totals_def try_i64_def Let_def voted_options_def)
  show ?thesis
  proof (cases "length ?opts > 256")
    case True
    then show ?thesis unfolding run by (simp add: collect_totals_many)
  next
    case False
    then show ?thesis unfolding run using collect_totals_ok [OF _ pos, of 0] by (simp add: as)
  qed
qed

section \<open>Weighted draw\<close>

definition row_score :: "scored_row \<Rightarrow> nat" where
  "row_score row = (case parse_u64 (sd_score row) of None \<Rightarrow> 0 | Some n \<Rightarrow> n)"

definition scores_of :: "string \<Rightarrow> scored_row list \<Rightarrow> nat" where
  "scores_of p rows = sum_list (map row_score (filter (\<lambda>row. sd_participant_id row = p) rows))"

definition votes_of :: "string \<Rightarrow> int \<Rightarrow> store \<Rightarrow> string \<Rightarrow> nat" where
  "votes_of cid g s p = (case hm_get (st_participants s) (cid, g, p) of None \<Rightarrow> 0 | Some row \<Rightarrow> nat (pr_votes row))"

definition participant_weight :: "string \<Rightarrow> int \<Rightarrow> nat \<Rightarrow> store \<Rightarrow> string \<Rightarrow> nat" where
  "participant_weight cid g vote_weight s p =
     votes_of cid g s p * vote_weight + scores_of p (credited_rows cid g s)"

abbreviation weight_overflow :: "db_error + 'a" where
  "weight_overflow \<equiv> Inl (Db_Invalid ''draw weight overflow'')"

lemma weigh_votes_spec:
  assumes "hm_wf (m @ map (\<lambda>(p, row). (p, nat (pr_votes row) * w)) rows)" and "length m + length rows \<le> 100000"
    and "\<forall>(p, row) \<in> set rows. \<not> draw_member_invalid p \<and> 0 < pr_votes row \<and> pr_votes row \<le> int i64_max"
  shows "weigh_votes w m rows =
    (if \<exists>(p, row) \<in> set rows. nat (pr_votes row) * w > u64_max then weight_overflow
     else Inr (m @ map (\<lambda>(p, row). (p, nat (pr_votes row) * w)) rows))"
  using assms
proof (induction rows arbitrary: m)
  case (Cons r rows)
  obtain p row where r: "r = (p, row)" by force
  have as: "as_u64 (pr_votes row) = nat (pr_votes row)" using Cons.prems(3) r by (intro as_u64_small) auto
  have "p \<notin> hm_keys m" using Cons.prems(1) r by (auto simp: hm_wf_def)
  then have ins: "hm_insert p v m = m @ [(p, v)]" for v
    by (intro hm_insert_fresh) (simp add: hm_get_None)
  have IH: "weigh_votes w (m @ [(p, nat (pr_votes row) * w)]) rows =
    (if \<exists>(p, row) \<in> set rows. nat (pr_votes row) * w > u64_max then weight_overflow
     else Inr ((m @ [(p, nat (pr_votes row) * w)]) @ map (\<lambda>(p, row). (p, nat (pr_votes row) * w)) rows))"
    using Cons.prems r by (intro Cons.IH) auto
  show ?case using Cons.prems r IH by (auto simp: as ins checked_mul_def)
qed simp

lemma admit_gift_spec:
  assumes "hm_wf m" and "card (hm_keys m \<union> set ps) \<le> 100000" and "\<forall>p \<in> set ps. \<not> draw_member_invalid p"
  shows "\<exists>m'. admit_gift_members m ps = Inr m' \<and> hm_wf m' \<and>
    (\<forall>p. hm_get m' p = (case hm_get m p of None \<Rightarrow> if p \<in> set ps then Some 0 else None | Some v \<Rightarrow> Some v))"
  using assms
proof (induction ps arbitrary: m)
  case Nil
  then show ?case by (auto split: option.split)
next
  case (Cons q ps)
  show ?case
  proof (cases "hm_has m q")
    case True
    then have "q \<in> hm_keys m" by (simp add: hm_simps)
    then have "hm_keys m \<union> set (q # ps) = hm_keys m \<union> set ps" by auto
    then have "\<exists>m'. admit_gift_members m ps = Inr m' \<and> hm_wf m' \<and>
       (\<forall>p. hm_get m' p = (case hm_get m p of None \<Rightarrow> if p \<in> set ps then Some 0 else None | Some v \<Rightarrow> Some v))"
      using Cons.prems by (intro Cons.IH) auto
    then show ?thesis using True Cons.prems(3) by (fastforce simp: hm_has_def split: option.splits)
  next
    case False
    then have q: "q \<notin> hm_keys m" by (simp add: hm_simps)
    have "card (insert q (hm_keys m)) \<le> card (hm_keys m \<union> set (q # ps))" by (intro card_mono) auto
    then have "Suc (length m) \<le> 100000"
      using q Cons.prems(1,2) by (simp add: hm_len_keys)
    moreover have "\<exists>m'. admit_gift_members (hm_insert q 0 m) ps = Inr m' \<and> hm_wf m' \<and>
       (\<forall>p. hm_get m' p = (case hm_get (hm_insert q 0 m) p of
          None \<Rightarrow> if p \<in> set ps then Some 0 else None | Some v \<Rightarrow> Some v))"
      using Cons.prems by (intro Cons.IH) (simp_all add: hm_keys_insert)
    then obtain m' where m': "admit_gift_members (hm_insert q 0 m) ps = Inr m'" "hm_wf m'"
      "\<And>p. hm_get m' p = (case hm_get (hm_insert q 0 m) p of
          None \<Rightarrow> if p \<in> set ps then Some 0 else None | Some v \<Rightarrow> Some v)"
      by blast
    moreover have "hm_get m' p = (case hm_get m p of None \<Rightarrow> if p \<in> set (q # ps) then Some 0 else None | Some v \<Rightarrow> Some v)" for p
      using False by (cases "p = q") (simp_all add: m'(3) hm_get_insert hm_has_def split: option.split)
    ultimately show ?thesis using False Cons.prems(3) by simp
  qed
qed

text \<open>Adding the scores: a participant overflows exactly when the whole sum does.\<close>

lemma scores_of_Cons:
  "scores_of p (row # rows) = (if sd_participant_id row = p then row_score row else 0) + scores_of p rows"
  by (simp add: scores_of_def)

lemma weigh_scores_spec:
  assumes "index + length rows \<le> 500000" and "hm_wf m" and "\<And>p v. hm_get m p = Some v \<Longrightarrow> v \<le> u64_max"
    and "\<forall>row \<in> set rows. hm_has m (sd_participant_id row) \<and> parse_u64 (sd_score row) \<noteq> None"
  shows "if \<exists>p v. hm_get m p = Some v \<and> v + scores_of p rows > u64_max
    then weigh_scores m index rows = weight_overflow
    else \<exists>m'. weigh_scores m index rows = Inr m' \<and> hm_wf m' \<and>
      (\<forall>p. hm_get m' p = map_option (\<lambda>v. v + scores_of p rows) (hm_get m p))"
  using assms
proof (induction rows arbitrary: m index)
  case Nil
  have id: "map_option (\<lambda>v. v + scores_of p []) (hm_get m p) = hm_get m p" for p
    by (cases "hm_get m p") (simp_all add: scores_of_def)
  have "\<not> (\<exists>p v. hm_get m p = Some v \<and> v + scores_of p [] > u64_max)"
    using Nil.prems(3) by (auto simp: scores_of_def not_less)
  then show ?case using Nil.prems(2) by (simp only: if_False id) simp
next
  case (Cons row rows)
  let ?q = "sd_participant_id row"
  obtain weight where w: "hm_get m ?q = Some weight" using Cons.prems(4) by (auto simp: hm_has_def)
  obtain n where n: "parse_u64 (sd_score row) = Some n" using Cons.prems(4) by auto
  then have rs: "row_score row = n" by (simp add: row_score_def)
  have idx: "\<not> index \<ge> 500000" using Cons.prems(1) by simp
  show ?case
  proof (cases "weight + n \<le> u64_max")
    case False
    then have "weigh_scores m index (row # rows) = weight_overflow"
      using idx n w by (simp add: checked_add_def)
    moreover have "weight + scores_of ?q (row # rows) > u64_max"
      using False rs by (simp add: scores_of_Cons)
    ultimately show ?thesis using w by auto
  next
    case True
    let ?m = "hm_insert ?q (weight + n) m"
    have run: "weigh_scores m index (row # rows) = weigh_scores ?m (index + 1) rows"
      using True idx n w by (simp add: checked_add_def)
    have IH: "if \<exists>p v. hm_get ?m p = Some v \<and> v + scores_of p rows > u64_max
      then weigh_scores ?m (index + 1) rows = weight_overflow
      else \<exists>m'. weigh_scores ?m (index + 1) rows = Inr m' \<and> hm_wf m' \<and>
        (\<forall>p. hm_get m' p = map_option (\<lambda>v. v + scores_of p rows) (hm_get ?m p))"
      using Cons.prems True by (intro Cons.IH) (auto simp: hm_get_insert hm_has_def split: if_splits)
    have same: "map_option (\<lambda>v. v + scores_of p rows) (hm_get ?m p) =
        map_option (\<lambda>v. v + scores_of p (row # rows)) (hm_get m p)" for p
      using w rs by (simp add: hm_get_insert scores_of_Cons)
    have "(\<exists>v. hm_get ?m p = Some v \<and> v + scores_of p rows > u64_max) \<longleftrightarrow>
        (\<exists>v. hm_get m p = Some v \<and> v + scores_of p (row # rows) > u64_max)" for p
      using w rs by (simp add: hm_get_insert scores_of_Cons add.assoc)
    then show ?thesis using IH unfolding run same by simp
  qed
qed

lemma sort_key_get:
  assumes "hm_wf m"
  shows "sort_key fst m = map (\<lambda>p. (p, the (hm_get m p))) (sorted_list_of_set (hm_keys m))"
proof -
  have "sorted (map fst (sort_key fst m))" "distinct (map fst (sort_key fst m))"
    using assms by (simp_all add: hm_wf_def distinct_map)
  then have keys: "sorted_list_of_set (hm_keys m) = map fst (sort_key fst m)"
    using sorted_list_of_set.idem_if_sorted_distinct [of "map fst (sort_key fst m)"] by simp
  have "map (\<lambda>p. (fst p, the (hm_get m (fst p)))) (sort_key fst m) = sort_key fst m"
  proof (rule map_idI)
    fix q assume "q \<in> set (sort_key fst m)"
    then have "hm_get m (fst q) = Some (snd q)" by (subst hm_get_Some_set [OF assms]) simp
    then show "(fst q, the (hm_get m (fst q))) = q" by simp
  qed
  then show ?thesis unfolding keys by (simp add: comp_def)
qed

lemma member_rows_get: "hm_get (member_rows cid g s) p = hm_get (st_participants s) (cid, g, p)"
proof -
  have "hm_get (map (\<lambda>((_, _, participant), row). (participant, row))
      (filter (\<lambda>((cid', g', _), _). cid' = cid \<and> g' = g) m)) p = hm_get m (cid, g, p)" for m :: "(member_key, participant_row) hmap"
    by (induction m) auto
  then show ?thesis by (simp only: member_rows_def)
qed

lemma member_rows_wf: "hm_wf (st_participants s) \<Longrightarrow> hm_wf (member_rows cid g s)"
proof -
  have "distinct (map fst m) \<Longrightarrow> distinct (map fst (map (\<lambda>((_, _, participant), row). (participant, row))
      (filter (\<lambda>((cid', g', _), _). cid' = cid \<and> g' = g) m)))" for m :: "(member_key, participant_row) hmap"
    by (induction m) force+
  then show "hm_wf (st_participants s) \<Longrightarrow> hm_wf (member_rows cid g s)" by (simp only: member_rows_def hm_wf_def)
qed

lemma gift_members_distinct: "hm_wf (st_gift_participants s) \<Longrightarrow> distinct (gift_members cid g s)"
proof -
  have "distinct (map fst m) \<Longrightarrow> distinct (map (\<lambda>((_, _, participant), _). participant)
      (filter (\<lambda>((cid', g', _), _). cid' = cid \<and> g' = g) m))" for m :: "(member_key, unit) hmap"
    by (induction m) force+
  then show "hm_wf (st_gift_participants s) \<Longrightarrow> distinct (gift_members cid g s)" by (simp only: gift_members_def hm_wf_def)
qed

lemma member_lists_short:
  assumes inv: "store_inv s"
  shows "length (member_rows cid g s) \<le> 100000" and "length (gift_members cid g s) \<le> 100000"
proof -
  have "length (map fst (member_rows cid g s)) = card (set (map fst (member_rows cid g s)))"
    using inv member_rows_wf [of s cid g] by (simp only: store_inv_def hm_wf_def distinct_card)
  also have "\<dots> \<le> card (members cid g s)" by (intro card_mono) (auto simp: members_def)
  finally show "length (member_rows cid g s) \<le> 100000" using members_card [OF inv, of cid g] by simp
  have "length (gift_members cid g s) = card (set (gift_members cid g s))"
    using inv gift_members_distinct [of s cid g] by (simp only: store_inv_def distinct_card)
  also have "\<dots> \<le> card (members cid g s)" by (intro card_mono) (auto simp: members_def)
  finally show "length (gift_members cid g s) \<le> 100000" using members_card [OF inv, of cid g] by simp
qed

lemma credited_rows_short:
  assumes "store_inv s"
  shows "length (credited_rows cid g s) \<le> 500000"
proof -
  have "length (filter (\<lambda>((cid', g', _, _), row). cid' = cid \<and> g' = g \<and> sd_option_id row \<noteq> None) m) \<le>
      length (filter (in_generation cid g) m)" for m :: "(scored_key, scored_row) hmap"
    by (induction m) auto
  then have "length (credited_rows cid g s) \<le> row_count cid g (st_scored s)"
    by (simp only: credited_rows_def row_count_def length_map)
  also have "\<dots> = row_count cid g (gift_rows s) + row_count cid g (plain_rows s)"
    by (simp add: gift_rows_def plain_rows_def row_count_split)
  finally have le: "length (credited_rows cid g s) \<le> row_count cid g (gift_rows s) + row_count cid g (plain_rows s)" .
  have "generation_ok cid g s" using assms by (simp add: store_inv_def)
  then show ?thesis using le by (simp add: generation_ok_def)
qed

lemma credited_rows_ok:
  assumes "store_inv s"
  shows "\<forall>row \<in> set (credited_rows cid g s). sd_participant_id row \<in> members cid g s \<and> parse_u64 (sd_score row) \<noteq> None"
proof
  fix row assume "row \<in> set (credited_rows cid g s)"
  then obtain src i where r: "((cid, g, src, i), row) \<in> set (st_scored s)" "sd_option_id row \<noteq> None"
    by (auto simp: credited_rows_def)
  then have c: "credit_ok s ((cid, g, src, i), row)" using assms by (simp add: store_inv_def)
  then obtain k where "k \<le> u64_max" "sd_score row = to_string k" by (auto simp: credit_ok_def)
  then have "parse_u64 (sd_score row) \<noteq> None" by (simp add: u64_text.decode_encode)
  then show "sd_participant_id row \<in> members cid g s \<and> parse_u64 (sd_score row) \<noteq> None"
    using c r(2) by (simp add: credit_ok_def members_known)
qed

text \<open>The whole weighted draw.\<close>

lemma weighted_draw_spec:
  assumes inv: "store_inv s" and gen: "n \<le> i64_max"
  shows "competition_weighted_draw_participants cid n w s =
    (if \<exists>p \<in> members cid (int n) s. participant_weight cid (int n) w s p > u64_max then weight_overflow
     else Inr (map (\<lambda>p. \<lparr>ca_key = p, ca_weight = participant_weight cid (int n) w s p\<rparr>)
       (sorted_list_of_set (members cid (int n) s))))"
proof -
  let ?g = "int n"
  let ?rows = "member_rows cid ?g s"
  let ?gifts = "gift_members cid ?g s"
  let ?credits = "credited_rows cid ?g s"
  let ?m = "map (\<lambda>(p, row). (p, nat (pr_votes row) * w)) ?rows"
  have take: "take 100001 ?rows = ?rows" "take 100001 ?gifts = ?gifts" "take 500001 ?credits = ?credits"
    using member_lists_short [OF inv, of cid ?g] credited_rows_short [OF inv, of cid ?g] by simp_all
  have wf: "hm_wf ?m"
    using member_rows_wf [of s cid ?g] inv by (simp add: store_inv_def hm_wf_def comp_def case_prod_beta)
  have keys: "hm_keys ?m = set (map fst ?rows)" by force
  have mem: "members cid ?g s = set (map fst ?rows) \<union> set ?gifts" by (simp add: members_def)
  have get: "hm_get ?m p = map_option (\<lambda>row. nat (pr_votes row) * w) (hm_get (st_participants s) (cid, ?g, p))" for p
    by (simp add: map_of_map member_rows_get [symmetric])
  have ok: "\<forall>(p, row) \<in> set ?rows. \<not> draw_member_invalid p \<and> 0 < pr_votes row \<and> pr_votes row \<le> int i64_max"
  proof (clarify, intro conjI)
    fix p row assume r: "(p, row) \<in> set ?rows"
    then have "p \<in> members cid ?g s" by (force simp: members_def)
    then show "\<not> draw_member_invalid p" by (rule members_valid [OF inv])
    show "0 < pr_votes row" using r member_rows_pos [OF inv, of cid ?g] by auto
    have "pr_votes row \<le> sum_list (map (pr_votes \<circ> snd) ?rows)"
      using r member_rows_pos [OF inv, of cid ?g] by (intro member_le_sum_list) force+
    then show "pr_votes row \<le> int i64_max"
      using vote_sum_bound [OF inv, of cid ?g] by (simp add: member_rows_sum i64_max_def)
  qed
  have votes: "votes_of cid ?g s p * w \<le> participant_weight cid ?g w s p" for p
    by (simp add: participant_weight_def)
  have voted: "weigh_votes w [] ?rows =
      (if \<exists>(p, row) \<in> set ?rows. nat (pr_votes row) * w > u64_max then weight_overflow else Inr ?m)"
    using weigh_votes_spec [of "[]" w ?rows] wf ok member_lists_short(1) [OF inv, of cid ?g] by simp
  have run: "competition_weighted_draw_participants cid n w s =
      bind_result (weigh_votes w [] ?rows) (\<lambda>voted. bind_result (admit_gift_members voted ?gifts) (\<lambda>admitted.
      bind_result (weigh_scores admitted 0 ?credits) (\<lambda>weights.
        Inr (map (\<lambda>(key, weight). \<lparr>ca_key = key, ca_weight = weight\<rparr>) (sort_key fst weights)))))"
    using gen by (simp add: competition_weighted_draw_participants_def try_i64_def take)
  show ?thesis
  proof (cases "\<exists>(p, row) \<in> set ?rows. nat (pr_votes row) * w > u64_max")
    case True
    then obtain p row where r: "(p, row) \<in> set ?rows" "nat (pr_votes row) * w > u64_max" by auto
    then have "hm_get ?rows p = Some row"
      using member_rows_wf [of s cid ?g] inv by (simp add: store_inv_def hm_get_Some_set)
    then have "votes_of cid ?g s p * w > u64_max" using r(2) by (simp add: votes_of_def member_rows_get)
    then have "participant_weight cid ?g w s p > u64_max" using votes [of p] by simp
    moreover have "p \<in> members cid ?g s" using r(1) by (force simp: members_def)
    ultimately have "\<exists>p \<in> members cid ?g s. participant_weight cid ?g w s p > u64_max" by blast
    moreover have "competition_weighted_draw_participants cid n w s = weight_overflow"
      unfolding run voted using True by simp
    ultimately show ?thesis by simp
  next
    case False
    then have voted: "weigh_votes w [] ?rows = Inr ?m" using voted by simp
    have "card (hm_keys ?m \<union> set ?gifts) \<le> 100000" unfolding keys mem [symmetric] by (rule members_card [OF inv])
    moreover have "\<forall>p \<in> set ?gifts. \<not> draw_member_invalid p"
      using members_valid [OF inv, of _ cid ?g] by (simp add: mem)
    ultimately obtain m1 where m1: "admit_gift_members ?m ?gifts = Inr m1" "hm_wf m1"
      "\<And>p. hm_get m1 p = (case hm_get ?m p of None \<Rightarrow> if p \<in> set ?gifts then Some 0 else None | Some v \<Rightarrow> Some v)"
      using admit_gift_spec [OF wf, of ?gifts] by blast
    have get1: "hm_get m1 p = (if p \<in> members cid ?g s then Some (votes_of cid ?g s p * w) else None)" for p
    proof (cases "hm_get (st_participants s) (cid, ?g, p)")
      case None
      then have "hm_get ?rows p = None" by (simp add: member_rows_get)
      then have "p \<notin> set (map fst ?rows)" by (simp add: map_of_eq_None_iff)
      then show ?thesis using None by (simp only: m1(3) get mem votes_of_def) simp
    next
      case (Some row)
      then have "hm_get ?rows p = Some row" by (simp add: member_rows_get)
      then have "p \<in> set (map fst ?rows)" by (force dest: map_of_SomeD)
      then show ?thesis using Some by (simp only: m1(3) get mem votes_of_def) simp
    qed
    have small: "v \<le> u64_max" if "hm_get m1 p = Some v" for p v
    proof (cases "hm_get ?rows p")
      case (Some row)
      then have "(p, row) \<in> set ?rows" by (rule map_of_SomeD)
      then have "nat (pr_votes row) * w \<le> u64_max" using False by force
      then show ?thesis using that Some by (simp add: get1 votes_of_def member_rows_get split: if_splits)
    qed (use that in \<open>simp add: get1 votes_of_def member_rows_get split: if_splits\<close>)
    have "\<forall>row \<in> set ?credits. hm_has m1 (sd_participant_id row) \<and> parse_u64 (sd_score row) \<noteq> None"
      using credited_rows_ok [OF inv, of cid ?g] by (simp add: hm_has_def get1)
    then have scores: "if \<exists>p v. hm_get m1 p = Some v \<and> v + scores_of p ?credits > u64_max
      then weigh_scores m1 0 ?credits = weight_overflow
      else \<exists>m'. weigh_scores m1 0 ?credits = Inr m' \<and> hm_wf m' \<and>
        (\<forall>p. hm_get m' p = map_option (\<lambda>v. v + scores_of p ?credits) (hm_get m1 p))"
      using m1(2) small credited_rows_short [OF inv, of cid ?g] by (intro weigh_scores_spec) simp_all
    have over: "(\<exists>p v. hm_get m1 p = Some v \<and> v + scores_of p ?credits > u64_max) \<longleftrightarrow>
        (\<exists>p \<in> members cid ?g s. participant_weight cid ?g w s p > u64_max)"
      by (auto simp: get1 participant_weight_def)
    have run1: "competition_weighted_draw_participants cid n w s =
        bind_result (weigh_scores m1 0 ?credits) (\<lambda>weights.
          Inr (map (\<lambda>(key, weight). \<lparr>ca_key = key, ca_weight = weight\<rparr>) (sort_key fst weights)))"
      unfolding run voted by (simp add: m1(1))
    show ?thesis
    proof (cases "\<exists>p \<in> members cid ?g s. participant_weight cid ?g w s p > u64_max")
      case True
      then show ?thesis using scores unfolding run1 over by simp
    next
      case False
      then obtain m2 where m2: "weigh_scores m1 0 ?credits = Inr m2" "hm_wf m2"
        "\<And>p. hm_get m2 p = map_option (\<lambda>v. v + scores_of p ?credits) (hm_get m1 p)"
        using scores unfolding over by (simp only: if_False) blast
      have get2: "hm_get m2 p = (if p \<in> members cid ?g s then Some (participant_weight cid ?g w s p) else None)" for p
        by (simp add: m2(3) get1 participant_weight_def)
      then have "hm_keys m2 = members cid ?g s"
        by (metis (no_types, lifting) hm_get_None option.distinct(1) subsetI subset_antisym)
      then have "sort_key fst m2 = map (\<lambda>p. (p, participant_weight cid ?g w s p)) (sorted_list_of_set (members cid ?g s))"
        using sort_key_get [OF m2(2)] by (simp add: get2)
      then show ?thesis using False unfolding run1 by (simp add: m2(1) comp_def)
    qed
  qed
qed

lemma member_votes_small:
  assumes "store_inv s" and "hm_get (st_participants s) (cid, g, p) = Some row"
  shows "0 < pr_votes row \<and> pr_votes row \<le> 500000"
proof -
  have r: "(p, row) \<in> set (member_rows cid g s)"
    using assms(2) by (intro map_of_SomeD) (simp add: member_rows_get)
  then have "pr_votes row \<le> sum_list (map (pr_votes \<circ> snd) (member_rows cid g s))"
    using member_rows_pos [OF assms(1), of cid g] by (intro member_le_sum_list) force+
  then show ?thesis
    using r member_rows_pos [OF assms(1), of cid g] vote_sum_bound [OF assms(1), of cid g]
    by (auto simp: member_rows_sum)
qed

end
