(* ===== verification/Store_Example.thy ===== *)
theory Store_Example
  imports Store_Projections Competition_Guarantees
begin

text \<open>
  A random draw with a winner action, opened by the host \<open>me\<close>, one voter and one giver: the
  concrete run on which the properties of the store are applied.
\<close>

definition sample_env :: store_env where
  "sample_env =
     \<lparr>se_lower = id, se_keys = (\<lambda>cid generation. replicate generation (CHR ''1'') @ CHR ''-'' # cid),
      se_score = (\<lambda>quantity diamonds gift. if diamonds \<le> u64_max then Inr diamonds else Inl Db_Sql)\<rparr>"

definition sample_action :: winner_action where
  "sample_action = \<lparr>wa_action_id = ''prize'', wa_inputs = JNull\<rparr>"

definition sample_draw :: competition_definition where
  "sample_draw = example_poll
     \<lparr>cd_id := ''draw'', cd_kind := RandomDraw, cd_selection_mode := UniformRandom, cd_duration_ms := Some 90,
      cd_options := [(example_option ''a'' ''!a'')\<lparr>od_gift_ids := [''rose'']\<rparr>, example_option ''b'' ''!b''],
      cd_vote_limit := 2, cd_allow_switch := True, cd_on_user_win := Some sample_action\<rparr>"

definition sample_vote :: "string \<Rightarrow> string \<Rightarrow> string \<Rightarrow> command_participation" where
  "sample_vote participant identity command =
     \<lparr>pa_creator_id = ''c'', pa_room_id = ''r'', pa_participant_id = participant, pa_event_identity = identity,
      pa_command = command, pa_received_at = 20\<rparr>"

definition sample_gift :: "string \<Rightarrow> string \<Rightarrow> gift_input" where
  "sample_gift participant identity =
     \<lparr>gi_creator_id = ''c'', gi_room_id = ''r'', gi_participant_id = participant, gi_event_identity = identity,
      gi_gift_id = ''rose'', gi_group_id = ''g'', gi_observed_quantity = 1, gi_price = 5,
      gi_received_at = 30\<rparr>"

definition opening_ops :: "store_op list" where
  "opening_ops =
     [St_Scopes [(''top'', \<lparr>sc_creator_id = ''c'', sc_room_id = ''r''\<rparr>)], St_Insert sample_draw,
      St_Transition ''draw'' Start 10 (Some ''me'')]"

definition entry_ops :: "store_op list" where
  "entry_ops =
     [St_Command ''draw'' (sample_vote ''ana'' ''e1'' ''!b'') (Some ''me''),
      St_Gift ''draw'' (sample_gift ''bob'' ''e2'') ''me'']"

definition store_run :: "store_env \<Rightarrow> store_op list \<Rightarrow> store \<Rightarrow> store" where
  "store_run env ops s = fold (store_step env) ops s"

lemma store_run_Nil [simp]: "store_run env [] s = s"
  by (simp add: store_run_def)

lemma store_run_Cons [simp]: "store_run env (op # ops) s = store_run env ops (store_step env op s)"
  by (simp add: store_run_def)

lemma store_run_append: "store_run env (ops @ ops') s = store_run env ops' (store_run env ops s)"
  by (simp add: store_run_def)

lemma store_run_inv:
  "env_typed env \<Longrightarrow> list_all op_typed ops \<Longrightarrow> store_inv s \<Longrightarrow> store_inv (store_run env ops s)"
  by (induction ops arbitrary: s) (simp_all add: store_inv_step)

lemma scoped_state:
  "scoped cid creator room s = Some (dcolumn, scolumn) \<Longrightarrow> hm_get (st_states s) cid = Some scolumn"
  by (auto simp: scoped_def split: option.splits if_splits)

lemma sample_env_typed: "env_typed sample_env"
  by (simp add: env_typed_def sample_env_def)

lemma sample_keys_inj: "inj (case_prod (se_keys sample_env))"
proof (rule injI, clarify)
  fix a m b n assume "se_keys sample_env a m = se_keys sample_env b n"
  then have eq: "replicate m (CHR ''1'') @ CHR ''-'' # a = replicate n (CHR ''1'') @ CHR ''-'' # b"
    by (simp add: sample_env_def)
  have "takeWhile (\<lambda>c. c = CHR ''1'') (replicate k (CHR ''1'') @ CHR ''-'' # x) = replicate k (CHR ''1'')" for k x
    by (subst takeWhile_append2) auto
  then have "replicate m (CHR ''1'') = replicate n (CHR ''1'')" using eq by metis
  then have "m = n" by simp
  then show "a = b \<and> m = n" using eq by simp
qed

lemma sample_lower: "se_lower sample_env = id"
  by (simp add: sample_env_def)

section \<open>The run\<close>

lemma validate_sample_draw: "validate id sample_draw = Inr ()"
proof -
  have t: "trim ''a'' = ''a'' \<and> trim ''b'' = ''b'' \<and> trim ''!a'' = ''!a'' \<and> trim ''!b'' = ''!b'' \<and> trim ''Poll'' = ''Poll''"
    by (simp add: trim_printable)
  then show ?thesis
    by (simp add: validate_def header_invalid_def sample_draw_def example_poll_def example_option_def
        starts_with_def action_invalid_def sample_action_def)
qed

lemma sample_command: "option_for_command id sample_draw ''!b'' = Some ''b''"
  by (simp add: option_for_command_def sample_draw_def example_poll_def example_option_def trim_printable)

definition opened_store :: store where
  "opened_store = store_empty
     \<lparr>st_scopes := [(''top'', \<lparr>sc_creator_id = ''c'', sc_room_id = ''r''\<rparr>)],
      st_definitions := [(''draw'', \<lparr>dr_ranking_id = ''top'', dr_schema_version = 1, dr_definition = Some sample_draw\<rparr>)],
      st_states := [(''draw'', Some \<lparr>ls_lifecycle = Active, ls_generation = 1, ls_deadline_ms = Some 100,
         ls_remaining_ms = None\<rparr>)],
      st_integrity := [((''draw'', 1), Integrity_Open)], st_owners := [((''draw'', 1), ''me'')]\<rparr>"

lemma sample_draw_fields:
  "cd_id sample_draw = ''draw''" "cd_ranking_id sample_draw = ''top''" "cd_schema_version sample_draw = 1"
  "cd_duration_ms sample_draw = Some 90" "cd_vote_limit sample_draw = 2" "cd_allow_switch sample_draw"
  "cd_on_user_win sample_draw = Some sample_action" "cd_kind sample_draw = RandomDraw"
  "cd_selection_mode sample_draw = UniformRandom" "cd_tie_policy sample_draw = Manual"
  by (simp_all add: sample_draw_def example_poll_def)

lemma opening_run: "store_run sample_env opening_ops store_empty = opened_store"
proof -
  have 1: "store_run sample_env opening_ops store_empty =
      store_step sample_env (St_Transition ''draw'' Start 10 (Some ''me''))
        (store_step sample_env (St_Insert sample_draw)
          (store_empty\<lparr>st_scopes := [(''top'', \<lparr>sc_creator_id = ''c'', sc_room_id = ''r''\<rparr>)]\<rparr>))"
    by (simp add: opening_ops_def store_step_def)
  have "store_step sample_env (St_Insert sample_draw)
      (store_empty\<lparr>st_scopes := [(''top'', \<lparr>sc_creator_id = ''c'', sc_room_id = ''r''\<rparr>)]\<rparr>) =
    store_empty\<lparr>st_scopes := [(''top'', \<lparr>sc_creator_id = ''c'', sc_room_id = ''r''\<rparr>)],
      st_definitions := [(''draw'', \<lparr>dr_ranking_id = ''top'', dr_schema_version = 1, dr_definition = Some sample_draw\<rparr>)],
      st_states := [(''draw'', Some lifecycle_default)]\<rparr>"
    by (simp add: store_step_def insert_competition_definition_def sample_env_def validate_sample_draw
        store_empty_def insert_row_def hm_has_def stored_definition_def sample_draw_fields)
  then show ?thesis unfolding 1
    by (simp add: store_step_def settled_def transition_competition_owned_def joined_def store_empty_def
        transition_def lifecycle_default_def later_def checked_add_def sample_draw_fields open_generation_def
        try_i64_def insert_row_def hm_has_def opened_store_def i64_max_def u64_max_def)
qed

lemma sample_options:
  "find (\<lambda>opt. ''rose'' \<in> set (od_gift_ids opt)) (cd_options sample_draw) =
     Some ((example_option ''a'' ''!a'')\<lparr>od_gift_ids := [''rose'']\<rparr>)"
  by (simp add: sample_draw_def example_poll_def example_option_def)

lemma opened_scoped:
  "scoped ''draw'' ''c'' ''r'' (opened_store\<lparr>st_counts := a, st_participants := b, st_contributions := c\<rparr>) =
     Some (Some sample_draw, Some \<lparr>ls_lifecycle = Active, ls_generation = 1, ls_deadline_ms = Some 100,
       ls_remaining_ms = None\<rparr>)"
  "scoped ''draw'' ''c'' ''r'' opened_store =
     Some (Some sample_draw, Some \<lparr>ls_lifecycle = Active, ls_generation = 1, ls_deadline_ms = Some 100,
       ls_remaining_ms = None\<rparr>)"
  by (simp_all add: scoped_def opened_store_def store_empty_def)

definition voted_tables :: store where
  "voted_tables = opened_store
     \<lparr>st_counts := [((''draw'', 1), \<lparr>ct_participants = 1, ct_contributions = 1\<rparr>)],
      st_participants := [((''draw'', 1, ''ana''), \<lparr>pr_option_id = ''b'', pr_votes = 1, pr_updated_at = 20\<rparr>)],
      st_contributions := [((''draw'', 1, ''e1''),
        \<lparr>cn_participant_id = ''ana'', cn_option_id = ''b'', cn_created_at = 20\<rparr>)]\<rparr>"

lemma sample_vote_run:
  "route_competition_command id ''draw'' (sample_vote ''ana'' ''e1'' ''!b'') (Some ''me'') opened_store =
     (voted_tables, Inr (Some (Accepted ''b'' 1 False), None))"
  by (simp add: route_competition_command_def input_invalid_def sample_vote_def route_command_body_def
      opened_scoped closed_phase_def try_i64_def i64_max_def owns_def is_due_def sample_command)
    (simp add: opened_store_def voted_tables_def store_empty_def cast_vote_def Let_def counts_of_def hm_get_or_def hm_has_def
      accept_vote_def bump_counts_def insert_row_def as_i64_def as_u64_def i64_max_def is_due_def)

definition entered_store :: store where
  "entered_store = voted_tables
     \<lparr>st_counts := [((''draw'', 1), \<lparr>ct_participants = 2, ct_contributions = 2\<rparr>)],
      st_gift_participants := [((''draw'', 1, ''bob''), ())],
      st_receipts := [((''draw'', 1, ''e2''), gift_receipt (sample_gift ''bob'' ''e2''))],
      st_combo_prices := [((''draw'', 1, ''bob'', ''rose'', ''g''), to_string 5)],
      st_combo_counts := [((''draw'', 1), 1)],
      st_combos := [((''draw'', 1, ''bob'', ''rose'', ''g''),
        \<lparr>cb_quantity = to_string 1, cb_diamonds = to_string 5\<rparr>)],
      st_scored := [((''draw'', 1, ''tiktok.gift'', ''e2''),
        \<lparr>sd_participant_id = ''bob'', sd_option_id = Some ''a'', sd_score = to_string 5, sd_created_at = 30\<rparr>)]\<rparr>"

declare to_string.simps [simp del]

lemma sample_gift_run:
  "route_competition_gift ''draw'' (sample_gift ''bob'' ''e2'') ''me'' (se_score sample_env) voted_tables =
     (entered_store, Inr (Some (GiftAccepted ''a'' 5)))"
proof -
  have inv: "\<not> gift_input_invalid (sample_gift ''bob'' ''e2'') ''me''"
    by (simp add: gift_input_invalid_def input_invalid_def sample_gift_def i64_max_def)
  have sc: "scoped ''draw'' (gi_creator_id (sample_gift ''bob'' ''e2'')) (gi_room_id (sample_gift ''bob'' ''e2'')) voted_tables =
      Some (Some sample_draw, Some \<lparr>ls_lifecycle = Active, ls_generation = 1, ls_deadline_ms = Some 100,
        ls_remaining_ms = None\<rparr>)"
    by (simp add: voted_tables_def sample_gift_def opened_scoped)
  show ?thesis
    by (simp add: route_competition_gift_def inv sc try_i64_def i64_max_def owns_def)
      (simp add: voted_tables_def entered_store_def opened_store_def store_empty_def sample_gift_def
        counts_of_def hm_get_or_def hm_has_def credit_gift_def fix_price_def gift_combo_key_def advance_combo_def
        combo_identity_invalid_def try_i64_def i64_max_def u64_max_def previous_combo_def combo_target_def checked_mul_def
        gift_score_def saturating_sub_def sample_env_def is_due_def gift_option_def sample_options
        example_option_def record_gift_def bump_counts_def insert_row_def gift_receipt_def as_i64_def Let_def)
qed

lemma sample_run: "store_run sample_env (opening_ops @ entry_ops) store_empty = entered_store"
  by (simp add: store_run_append opening_run) (simp add: entry_ops_def store_step_def sample_gift_run
      sample_lower sample_vote_run)

end
