(* ===== verification/Store_Guarantees.thy ===== *)
theory Store_Guarantees
  imports Store_Example
begin

text \<open>
  What the store guarantees about participation: exact counters and projections, exact effects of
  accepted events, and no event counted twice, whatever operations come in between.
\<close>

section \<open>Counters and projections\<close>

text \<open>
  C22. After any sequence of store operations the contribution counter of a generation is the number
  of its recorded commands, gift receipts and other scored events, and stays within 500000; the
  participant count is the number of people the draw reads, each once and in key order, and stays
  within 100000.
\<close>

theorem store_counts_exact:
  assumes "env_typed env" "list_all op_typed ops" and "n \<le> i64_max"
    and s: "s = store_run env ops store_empty"
  shows "ct_contributions (counts_of (cid, int n) s) = int (row_count cid (int n) (st_contributions s) +
      row_count cid (int n) (st_receipts s) + row_count cid (int n) (plain_rows s)) \<and>
    ct_contributions (counts_of (cid, int n) s) \<le> 500000 \<and>
    competition_participant_count cid n s = Inr (card (members cid (int n) s)) \<and>
    card (members cid (int n) s) \<le> 100000 \<and>
    competition_draw_participants cid n s =
      Inr (map (\<lambda>k. \<lparr>ca_key = k, ca_weight = 1\<rparr>) (sorted_list_of_set (members cid (int n) s)))"
proof -
  have inv: "store_inv s" unfolding s by (rule store_run_inv [OF assms(1,2) store_inv_empty])
  then have g: "generation_ok cid (int n) s" by (simp add: store_inv_def)
  then show ?thesis
    using members_card [OF inv] draw_participants_members [OF inv assms(3)] assms(3)
    by (simp add: generation_ok_def competition_participant_count_def try_i64_def)
qed

lemma sample_typed: "list_all op_typed (opening_ops @ entry_ops)"
  by (simp add: opening_ops_def entry_ops_def op_typed_def)

lemma entered_members: "members ''draw'' 1 entered_store = {''ana'', ''bob''}"
  by (simp add: members_def member_rows_def gift_members_def entered_store_def voted_tables_def
      opened_store_def store_empty_def)

theorem store_counts_exact_witness:
  "ct_contributions (counts_of (''draw'', 1) entered_store) = 2 \<and>
   competition_participant_count ''draw'' 1 entered_store = Inr 2 \<and>
   competition_draw_participants ''draw'' 1 entered_store =
     Inr [\<lparr>ca_key = ''ana'', ca_weight = 1\<rparr>, \<lparr>ca_key = ''bob'', ca_weight = 1\<rparr>]"
proof -
  have n: "(1 :: nat) \<le> i64_max" by (simp add: i64_max_def)
  have i: "int 1 = 1" by simp
  have l: "sorted_list_of_set {''ana'', ''bob''} = [''ana'', ''bob'']" by simp
  have c: "row_count ''draw'' 1 (st_contributions entered_store) = 1" "row_count ''draw'' 1 (st_receipts entered_store) = 1"
    "row_count ''draw'' 1 (plain_rows entered_store) = 0"
    by (simp_all add: row_count_def plain_rows_def gift_scored_def entered_store_def voted_tables_def
        opened_store_def store_empty_def)
  show ?thesis
    using store_counts_exact [OF sample_env_typed sample_typed n sample_run [symmetric], of "''draw''",
        unfolded i entered_members l c] by simp
qed

text \<open>
  In a reachable store the vote totals of a generation are, per option in order, the sums of
  the votes that stand for it; they add up to all votes, which are never more than the recorded
  commands. More than 256 options are refused.
\<close>

theorem vote_totals_exact:
  assumes "env_typed env" "list_all op_typed ops" and "n \<le> i64_max"
    and s: "s = store_run env ops store_empty" and rows: "rows = member_rows cid (int n) s"
  shows "competition_vote_totals cid n s =
      (let opts = sort (remdups (map (pr_option_id \<circ> snd) rows)) in
       if length opts > 256 then Inl (Db_Invalid ''invalid vote projection'')
       else Inr (map (\<lambda>opt. (opt, nat (votes_for opt rows))) opts)) \<and>
    (\<Sum>opt \<in> set (map (pr_option_id \<circ> snd) rows). votes_for opt rows) = vote_sum cid (int n) (st_participants s) \<and>
    vote_sum cid (int n) (st_participants s) \<le> int (row_count cid (int n) (st_contributions s))"
proof -
  have inv: "store_inv s" unfolding s by (rule store_run_inv [OF assms(1,2) store_inv_empty])
  have "sum_list (map (\<lambda>opt. votes_for opt rows) (remdups (map (pr_option_id \<circ> snd) rows))) =
      sum_list (map (pr_votes \<circ> snd) rows)"
    by (rule votes_for_sum) simp_all
  then have "(\<Sum>opt \<in> set (map (pr_option_id \<circ> snd) rows). votes_for opt rows) =
      vote_sum cid (int n) (st_participants s)"
    unfolding rows member_rows_sum by (simp only: sum_list_distinct_conv_sum_set distinct_remdups set_remdups)
  then show ?thesis
    using vote_totals_spec [OF inv assms(3), of cid] inv
    by (simp add: rows voted_options_def Let_def store_inv_def generation_ok_def)
qed

lemma entered_rows:
  "member_rows ''draw'' 1 entered_store = [(''ana'', \<lparr>pr_option_id = ''b'', pr_votes = 1, pr_updated_at = 20\<rparr>)]"
  by (simp add: member_rows_def entered_store_def voted_tables_def)

theorem vote_totals_exact_witness:
  "competition_vote_totals ''draw'' 1 entered_store = Inr [(''b'', 1)]"
proof -
  have n: "(1 :: nat) \<le> i64_max" by (simp add: i64_max_def)
  have i: "int 1 = 1" by simp
  show ?thesis
    using vote_totals_exact [OF sample_env_typed sample_typed n sample_run [symmetric] refl, of "''draw''",
        unfolded i entered_rows] by (simp add: votes_for_def Let_def)
qed

text \<open>
  C23. In a reachable store the weighted draw gives every participant exactly the votes times the
  vote weight plus all credited scores, and it is refused exactly when one of these numbers does not
  fit 64 bits. No participant, vote or score is lost or counted for someone else.
\<close>

theorem weighted_draw_exact:
  assumes "env_typed env" "list_all op_typed ops" and "n \<le> i64_max"
    and s: "s = store_run env ops store_empty"
  shows "competition_weighted_draw_participants cid n w s =
    (if \<exists>p \<in> members cid (int n) s. participant_weight cid (int n) w s p > u64_max
     then Inl (Db_Invalid ''draw weight overflow'')
     else Inr (map (\<lambda>p. \<lparr>ca_key = p, ca_weight = participant_weight cid (int n) w s p\<rparr>)
       (sorted_list_of_set (members cid (int n) s))))"
proof -
  have "store_inv s" unfolding s by (rule store_run_inv [OF assms(1,2) store_inv_empty])
  from weighted_draw_spec [OF this assms(3)] show ?thesis .
qed

theorem weighted_draw_exact_witness:
  "competition_weighted_draw_participants ''draw'' 1 3 entered_store =
     Inr [\<lparr>ca_key = ''ana'', ca_weight = 3\<rparr>, \<lparr>ca_key = ''bob'', ca_weight = 5\<rparr>]"
proof -
  have n: "(1 :: nat) \<le> i64_max" by (simp add: i64_max_def)
  have i: "int 1 = 1" by simp
  have five: "parse_u64 (to_string 5) = Some 5"
    by (rule u64_text.decode_encode) (simp add: u64_max_def)
  have w: "participant_weight ''draw'' 1 3 entered_store ''ana'' = 3" "participant_weight ''draw'' 1 3 entered_store ''bob'' = 5"
    by (simp_all add: participant_weight_def votes_of_def scores_of_def credited_rows_def row_score_def five
        entered_store_def voted_tables_def opened_store_def store_empty_def)
  show ?thesis
    using weighted_draw_exact [OF sample_env_typed sample_typed n sample_run [symmetric], of "''draw''" 3,
        unfolded i entered_members] by (simp add: w u64_max_def)
qed

section \<open>Commands\<close>

text \<open>
  C24. An accepted command is exactly one vote. The competition is active and not due, the command
  names the option, and a voter who changes sides was allowed to; the number of votes grows by one up
  to the limit; the voter's row, one receipt and the counters change, and nothing else in the store.
  The previous vote that is handed on to the ranking engine is the row the voter had before.
\<close>

theorem command_vote_exact:
  assumes run: "route_competition_command (se_lower env) cid input owner s =
      (s', Inr (Some (Accepted opt votes switched), prior))"
    and "env_typed env" "list_all op_typed ops" "s = store_run env ops store_empty"
  shows "\<exists>d state old. scoped cid (pa_creator_id input) (pa_room_id input) s = Some (Some d, Some state) \<and>
    ls_lifecycle state = Active \<and> \<not> is_due (pa_received_at input) state \<and>
    option_for_command (se_lower env) d (pa_command input) = Some opt \<and>
    (let g = int (ls_generation state); member = (cid, g, pa_participant_id input) in
      old = hm_get (st_participants s) member \<and>
      votes = (case old of None \<Rightarrow> 1
        | Some row \<Rightarrow> if nat (pr_votes row) < cd_vote_limit d then nat (pr_votes row) + 1 else nat (pr_votes row)) \<and>
      prior = map_option (\<lambda>row. (pr_option_id row, nat (pr_votes row))) old \<and>
      (switched \<longleftrightarrow> (\<exists>row. old = Some row \<and> pr_option_id row \<noteq> opt)) \<and> (switched \<longrightarrow> cd_allow_switch d) \<and>
      hm_get (st_contributions s) (cid, g, pa_event_identity input) = None \<and>
      s' = s\<lparr>st_counts := hm_insert (cid, g)
          \<lparr>ct_participants = ct_participants (counts_of (cid, g) s) + (if known_member member s then 0 else 1),
           ct_contributions = ct_contributions (counts_of (cid, g) s) + 1\<rparr> (st_counts s),
        st_participants := hm_insert member
          \<lparr>pr_option_id = opt, pr_votes = int votes, pr_updated_at = as_i64 (pa_received_at input)\<rparr> (st_participants s),
        st_contributions := hm_insert (cid, g, pa_event_identity input)
          \<lparr>cn_participant_id = pa_participant_id input, cn_option_id = opt,
           cn_created_at = as_i64 (pa_received_at input)\<rparr> (st_contributions s)\<rparr>)"
proof -
  have inv: "store_inv s" unfolding assms(4) by (rule store_run_inv [OF assms(2,3) store_inv_empty])
  have ne: "s' \<noteq> s" by (rule accepted_changes [OF run])
  from run ne show ?thesis
  proof (cases rule: route_command_cases)
    case c: (ignored g opt' d state o' prior')
    then show ?thesis by (auto simp: ignored_outcome_def)
  next
    case c: (voted g opt' d state old)
    have opt: "opt' = opt" and votes: "votes = as_u64 (next_votes d opt' old)"
      and sw: "switched = (case old of None \<Rightarrow> False | Some row \<Rightarrow> pr_option_id row \<noteq> opt')"
      and prior: "prior = map_option (\<lambda>row. (pr_option_id row, as_u64 (pr_votes row))) old"
      using c(8) by simp_all
    have small: "0 < pr_votes row \<and> pr_votes row \<le> 500000" if "old = Some row" for row
      using member_votes_small [OF inv] c(7) that by simp
    have as: "as_u64 (pr_votes row) = nat (pr_votes row)" if "old = Some row" for row
      using small [OF that] by (intro as_u64_small) (simp_all add: i64_max_def)
    have nv: "0 < next_votes d opt' old \<and> next_votes d opt' old \<le> 500001"
      using next_votes_step [OF c(11)] small by (auto split: option.splits)
    then have nat: "int votes = next_votes d opt' old"
      unfolding votes by (subst as_u64_small) (simp_all add: i64_max_def)
    have "votes = (case old of None \<Rightarrow> 1
        | Some row \<Rightarrow> if nat (pr_votes row) < cd_vote_limit d then nat (pr_votes row) + 1 else nat (pr_votes row))"
      using nat as small by (auto simp: next_votes_def split: option.splits if_splits)
    moreover have "prior = map_option (\<lambda>row. (pr_option_id row, nat (pr_votes row))) old"
      unfolding prior using as by (cases old) simp_all
    moreover have "(switched \<longleftrightarrow> (\<exists>row. old = Some row \<and> pr_option_id row \<noteq> opt)) \<and> (switched \<longrightarrow> cd_allow_switch d)"
      using c(11) by (auto simp: sw opt vote_allowed_def split: option.splits)
    moreover have "(if old = None \<and> \<not> hm_has (st_gift_participants s) (cid, g, pa_participant_id input) then 1 else 0) =
        (if known_member (cid, g, pa_participant_id input) s then 0 else (1 :: int))"
      using c(7) by (auto simp: known_member_def hm_has_def)
    ultimately show ?thesis
      using c opt nat
      by (intro exI [of _ d] exI [of _ state] exI [of _ old])
        (simp add: Let_def voted_store_def bump_counts_def)
  qed
qed

theorem command_vote_exact_witness:
  "\<exists>d state. scoped ''draw'' ''c'' ''r'' opened_store = Some (Some d, Some state) \<and> ls_lifecycle state = Active \<and>
     hm_get (st_participants voted_tables) (''draw'', int (ls_generation state), ''ana'') =
       Some \<lparr>pr_option_id = ''b'', pr_votes = 1, pr_updated_at = 20\<rparr>"
proof -
  have run: "route_competition_command (se_lower sample_env) ''draw'' (sample_vote ''ana'' ''e1'' ''!b'') (Some ''me'') opened_store =
      (voted_tables, Inr (Some (Accepted ''b'' 1 False), None))"
    unfolding sample_lower by (rule sample_vote_run)
  have t: "list_all op_typed opening_ops" by (simp add: opening_ops_def op_typed_def)
  from command_vote_exact [OF run sample_env_typed t opening_run [symmetric]] show ?thesis
  proof (elim exE conjE, goal_cases)
    case (1 d state old)
    note eq = 1(5) [unfolded Let_def, THEN conjunct2, THEN conjunct2, THEN conjunct2, THEN conjunct2,
        THEN conjunct2, THEN conjunct2]
    have "st_participants voted_tables = hm_insert (''draw'', int (ls_generation state), ''ana'')
        \<lparr>pr_option_id = ''b'', pr_votes = 1, pr_updated_at = 20\<rparr> (st_participants opened_store)"
      by (subst eq) (simp add: sample_vote_def as_i64_def i64_max_def)
    moreover have "scoped ''draw'' ''c'' ''r'' opened_store = Some (Some d, Some state)"
      using 1(1) by (simp add: sample_vote_def)
    ultimately show ?case using 1(2) by (intro exI [of _ d] exI [of _ state]) (simp add: hm_get_insert)
  qed
qed

lemma contribution_run:
  "hm_get (st_contributions s) k = Some row \<Longrightarrow> \<forall>op \<in> set ops. op \<noteq> St_Delete (fst k) \<Longrightarrow>
     hm_get (st_contributions (store_run env ops s)) k = Some row"
  by (induction ops arbitrary: s) (simp_all add: contribution_stays)

lemma receipt_run:
  "hm_get (st_receipts s) k = Some row \<Longrightarrow> \<forall>op \<in> set ops. op \<noteq> St_Delete (fst k) \<Longrightarrow>
     hm_get (st_receipts (store_run env ops s)) k = Some row"
  by (induction ops arbitrary: s) (simp_all add: receipt_stays)

lemma command_recorded:
  assumes "route_competition_command lower cid input owner s = (s', res)" "s' \<noteq> s"
    and "hm_get (st_states s) cid = Some (Some state)"
  shows "hm_get (st_contributions s) (cid, int (ls_generation state), pa_event_identity input) = None \<and>
    (\<exists>row. hm_get (st_contributions s') (cid, int (ls_generation state), pa_event_identity input) = Some row)"
  using assms(1,2)
proof (cases rule: route_command_cases)
  case c: (ignored g opt d state' o' prior)
  have "state' = state" using scoped_state [OF c(4)] assms(3) by simp
  then show ?thesis using c(1,5,9) by (simp add: ignored_store_def hm_get_insert)
next
  case c: (voted g opt d state' old)
  have "state' = state" using scoped_state [OF c(4)] assms(3) by simp
  then show ?thesis using c(1,5,14) by (simp add: voted_store_def hm_get_insert)
qed

text \<open>
  C25. No command is counted twice. Once a command has left its receipt, accepted or ignored, the
  same event identity changes nothing in that generation and is never accepted again, whoever sends
  it, whatever it says, and whatever other operations, restarts and owners came in between; only the
  deletion of the competition ends this.
\<close>

theorem command_counted_once:
  assumes "route_competition_command lower cid input owner s = (s1, res)" "s1 \<noteq> s"
    and "hm_get (st_states s) cid = Some (Some state)"
    and "\<forall>op \<in> set ops. op \<noteq> St_Delete cid" and s2: "s2 = store_run env ops s1"
    and "hm_get (st_states s2) cid = Some (Some state2)" "ls_generation state2 = ls_generation state"
    and "pa_event_identity input2 = pa_event_identity input"
    and again: "route_competition_command lower2 cid input2 owner2 s2 = (s3, res2)"
  shows "s3 = s2 \<and> (\<forall>opt votes switched prior. res2 \<noteq> Inr (Some (Accepted opt votes switched), prior))"
proof -
  obtain row where "hm_get (st_contributions s1) (cid, int (ls_generation state), pa_event_identity input) = Some row"
    using command_recorded [OF assms(1-3)] by blast
  then have "hm_get (st_contributions s2) (cid, int (ls_generation state2), pa_event_identity input2) = Some row"
    unfolding s2 using assms(4,7,8) by (simp add: contribution_run)
  then have "s3 = s2" using command_recorded [OF again _ assms(6)] by fastforce
  then show ?thesis using again accepted_changes by blast
qed

theorem command_counted_once_witness:
  "fst (route_competition_command id ''draw'' (sample_vote ''eve'' ''e1'' ''!a'') (Some ''me'') entered_store) = entered_store"
proof -
  obtain s3 res where again:
    "route_competition_command id ''draw'' (sample_vote ''eve'' ''e1'' ''!a'') (Some ''me'') entered_store = (s3, res)" by force
  have st: "hm_get (st_states opened_store) ''draw'' = Some (Some \<lparr>ls_lifecycle = Active, ls_generation = 1,
      ls_deadline_ms = Some 100, ls_remaining_ms = None\<rparr>)" "st_states entered_store = st_states opened_store"
    by (simp_all add: opened_store_def entered_store_def voted_tables_def)
  have ne: "voted_tables \<noteq> opened_store" by (rule accepted_changes [OF sample_vote_run])
  have run: "entered_store = store_run sample_env [St_Gift ''draw'' (sample_gift ''bob'' ''e2'') ''me''] voted_tables"
    by (simp add: store_step_def sample_gift_run)
  have "hm_get (st_states entered_store) ''draw'' = Some (Some \<lparr>ls_lifecycle = Active, ls_generation = 1,
      ls_deadline_ms = Some 100, ls_remaining_ms = None\<rparr>)" using st by simp
  from command_counted_once [OF sample_vote_run ne st(1) _ run this _ _ again]
  show ?thesis using again by (simp add: sample_vote_def)
qed

section \<open>Gifts\<close>

lemma gift_recorded:
  assumes "route_competition_gift cid input owner score s = (s', res)" "s' \<noteq> s"
    and st: "hm_get (st_states s) cid = Some (Some state)"
  shows "hm_get (st_receipts s) (cid, int (ls_generation state), gi_event_identity input) = None"
    and "hm_get (st_receipts s') (cid, int (ls_generation state), gi_event_identity input) = Some (gift_receipt input)"
proof -
  obtain r dcolumn where "credit_gift cid (int (ls_generation state)) dcolumn state input score s = Inr (r, Some s')"
    using assms(1,2) st
    by (auto simp: route_competition_gift_def transact_cases bind_result_Inr Let_def try_i64_Inr dest!: scoped_state
        split: if_splits option.splits)
  note e = credit_gift_effect [OF this]
  then show "hm_get (st_receipts s) (cid, int (ls_generation state), gi_event_identity input) = None" by blast
  from e show "hm_get (st_receipts s') (cid, int (ls_generation state), gi_event_identity input) = Some (gift_receipt input)"
    by (auto simp: Let_def gift_store_def hm_get_insert)
qed

lemma gift_store_receipts:
  "st_receipts (gift_store cid g input b credited prices combos cc s) =
     hm_insert (cid, g, gi_event_identity input) (gift_receipt input) (st_receipts s)"
  by (simp add: gift_store_def)

lemma gift_accepted_changes:
  assumes "route_competition_gift cid input owner score s = (s', Inr (Some (GiftAccepted opt points)))"
  shows "s' \<noteq> s"
proof
  assume "s' = s"
  obtain dcolumn scolumn where sc: "scoped cid (gi_creator_id input) (gi_room_id input) s = Some (dcolumn, scolumn)"
    using assms
    by (cases "scoped cid (gi_creator_id input) (gi_room_id input) s") (auto simp: route_competition_gift_def split: if_splits)
  obtain state where state: "scolumn = Some state"
    using assms sc by (cases scolumn) (auto simp: route_competition_gift_def split: if_splits)
  define g where "g = int (ls_generation state)"
  have none: "hm_get (st_receipts s) (cid, g, gi_event_identity input) = None"
    using assms sc state
    by (cases "hm_get (st_receipts s) (cid, g, gi_event_identity input)")
      (auto simp: route_competition_gift_def transact_cases bind_result_Inr try_i64_Inr g_def split: if_splits)
  have "\<exists>so. credit_gift cid g dcolumn state input score s = Inr (Some (GiftAccepted opt points), so) \<and>
      (so = None \<or> so = Some s')"
    using assms sc state none
    by (auto simp: route_competition_gift_def transact_cases bind_result_Inr try_i64_Inr g_def Let_def split: if_splits)
  then obtain so where c: "credit_gift cid g dcolumn state input score s = Inr (Some (GiftAccepted opt points), so)"
    and so: "so = None \<or> so = Some s'" by blast
  have "\<exists>t. so = Some t"
    using c unfolding credit_gift_def Let_def
    by (auto simp: bind_result_Inr record_gift_def Let_def split: if_splits option.splits)
  then obtain t where t: "so = Some t" by blast
  then have "t = s" using so \<open>s' = s\<close> by simp
  note e = credit_gift_effect [OF c [unfolded t]]
  then have none: "hm_get (st_receipts s) (cid, g, gi_event_identity input) = None" by blast
  from e have "st_receipts t = hm_insert (cid, g, gi_event_identity input) (gift_receipt input) (st_receipts s)"
    unfolding Let_def by (elim exE conjE) (simp only: gift_store_receipts)
  then have "hm_insert (cid, g, gi_event_identity input) (gift_receipt input) (st_receipts s) = st_receipts s"
    using \<open>t = s\<close> by simp
  with hm_insert_changes [OF none] show False by (rule notE)
qed

text \<open>
  No gift packet is credited twice: once a packet has left its receipt, a packet with the same
  event identity changes nothing in that generation, so its combo, its score and its giver are counted
  once, across any operations other than the deletion of the competition.
\<close>

theorem gift_counted_once:
  assumes "route_competition_gift cid input owner score s = (s1, res)" "s1 \<noteq> s"
    and "hm_get (st_states s) cid = Some (Some state)"
    and "\<forall>op \<in> set ops. op \<noteq> St_Delete cid" and s2: "s2 = store_run env ops s1"
    and "hm_get (st_states s2) cid = Some (Some state2)" "ls_generation state2 = ls_generation state"
    and "gi_event_identity input2 = gi_event_identity input"
    and again: "route_competition_gift cid input2 owner2 score2 s2 = (s3, res2)"
  shows "s3 = s2 \<and> (\<forall>opt points. res2 \<noteq> Inr (Some (GiftAccepted opt points)))"
proof -
  have "hm_get (st_receipts s1) (cid, int (ls_generation state), gi_event_identity input) = Some (gift_receipt input)"
    by (rule gift_recorded(2) [OF assms(1-3)])
  then have "hm_get (st_receipts s2) (cid, int (ls_generation state2), gi_event_identity input2) = Some (gift_receipt input)"
    unfolding s2 using assms(4,7,8) by (simp add: receipt_run)
  then have "s3 = s2" using gift_recorded(1) [OF again _ assms(6)] by fastforce
  then show ?thesis using again gift_accepted_changes by blast
qed

theorem gift_counted_once_witness:
  "fst (route_competition_gift ''draw'' (sample_gift ''eve'' ''e2'') ''me'' (\<lambda>q m g. Inr m) entered_store) = entered_store"
proof -
  obtain s3 res where again:
    "route_competition_gift ''draw'' (sample_gift ''eve'' ''e2'') ''me'' (\<lambda>q m g. Inr m) entered_store = (s3, res)" by force
  have st: "hm_get (st_states voted_tables) ''draw'' = Some (Some \<lparr>ls_lifecycle = Active, ls_generation = 1,
      ls_deadline_ms = Some 100, ls_remaining_ms = None\<rparr>)" "st_states entered_store = st_states voted_tables"
    by (simp_all add: opened_store_def entered_store_def voted_tables_def)
  have ne: "entered_store \<noteq> voted_tables" by (rule gift_accepted_changes [OF sample_gift_run])
  have run: "entered_store = store_run sample_env [] entered_store" by simp
  have "hm_get (st_states entered_store) ''draw'' = Some (Some \<lparr>ls_lifecycle = Active, ls_generation = 1,
      ls_deadline_ms = Some 100, ls_remaining_ms = None\<rparr>)" using st by simp
  from gift_counted_once [OF sample_gift_run ne st(1) _ run this _ _ again]
  show ?thesis using again by (simp add: sample_gift_def)
qed

text \<open>The packets of one combo, one after the other.\<close>

fun combo_run ::
  "string \<Rightarrow> u64 \<Rightarrow> string \<Rightarrow> string \<Rightarrow> string \<Rightarrow> u64 \<Rightarrow> u64 list \<Rightarrow> store \<Rightarrow> db_error + gift_delta list \<times> store" where
  "combo_run cid generation participant gift combo price [] s = Inr ([], s)"
| "combo_run cid generation participant gift combo price (observed # rest) s =
     bind_result (advance_combo cid generation participant gift combo observed (Some price) s) (\<lambda>(delta, s1).
     bind_result (combo_run cid generation participant gift combo price rest s1) (\<lambda>(deltas, s2).
       Inr (delta # deltas, s2)))"

text \<open>The combo stands at a quantity: its row says so, or there is none yet and there is room.\<close>

definition combo_at :: "string \<Rightarrow> u64 \<Rightarrow> string \<Rightarrow> string \<Rightarrow> string \<Rightarrow> u64 \<Rightarrow> u64 \<Rightarrow> store \<Rightarrow> bool" where
  "combo_at cid generation participant gift combo price quantity s \<longleftrightarrow>
     (case hm_get (st_combos s) (cid, int generation, participant, gift, combo) of
        None \<Rightarrow> quantity = 0 \<and> hm_get_or (st_combo_counts s) (cid, int generation) 0 < 100000
      | Some row \<Rightarrow> row = \<lparr>cb_quantity = to_string quantity, cb_diamonds = to_string (quantity * price)\<rparr>)"

lemma fold_max_ge: "(n :: nat) \<le> fold max qs n"
proof (induction qs arbitrary: n)
  case (Cons q qs)
  have "n \<le> max q n" by simp
  also have "\<dots> \<le> fold max qs (max q n)" by (rule Cons.IH)
  finally show ?case by simp
qed simp

lemma advance_combo_at:
  assumes "combo_at cid generation participant gift combo price quantity s"
    and "\<not> combo_identity_invalid cid participant gift combo observed" and "generation \<le> i64_max"
    and "0 < price" and "max quantity observed * price \<le> u64_max"
  shows "\<exists>s'. advance_combo cid generation participant gift combo observed (Some price) s =
      Inr (\<lparr>gd_quantity = max quantity observed - quantity,
            gd_diamonds = Some (max quantity observed * price - quantity * price)\<rparr>, s') \<and>
    combo_at cid generation participant gift combo price (max quantity observed) s'"
proof -
  have "quantity * price \<le> max quantity observed * price" by (rule mult_le_mono1) simp
  then have diamonds: "quantity * price \<le> u64_max" using assms(5) by (rule le_trans)
  have "quantity * 1 \<le> quantity * price" using assms(4) by (intro mult_le_mono2) simp
  then have small: "quantity \<le> u64_max" using diamonds unfolding mult_1_right by (rule le_trans)
  have p: "parse_u64 (to_string quantity) = Some quantity" "parse_u64 (to_string (quantity * price)) = Some (quantity * price)"
    using small diamonds by (simp_all add: u64_text.decode_encode)
  have m: "max (max quantity observed * price) (quantity * price) = max quantity observed * price"
    using \<open>quantity * price \<le> max quantity observed * price\<close> by simp
  show ?thesis
  proof (cases "hm_get (st_combos s) (cid, int generation, participant, gift, combo)")
    case None
    then show ?thesis using assms
      by (simp add: advance_combo_def try_i64_def previous_combo_def combo_at_def Let_def combo_target_def
          checked_mul_def saturating_sub_def hm_get_insert)
  next
    case (Some row)
    then show ?thesis using assms p m
      by (simp add: advance_combo_def try_i64_def previous_combo_def combo_at_def Let_def combo_target_def
          checked_mul_def saturating_sub_def hm_get_insert)
  qed
qed

text \<open>
  C26. Gift streaks are high-water marks. Whatever order, repetition or loss the packets of one combo
  have, the quantities credited for it add up to the largest quantity observed and the diamonds to
  that quantity times the price, and no packet is refused as long as this product fits 64 bits.
\<close>

theorem gift_streak_exact:
  assumes "combo_at cid generation participant gift combo price quantity s" and "generation \<le> i64_max"
    and "\<forall>q \<in> set qs. \<not> combo_identity_invalid cid participant gift combo q"
    and "0 < price" and "fold max qs quantity * price \<le> u64_max"
  shows "\<exists>deltas s'. combo_run cid generation participant gift combo price qs s = Inr (deltas, s') \<and>
    quantity + sum_list (map gd_quantity deltas) = fold max qs quantity \<and>
    quantity * price + sum_list (map (the \<circ> gd_diamonds) deltas) = fold max qs quantity * price \<and>
    combo_at cid generation participant gift combo price (fold max qs quantity) s'"
  using assms
proof (induction qs arbitrary: quantity s)
  case (Cons q qs)
  have grow: "max quantity q \<le> fold max qs (max quantity q)" by (rule fold_max_ge)
  then have "max quantity q * price \<le> fold max qs (max quantity q) * price" by (rule mult_le_mono1)
  also have "\<dots> \<le> u64_max" using Cons.prems(5) by (simp add: max.commute)
  finally have fits: "max quantity q * price \<le> u64_max" .
  have valid: "\<not> combo_identity_invalid cid participant gift combo q" using Cons.prems(3) by simp
  obtain s1 where s1: "advance_combo cid generation participant gift combo q (Some price) s =
      Inr (\<lparr>gd_quantity = max quantity q - quantity,
            gd_diamonds = Some (max quantity q * price - quantity * price)\<rparr>, s1)"
    "combo_at cid generation participant gift combo price (max quantity q) s1"
    using advance_combo_at [OF Cons.prems(1) valid Cons.prems(2,4) fits] by blast
  have "\<exists>deltas s'. combo_run cid generation participant gift combo price qs s1 = Inr (deltas, s') \<and>
      max quantity q + sum_list (map gd_quantity deltas) = fold max qs (max quantity q) \<and>
      max quantity q * price + sum_list (map (the \<circ> gd_diamonds) deltas) = fold max qs (max quantity q) * price \<and>
      combo_at cid generation participant gift combo price (fold max qs (max quantity q)) s'"
    using Cons.prems by (intro Cons.IH [OF s1(2)]) (simp_all add: max.commute)
  then obtain deltas s' where r: "combo_run cid generation participant gift combo price qs s1 = Inr (deltas, s')"
    "max quantity q + sum_list (map gd_quantity deltas) = fold max qs (max quantity q)"
    "max quantity q * price + sum_list (map (the \<circ> gd_diamonds) deltas) = fold max qs (max quantity q) * price"
    "combo_at cid generation participant gift combo price (fold max qs (max quantity q)) s'"
    by blast
  have "quantity \<le> fold max qs (max q quantity)"
    using fold_max_ge [of "max q quantity" qs] by simp
  then have all: "quantity * price + (fold max qs (max q quantity) * price - quantity * price) =
      fold max qs (max q quantity) * price"
    by (intro le_add_diff_inverse mult_le_mono1)
  show ?case using r
    by (intro exI [of _ "\<lparr>gd_quantity = max quantity q - quantity,
            gd_diamonds = Some (max quantity q * price - quantity * price)\<rparr> # deltas"] exI [of _ s'])
      (simp add: s1(1) max.commute comp_def all)
qed simp

theorem gift_streak_exact_witness:
  "\<exists>deltas s'. combo_run ''draw'' 1 ''bob'' ''rose'' ''g'' 5 [1, 4, 2, 4, 7] opened_store = Inr (deltas, s') \<and>
     sum_list (map gd_quantity deltas) = 7 \<and> sum_list (map (the \<circ> gd_diamonds) deltas) = 35"
proof -
  have at: "combo_at ''draw'' 1 ''bob'' ''rose'' ''g'' 5 0 opened_store"
    by (simp add: combo_at_def opened_store_def store_empty_def hm_get_or_def)
  show ?thesis
    using gift_streak_exact [OF at, of "[1, 4, 2, 4, 7]"]
    by (auto simp: combo_identity_invalid_def i64_max_def u64_max_def)
qed

end
