(* ===== verification/Store_Outcomes.thy ===== *)
theory Store_Outcomes
  imports Store_Example
begin

text \<open>
  Results and the action outbox under any sequence of operations: what is committed stays, and an
  outbox row never becomes pending again.
\<close>

section \<open>Operations that leave results and actions alone\<close>

definition outcome_op :: "store_op \<Rightarrow> bool" where
  "outcome_op op \<longleftrightarrow> (case op of St_Result _ _ _ \<Rightarrow> True | St_Claim _ _ _ \<Rightarrow> True | St_Outcome _ _ _ _ _ \<Rightarrow> True
     | St_Resolve _ _ _ _ \<Rightarrow> True | St_Interrupt _ \<Rightarrow> True | _ \<Rightarrow> False)"

lemma change_outcomes [simp]:
  "st_results (ignored_store cid g i row s) = st_results s" "st_outbox (ignored_store cid g i row s) = st_outbox s"
  "st_results (voted_store cid g i p prow new row s) = st_results s"
  "st_outbox (voted_store cid g i p prow new row s) = st_outbox s"
  "st_results (scored_store cid g src i srow s) = st_results s"
  "st_outbox (scored_store cid g src i srow s) = st_outbox s"
  "st_results (gift_store cid g input b credited prices combos cc s) = st_results s"
  "st_outbox (gift_store cid g input b credited prices combos cc s) = st_outbox s"
  by (simp_all add: ignored_store_def voted_store_def scored_store_def gift_store_def)

lemma route_command_outcomes:
  "route_competition_command lower cid input owner s = (s', res) \<Longrightarrow>
     st_results s' = st_results s \<and> st_outbox s' = st_outbox s"
  by (cases "s' = s") (auto elim: route_command_cases)

lemma route_score_outcomes:
  "route_competition_score cid input owner s = (s', res) \<Longrightarrow>
     st_results s' = st_results s \<and> st_outbox s' = st_outbox s"
  by (cases "s' = s") (auto elim: route_score_cases)

lemma route_gift_outcomes:
  assumes "route_competition_gift cid input owner score s = (s', res)"
  shows "st_results s' = st_results s \<and> st_outbox s' = st_outbox s"
proof (cases "s' = s")
  case False
  from assms this show ?thesis by (cases rule: route_gift_cases) simp
qed simp

lemma outcomes_frame:
  assumes "\<not> outcome_op op"
  shows "st_results (store_step env op s) = st_results s \<and> st_outbox (store_step env op s) = st_outbox s"
proof (cases op)
  case (St_Insert d)
  then show ?thesis
    by (auto simp: store_step_def insert_competition_definition_def fst_transact bind_result_Inr
        split: sum.split prod.split option.split)
next
  case (St_Update d)
  then show ?thesis
    by (auto simp: store_step_def update_competition_definition_def fst_transact bind_result_Inr
        split: sum.split prod.split option.split)
next
  case (St_Delete cid)
  then show ?thesis using delete_cases [of cid s] by (auto simp: store_step_def delete_scoped_def)
next
  case (St_Transition cid t now owner)
  then show ?thesis using transition_frame
    by (auto simp: store_step_def settled_def split: run.split prod.split)
next
  case (St_Save checkpoints owner)
  then show ?thesis using save_checkpoints_frame
    by (auto simp: store_step_def save_competition_integrity_def fst_transact bind_result_Inr
        split: sum.split prod.split option.split)
next
  case (St_Expire now owner)
  then show ?thesis using expire_rows_frame
    by (fastforce simp: store_step_def settled_def expire_due_competitions_owned_def run_bind_eq_Ret
        transact_cases bind_result_Inr split: run.split prod.splits)
next
  case (St_Command cid input owner)
  obtain s' res where "route_competition_command (se_lower env) cid input owner s = (s', res)" by force
  then show ?thesis using St_Command route_command_outcomes by (simp add: store_step_def)
next
  case (St_Score cid input owner)
  obtain s' res where "route_competition_score cid input owner s = (s', res)" by force
  then show ?thesis using St_Score route_score_outcomes by (simp add: store_step_def)
next
  case (St_Gift cid input owner)
  obtain s' res where "route_competition_gift cid input owner (se_score env) s = (s', res)" by force
  then show ?thesis using St_Gift route_gift_outcomes by (simp add: store_step_def)
qed (use assms in \<open>simp_all add: outcome_op_def store_step_def begin_competition_recovery_def try_i64_def\<close>)

section \<open>Operations on results and actions\<close>

lemma set_status_effect:
  "set_status k a b now s = Some s' \<Longrightarrow> \<exists>row. hm_get (st_outbox s) k = Some row \<and> ob_status row = a \<and>
     s' = s\<lparr>st_outbox := hm_insert k (row\<lparr>ob_status := b, ob_updated_at := now\<rparr>) (st_outbox s)\<rparr>"
  by (auto simp: set_status_def split: option.splits if_splits)

text \<open>A change of the outbox and the results: what an operation of this kind may do.\<close>

definition outcome_ok :: "store_env \<Rightarrow> store \<Rightarrow> store \<Rightarrow> bool" where
  "outcome_ok env s s' \<longleftrightarrow> (hm_wf (st_outbox s) \<longrightarrow> hm_wf (st_outbox s')) \<and>
     (\<forall>k row. hm_get (st_results s) k = Some row \<longrightarrow> hm_get (st_results s') k = Some row) \<and>
     (\<forall>k row. hm_get (st_outbox s) k = Some row \<longrightarrow>
        (\<exists>row'. hm_get (st_outbox s') k = Some row' \<and> ob_action row' = ob_action row \<and>
          ob_action_id row' = ob_action_id row \<and> ob_idempotency_key row' = ob_idempotency_key row \<and>
          (ob_status row \<noteq> ActionPending \<longrightarrow> ob_status row' \<noteq> ActionPending))) \<and>
     (\<forall>k row. hm_get (st_outbox s) k = None \<longrightarrow> hm_get (st_outbox s') k = Some row \<longrightarrow>
        (\<exists>cid n a. k = (cid, int n) \<and> ob_idempotency_key row = se_keys env cid n \<and> ob_action row = Some a \<and>
          ob_action_id row = wa_action_id a \<and> \<not> action_invalid a \<and> hm_get (st_results s') k \<noteq> None))"

lemma outcome_ok_refl [simp]: "outcome_ok env s s"
  by (simp add: outcome_ok_def)

lemma outcome_ok_frame:
  "st_results s' = st_results s \<Longrightarrow> st_outbox s' = st_outbox s \<Longrightarrow> outcome_ok env s s'"
  by (simp add: outcome_ok_def)

lemma outcome_ok_status:
  assumes "set_status k a b now s = Some s'" and "b \<noteq> ActionPending"
  shows "outcome_ok env s s'"
proof -
  obtain row where "hm_get (st_outbox s) k = Some row" "ob_status row = a"
    "s' = s\<lparr>st_outbox := hm_insert k (row\<lparr>ob_status := b, ob_updated_at := now\<rparr>) (st_outbox s)\<rparr>"
    using set_status_effect [OF assms(1)] by blast
  then show ?thesis using assms(2) by (simp add: outcome_ok_def hm_get_insert)
qed

lemma outcome_ok_diagnostic [simp]: "outcome_ok env s (put_diagnostic k r now s') \<longleftrightarrow> outcome_ok env s s'"
  by (simp add: outcome_ok_def)

lemma result_valid_generation: "\<not> result_invalid r \<Longrightarrow> as_i64 (rr_generation r) = int (rr_generation r)"
  by (simp add: result_invalid_def)

lemma outcome_ok_result:
  assumes run: "store_competition_result_once (se_keys env) r action owner s = (s', res)"
  shows "outcome_ok env s s'"
proof (cases "s' = s")
  case False
  then obtain s1 d state where n: "hm_get (st_results s) (rr_competition_id r, as_i64 (rr_generation r)) = None"
    "\<not> result_invalid r"
    "s1 = s\<lparr>st_states := hm_insert (rr_competition_id r)
        (Some (state\<lparr>ls_lifecycle := Finished, ls_deadline_ms := None, ls_remaining_ms := None\<rparr>)) (st_states s),
      st_results := hm_insert (rr_competition_id r, as_i64 (rr_generation r))
        \<lparr>rw_ranking_id = rr_ranking_id r, rw_created_at = as_i64 (rr_finalized_at r), rw_result = Some r\<rparr>
        (st_results s)\<rparr>"
    "queue_action (se_keys env) r action s1 = Inr s'"
    using store_result_new [OF run] by blast
  have valid: "\<not> action_invalid a" if "action = Some a" for a
    using run False that by (auto simp: store_competition_result_once_def Let_def split: if_splits)
  show ?thesis
  proof (cases action)
    case None
    then show ?thesis using n by (auto simp: queue_action_def outcome_ok_def hm_get_insert)
  next
    case (Some a)
    then have "hm_get (st_outbox s) (rr_competition_id r, as_i64 (rr_generation r)) = None"
      using n by (auto simp: queue_action_def insert_outbox_def hm_has_def split: if_splits)
    then show ?thesis using n Some valid [OF Some]
      by (auto simp: queue_action_def insert_outbox_def outcome_ok_def hm_get_insert result_valid_generation
          split: if_splits)
  qed
qed simp

lemma outcome_ok_interrupt: "outcome_ok env s (fst (mark_interrupted_competition_actions_uncertain now s))"
proof -
  have "hm_get (map (\<lambda>(k, row). (k, interrupt_row now row)) m) k = map_option (interrupt_row now) (hm_get m k)" for m :: "(generation_key, outbox_row) hmap" and k
    by (induction m) auto
  then show ?thesis
    by (auto simp: mark_interrupted_competition_actions_uncertain_def outcome_ok_def interrupt_row_def
        hm_wf_def comp_def case_prod_beta)
qed

lemma outcome_ok_recorded:
  assumes "record_competition_action_outcome cid generation status reason now s = (s', res)"
  shows "outcome_ok env s s'"
proof (cases "s' = s")
  case False
  then have status: "status \<in> {ActionCompleted, ActionFailed, ActionUncertain}"
    and "\<exists>g s1. set_status (cid, g) ActionRunning status now s = Some s1 \<and>
      s' = (case reason of None \<Rightarrow> s1 | Some r \<Rightarrow> put_diagnostic (cid, g) r now s1)"
    using assms unfolding record_competition_action_outcome_def transact_cases bind_result_Inr
    by (fastforce split: if_splits option.splits)+
  then obtain g s1 where s1: "set_status (cid, g) ActionRunning status now s = Some s1"
    "s' = (case reason of None \<Rightarrow> s1 | Some r \<Rightarrow> put_diagnostic (cid, g) r now s1)" by blast
  have "outcome_ok env s s1" by (rule outcome_ok_status [OF s1(1)]) (use status in auto)
  then show ?thesis using s1(2) by (simp split: option.splits)
qed simp

lemma outcome_ok_resolved:
  assumes "resolve_uncertain_competition_action cid generation resolution now s = (s', res)"
  shows "outcome_ok env s s'"
proof (cases "s' = s")
  case False
  then obtain g n where s1: "set_status (cid, g) ActionUncertain
      (case resolution of ResolvedCompleted \<Rightarrow> ActionCompleted | ResolvedFailed \<Rightarrow> ActionFailed) n s = Some s'"
    using assms unfolding resolve_uncertain_competition_action_def transact_cases bind_result_Inr Let_def
    by (fastforce split: option.splits)
  show ?thesis by (rule outcome_ok_status [OF s1]) (simp split: action_resolution.split)
qed simp

lemma store_step_outcomes: "outcome_ok env s (store_step env op s)"
proof (cases "outcome_op op")
  case False
  then show ?thesis using outcomes_frame by (intro outcome_ok_frame) simp_all
next
  case True
  then show ?thesis
  proof (cases op)
    case (St_Result r action owner)
    obtain s' res where "store_competition_result_once (se_keys env) r action owner s = (s', res)" by force
    then show ?thesis using St_Result outcome_ok_result by (simp add: store_step_def)
  next
    case (St_Claim cid generation now)
    obtain s' res where run: "claim_competition_action_detailed (se_keys env) cid generation now s = (s', res)" by force
    have "outcome_ok env s s'"
      using claim_effect [OF run] by (auto intro: outcome_ok_status)
    then show ?thesis using St_Claim run by (simp add: store_step_def)
  next
    case (St_Outcome cid generation status reason now)
    obtain s' res where "record_competition_action_outcome cid generation status reason now s = (s', res)" by force
    then show ?thesis using St_Outcome outcome_ok_recorded by (simp add: store_step_def)
  next
    case (St_Resolve cid generation resolution now)
    obtain s' res where "resolve_uncertain_competition_action cid generation resolution now s = (s', res)" by force
    then show ?thesis using St_Resolve outcome_ok_resolved by (simp add: store_step_def)
  next
    case (St_Interrupt now)
    then show ?thesis using outcome_ok_interrupt by (simp add: store_step_def)
  qed (simp_all add: outcome_op_def)
qed

section \<open>Any number of operations\<close>

lemma outcome_ok_results: "outcome_ok env s s' \<Longrightarrow> hm_get (st_results s) k = Some row \<Longrightarrow> hm_get (st_results s') k = Some row"
  unfolding outcome_ok_def by blast

lemma outcome_ok_outbox:
  "outcome_ok env s s' \<Longrightarrow> hm_get (st_outbox s) k = Some row \<Longrightarrow>
     \<exists>row'. hm_get (st_outbox s') k = Some row' \<and> ob_action row' = ob_action row \<and>
          ob_action_id row' = ob_action_id row \<and> ob_idempotency_key row' = ob_idempotency_key row \<and>
          (ob_status row \<noteq> ActionPending \<longrightarrow> ob_status row' \<noteq> ActionPending)"
  unfolding outcome_ok_def by blast

lemma outcome_ok_new:
  "outcome_ok env s s' \<Longrightarrow> hm_get (st_outbox s) k = None \<Longrightarrow> hm_get (st_outbox s') k = Some row \<Longrightarrow>
     \<exists>cid n a. k = (cid, int n) \<and> ob_idempotency_key row = se_keys env cid n \<and> ob_action row = Some a \<and>
          ob_action_id row = wa_action_id a \<and> \<not> action_invalid a \<and> hm_get (st_results s') k \<noteq> None"
  unfolding outcome_ok_def by blast

lemma outcome_ok_trans:
  assumes 1: "outcome_ok env s s'" and 2: "outcome_ok env s' s''"
  shows "outcome_ok env s s''"
proof -
  have new: "\<exists>cid n a. k = (cid, int n) \<and> ob_idempotency_key row = se_keys env cid n \<and> ob_action row = Some a \<and>
      ob_action_id row = wa_action_id a \<and> \<not> action_invalid a \<and> hm_get (st_results s'') k \<noteq> None"
    if k: "hm_get (st_outbox s) k = None" "hm_get (st_outbox s'') k = Some row" for k row
  proof (cases "hm_get (st_outbox s') k")
    case None
    then show ?thesis using outcome_ok_new [OF 2 None k(2)] by blast
  next
    case (Some row')
    then show ?thesis
      using outcome_ok_new [OF 1 k(1) Some] outcome_ok_outbox [OF 2 Some] outcome_ok_results [OF 2] k(2) by force
  qed
  have old: "\<exists>row'. hm_get (st_outbox s'') k = Some row' \<and> ob_action row' = ob_action row \<and>
          ob_action_id row' = ob_action_id row \<and> ob_idempotency_key row' = ob_idempotency_key row \<and>
          (ob_status row \<noteq> ActionPending \<longrightarrow> ob_status row' \<noteq> ActionPending)"
    if k: "hm_get (st_outbox s) k = Some row" for k row
    using outcome_ok_outbox [OF 1 k] outcome_ok_outbox [OF 2, of k] by metis
  have wf: "hm_wf (st_outbox s) \<longrightarrow> hm_wf (st_outbox s'')" using 1 2 by (simp add: outcome_ok_def)
  show ?thesis unfolding outcome_ok_def
    using wf new old outcome_ok_results [OF 1] outcome_ok_results [OF 2] by blast
qed

lemma store_run_outcomes: "outcome_ok env s (store_run env ops s)"
proof (induction ops arbitrary: s)
  case (Cons op ops)
  then show ?case using outcome_ok_trans [OF store_step_outcomes [of env s op]] by simp
qed simp

lemma result_stored:
  assumes "store_competition_result_once keys r action owner s = (s', Inr (r', True))"
  shows "r' = r \<and> \<not> result_invalid r \<and> selection_valid (rr_selection r) \<and>
    hm_get (st_results s') (rr_competition_id r, int (rr_generation r)) =
      Some \<lparr>rw_ranking_id = rr_ranking_id r, rw_created_at = as_i64 (rr_finalized_at r), rw_result = Some r\<rparr>"
proof -
  have ok: "\<not> result_invalid r" "selection_valid (rr_selection r)"
    using assms by (auto simp: store_competition_result_once_def Let_def split: if_splits)
  obtain s1 d state where n: "r' = r"
    "s1 = s\<lparr>st_states := hm_insert (rr_competition_id r)
        (Some (state\<lparr>ls_lifecycle := Finished, ls_deadline_ms := None, ls_remaining_ms := None\<rparr>)) (st_states s),
      st_results := hm_insert (rr_competition_id r, as_i64 (rr_generation r))
        \<lparr>rw_ranking_id = rr_ranking_id r, rw_created_at = as_i64 (rr_finalized_at r), rw_result = Some r\<rparr>
        (st_results s)\<rparr>" "queue_action keys r action s1 = Inr s'"
    using assms
    by (auto simp: store_competition_result_once_def Let_def transact_cases bind_result_Inr insert_row_Inr
        split: option.splits if_splits prod.splits)
  then have "st_results s' = st_results s1" using queue_action_frame by blast
  then show ?thesis using n ok by (simp add: hm_get_insert result_valid_generation [symmetric])
qed

lemma stored_result_decodes:
  assumes "\<not> result_invalid r" "selection_valid (rr_selection r)" "0 < rr_generation r"
  shows "decode_result (rr_competition_id r) (int (rr_generation r)) (rr_ranking_id r) (as_i64 (rr_finalized_at r)) (Some r) = Inr r"
proof -
  have "rr_generation r \<le> i64_max" "rr_finalized_at r \<le> i64_max" using assms(1) by (simp_all add: result_invalid_def)
  then show ?thesis using assms by (auto simp: decode_result_def result_invalid_def)
qed

end
