(* ===== verification/Outcome_Guarantees.thy ===== *)
theory Outcome_Guarantees
  imports Store_Outcomes
begin

text \<open>
  What the store guarantees about results, winner actions and the host that owns a competition.
\<close>

section \<open>The end of the example\<close>

definition sample_result :: result_record where
  "sample_result =
     \<lparr>rr_schema_version = 1, rr_competition_id = ''draw'', rr_generation = 1, rr_ranking_id = ''top'',
      rr_ranking_revision = 0, rr_finalized_at = 50,
      rr_selection = \<lparr>se_mode = UniformRandom, se_tie_policy = Manual,
        se_eligible = [\<lparr>ca_key = ''ana'', ca_weight = 1\<rparr>, \<lparr>ca_key = ''bob'', ca_weight = 1\<rparr>],
        se_winner = Some ''bob''\<rparr>\<rparr>"

definition finalizing_state :: lifecycle_state where
  "finalizing_state = \<lparr>ls_lifecycle = Finalizing, ls_generation = 1, ls_deadline_ms = None, ls_remaining_ms = None\<rparr>"

definition finalizing_store :: store where
  "finalizing_store = entered_store\<lparr>st_states := [(''draw'', Some finalizing_state)]\<rparr>"

definition closing_ops :: "store_op list" where
  "closing_ops = [St_Transition ''draw'' Finish 40 (Some ''me'')]"

lemma entered_joined:
  "joined ''draw'' entered_store = Some (Some sample_draw, Some \<lparr>ls_lifecycle = Active, ls_generation = 1,
     ls_deadline_ms = Some 100, ls_remaining_ms = None\<rparr>)"
  by (simp add: joined_def entered_store_def voted_tables_def opened_store_def)

lemma closing_run: "store_run sample_env (opening_ops @ entry_ops @ closing_ops) store_empty = finalizing_store"
proof -
  have "store_run sample_env (opening_ops @ entry_ops @ closing_ops) store_empty =
      store_run sample_env closing_ops entered_store"
    using sample_run by (simp add: store_run_append)
  also have "\<dots> = finalizing_store"
    by (simp add: closing_ops_def store_step_def settled_def transition_competition_owned_def entered_joined)
      (simp add: transition_def owns_def entered_store_def voted_tables_def opened_store_def finalizing_store_def
        finalizing_state_def as_i64_def i64_max_def)
  finally show ?thesis .
qed

lemma finalizing_joined: "joined ''draw'' finalizing_store = Some (Some sample_draw, Some finalizing_state)"
  by (simp add: joined_def finalizing_store_def entered_store_def voted_tables_def opened_store_def)

lemma sample_selection: "selection_valid (rr_selection sample_result)"
  by (simp add: selection_valid_def validate_selection_def sample_result_def validate_mode_def)

lemma sample_result_valid: "\<not> result_invalid sample_result"
  by (simp add: result_invalid_def sample_result_def i64_max_def)

lemma sample_expected: "expected_action sample_draw (rr_selection sample_result) = Some sample_action"
  by (simp add: expected_action_def sample_result_def user_winner_def sample_draw_fields)

lemma sample_store_result:
  "\<exists>s1. store_competition_result_once (se_keys sample_env) sample_result (Some sample_action) (Some ''me'') finalizing_store =
     (s1, Inr (sample_result, True))"
proof -
  have id: "rr_competition_id sample_result = ''draw''" "as_i64 (rr_generation sample_result) = 1"
    by (simp_all add: sample_result_def as_i64_def i64_max_def)
  have own: "owns ''draw'' 1 ''me'' finalizing_store" "hm_get (st_results finalizing_store) (''draw'', 1) = None"
    "st_outbox finalizing_store = []" "insert_row (''draw'', 1) v (st_results finalizing_store) = Inr [((''draw'', 1), v)]" for v
    by (simp_all add: owns_def finalizing_store_def entered_store_def voted_tables_def opened_store_def store_empty_def
        insert_row_def hm_has_def)
  have "\<not> (ls_lifecycle finalizing_state \<noteq> Finalizing \<or> ls_generation finalizing_state \<noteq> rr_generation sample_result \<or>
      cd_ranking_id sample_draw \<noteq> rr_ranking_id sample_result \<or>
      cd_selection_mode sample_draw \<noteq> se_mode (rr_selection sample_result) \<or>
      cd_tie_policy sample_draw \<noteq> se_tie_policy (rr_selection sample_result))"
    by (simp add: sample_draw_fields finalizing_state_def sample_result_def)
  moreover have "\<not> (action_invalid sample_action \<or> se_winner (rr_selection sample_result) = None)"
    by (simp add: action_invalid_def sample_action_def sample_result_def)
  ultimately show ?thesis
    by (simp add: store_competition_result_once_def sample_result_valid sample_selection id own finalizing_joined
        sample_expected Let_def queue_action_def insert_outbox_def hm_has_def)
qed

section \<open>Results\<close>

text \<open>
  C27. A committed result is final. Whatever operations follow, the stored result can be read back
  unchanged, and a second attempt to store a result for the same generation, with any other draw, any
  action and any owner, changes nothing and reports the first one or an error.
\<close>

theorem result_immutable:
  assumes run: "store_competition_result_once keys r action owner s = (s1, Inr (r', True))"
    and gen: "0 < rr_generation r" and s2: "s2 = store_run env ops s1"
    and again: "rr_competition_id r2 = rr_competition_id r" "rr_generation r2 = rr_generation r"
      "store_competition_result_once keys2 r2 action2 owner2 s2 = (s3, res)"
  shows "load_competition_result (rr_competition_id r) (rr_generation r) s2 = Inr (Some r) \<and>
    s3 = s2 \<and> (res = Inr (r, False) \<or> (\<exists>err. res = Inl err))"
proof -
  note st = result_stored [OF run]
  have row: "hm_get (st_results s2) (rr_competition_id r, int (rr_generation r)) =
      Some \<lparr>rw_ranking_id = rr_ranking_id r, rw_created_at = as_i64 (rr_finalized_at r), rw_result = Some r\<rparr>"
    unfolding s2 using st outcome_ok_results [OF store_run_outcomes] by blast
  have dec: "decode_result (rr_competition_id r) (int (rr_generation r)) (rr_ranking_id r)
      (as_i64 (rr_finalized_at r)) (Some r) = Inr r"
    using st gen by (intro stored_result_decodes) simp_all
  have g: "rr_generation r \<le> i64_max" using st by (simp add: result_invalid_def)
  then have "load_competition_result (rr_competition_id r) (rr_generation r) s2 = Inr (Some r)"
    by (simp add: load_competition_result_def try_i64_def row dec)
  moreover have "s3 = s2 \<and> (res = Inr (r, False) \<or> (\<exists>err. res = Inl err))"
    using again(3) unfolding store_competition_result_once_def again(1,2)
    by (auto simp: Let_def g row dec split: if_splits)
  ultimately show ?thesis by simp
qed

theorem result_immutable_witness:
  "\<exists>s1. store_competition_result_once (se_keys sample_env) sample_result (Some sample_action) (Some ''me'') finalizing_store =
     (s1, Inr (sample_result, True)) \<and>
   load_competition_result ''draw'' 1 (store_run sample_env [St_Delete ''draw''] s1) = Inr (Some sample_result)"
proof -
  obtain s1 where s1: "store_competition_result_once (se_keys sample_env) sample_result (Some sample_action) (Some ''me'')
      finalizing_store = (s1, Inr (sample_result, True))" using sample_store_result by blast
  obtain s3 res where again: "store_competition_result_once (se_keys sample_env) sample_result None None
      (store_run sample_env [St_Delete ''draw''] s1) = (s3, res)" by force
  have id: "rr_competition_id sample_result = ''draw''" "rr_generation sample_result = 1" by (simp_all add: sample_result_def)
  show ?thesis
    using result_immutable [OF s1 _ refl refl refl again] s1 by (simp add: id)
qed

section \<open>Winner actions\<close>

lemma claimed_row:
  assumes "claim_competition_action_detailed keys cid generation now s = (s', Inr (Claimed c))"
  shows "\<exists>row row'. hm_get (st_outbox s) (cid, int generation) = Some row \<and> ob_status row = ActionPending \<and>
    ob_action row = Some (ac_action c) \<and> hm_get (st_outbox s') (cid, int generation) = Some row' \<and>
    ob_status row' = ActionRunning \<and> st_results s' = st_results s"
  using claim_effect [OF assms] by (auto dest!: set_status_effect simp: hm_get_insert)

text \<open>
  C28. A winner action is dispatched at most once. After one claim has succeeded, no later claim of the
  same competition and generation succeeds, whatever outcomes, resolutions, restarts, deletions and
  other operations come in between.
\<close>

theorem action_claimed_once:
  assumes "claim_competition_action_detailed keys cid generation now s = (s1, Inr (Claimed c))"
    and "claim_competition_action_detailed keys2 cid generation now2 (store_run env ops s1) = (s2, res)"
  shows "\<forall>c2. res \<noteq> Inr (Claimed c2)"
proof -
  obtain row' where "hm_get (st_outbox s1) (cid, int generation) = Some row'" "ob_status row' = ActionRunning"
    using claimed_row [OF assms(1)] by blast
  then obtain row2 where "hm_get (st_outbox (store_run env ops s1)) (cid, int generation) = Some row2"
    "ob_status row2 \<noteq> ActionPending"
    using outcome_ok_outbox [OF store_run_outcomes] by fastforce
  then show ?thesis using claimed_row [of keys2 cid generation now2 "store_run env ops s1" s2] assms(2) by fastforce
qed

text \<open>The outbox after a result with an action.\<close>

lemma result_queued:
  assumes "store_competition_result_once keys r (Some a) owner s = (s', Inr (r', True))"
  shows "hm_get (st_outbox s') (rr_competition_id r, int (rr_generation r)) =
      Some \<lparr>ob_action_id = wa_action_id a, ob_idempotency_key = keys (rr_competition_id r) (rr_generation r),
           ob_action = Some a, ob_status = ActionPending, ob_created_at = as_i64 (rr_finalized_at r),
           ob_updated_at = as_i64 (rr_finalized_at r)\<rparr> \<and> \<not> action_invalid a"
proof -
  have "\<not> action_invalid a" "\<not> result_invalid r"
    using assms by (auto simp: store_competition_result_once_def Let_def split: if_splits)
  moreover obtain s1 where "queue_action keys r (Some a) s1 = Inr s'"
    using assms
    by (auto simp: store_competition_result_once_def Let_def transact_cases bind_result_Inr
        split: option.splits if_splits prod.splits)
  ultimately show ?thesis
    by (auto simp: queue_action_def insert_outbox_def hm_get_insert result_valid_generation split: if_splits)
qed

lemma result_claimable:
  assumes "store_competition_result_once keys r (Some a) owner s = (s', Inr (r', True))"
    and id: "rr_competition_id r = cid" "rr_generation r = generation"
  shows "\<exists>s2. claim_competition_action_detailed keys cid generation now s' =
    (s2, Inr (Claimed \<lparr>ac_competition_id = cid, ac_generation = generation,
       ac_idempotency_key = keys cid generation, ac_action = a\<rparr>))"
proof -
  have "generation \<le> i64_max" using result_stored [OF assms(1)] id by (simp add: result_invalid_def)
  then show ?thesis using result_queued [OF assms(1)]
    by (auto simp: id claim_competition_action_detailed_def try_i64_def action_invalid_def set_status_def Let_def)
qed

theorem action_claimed_once_witness:
  "\<exists>s1 s2 c. claim_competition_action_detailed (se_keys sample_env) ''draw'' 1 60 s1 = (s2, Inr (Claimed c)) \<and>
     (\<forall>c2. snd (claim_competition_action_detailed (se_keys sample_env) ''draw'' 1 90
        (store_run sample_env [St_Interrupt 70, St_Resolve ''draw'' 1 ResolvedFailed 80] s2)) \<noteq> Inr (Claimed c2))"
proof -
  obtain s1 where s1: "store_competition_result_once (se_keys sample_env) sample_result (Some sample_action) (Some ''me'')
      finalizing_store = (s1, Inr (sample_result, True))" using sample_store_result by blast
  have id: "rr_competition_id sample_result = ''draw''" "rr_generation sample_result = 1" by (simp_all add: sample_result_def)
  obtain s2 where s2: "claim_competition_action_detailed (se_keys sample_env) ''draw'' 1 60 s1 =
    (s2, Inr (Claimed \<lparr>ac_competition_id = ''draw'', ac_generation = 1,
       ac_idempotency_key = se_keys sample_env ''draw'' 1, ac_action = sample_action\<rparr>))"
    using result_claimable [OF s1 id] by blast
  obtain s3 res where again: "claim_competition_action_detailed (se_keys sample_env) ''draw'' 1 90
      (store_run sample_env [St_Interrupt 70, St_Resolve ''draw'' 1 ResolvedFailed 80] s2) = (s3, res)" by force
  have "\<forall>c2. snd (claim_competition_action_detailed (se_keys sample_env) ''draw'' 1 90
      (store_run sample_env [St_Interrupt 70, St_Resolve ''draw'' 1 ResolvedFailed 80] s2)) \<noteq> Inr (Claimed c2)"
    using action_claimed_once [OF s2 again] unfolding again snd_conv .
  then show ?thesis using s2 by blast
qed

text \<open>
  C29. Finalization gets to its end. In a reachable store, a competition that is finalizing and has no
  result takes every valid result that fits its definition from its owner: the competition is finished,
  and the winner action, if there is one, can be claimed at once with the idempotency key of this
  generation and its completion can be recorded.
\<close>

theorem finalization_completes:
  assumes "inj (case_prod (se_keys env))" and s: "s = store_run env ops store_empty"
    and "joined (rr_competition_id r) s = Some (Some d, Some state)" and "ls_lifecycle state = Finalizing"
    and "hm_get (st_results s) (rr_competition_id r, int (rr_generation r)) = None"
    and "owns (rr_competition_id r) (int (rr_generation r)) owner s"
    and "\<not> result_invalid r" "selection_valid (rr_selection r)"
    and "ls_generation state = rr_generation r" "cd_ranking_id d = rr_ranking_id r"
      "cd_selection_mode d = se_mode (rr_selection r)" "cd_tie_policy d = se_tie_policy (rr_selection r)"
    and action: "action = expected_action d (rr_selection r)" and "\<forall>a. action = Some a \<longrightarrow> \<not> action_invalid a"
  shows "\<exists>s1. store_competition_result_once (se_keys env) r action (Some owner) s = (s1, Inr (r, True)) \<and>
    (\<exists>finished. hm_get (st_states s1) (rr_competition_id r) = Some (Some finished) \<and> ls_lifecycle finished = Finished) \<and>
    (\<forall>a. action = Some a \<longrightarrow>
      (\<exists>s2 s3. claim_competition_action_detailed (se_keys env) (rr_competition_id r) (rr_generation r) now s1 =
          (s2, Inr (Claimed \<lparr>ac_competition_id = rr_competition_id r, ac_generation = rr_generation r,
             ac_idempotency_key = se_keys env (rr_competition_id r) (rr_generation r), ac_action = a\<rparr>)) \<and>
        record_competition_action_outcome (rr_competition_id r) (rr_generation r) ActionCompleted None now2 s2 =
          (s3, Inr True)))"
proof -
  let ?cid = "rr_competition_id r" and ?n = "rr_generation r"
  let ?s1 = "s\<lparr>st_states := hm_insert ?cid
        (Some (state\<lparr>ls_lifecycle := Finished, ls_deadline_ms := None, ls_remaining_ms := None\<rparr>)) (st_states s),
      st_results := hm_insert (?cid, int ?n)
        \<lparr>rw_ranking_id = rr_ranking_id r, rw_created_at = as_i64 (rr_finalized_at r), rw_result = Some r\<rparr>
        (st_results s)\<rparr>"
  have ok: "outcome_ok env store_empty s" unfolding s by (rule store_run_outcomes)
  have g: "as_i64 ?n = int ?n" by (rule result_valid_generation [OF assms(7)])
  have no_key: "ob_idempotency_key row \<noteq> se_keys env ?cid ?n" if "(k, row) \<in> set (st_outbox s)" for k row
  proof
    assume key: "ob_idempotency_key row = se_keys env ?cid ?n"
    have "hm_wf (st_outbox s)" using ok by (simp add: outcome_ok_def store_empty_def)
    then have "hm_get (st_outbox s) k = Some row" using that by (simp add: hm_get_Some_set)
    moreover have "hm_get (st_outbox store_empty) k = None" by (simp add: store_empty_def)
    ultimately obtain cid n where k: "k = (cid, int n)" "ob_idempotency_key row = se_keys env cid n"
      "hm_get (st_results s) k \<noteq> None" using outcome_ok_new [OF ok] by blast
    then have "(cid, n) = (?cid, ?n)" using key assms(1) by (auto dest: injD [of _ "(cid, n)" "(?cid, ?n)"])
    then show False using k(1,3) assms(5) by simp
  qed
  have no_row: "hm_get (st_outbox s) (?cid, int ?n) = None"
  proof (rule ccontr)
    assume "hm_get (st_outbox s) (?cid, int ?n) \<noteq> None"
    moreover have "hm_get (st_outbox store_empty) (?cid, int ?n) = None" by (simp add: store_empty_def)
    ultimately show False using outcome_ok_new [OF ok, of "(?cid, int ?n)"] assms(5) by auto
  qed
  have winner: "se_winner (rr_selection r) \<noteq> None" if "action = Some a" for a
    using that action by (auto simp: expected_action_def split: option.splits)
  have queued: "\<exists>s2. queue_action (se_keys env) r action ?s1 = Inr s2 \<and> st_states s2 = st_states ?s1"
    using no_row no_key
    by (auto simp: queue_action_def insert_outbox_def hm_has_def list_ex_iff g split: option.split)
  then obtain s1 where s1: "queue_action (se_keys env) r action ?s1 = Inr s1" "st_states s1 = st_states ?s1" by blast
  have "(case action of None \<Rightarrow> False | Some a \<Rightarrow> action_invalid a \<or> se_winner (rr_selection r) = None) = False"
    using assms(14) winner by (simp split: option.split)
  then have stored: "store_competition_result_once (se_keys env) r action (Some owner) s = (s1, Inr (r, True))"
    using assms s1(1) by (simp add: store_competition_result_once_def Let_def g insert_row_fresh)
  have "\<exists>finished. hm_get (st_states s1) ?cid = Some (Some finished) \<and> ls_lifecycle finished = Finished"
    by (simp add: s1(2) hm_get_insert)
  moreover have "\<exists>s2 s3. claim_competition_action_detailed (se_keys env) ?cid ?n now s1 =
          (s2, Inr (Claimed \<lparr>ac_competition_id = ?cid, ac_generation = ?n,
             ac_idempotency_key = se_keys env ?cid ?n, ac_action = a\<rparr>)) \<and>
        record_competition_action_outcome ?cid ?n ActionCompleted None now2 s2 = (s3, Inr True)" if a: "action = Some a" for a
  proof -
    obtain s2 where s2: "claim_competition_action_detailed (se_keys env) ?cid ?n now s1 =
        (s2, Inr (Claimed \<lparr>ac_competition_id = ?cid, ac_generation = ?n,
             ac_idempotency_key = se_keys env ?cid ?n, ac_action = a\<rparr>))"
      using result_claimable [OF stored [unfolded a] refl refl] by blast
    have "\<exists>s3. record_competition_action_outcome ?cid ?n ActionCompleted None now2 s2 = (s3, Inr True)"
      using claimed_row [OF s2] assms(7)
      by (auto simp: record_competition_action_outcome_def try_i64_def result_invalid_def set_status_def)
    then show ?thesis using s2 by blast
  qed
  ultimately show ?thesis using stored by blast
qed

theorem finalization_completes_witness:
  "\<exists>s1 s2 s3 c. store_competition_result_once (se_keys sample_env) sample_result (Some sample_action) (Some ''me'') finalizing_store =
      (s1, Inr (sample_result, True)) \<and>
    claim_competition_action_detailed (se_keys sample_env) ''draw'' 1 60 s1 = (s2, Inr (Claimed c)) \<and>
    ac_action c = sample_action \<and>
    record_competition_action_outcome ''draw'' 1 ActionCompleted None 70 s2 = (s3, Inr True)"
proof -
  have id: "rr_competition_id sample_result = ''draw''" "rr_generation sample_result = 1" by (simp_all add: sample_result_def)
  have "\<exists>s1. store_competition_result_once (se_keys sample_env) sample_result (Some sample_action) (Some ''me'') finalizing_store =
        (s1, Inr (sample_result, True)) \<and>
    (\<exists>finished. hm_get (st_states s1) (rr_competition_id sample_result) = Some (Some finished) \<and> ls_lifecycle finished = Finished) \<and>
    (\<forall>a. Some sample_action = Some a \<longrightarrow>
      (\<exists>s2 s3. claim_competition_action_detailed (se_keys sample_env) (rr_competition_id sample_result) (rr_generation sample_result) 60 s1 =
          (s2, Inr (Claimed \<lparr>ac_competition_id = rr_competition_id sample_result, ac_generation = rr_generation sample_result,
             ac_idempotency_key = se_keys sample_env (rr_competition_id sample_result) (rr_generation sample_result), ac_action = a\<rparr>)) \<and>
        record_competition_action_outcome (rr_competition_id sample_result) (rr_generation sample_result) ActionCompleted None 70 s2 =
          (s3, Inr True)))"
    by (rule finalization_completes [OF sample_keys_inj closing_run [symmetric], where d = sample_draw and state = finalizing_state])
      (simp_all add: id finalizing_joined sample_result_valid sample_selection sample_draw_fields sample_expected
        finalizing_state_def, simp_all add: sample_result_def finalizing_store_def entered_store_def voted_tables_def
        opened_store_def store_empty_def owns_def action_invalid_def sample_action_def)
  then show ?thesis unfolding id by fastforce
qed

section \<open>Owners\<close>





section \<open>Actions of draws and challenges\<close>

text \<open>
  C31. The winner action of a draw or a leaderboard challenge is never executed. Its result queues the
  action \<open>on_user_win\<close> of the definition, but the check before the execution compares the claimed
  action with the \<open>on_win\<close> of an option that has the winner's name: unless such an option happens to
  carry the same action, every claim of it is refused with \<open>action_reference_mismatch\<close>.
\<close>

theorem user_action_refused:
  assumes run: "store_competition_result_once keys r (Some a) owner s = (s1, Inr (r', True))"
    and "joined (rr_competition_id r) s = Some (Some d, scolumn)" and "user_winner d" and gen: "0 < rr_generation r"
    and other: "\<forall>opt \<in> set (cd_options d). se_winner (rr_selection r) = Some (od_id opt) \<longrightarrow> od_on_win opt \<noteq> Some a"
    and claim: "claim_competition_action_detailed keys2 (rr_competition_id r) (rr_generation r) now (store_run env ops s1) =
      (s2, Inr (Claimed c))"
  shows "cd_on_user_win d = Some a \<and> ac_action c = a \<and>
    prepare_winner (load_competition_result (rr_competition_id r) (rr_generation r) s2) (Some d) c =
      Inl ''action_reference_mismatch''"
proof -
  note st = result_stored [OF run]
  have exp: "Some a = expected_action d (rr_selection r)"
    using run assms(2) st
    by (auto simp: store_competition_result_once_def Let_def transact_cases bind_result_Inr decoded_def
        split: option.splits if_splits)
  then obtain winner where winner: "se_winner (rr_selection r) = Some winner"
    by (auto simp: expected_action_def split: option.splits)
  then have user: "cd_on_user_win d = Some a" using exp assms(3) by (simp add: expected_action_def)
  obtain row where "hm_get (st_outbox (store_run env ops s1)) (rr_competition_id r, int (rr_generation r)) = Some row"
    "ob_action row = Some a"
    using result_queued [OF run] outcome_ok_outbox [OF store_run_outcomes] by fastforce
  then have a: "ac_action c = a" and same: "st_results s2 = st_results (store_run env ops s1)"
    using claimed_row [OF claim] by auto
  have "hm_get (st_results s2) (rr_competition_id r, int (rr_generation r)) =
      Some \<lparr>rw_ranking_id = rr_ranking_id r, rw_created_at = as_i64 (rr_finalized_at r), rw_result = Some r\<rparr>"
    unfolding same using st outcome_ok_results [OF store_run_outcomes] by blast
  moreover have "rr_generation r \<le> i64_max" using st by (simp add: result_invalid_def)
  ultimately have "load_competition_result (rr_competition_id r) (rr_generation r) s2 = Inr (Some r)"
    using st gen stored_result_decodes [of r] by (simp add: load_competition_result_def try_i64_def)
  moreover have "(case find (\<lambda>opt. od_id opt = winner) (cd_options d) of None \<Rightarrow> None | Some opt \<Rightarrow> od_on_win opt) \<noteq> Some a"
    using other winner by (auto split: option.split dest!: find_Some_iff [THEN iffD1] nth_mem)
  ultimately show ?thesis using user a winner by (simp add: prepare_winner_def)
qed

theorem user_action_refused_witness:
  "\<exists>s1 s2 c. claim_competition_action_detailed (se_keys sample_env) ''draw'' 1 60 s1 = (s2, Inr (Claimed c)) \<and>
     cd_on_user_win sample_draw = Some (ac_action c) \<and>
     prepare_winner (load_competition_result ''draw'' 1 s2) (Some sample_draw) c = Inl ''action_reference_mismatch''"
proof -
  obtain s1 where s1: "store_competition_result_once (se_keys sample_env) sample_result (Some sample_action) (Some ''me'')
      finalizing_store = (s1, Inr (sample_result, True))" using sample_store_result by blast
  have id: "rr_competition_id sample_result = ''draw''" "rr_generation sample_result = 1" by (simp_all add: sample_result_def)
  obtain s2 c where s2: "claim_competition_action_detailed (se_keys sample_env) ''draw'' 1 60 s1 = (s2, Inr (Claimed c))"
    using result_claimable [OF s1 id] by blast
  have j: "joined (rr_competition_id sample_result) finalizing_store = Some (Some sample_draw, Some finalizing_state)"
    unfolding id by (rule finalizing_joined)
  have claim: "claim_competition_action_detailed (se_keys sample_env) (rr_competition_id sample_result)
      (rr_generation sample_result) 60 (store_run sample_env [] s1) = (s2, Inr (Claimed c))"
    using s2 by (simp add: id)
  have other: "\<forall>opt \<in> set (cd_options sample_draw). se_winner (rr_selection sample_result) = Some (od_id opt) \<longrightarrow>
      od_on_win opt \<noteq> Some sample_action"
    by (simp add: sample_draw_def example_option_def sample_result_def)
  have "user_winner sample_draw" by (simp add: user_winner_def sample_draw_fields)
  from user_action_refused [OF s1 j this _ other claim, unfolded id] s2 show ?thesis
    by (intro exI [of _ s1] exI [of _ s2] exI [of _ c]) simp
qed

end
