(* ===== verification/Live_Event.thy ===== *)
theory Live_Event
  imports Competition_Model Decimal
begin

text \<open>
  The LIVE events as the host sees them (\<open>TikToolsEvent\<close> of \<open>crates/tiktools-tiktok/src/events.rs\<close>),
  the connection context and the viewer identities (\<open>helpers.rs\<close>). The normalized event types come
  from the external crate \<open>ttl-live-events\<close>; of each the fields the host reads are kept.
\<close>

section \<open>Clock and counters\<close>

text \<open>
  An \<open>Instant\<close> is a natural number of nanoseconds of one monotone clock. \<open>fetch_add\<close>, and \<open>+=\<close> in a
  release build, wrap at the end of the 64-bit range.
\<close>

definition second :: nat where
  "second = 1000000000"

definition wrapping_inc :: "u64 \<Rightarrow> u64" where
  "wrapping_inc n = (n + 1) mod (u64_max + 1)"

lemma wrapping_inc_cases:
  obtains "wrapping_inc n = n + 1" "n < u64_max" | "wrapping_inc n = 0" "n = u64_max" | "wrapping_inc n \<le> u64_max" "u64_max < n"
proof -
  have "wrapping_inc n \<le> u64_max" by (simp add: wrapping_inc_def less_Suc_eq_le [symmetric])
  then show ?thesis using that by (cases n u64_max rule: linorder_cases) (simp_all add: wrapping_inc_def)
qed

lemma wrapping_inc_neq [simp]: "wrapping_inc n \<noteq> n" "wrapping_inc (wrapping_inc n) \<noteq> n"
proof -
  have m: "(1::nat) < u64_max" by (simp add: u64_max_def)
  show "wrapping_inc n \<noteq> n" using m by (cases rule: wrapping_inc_cases [of n]) simp_all
  show "wrapping_inc (wrapping_inc n) \<noteq> n"
    using m by (cases rule: wrapping_inc_cases [of n]; cases rule: wrapping_inc_cases [of "wrapping_inc n"]) simp_all
qed

definition saturating_mul :: "u64 \<Rightarrow> u64 \<Rightarrow> u64" where
  "saturating_mul a b = min (a * b) u64_max"

section \<open>Events\<close>

record event_user =
  eu_id :: u64
  eu_unique_id :: string
  eu_nickname :: string
  eu_avatar_url :: "string option"

record gift_event =
  gv_user :: event_user
  gv_gift_id :: u64
  gv_group_id :: u64
  gv_repeat_count :: u64
  gv_combo_count :: u64
  gv_diamond_count :: u64
  gv_gift_name :: string
  gv_gift_image_url :: "string option"

record like_event =
  lv_user :: event_user
  lv_count :: u64

datatype canonical_event =
    Chat event_user
  | EmoteChat event_user
  | Gift gift_event
  | Like like_event
  | Member event_user
  | Social "event_user option" int
  | RoomUser
  | Unknown

text \<open>\<open>EventMetadata\<close> and \<open>GiftEnrichment\<close>, the values the host adds to an event.\<close>

record gift_enrichment =
  ge_name :: string
  ge_diamond_count :: u64
  ge_streakable :: bool
  ge_icon_url :: "string option"

record live_event =
  le_base :: canonical_event
  le_method :: string
  le_msg_id :: u64
  le_is_history :: bool
  le_gift :: "gift_enrichment option"

text \<open>\<open>TikToolsEvent::gift_diamond_count\<close>: the price of the event, or the catalogue's when it has none.\<close>

definition gift_diamond_count :: "live_event \<Rightarrow> u64 option" where
  "gift_diamond_count e =
     (case le_base e of
        Gift g \<Rightarrow>
          Some (if gv_diamond_count g = 0
                then (case le_gift e of None \<Rightarrow> 0 | Some c \<Rightarrow> ge_diamond_count c)
                else gv_diamond_count g)
      | _ \<Rightarrow> None)"

definition gift_streakable :: "live_event \<Rightarrow> bool" where
  "gift_streakable e = (case le_gift e of None \<Rightarrow> False | Some c \<Rightarrow> ge_streakable c)"

section \<open>Context and identities\<close>

record live_context =
  lc_unique_id :: string
  lc_room_id :: string
  lc_connection_id :: string

type_synonym room = "string \<times> string"

definition context_scope :: "live_context option \<Rightarrow> room" where
  "context_scope c = (case c of None \<Rightarrow> ([], []) | Some x \<Rightarrow> (lc_unique_id x, lc_room_id x))"

text \<open>\<open>clean_unique_id\<close>: surrounding white space and leading at-signs are dropped.\<close>

definition clean_unique_id :: "string \<Rightarrow> string option" where
  "clean_unique_id s = (let v = dropWhile (\<lambda>c. c = CHR ''@'') (trim s) in if v = [] then None else Some v)"

text \<open>The key under which a viewer is counted: the numeric id, or the handle when there is none.\<close>

definition viewer_key :: "event_user \<Rightarrow> string" where
  "viewer_key u = (if eu_id u \<noteq> 0 then to_string (eu_id u) else eu_unique_id u)"

end
