(* ===== verification/Live_Dedup.thy ===== *)
theory Live_Dedup
  imports Live_Event
begin

text \<open>
  The replay guard of the LIVE stream (\<open>live_events/dedup.rs\<close>): a hash map from message identities
  to the time they were admitted, and the queue of these identities, bounded by a capacity and by a
  time to live. TikTok repeats recent messages after a reconnect; the guard decides which of them
  are processed.

  Instants are natural numbers of one monotone clock, \<open>elapsed\<close> and \<open>duration_since\<close> are truncated
  differences, as in the library. The readings of the clock within one call are one argument \<open>now\<close>.
\<close>

section \<open>State and operations\<close>

type_synonym identity = "string \<times> string \<times> string \<times> nat \<times> u64"

record live_dedup =
  dd_scope :: "room option"
  dd_seen :: "(identity, nat) hmap"
  dd_order :: "identity list"
  dd_capacity :: nat
  dd_ttl :: nat
  dd_duplicates :: u64

definition dedup_new :: "nat \<Rightarrow> nat \<Rightarrow> live_dedup" where
  "dedup_new capacity ttl =
     \<lparr>dd_scope = None, dd_seen = [], dd_order = [], dd_capacity = max capacity 1, dd_ttl = ttl,
      dd_duplicates = 0\<rparr>"

text \<open>\<open>DEDUP_CAPACITY\<close> and \<open>DEDUP_TTL\<close>.\<close>

definition dedup_default :: live_dedup where
  "dedup_default = dedup_new 4096 (300 * second)"

definition set_scope :: "string \<Rightarrow> string \<Rightarrow> live_dedup \<Rightarrow> live_dedup" where
  "set_scope creator rm d =
     (if dd_scope d \<noteq> Some (creator, rm) then d\<lparr>dd_scope := Some (creator, rm)\<rparr> else d)"

fun event_tag :: "canonical_event \<Rightarrow> nat" where
  "event_tag (Chat _) = 1"
| "event_tag (EmoteChat _) = 8"
| "event_tag (Gift _) = 2"
| "event_tag (Like _) = 3"
| "event_tag (Member _) = 4"
| "event_tag (Social _ _) = 5"
| "event_tag RoomUser = 6"
| "event_tag Unknown = 7"

text \<open>The identity of an event under the current scope, empty before the first connection.\<close>

definition dedup_key :: "live_dedup \<Rightarrow> live_event \<Rightarrow> identity" where
  "dedup_key d e =
     (let (creator, rm) = (case dd_scope d of None \<Rightarrow> ([], []) | Some s \<Rightarrow> s) in
      (creator, rm, le_method e, event_tag (le_base e), le_msg_id e))"

text \<open>\<open>evict_expired\<close>: the front of the queue is dropped while it is expired or unknown.\<close>

fun evict_expired ::
  "nat \<Rightarrow> nat \<Rightarrow> identity list \<Rightarrow> (identity, nat) hmap \<Rightarrow> identity list \<times> (identity, nat) hmap" where
  "evict_expired ttl now [] seen = ([], seen)"
| "evict_expired ttl now (front # order) seen =
     (case hm_get seen front of
        Some seen_at \<Rightarrow>
          if now - seen_at < ttl then (front # order, seen)
          else evict_expired ttl now order (hm_remove front seen)
      | None \<Rightarrow> evict_expired ttl now order (hm_remove front seen))"

text \<open>The loop that makes room for one more identity, oldest first.\<close>

fun evict_oldest ::
  "nat \<Rightarrow> identity list \<Rightarrow> (identity, nat) hmap \<Rightarrow> identity list \<times> (identity, nat) hmap" where
  "evict_oldest capacity [] seen = ([], seen)"
| "evict_oldest capacity (oldest # order) seen =
     (if length seen \<ge> capacity then evict_oldest capacity order (hm_remove oldest seen)
      else (oldest # order, seen))"

definition admit :: "nat \<Rightarrow> identity \<Rightarrow> identity list \<times> (identity, nat) hmap \<Rightarrow> live_dedup \<Rightarrow> live_dedup" where
  "admit now key p d =
     (let (order, seen) = p in d\<lparr>dd_seen := hm_insert key now seen, dd_order := order @ [key]\<rparr>)"

definition check_duplicate :: "nat \<Rightarrow> live_event \<Rightarrow> live_dedup \<Rightarrow> bool \<times> live_dedup" where
  "check_duplicate now e d =
     (if le_msg_id e = 0 then (False, d)
      else
        (let key = dedup_key d e in
         case hm_get (dd_seen d) key of
           Some seen_at \<Rightarrow>
             if now - seen_at < dd_ttl d then (True, d\<lparr>dd_duplicates := wrapping_inc (dd_duplicates d)\<rparr>)
             else (False, admit now key (filter (\<lambda>k. k \<noteq> key) (dd_order d), dd_seen d) d)
         | None \<Rightarrow>
             (False,
              admit now key
                (if length (dd_seen d) \<ge> dd_capacity d
                 then (let (order, seen) = evict_expired (dd_ttl d) now (dd_order d) (dd_seen d) in
                       evict_oldest (dd_capacity d) order seen)
                 else (dd_order d, dd_seen d)) d)))"

text \<open>\<open>diagnostics\<close>: the counter, the number of tracked identities and the capacity.\<close>

definition dedup_diagnostics :: "live_dedup \<Rightarrow> u64 \<times> nat \<times> nat" where
  "dedup_diagnostics d = (dd_duplicates d, length (dd_seen d), dd_capacity d)"

section \<open>The invariant and the log\<close>

definition dedup_inv :: "nat \<Rightarrow> live_dedup \<Rightarrow> bool" where
  "dedup_inv now d \<longleftrightarrow>
     0 < dd_capacity d \<and> hm_wf (dd_seen d) \<and> distinct (dd_order d) \<and>
     set (dd_order d) = hm_keys (dd_seen d) \<and> length (dd_order d) \<le> dd_capacity d \<and>
     sorted (map (\<lambda>k. the (hm_get (dd_seen d) k)) (dd_order d)) \<and>
     (\<forall>k \<in> set (dd_order d). the (hm_get (dd_seen d) k) \<le> now)"

text \<open>What the two tables say together: the remembered identities in the order of their admission.\<close>

definition log_of :: "identity list \<Rightarrow> (identity, nat) hmap \<Rightarrow> (identity \<times> nat) list" where
  "log_of order seen = map (\<lambda>k. (k, the (hm_get seen k))) order"

definition dedup_log :: "live_dedup \<Rightarrow> (identity \<times> nat) list" where
  "dedup_log d = log_of (dd_order d) (dd_seen d)"

definition alive :: "nat \<Rightarrow> nat \<Rightarrow> identity \<times> nat \<Rightarrow> bool" where
  "alive ttl now p \<longleftrightarrow> now - snd p < ttl"

definition newest :: "nat \<Rightarrow> 'a list \<Rightarrow> 'a list" where
  "newest n xs = drop (length xs - n) xs"

lemma length_newest [simp]: "length (newest n xs) = min n (length xs)"
  by (simp add: newest_def min_def)

lemma newest_all: "length xs \<le> n \<Longrightarrow> newest n xs = xs"
  by (simp add: newest_def)

lemma newest_snoc: "0 < n \<Longrightarrow> newest n (xs @ [x]) = newest (n - 1) xs @ [x]"
  by (auto simp: newest_def Suc_diff_le)

lemma newest_newest: "m \<le> n \<Longrightarrow> newest m (newest n xs) = newest m xs"
  by (cases "n \<le> length xs") (simp_all add: newest_def)

lemma log_of_remove:
  "k \<notin> set order \<Longrightarrow> log_of order (hm_remove k seen) = log_of order seen"
  by (auto simp: log_of_def hm_simps)

lemma log_of_insert:
  "k \<notin> set order \<Longrightarrow> log_of (order @ [k]) (hm_insert k now seen) = log_of order seen @ [(k, now)]"
  by (auto simp: log_of_def hm_simps)

lemma sorted_alive_filter:
  assumes "sorted (map snd w)"
  shows "filter (alive ttl now) w = dropWhile (\<lambda>p. \<not> alive ttl now p) w"
  using assms
proof (induction w)
  case (Cons p w)
  show ?case
  proof (cases "alive ttl now p")
    case True
    then have "\<forall>q \<in> set w. alive ttl now q" using Cons.prems by (auto simp: alive_def)
    then show ?thesis using True by simp
  qed (use Cons in simp)
qed simp

subsection \<open>The two tables stay consistent\<close>

definition tables_ok :: "identity list \<Rightarrow> (identity, nat) hmap \<Rightarrow> bool" where
  "tables_ok order seen \<longleftrightarrow> hm_wf seen \<and> distinct order \<and> set order = hm_keys seen"

lemma tables_ok_len: "tables_ok order seen \<Longrightarrow> length seen = length order"
  by (metis distinct_card hm_len_keys tables_ok_def)

lemma tables_ok_remove: "tables_ok (k # order) seen \<Longrightarrow> tables_ok order (hm_remove k seen)"
  by (auto simp: tables_ok_def hm_simps)

lemma tables_ok_get: "tables_ok order seen \<Longrightarrow> k \<in> set order \<Longrightarrow> \<exists>t. hm_get seen k = Some t"
  by (metis hm_get_None not_Some_eq tables_ok_def)

lemma evict_expired_spec:
  assumes "tables_ok order seen" and "evict_expired ttl now order seen = (order', seen')"
  shows "tables_ok order' seen' \<and>
    log_of order' seen' = dropWhile (\<lambda>p. \<not> alive ttl now p) (log_of order seen)"
  using assms
proof (induction order arbitrary: seen)
  case Nil
  then show ?case by (simp add: log_of_def)
next
  case (Cons k order)
  obtain t where t: "hm_get seen k = Some t" using tables_ok_get [OF Cons.prems(1), of k] by auto
  show ?case
  proof (cases "now - t < ttl")
    case True
    then show ?thesis using Cons.prems t by (auto simp: log_of_def alive_def)
  next
    case False
    have "k \<notin> set order" using Cons.prems(1) by (simp add: tables_ok_def)
    then have eq: "log_of order (hm_remove k seen) = log_of order seen" by (rule log_of_remove)
    have "evict_expired ttl now order (hm_remove k seen) = (order', seen')"
      using Cons.prems(2) t False by simp
    from Cons.IH [OF tables_ok_remove [OF Cons.prems(1)] this] eq
    have "tables_ok order' seen'" "log_of order' seen' = dropWhile (\<lambda>p. \<not> alive ttl now p) (log_of order seen)"
      by simp_all
    moreover have "log_of (k # order) seen = (k, t) # log_of order seen" using t by (simp add: log_of_def)
    ultimately show ?thesis using False by (simp add: alive_def)
  qed
qed

lemma evict_oldest_spec:
  assumes "tables_ok order seen" and "evict_oldest capacity order seen = (order', seen')" and "0 < capacity"
  shows "tables_ok order' seen' \<and> log_of order' seen' = newest (capacity - 1) (log_of order seen)"
  using assms
proof (induction order arbitrary: seen)
  case Nil
  then show ?case by (simp add: log_of_def newest_def)
next
  case (Cons k order)
  have len: "length seen = Suc (length order)" using tables_ok_len [OF Cons.prems(1)] by simp
  show ?case
  proof (cases "length seen \<ge> capacity")
    case False
    then have "newest (capacity - 1) (log_of (k # order) seen) = log_of (k # order) seen"
      using len by (intro newest_all) (simp add: log_of_def)
    then show ?thesis using Cons.prems False by simp
  next
    case True
    have "k \<notin> set order" using Cons.prems(1) by (simp add: tables_ok_def)
    then have eq: "log_of order (hm_remove k seen) = log_of order seen" by (rule log_of_remove)
    have "evict_oldest capacity order (hm_remove k seen) = (order', seen')"
      using Cons.prems(2) True by simp
    from Cons.IH [OF tables_ok_remove [OF Cons.prems(1)] this Cons.prems(3)] eq
    have "tables_ok order' seen'" "log_of order' seen' = newest (capacity - 1) (log_of order seen)"
      by simp_all
    moreover have "newest (capacity - 1) (log_of (k # order) seen) = newest (capacity - 1) (log_of order seen)"
      using True len Cons.prems(3) by (auto simp: newest_def log_of_def Suc_diff_le)
    ultimately show ?thesis by simp
  qed
qed

section \<open>The guard as a window of admissions\<close>

text \<open>
  The contract of the guard, over the log alone: an identity is refused while it is alive in the
  window, otherwise it is appended, after its expired occurrence or, in a full window, everything
  expired and then the oldest entries have left.
\<close>

definition window_check ::
  "nat \<Rightarrow> nat \<Rightarrow> nat \<Rightarrow> identity \<Rightarrow> (identity \<times> nat) list \<Rightarrow> bool \<times> (identity \<times> nat) list" where
  "window_check capacity ttl now key w =
     (if key \<in> fst ` set (filter (alive ttl now) w) then (True, w)
      else if key \<in> fst ` set w then (False, filter (\<lambda>p. fst p \<noteq> key) w @ [(key, now)])
      else if length w < capacity then (False, w @ [(key, now)])
      else (False, newest (capacity - 1) (filter (alive ttl now) w) @ [(key, now)]))"

lemma dedup_inv_tables:
  "dedup_inv now d \<longleftrightarrow>
     0 < dd_capacity d \<and> tables_ok (dd_order d) (dd_seen d) \<and> length (dedup_log d) \<le> dd_capacity d \<and>
     sorted (map snd (dedup_log d)) \<and> (\<forall>p \<in> set (dedup_log d). snd p \<le> now)"
  by (auto simp: dedup_inv_def tables_ok_def dedup_log_def log_of_def comp_def)

lemma dedup_log_keys: "fst ` set (dedup_log d) = set (dd_order d)"
  by (auto simp: dedup_log_def log_of_def image_image)

lemma dedup_log_mem: "p \<in> set (dedup_log d) \<longleftrightarrow> fst p \<in> set (dd_order d) \<and> snd p = the (hm_get (dd_seen d) (fst p))"
  by (cases p) (auto simp: dedup_log_def log_of_def)

lemma admit_simps [simp]:
  "dd_capacity (admit now key p d) = dd_capacity d"
  "dd_ttl (admit now key p d) = dd_ttl d"
  "dd_scope (admit now key p d) = dd_scope d"
  "dd_duplicates (admit now key p d) = dd_duplicates d"
  by (simp_all add: admit_def split: prod.split)

lemma admit_log:
  "tables_ok order seen \<Longrightarrow> key \<notin> set order \<Longrightarrow>
   dedup_log (admit now key (order, seen) d) = log_of order seen @ [(key, now)]"
  by (simp add: admit_def dedup_log_def log_of_insert)

lemma admit_tables:
  "tables_ok order seen \<Longrightarrow> key \<notin> set order \<Longrightarrow> d' = admit now key (order, seen) d \<Longrightarrow>
   tables_ok (dd_order d') (dd_seen d')"
  by (auto simp: admit_def tables_ok_def hm_simps)

lemma admit_stale:
  assumes ok: "tables_ok (dd_order d) (dd_seen d)" and key: "key \<in> set (dd_order d)"
    and d': "d' = admit now key (filter (\<lambda>k. k \<noteq> key) (dd_order d), dd_seen d) d"
  shows "tables_ok (dd_order d') (dd_seen d') \<and>
    dedup_log d' = filter (\<lambda>p. fst p \<noteq> key) (dedup_log d) @ [(key, now)]"
  using assms
  by (auto simp: admit_def tables_ok_def hm_simps dedup_log_def log_of_def filter_map comp_def)

lemma evict_spec:
  assumes inv: "dedup_inv now d" and full: "length (dedup_log d) \<ge> dd_capacity d"
    and ev: "(let (order, seen) = evict_expired (dd_ttl d) now (dd_order d) (dd_seen d) in
              evict_oldest (dd_capacity d) order seen) = (order', seen')"
  shows "tables_ok order' seen' \<and>
    log_of order' seen' = newest (dd_capacity d - 1) (filter (alive (dd_ttl d) now) (dedup_log d))"
proof -
  from inv have ok: "tables_ok (dd_order d) (dd_seen d)" and cap: "0 < dd_capacity d"
    and srt: "sorted (map snd (dedup_log d))" by (simp_all add: dedup_inv_tables)
  obtain order seen where e: "evict_expired (dd_ttl d) now (dd_order d) (dd_seen d) = (order, seen)"
    by force
  from evict_expired_spec [OF ok e] have "tables_ok order seen"
    and l: "log_of order seen = filter (alive (dd_ttl d) now) (dedup_log d)"
    using sorted_alive_filter [OF srt] by (simp_all add: dedup_log_def)
  moreover have "evict_oldest (dd_capacity d) order seen = (order', seen')" using ev e by simp
  ultimately show ?thesis using evict_oldest_spec cap by metis
qed

lemma newest_subset: "set (newest n xs) \<subseteq> set xs"
  by (simp add: newest_def set_drop_subset)

lemma check_duplicate_window:
  assumes inv: "dedup_inv now d" and id0: "le_msg_id e \<noteq> 0"
    and run: "check_duplicate now e d = (dup, d')"
  shows "window_check (dd_capacity d) (dd_ttl d) now (dedup_key d e) (dedup_log d) = (dup, dedup_log d') \<and>
    tables_ok (dd_order d') (dd_seen d')"
proof -
  let ?k = "dedup_key d e"
  from inv have ok: "tables_ok (dd_order d) (dd_seen d)" and cap: "0 < dd_capacity d"
    by (simp_all add: dedup_inv_tables)
  show ?thesis
  proof (cases "hm_get (dd_seen d) ?k")
    case None
    then have new: "?k \<notin> set (dd_order d)" using ok by (auto simp: tables_ok_def hm_get_None)
    then have w: "?k \<notin> fst ` set (dedup_log d)" "?k \<notin> fst ` set (filter (alive (dd_ttl d) now) (dedup_log d))"
      by (auto simp: dedup_log_mem)
    have len: "length (dd_seen d) = length (dedup_log d)"
      using tables_ok_len [OF ok] by (simp add: dedup_log_def log_of_def)
    show ?thesis
    proof (cases "length (dedup_log d) < dd_capacity d")
      case True
      then have "dup = False" "d' = admit now ?k (dd_order d, dd_seen d) d"
        using run id0 None len by (simp_all add: check_duplicate_def)
      then show ?thesis using True w admit_log [OF ok new] admit_tables [OF ok new]
        by (simp add: window_check_def dedup_log_def)
    next
      case False
      obtain order seen where
        e: "(let (order, seen) = evict_expired (dd_ttl d) now (dd_order d) (dd_seen d) in
              evict_oldest (dd_capacity d) order seen) = (order, seen)" by force
      from evict_spec [OF inv _ e] False
      have ok': "tables_ok order seen"
        and l: "log_of order seen = newest (dd_capacity d - 1) (filter (alive (dd_ttl d) now) (dedup_log d))"
        by simp_all
      have "fst ` set (log_of order seen) = set order" by (auto simp: log_of_def image_image)
      moreover have "set (log_of order seen) \<subseteq> set (dedup_log d)"
        using l newest_subset [of _ "filter (alive (dd_ttl d) now) (dedup_log d)"] by auto
      ultimately have new': "?k \<notin> set order" using w(1) by blast
      have "dup = False" "d' = admit now ?k (order, seen) d"
        using run id0 None len False e by (simp_all add: check_duplicate_def)
      then show ?thesis using False w admit_log [OF ok' new'] admit_tables [OF ok' new'] l
        by (simp add: window_check_def)
    qed
  next
    case (Some t)
    then have k: "?k \<in> set (dd_order d)" and mem: "(?k, t) \<in> set (dedup_log d)"
      using ok by (auto simp: tables_ok_def dedup_log_mem dest: hm_get_in_keys)
    have only: "p \<in> set (dedup_log d) \<Longrightarrow> fst p = ?k \<Longrightarrow> snd p = t" for p
      using Some by (simp add: dedup_log_mem)
    show ?thesis
    proof (cases "now - t < dd_ttl d")
      case True
      then have "?k \<in> fst ` set (filter (alive (dd_ttl d) now) (dedup_log d))"
        using mem by (force simp: alive_def)
      moreover have "dup" "dedup_log d' = dedup_log d" "dd_order d' = dd_order d" "dd_seen d' = dd_seen d"
        using run id0 Some True by (auto simp: check_duplicate_def dedup_log_def)
      ultimately show ?thesis using ok by (simp add: window_check_def)
    next
      case False
      then have "?k \<notin> fst ` set (filter (alive (dd_ttl d) now) (dedup_log d))"
        using only by (auto simp: alive_def)
      moreover have "?k \<in> fst ` set (dedup_log d)" using mem by force
      moreover have "\<not> dup" "d' = admit now ?k (filter (\<lambda>k. k \<noteq> ?k) (dd_order d), dd_seen d) d"
        using run id0 Some False by (simp_all add: check_duplicate_def Let_def)
      ultimately show ?thesis using admit_stale [OF ok k] by (simp add: window_check_def)
    qed
  qed
qed

text \<open>The window keeps its bound and its order.\<close>

lemma length_filter_key:
  assumes "key \<in> fst ` set w"
  shows "length (filter (\<lambda>p. fst p \<noteq> key) w) < length w"
  using assms by (auto intro: length_filter_less)

lemma sorted_snoc_window:
  assumes "sorted (map snd v)" and "\<forall>p \<in> set v. snd p \<le> now"
  shows "sorted (map snd (v @ [(k, now)]))"
  using assms by (simp add: sorted_append)

lemma window_check_inv:
  assumes "window_check capacity ttl now key w = (dup, w')" and "0 < capacity" and "length w \<le> capacity"
    and srt: "sorted (map snd w)" and le: "\<forall>p \<in> set w. snd p \<le> now"
  shows "length w' \<le> capacity \<and> sorted (map snd w') \<and> (\<forall>p \<in> set w'. snd p \<le> now)"
proof -
  have f: "sorted (map snd (filter P w))" for P using srt by (rule sorted_filter)
  have n: "sorted (map snd (newest m v))" if "sorted (map snd v)" for m and v :: "(identity \<times> nat) list"
    using that by (simp add: newest_def drop_map [symmetric])
  have sub: "\<forall>p \<in> set (newest m (filter P w)). snd p \<le> now" for m P
    using le newest_subset [of m "filter P w"] by auto
  show ?thesis
  proof (cases "key \<in> fst ` set (filter (alive ttl now) w)")
    case True
    then show ?thesis using assms by (simp add: window_check_def)
  next
    case fresh: False
    show ?thesis
    proof (cases "key \<in> fst ` set w")
      case True
      then have w': "w' = filter (\<lambda>p. fst p \<noteq> key) w @ [(key, now)]"
        using assms(1) fresh by (simp add: window_check_def)
      have "length w' \<le> capacity" using w' length_filter_key [OF True] assms(3) by simp
      moreover have "sorted (map snd w')" unfolding w' using f le by (intro sorted_snoc_window) auto
      ultimately show ?thesis using w' le by auto
    next
      case False
      show ?thesis
      proof (cases "length w < capacity")
        case True
        then have w': "w' = w @ [(key, now)]" using assms(1) fresh False by (simp add: window_check_def)
        have "sorted (map snd w')" unfolding w' using srt le by (rule sorted_snoc_window)
        then show ?thesis using w' True le by auto
      next
        case full: False
        then have w': "w' = newest (capacity - 1) (filter (alive ttl now) w) @ [(key, now)]"
          using assms(1) fresh False by (simp add: window_check_def)
        have "sorted (map snd w')" unfolding w' using n [OF f] sub by (rule sorted_snoc_window)
        moreover have "length w' \<le> capacity" using w' assms(2) by simp
        moreover have "\<forall>p \<in> set w'. snd p \<le> now" using w' sub by auto
        ultimately show ?thesis by simp
      qed
    qed
  qed
qed

lemma check_duplicate_frame:
  assumes "check_duplicate now e d = (dup, d')"
  shows "dd_capacity d' = dd_capacity d \<and> dd_ttl d' = dd_ttl d \<and> dd_scope d' = dd_scope d \<and>
    dd_duplicates d' = (if dup then wrapping_inc (dd_duplicates d) else dd_duplicates d)"
  using assms by (auto simp: check_duplicate_def Let_def split: if_splits option.splits)

lemma check_duplicate_inv:
  assumes inv: "dedup_inv now d" and run: "check_duplicate now e d = (dup, d')"
  shows "dedup_inv now d'"
proof (cases "le_msg_id e = 0")
  case True
  then show ?thesis using inv run by (simp add: check_duplicate_def)
next
  case False
  from check_duplicate_window [OF inv False run]
  have w: "window_check (dd_capacity d) (dd_ttl d) now (dedup_key d e) (dedup_log d) = (dup, dedup_log d')"
    and ok: "tables_ok (dd_order d') (dd_seen d')" by simp_all
  have "length (dedup_log d') \<le> dd_capacity d \<and> sorted (map snd (dedup_log d')) \<and>
      (\<forall>p \<in> set (dedup_log d'). snd p \<le> now)"
    using inv by (intro window_check_inv [OF w]) (simp_all add: dedup_inv_tables)
  then show ?thesis using ok inv check_duplicate_frame [OF run] by (simp add: dedup_inv_tables)
qed

lemma dedup_inv_mono: "dedup_inv t d \<Longrightarrow> t \<le> now \<Longrightarrow> dedup_inv now d"
  by (force simp: dedup_inv_def)

lemma dedup_inv_new: "dedup_inv t (dedup_new capacity ttl)"
  by (simp add: dedup_inv_def dedup_new_def hm_wf_def)

lemma dedup_inv_scope: "dedup_inv t d \<Longrightarrow> dedup_inv t (set_scope creator rm d)"
  by (simp add: dedup_inv_def set_scope_def)

end
