(* ===== verification/Live_Totals.thy ===== *)
theory Live_Totals
  imports Live_Event Aggregation
begin

text \<open>
  The cumulative counters of the LIVE stream (\<open>live_events/totals.rs\<close>): the high-water marks of the
  gift combos, the like totals of every room and viewer, the like leaderboard built on the score
  table of \<^theory_text>\<open>Aggregation\<close>, and the flags that say whether a room's likes are complete.

  As in \<^theory_text>\<open>Live_Dedup\<close>, the clock readings within one call are one argument \<open>now\<close>. The JSON value
  a call returns is a \<open>totals_value\<close>.
\<close>

section \<open>State\<close>

definition totals_capacity :: nat where
  "totals_capacity = 4096"

definition retention :: nat where
  "retention = 300 * second"

record like_identity =
  li_unique_id :: string
  li_nickname :: string
  li_avatar_url :: "string option"

type_synonym live_combo_key = "string \<times> string \<times> u64 \<times> u64 \<times> u64"

record live_totals =
  lt_combos :: "(live_combo_key, u64 \<times> u64 \<times> nat) hmap"
  lt_unknown_methods :: "(string, u64) hmap"
  lt_likes :: "(room, u64) hmap"
  lt_like_rankings :: "(room, aggregation) hmap"
  lt_like_participants :: nat
  lt_like_identities :: "(string \<times> string \<times> string, like_identity) hmap"
  lt_like_revision :: u64
  lt_degraded_scopes :: "room list"
  lt_untracked_scope_failure :: bool
  lt_unknown_ingress_loss :: bool
  lt_untracked :: u64
  lt_like_overflow :: u64
  lt_untracked_combos :: u64

definition totals_default :: live_totals where
  "totals_default =
     \<lparr>lt_combos = [], lt_unknown_methods = [], lt_likes = [], lt_like_rankings = [],
      lt_like_participants = 0, lt_like_identities = [], lt_like_revision = 0,
      lt_degraded_scopes = [], lt_untracked_scope_failure = False, lt_unknown_ingress_loss = False,
      lt_untracked = 0, lt_like_overflow = 0, lt_untracked_combos = 0\<rparr>"

text \<open>
  What \<open>observe\<close> reports: for a gift the increment, the cumulative count and the credited diamonds,
  for a like the totals before and after, of the room and of the viewer, \<open>None\<close> for \<open>null\<close>.
\<close>

datatype totals_value =
    NullTotals
  | GiftTotals (increment: u64) (cumulative: u64) (diamonds: u64)
  | LikeTotals (global_totals: "(u64 \<times> u64) option") (user_totals: "(u64 \<times> u64) option")

section \<open>Gifts\<close>

definition gift_quantity :: "gift_event \<Rightarrow> u64" where
  "gift_quantity g = max (max (gv_repeat_count g) (gv_combo_count g)) 1"

definition gift_price :: "live_event \<Rightarrow> gift_event \<Rightarrow> u64" where
  "gift_price e g = (case gift_diamond_count e of None \<Rightarrow> gv_diamond_count g | Some p \<Rightarrow> p)"

text \<open>Positive evidence of a combo: the group, the sender and the gift are all identified.\<close>

definition combo_evidence :: "gift_event \<Rightarrow> bool" where
  "combo_evidence g \<longleftrightarrow> gv_group_id g \<noteq> 0 \<and> eu_id (gv_user g) \<noteq> 0 \<and> gv_gift_id g \<noteq> 0"

definition combo_key_of :: "room \<Rightarrow> gift_event \<Rightarrow> live_combo_key" where
  "combo_key_of rm g = (fst rm, snd rm, eu_id (gv_user g), gv_gift_id g, gv_group_id g)"

definition retained :: "nat \<Rightarrow> (live_combo_key, u64 \<times> u64 \<times> nat) hmap \<Rightarrow> (live_combo_key, u64 \<times> u64 \<times> nat) hmap" where
  "retained now combos = filter (\<lambda>(k, (_, _, at)). now - at < retention) combos"

definition observe_gift :: "nat \<Rightarrow> live_event \<Rightarrow> gift_event \<Rightarrow> room \<Rightarrow> live_totals \<Rightarrow> totals_value \<times> live_totals" where
  "observe_gift now e g rm s =
     (let count = gift_quantity g; price = gift_price e g in
      if combo_evidence g
      then (let combos = retained now (lt_combos s); key = combo_key_of rm g in
            if \<not> hm_has combos key \<and> length combos \<ge> totals_capacity
            then (NullTotals,
                  s\<lparr>lt_combos := combos, lt_untracked_combos := wrapping_inc (lt_untracked_combos s)\<rparr>)
            else (let (units, paid, _) = hm_get_or combos key (0, 0, now);
                      delta = saturating_sub count units;
                      units' = max units count;
                      target = saturating_mul units' price;
                      credit = saturating_sub target paid;
                      paid' = max paid target in
                  (GiftTotals delta units' credit,
                   s\<lparr>lt_combos := hm_insert key (units', paid', now) combos\<rparr>)))
      else (GiftTotals count count (saturating_mul count price), s))"

section \<open>Likes\<close>

definition tracked :: "live_totals \<Rightarrow> nat" where
  "tracked s = length (lt_likes s) + lt_like_participants s"

definition untrack :: "live_totals \<Rightarrow> live_totals" where
  "untrack s = s\<lparr>lt_untracked := wrapping_inc (lt_untracked s)\<rparr>"

definition overflow_like :: "live_totals \<Rightarrow> live_totals" where
  "overflow_like s = (untrack s)\<lparr>lt_like_overflow := wrapping_inc (lt_like_overflow s)\<rparr>"

definition touch_likes :: "live_totals \<Rightarrow> live_totals" where
  "touch_likes s = s\<lparr>lt_like_revision := saturating_add (lt_like_revision s) 1\<rparr>"

text \<open>The counter of the room.\<close>

definition count_room :: "room \<Rightarrow> u64 \<Rightarrow> live_totals \<Rightarrow> (u64 \<times> u64) option \<times> live_totals" where
  "count_room rm count s =
     (if \<not> hm_has (lt_likes s) rm \<and> tracked s \<ge> totals_capacity then (None, untrack s)
      else (let previous = hm_get_or (lt_likes s) rm 0 in
            case checked_add previous count of
              Some new \<Rightarrow> (Some (previous, new), s\<lparr>lt_likes := hm_insert rm new (lt_likes s)\<rparr>)
            | None \<Rightarrow> (None, overflow_like (s\<lparr>lt_likes := hm_insert rm previous (lt_likes s)\<rparr>))))"

definition like_identity_of :: "event_user \<Rightarrow> like_identity" where
  "like_identity_of u =
     \<lparr>li_unique_id = (case clean_unique_id (eu_unique_id u) of None \<Rightarrow> viewer_key u | Some i \<Rightarrow> i),
      li_nickname = eu_nickname u, li_avatar_url = eu_avatar_url u\<rparr>"

definition viewer_score :: "live_totals \<Rightarrow> room \<Rightarrow> string \<Rightarrow> u64 option" where
  "viewer_score s rm user =
     (case hm_get (lt_like_rankings s) rm of None \<Rightarrow> None | Some r \<Rightarrow> aggregation_score user r)"

text \<open>The counter of the viewer, in the score table of the room.\<close>

definition count_viewer :: "room \<Rightarrow> like_event \<Rightarrow> live_totals \<Rightarrow> ((u64 \<times> u64) option \<times> live_totals) run" where
  "count_viewer rm l s =
     (let user = viewer_key (lv_user l) in
      if user = [] then Ret (None, s)
      else
       (let previous = viewer_score s rm user; before = (case previous of None \<Rightarrow> 0 | Some p \<Rightarrow> p) in
        if previous = None \<and> tracked s \<ge> totals_capacity then Ret (None, untrack s)
        else if lv_count l = 0 then Ret (Some (before, before), s)
        else
          (case aggregation_apply user (lv_count l) 1
                  (hm_get_or (lt_like_rankings s) rm (aggregation_new totals_capacity)) of
             (r, Inr _) \<Rightarrow>
               (case aggregation_score user r of
                  None \<Rightarrow> Panic
                | Some total' \<Rightarrow>
                    Ret (Some (before, total'),
                         touch_likes (s\<lparr>lt_like_rankings := hm_insert rm r (lt_like_rankings s),
                           lt_like_participants :=
                             (if previous = None then lt_like_participants s + 1 else lt_like_participants s),
                           lt_like_identities :=
                             hm_insert (fst rm, snd rm, user) (like_identity_of (lv_user l))
                               (lt_like_identities s)\<rparr>)))
           | (r, Inl err) \<Rightarrow>
               (let s1 = s\<lparr>lt_like_rankings := hm_insert rm r (lt_like_rankings s)\<rparr> in
                Ret (None, if err = Overflow then overflow_like s1 else untrack s1)))))"

text \<open>A loss marks the room, or all rooms when the room cannot be marked.\<close>

definition degrade_scope :: "room \<Rightarrow> live_totals \<Rightarrow> live_totals" where
  "degrade_scope rm s =
     (if rm \<in> set (lt_degraded_scopes s) then s
      else touch_likes (s\<lparr>lt_degraded_scopes := lt_degraded_scopes s @ [rm]\<rparr>))"

definition scope_markable :: "room \<Rightarrow> live_totals \<Rightarrow> bool" where
  "scope_markable rm s \<longleftrightarrow>
     rm \<in> set (lt_degraded_scopes s) \<or> length (lt_degraded_scopes s) < totals_capacity"

definition mark_untracked :: "room \<Rightarrow> live_totals \<Rightarrow> live_totals" where
  "mark_untracked rm s =
     (if hm_has (lt_likes s) rm \<and> scope_markable rm s then degrade_scope rm s
      else if hm_has (lt_likes s) rm \<and> \<not> lt_unknown_ingress_loss s
      then touch_likes (s\<lparr>lt_unknown_ingress_loss := True\<rparr>)
      else if \<not> lt_untracked_scope_failure s
      then touch_likes (s\<lparr>lt_untracked_scope_failure := True\<rparr>)
      else s)"

definition observe_like :: "like_event \<Rightarrow> room \<Rightarrow> live_totals \<Rightarrow> (totals_value \<times> live_totals) run" where
  "observe_like l rm s =
     (let (global, s1) = count_room rm (lv_count l) s in
      run_bind (count_viewer rm l s1) (\<lambda>(user, s2).
        Ret (LikeTotals global user,
             if lt_untracked s2 \<noteq> lt_untracked s then mark_untracked rm s2 else s2)))"

section \<open>Unknown methods\<close>

definition method_char :: "char \<Rightarrow> bool" where
  "method_char c =
     (let n = of_char c :: nat in
      48 \<le> n \<and> n \<le> 57 \<or> 65 \<le> n \<and> n \<le> 90 \<or> 97 \<le> n \<and> n \<le> 122 \<or> n = 95)"

definition observe_unknown :: "live_event \<Rightarrow> live_totals \<Rightarrow> live_totals" where
  "observe_unknown e s =
     (let m = take 96 (filter method_char (le_method e)); methods = lt_unknown_methods s;
          k = (if hm_has methods m \<or> length methods < 64 then m else ''other'') in
      s\<lparr>lt_unknown_methods := hm_insert k (wrapping_inc (hm_get_or methods k 0)) methods\<rparr>)"

section \<open>The public operations\<close>

definition totals_observe ::
  "nat \<Rightarrow> live_event \<Rightarrow> live_context option \<Rightarrow> live_totals \<Rightarrow> (totals_value \<times> live_totals) run" where
  "totals_observe now e c s =
     (let rm = context_scope c in
      case le_base e of
        Gift g \<Rightarrow> Ret (observe_gift now e g rm s)
      | Like l \<Rightarrow> observe_like l rm s
      | Unknown \<Rightarrow> Ret (NullTotals, observe_unknown e s)
      | _ \<Rightarrow> Ret (NullTotals, s))"

definition mark_like_ingress_loss :: "live_context option \<Rightarrow> live_totals \<Rightarrow> live_totals" where
  "mark_like_ingress_loss c s =
     (if c \<noteq> None \<and> scope_markable (context_scope c) s then degrade_scope (context_scope c) s
      else if \<not> lt_unknown_ingress_loss s then touch_likes (s\<lparr>lt_unknown_ingress_loss := True\<rparr>)
      else s)"

definition like_integrity_status :: "live_context \<Rightarrow> live_totals \<Rightarrow> string" where
  "like_integrity_status c s =
     (let rm = context_scope (Some c) in
      if lt_unknown_ingress_loss s \<or> rm \<in> set (lt_degraded_scopes s) \<or>
         lt_untracked_scope_failure s \<and> \<not> hm_has (lt_likes s) rm
      then ''degraded'' else ''unknown'')"

record leader =
  ld_rank :: nat
  ld_score :: u64
  ld_unique_id :: string
  ld_nickname :: string
  ld_user_id :: string
  ld_avatar_url :: "string option"

definition leader_row :: "live_totals \<Rightarrow> room \<Rightarrow> entry \<Rightarrow> leader option" where
  "leader_row s rm e =
     (case hm_get (lt_like_identities s) (fst rm, snd rm, e_key e) of
        None \<Rightarrow> None
      | Some i \<Rightarrow>
          Some \<lparr>ld_rank = e_rank e, ld_score = e_score e, ld_unique_id = li_unique_id i,
                ld_nickname = li_nickname i, ld_user_id = e_key e, ld_avatar_url = li_avatar_url i\<rparr>)"

text \<open>\<open>LIKE_WIDGET_LIMIT\<close> and \<open>LIKE_LEADERBOARD_LIMIT\<close>.\<close>

definition like_leaderboard_with_limit :: "live_context \<Rightarrow> nat \<Rightarrow> live_totals \<Rightarrow> u64 \<times> leader list" where
  "like_leaderboard_with_limit c limit s =
     (let rm = context_scope (Some c) in
      (lt_like_revision s,
       (case hm_get (lt_like_rankings s) rm of
          None \<Rightarrow> []
        | Some r \<Rightarrow> List.map_filter (leader_row s rm) (sn_entries (aggregation_snapshot (min limit 500) r)))))"

definition like_leaderboard :: "live_context \<Rightarrow> live_totals \<Rightarrow> leader list" where
  "like_leaderboard c s = snd (like_leaderboard_with_limit c 10 s)"

end
