(* ===== verification/Live_Admission.thy ===== *)
theory Live_Admission
  imports Live_Dedup Live_Totals Engine_Machine
begin

text \<open>
  The choke point of the LIVE stream (\<open>prepare_live_event\<close> of \<open>live_events/handlers.rs\<close>): every
  delivered message passes the replay guard, then the counters, then the adapter that turns it into a
  contribution to the rankings. Modelled is everything up to the last change of a ranking; the
  automation event, the UI event and the points that follow read this state and do not change it.

  What other packages decide is an argument: the classification of social actions, the user of an
  event, and the check of an artwork or avatar address by the URL parser.
\<close>

section \<open>State\<close>

datatype social_kind = Share | Follow | OtherSocial

record live_api =
  la_classify :: "int \<Rightarrow> social_kind"
  la_user :: "canonical_event \<Rightarrow> event_user option"
  la_valid_url :: "string \<Rightarrow> bool"

record live_host =
  lh_dedup :: live_dedup
  lh_totals :: live_totals
  lh_engine :: engine
  lh_context :: "live_context option"
  lh_event_gaps :: u64
  lh_last_event_gap_at :: u64

definition live_host_new :: "engine \<Rightarrow> live_host" where
  "live_host_new e =
     \<lparr>lh_dedup = dedup_default, lh_totals = totals_default, lh_engine = e, lh_context = None,
      lh_event_gaps = 0, lh_last_event_gap_at = 0\<rparr>"

definition record_event_gap :: "u64 \<Rightarrow> live_host \<Rightarrow> live_host" where
  "record_event_gap millis h =
     h\<lparr>lh_event_gaps := wrapping_inc (lh_event_gaps h), lh_last_event_gap_at := millis\<rparr>"

section \<open>The ranking adapter\<close>

text \<open>What the adapter makes of an event: source, user, gift and metrics; the empty source for nothing.\<close>

record ranking_input =
  rin_source :: string
  rin_user :: string
  rin_gift :: "string option"
  rin_metrics :: "(string \<times> u64) list"

definition no_input :: ranking_input where
  "no_input = \<lparr>rin_source = [], rin_user = [], rin_gift = None, rin_metrics = []\<rparr>"

text \<open>A gift whose streak cannot be told apart from another one.\<close>

definition ambiguous_streak :: "live_event \<Rightarrow> gift_event \<Rightarrow> bool" where
  "ambiguous_streak e g \<longleftrightarrow>
     gv_group_id g \<noteq> 0 \<and> (eu_id (gv_user g) = 0 \<or> gv_gift_id g = 0) \<or>
     gv_group_id g = 0 \<and> (gift_streakable e \<or> gv_repeat_count g > 1 \<or> gv_combo_count g > 1)"

definition known_price :: "live_event \<Rightarrow> u64" where
  "known_price e = (case gift_diamond_count e of None \<Rightarrow> 0 | Some p \<Rightarrow> p)"

text \<open>The diamonds are credited when they are those of the increment, not a later price correction.\<close>

definition credits_diamonds :: "live_event \<Rightarrow> gift_event \<Rightarrow> u64 \<Rightarrow> u64 \<Rightarrow> bool" where
  "credits_diamonds e g inc dia \<longleftrightarrow>
     known_price e > 0 \<and> checked_mul (gift_quantity g) (known_price e) \<noteq> None \<and>
     (case checked_mul inc (known_price e) of None \<Rightarrow> False | Some mx \<Rightarrow> dia \<le> mx) \<and> inc > 0"

definition gift_input :: "live_event \<Rightarrow> gift_event \<Rightarrow> u64 \<Rightarrow> u64 \<Rightarrow> live_context \<Rightarrow> engine \<Rightarrow> (ranking_input \<times> engine) run" where
  "gift_input e g inc dia c eng =
     (if ambiguous_streak e g
      then run_bind (mark_gap (lc_unique_id c) (lc_room_id c) ''tiktok.gift'' eng) (\<lambda>eng1. Ret (no_input, eng1))
      else
       (let metrics = [(''gift.count'', inc), (''event.count'', if inc > 0 then 1 else 0)];
            credits = credits_diamonds e g inc dia;
            input = \<lparr>rin_source = ''tiktok.gift'', rin_user = viewer_key (gv_user g),
              rin_gift = (if gv_gift_id g \<noteq> 0 then Some (to_string (gv_gift_id g)) else None),
              rin_metrics = (if credits then metrics @ [(''gift.diamonds'', dia)] else metrics)\<rparr> in
        if \<not> credits \<and> (inc > 0 \<or> dia > 0 \<or> checked_mul (gift_quantity g) (known_price e) = None)
        then run_bind (mark_metric_gap (lc_unique_id c) (lc_room_id c) ''tiktok.gift'' ''gift.diamonds'' eng)
               (\<lambda>eng1. Ret (input, eng1))
        else Ret (input, eng)))"

definition event_user_key :: "live_api \<Rightarrow> live_event \<Rightarrow> string" where
  "event_user_key api e = (case la_user api (le_base e) of None \<Rightarrow> [] | Some u \<Rightarrow> viewer_key u)"

definition plain_input :: "string \<Rightarrow> string \<Rightarrow> (string \<times> u64) list \<Rightarrow> ranking_input" where
  "plain_input source user metrics =
     \<lparr>rin_source = source, rin_user = user, rin_gift = None, rin_metrics = metrics\<rparr>"

definition ranking_input :: "live_api \<Rightarrow> live_event \<Rightarrow> totals_value \<Rightarrow> live_context \<Rightarrow> engine \<Rightarrow> (ranking_input \<times> engine) run" where
  "ranking_input api e v c eng =
     (let user = event_user_key api e in
      case le_base e of
        Like l \<Rightarrow>
          Ret (plain_input ''tiktok.like'' (viewer_key (lv_user l)) [(''like.count'', lv_count l), (''event.count'', 1)], eng)
      | Gift g \<Rightarrow>
          (case v of
             GiftTotals inc _ dia \<Rightarrow> gift_input e g inc dia c eng
           | _ \<Rightarrow> Ret (no_input, eng))
      | Social _ action \<Rightarrow>
          Ret (case la_classify api action of
                 Share \<Rightarrow> plain_input ''tiktok.share'' user [(''share.count'', 1), (''event.count'', 1)]
               | Follow \<Rightarrow> plain_input ''tiktok.follow'' user [(''event.count'', 1)]
               | OtherSocial \<Rightarrow> plain_input ''tiktok.social'' user [(''event.count'', 1)], eng)
      | Chat _ \<Rightarrow> Ret (plain_input ''tiktok.chat'' user [(''event.count'', 1)], eng)
      | EmoteChat _ \<Rightarrow> Ret (plain_input ''tiktok.chat'' user [(''event.count'', 1)], eng)
      | Member _ \<Rightarrow> Ret (plain_input ''tiktok.join'' user [(''event.count'', 1)], eng)
      | _ \<Rightarrow> Ret (no_input, eng))"

definition safe_artwork :: "live_api \<Rightarrow> string \<Rightarrow> bool" where
  "safe_artwork api url \<longleftrightarrow> length url \<le> 2048 \<and> la_valid_url api url"

definition filter_option :: "('a \<Rightarrow> bool) \<Rightarrow> 'a option \<Rightarrow> 'a option" where
  "filter_option P x = (case x of None \<Rightarrow> None | Some v \<Rightarrow> if P v then Some v else None)"

definition or_else :: "'a option \<Rightarrow> 'a option \<Rightarrow> 'a option" where
  "or_else x y = (case x of None \<Rightarrow> y | Some v \<Rightarrow> Some v)"

definition nonempty :: "string \<Rightarrow> string option" where
  "nonempty s = (if s = [] then None else Some s)"

definition gift_icon_url :: "live_api \<Rightarrow> live_event \<Rightarrow> string option" where
  "gift_icon_url api e =
     or_else
       (case le_base e of Gift g \<Rightarrow> filter_option (safe_artwork api) (gv_gift_image_url g) | _ \<Rightarrow> None)
       (case le_gift e of None \<Rightarrow> None | Some x \<Rightarrow> filter_option (safe_artwork api) (ge_icon_url x))"

definition user_metadata :: "live_api \<Rightarrow> live_event \<Rightarrow> entry_metadata option" where
  "user_metadata api e =
     map_option
       (\<lambda>u. let nickname = nonempty (eu_nickname u); unique = clean_unique_id (eu_unique_id u) in
          entry_metadata_default\<lparr>em_label := or_else nickname unique,
            em_user_id := (if eu_id u \<noteq> 0 then Some (to_string (eu_id u)) else None),
            em_unique_id := unique, em_nickname := nickname,
            em_avatar_url := filter_option (safe_artwork api) (eu_avatar_url u)\<rparr>)
       (la_user api (le_base e))"

definition gift_entry_metadata :: "live_api \<Rightarrow> live_event \<Rightarrow> entry_metadata option" where
  "gift_entry_metadata api e =
     (case le_base e of
        Gift g \<Rightarrow>
          if gv_gift_id g \<noteq> 0
          then Some (entry_metadata_default\<lparr>
            em_label := or_else (nonempty (gv_gift_name g))
              (case le_gift e of None \<Rightarrow> None | Some x \<Rightarrow> nonempty (ge_name x)),
            em_gift_id := Some (to_string (gv_gift_id g)), em_icon_url := gift_icon_url api e\<rparr>)
          else None
      | _ \<Rightarrow> None)"

definition input_contribution :: "live_context \<Rightarrow> ranking_input \<Rightarrow> contribution" where
  "input_contribution c i =
     \<lparr>c_creator_id = lc_unique_id c, c_room_id = lc_room_id c, c_source = rin_source i,
      c_user = nonempty (rin_user i), c_gift = rin_gift i, c_option = None, c_team = None,
      c_custom_key = None, c_metrics = rin_metrics i\<rparr>"

text \<open>\<open>AggregationService::observe\<close>: failures are logged only, the engine counts them.\<close>

definition aggregations_observe ::
  "contribution \<Rightarrow> u64 \<Rightarrow> entry_metadata option \<Rightarrow> entry_metadata option \<Rightarrow> engine \<Rightarrow> engine run" where
  "aggregations_observe x millis user gift eng =
     run_bind (apply_at_with_metadata x millis user gift eng) (\<lambda>(eng1, _). Ret eng1)"

text \<open>An event without identity or from the history is not proven new: it only marks a gap.\<close>

definition unproven :: "live_event \<Rightarrow> bool" where
  "unproven e \<longleftrightarrow> le_msg_id e = 0 \<or> le_is_history e"

definition record_ranking :: "live_api \<Rightarrow> u64 \<Rightarrow> live_event \<Rightarrow> totals_value \<Rightarrow> live_context \<Rightarrow> engine \<Rightarrow> engine run" where
  "record_ranking api millis e v c eng =
     run_bind (ranking_input api e v c eng) (\<lambda>(i, eng1).
       if rin_source i = [] then Ret eng1
       else if unproven e then mark_gap (lc_unique_id c) (lc_room_id c) (rin_source i) eng1
       else aggregations_observe (input_contribution c i) millis (user_metadata api e)
              (gift_entry_metadata api e) eng1)"

section \<open>Admission\<close>

definition is_gift :: "live_event \<Rightarrow> bool" where
  "is_gift e = (case le_base e of Gift _ \<Rightarrow> True | _ \<Rightarrow> False)"

definition prepare_live_event ::
  "live_api \<Rightarrow> nat \<Rightarrow> u64 \<Rightarrow> live_event \<Rightarrow> live_host \<Rightarrow> (totals_value option \<times> live_host) run" where
  "prepare_live_event api now millis e h =
     (let (dup, d) = check_duplicate now e (lh_dedup h); h1 = h\<lparr>lh_dedup := d\<rparr> in
      if dup then Ret (None, h1)
      else
        run_bind (totals_observe now e (lh_context h) (lh_totals h)) (\<lambda>(v, t).
        run_bind (case lh_context h of
                    None \<Rightarrow> Ret (lh_engine h)
                  | Some c \<Rightarrow> record_ranking api millis e v c (lh_engine h)) (\<lambda>eng.
        let h2 = h1\<lparr>lh_totals := t, lh_engine := eng\<rparr> in
        if v = NullTotals \<and> is_gift e
        then run_bind (case lh_context h of
                         None \<Rightarrow> Ret eng
                       | Some c \<Rightarrow> mark_gap (lc_unique_id c) (lc_room_id c) ''tiktok.gift'' eng)
               (\<lambda>eng2. Ret (Some v, record_event_gap millis (h2\<lparr>lh_engine := eng2\<rparr>)))
        else Ret (Some v, h2))))"

text \<open>The start of \<open>handle_connected\<close>: the scope of the guard and the context.\<close>

definition handle_connected :: "live_context \<Rightarrow> live_host \<Rightarrow> live_host" where
  "handle_connected c h =
     h\<lparr>lh_dedup := set_scope (lc_unique_id c) (lc_room_id c) (lh_dedup h), lh_context := Some c\<rparr>"

text \<open>
  Losses before admission: \<open>admit_full\<close> sheds a data event on a saturated queue, and the receiver may
  lag behind the stream. Both are recorded where completeness is claimed.
\<close>

definition shed_event :: "u64 \<Rightarrow> live_event \<Rightarrow> live_host \<Rightarrow> live_host" where
  "shed_event millis e h =
     (let h1 = (case le_base e of
                  Like _ \<Rightarrow>
                    (record_event_gap millis h)\<lparr>lh_totals := mark_like_ingress_loss (lh_context h) (lh_totals h)\<rparr>
                | _ \<Rightarrow> h) in
      h1\<lparr>lh_engine := mark_ingress_loss 1 (lh_engine h1)\<rparr>)"

definition receiver_lagged :: "u64 \<Rightarrow> u64 \<Rightarrow> live_host \<Rightarrow> live_host" where
  "receiver_lagged millis n h =
     (record_event_gap millis h)\<lparr>lh_engine := mark_ingress_loss n (lh_engine h),
       lh_totals := mark_like_ingress_loss (lh_context h) (lh_totals h)\<rparr>"

end
