(* ===== verification/Live_Replay.thy ===== *)
theory Live_Replay
  imports Live_Dedup
begin

text \<open>
  What the replay guard decides over a whole session: every call of the guard in order, with the
  journal of the messages it let through. A message is refused exactly when its identity is among
  the newest admissions that are still alive, whatever the guard has evicted in between.
\<close>

section \<open>Sessions of the guard\<close>

datatype dedup_op = SetScope string string | Check nat live_event

type_synonym journal = "(identity \<times> nat) list"

fun dedup_step :: "dedup_op \<Rightarrow> live_dedup \<times> journal \<Rightarrow> live_dedup \<times> journal" where
  "dedup_step (SetScope creator rm) (d, J) = (set_scope creator rm d, J)"
| "dedup_step (Check now e) (d, J) =
     (let (dup, d') = check_duplicate now e d in
      (d', if dup \<or> le_msg_id e = 0 then J else J @ [(dedup_key d e, now)]))"

definition dedup_run :: "dedup_op list \<Rightarrow> live_dedup \<times> journal \<Rightarrow> live_dedup \<times> journal" where
  "dedup_run ops p = fold dedup_step ops p"

text \<open>The clock readings of a session, which a monotone clock delivers in order.\<close>

fun op_times :: "dedup_op list \<Rightarrow> nat list" where
  "op_times [] = []"
| "op_times (SetScope _ _ # ops) = op_times ops"
| "op_times (Check now _ # ops) = now # op_times ops"

section \<open>The journal and the log\<close>

text \<open>In a list in the order of time, what is alive is an end of the list.\<close>

lemma filter_newest:
  assumes "sorted (map snd J)"
  shows "filter (alive ttl now) (newest n J) = newest n (filter (alive ttl now) J)"
proof -
  let ?B = "filter (alive ttl now) J"
  let ?A = "takeWhile (\<lambda>p. \<not> alive ttl now p) J"
  have B: "?B = dropWhile (\<lambda>p. \<not> alive ttl now p) J" using assms by (rule sorted_alive_filter)
  then have J: "J = ?A @ ?B" by simp
  have dead: "filter (alive ttl now) (drop m ?A) = []" for m
    by (auto simp: filter_empty_conv dest!: in_set_dropD dest: set_takeWhileD)
  have kept: "filter (alive ttl now) (drop m ?B) = drop m ?B" for m
    by (auto simp: filter_id_conv dest: in_set_dropD)
  have "newest n J = drop (length J - n) ?A @ drop (length J - n - length ?A) ?B"
    using J by (metis drop_append newest_def)
  moreover have "length J - n - length ?A = length ?B - n" using arg_cong [OF J, of length] by simp
  ultimately show ?thesis by (simp add: dead kept newest_def)
qed

lemma filter_alive_later:
  "t \<le> now \<Longrightarrow> filter (alive ttl now) (filter (alive ttl t) w) = filter (alive ttl now) w"
  by (auto simp: alive_def intro: filter_cong)

definition journal_ok :: "nat \<Rightarrow> nat \<Rightarrow> nat \<Rightarrow> live_dedup \<times> journal \<Rightarrow> bool" where
  "journal_ok capacity ttl now p \<longleftrightarrow>
     (let (d, J) = p in
      dedup_inv now d \<and> dd_capacity d = capacity \<and> dd_ttl d = ttl \<and>
      sorted (map snd J) \<and> (\<forall>q \<in> set J. snd q \<le> now) \<and>
      filter (alive ttl now) (dedup_log d) = newest capacity (filter (alive ttl now) J))"

lemma journal_ok_later:
  assumes ok: "journal_ok capacity ttl t (d, J)" and "t \<le> now"
  shows "journal_ok capacity ttl now (d, J)"
proof -
  have J: "sorted (map snd J)" and eq: "filter (alive ttl t) (dedup_log d) = newest capacity (filter (alive ttl t) J)"
    using ok by (simp_all add: journal_ok_def)
  have "filter (alive ttl now) (dedup_log d) = filter (alive ttl now) (filter (alive ttl t) (dedup_log d))"
    using assms(2) by (simp only: filter_alive_later)
  also have "\<dots> = newest capacity (filter (alive ttl now) (filter (alive ttl t) J))"
    unfolding eq using J by (intro filter_newest sorted_filter)
  also have "\<dots> = newest capacity (filter (alive ttl now) J)"
    using assms(2) by (simp only: filter_alive_later)
  finally show ?thesis using assms dedup_inv_mono by (force simp: journal_ok_def)
qed

lemma newest_short: "length (newest n xs) < n \<Longrightarrow> newest n xs = xs"
  by (simp add: newest_all)

lemma window_check_journal:
  assumes w': "window_check capacity ttl now key w = (False, w')" and cap: "0 < capacity" "length w \<le> capacity"
    and eq: "filter (alive ttl now) w = newest capacity (filter (alive ttl now) J)"
  shows "filter (alive ttl now) w' = newest capacity (filter (alive ttl now) (J @ [(key, now)]))"
proof (cases "ttl = 0")
  case True
  then show ?thesis by (simp add: alive_def newest_def)
next
  case False
  let ?L = "filter (alive ttl now) w"
  let ?K = "filter (alive ttl now) J"
  have now: "alive ttl now (key, now)" using False by (simp add: alive_def)
  have fresh: "key \<notin> fst ` set ?L" using w' by (auto simp: window_check_def split: if_splits)
  have short: "filter (alive ttl now) w' = newest capacity (?K @ [(key, now)])"
    if f: "filter (alive ttl now) w' = ?L @ [(key, now)]" and l: "length ?L < capacity"
  proof -
    have "?L = ?K" using l newest_short [of capacity ?K] unfolding eq by simp
    then show ?thesis using f l by (simp add: newest_all)
  qed
  have goal: "filter (alive ttl now) w' = newest capacity (?K @ [(key, now)])"
  proof (cases "key \<in> fst ` set w")
    case True
    have "filter (alive ttl now) (filter (\<lambda>p. fst p \<noteq> key) w) = ?L"
      using fresh by (force intro!: filter_cong)
    then have "filter (alive ttl now) w' = ?L @ [(key, now)]" and le: "?L = filter (alive ttl now) (filter (\<lambda>p. fst p \<noteq> key) w)"
      using w' fresh True now by (auto simp: window_check_def)
    moreover have "length ?L < capacity"
      unfolding le using length_filter_key [OF True] length_filter_le cap(2)
      by (meson le_less_trans less_le_trans)
    ultimately show ?thesis by (intro short)
  next
    case new: False
    show ?thesis
    proof (cases "length w < capacity")
      case True
      then have "filter (alive ttl now) w' = ?L @ [(key, now)]"
        using w' fresh new now by (auto simp: window_check_def)
      moreover have "length ?L < capacity" using True by (rule le_less_trans [OF length_filter_le])
      ultimately show ?thesis by (rule short)
    next
      case full: False
      then have "w' = newest (capacity - 1) ?L @ [(key, now)]"
        using w' fresh new by (auto simp: window_check_def)
      moreover have "filter (alive ttl now) (newest (capacity - 1) ?L) = newest (capacity - 1) ?L"
        using newest_subset [of "capacity - 1" ?L] by (auto simp: filter_id_conv)
      ultimately have "filter (alive ttl now) w' = newest (capacity - 1) ?L @ [(key, now)]"
        using now by simp
      also have "\<dots> = newest capacity (?K @ [(key, now)])"
        using cap(1) by (simp add: eq newest_newest newest_snoc)
      finally show ?thesis .
    qed
  qed
  then show ?thesis using now by simp
qed

lemma journal_ok_verdict:
  assumes ok: "journal_ok capacity ttl now (d, J)"
  shows "fst (check_duplicate now e d) \<longleftrightarrow>
    le_msg_id e \<noteq> 0 \<and> dedup_key d e \<in> fst ` set (newest capacity (filter (alive ttl now) J))"
proof (cases "le_msg_id e = 0")
  case True
  then show ?thesis by (simp add: check_duplicate_def)
next
  case False
  obtain dup d' where run: "check_duplicate now e d = (dup, d')" by force
  have inv: "dedup_inv now d" and conf: "dd_capacity d = capacity" "dd_ttl d = ttl"
    and eq: "filter (alive ttl now) (dedup_log d) = newest capacity (filter (alive ttl now) J)"
    using ok by (simp_all add: journal_ok_def)
  from check_duplicate_window [OF inv False run] conf
  have "window_check capacity ttl now (dedup_key d e) (dedup_log d) = (dup, dedup_log d')" by simp
  then have "dup \<longleftrightarrow> dedup_key d e \<in> fst ` set (filter (alive ttl now) (dedup_log d))"
    unfolding window_check_def by (metis prod.inject)
  then show ?thesis using False run unfolding eq by simp
qed

lemma journal_ok_check:
  assumes ok: "journal_ok capacity ttl now (d, J)"
  shows "journal_ok capacity ttl now (dedup_step (Check now e) (d, J))"
proof -
  obtain dup d' where run: "check_duplicate now e d = (dup, d')" by force
  have inv: "dedup_inv now d" and conf: "dd_capacity d = capacity" "dd_ttl d = ttl"
    and J: "sorted (map snd J)" "\<forall>q \<in> set J. snd q \<le> now"
    and eq: "filter (alive ttl now) (dedup_log d) = newest capacity (filter (alive ttl now) J)"
    using ok by (simp_all add: journal_ok_def)
  have inv': "dedup_inv now d'" and conf': "dd_capacity d' = capacity" "dd_ttl d' = ttl"
    using check_duplicate_inv [OF inv run] check_duplicate_frame [OF run] conf by simp_all
  show ?thesis
  proof (cases "le_msg_id e = 0")
    case True
    then show ?thesis using ok run by (simp add: check_duplicate_def)
  next
    case False
    from check_duplicate_window [OF inv False run] conf
    have w: "window_check capacity ttl now (dedup_key d e) (dedup_log d) = (dup, dedup_log d')" by simp
    have cap: "0 < capacity" "length (dedup_log d) \<le> capacity"
      using inv conf by (simp_all add: dedup_inv_tables)
    show ?thesis
    proof (cases dup)
      case True
      then have "dedup_log d' = dedup_log d" using w by (simp add: window_check_def split: if_splits)
      then show ?thesis using True inv' conf' J eq run by (simp add: journal_ok_def)
    next
      case no: False
      have "window_check capacity ttl now (dedup_key d e) (dedup_log d) = (False, dedup_log d')"
        using w no by simp
      then have "filter (alive ttl now) (dedup_log d') =
          newest capacity (filter (alive ttl now) (J @ [(dedup_key d e, now)]))"
        using cap eq by (rule window_check_journal)
      then show ?thesis using no False inv' conf' J run by (simp add: journal_ok_def sorted_append)
    qed
  qed
qed

lemma journal_ok_run:
  assumes "journal_ok capacity ttl t (d, J)" and "sorted (t # op_times ops @ [now])"
  shows "journal_ok capacity ttl now (dedup_run ops (d, J))"
  using assms
proof (induction ops arbitrary: t d J rule: op_times.induct)
  case 1
  then show ?case by (auto simp: dedup_run_def intro: journal_ok_later)
next
  case (2 creator rm ops)
  have "journal_ok capacity ttl t (set_scope creator rm d, J)"
    using "2.prems"(1) dedup_inv_scope by (auto simp: journal_ok_def set_scope_def dedup_log_def)
  then show ?case using "2.IH" "2.prems"(2) by (simp add: dedup_run_def)
next
  case (3 now' e ops)
  obtain d' J' where step: "dedup_step (Check now' e) (d, J) = (d', J')" by force
  have "journal_ok capacity ttl now' (d, J)" using "3.prems" by (auto intro: journal_ok_later)
  then have "journal_ok capacity ttl now' (d', J')" using journal_ok_check step by metis
  then have "journal_ok capacity ttl now (dedup_run ops (d', J'))"
    using "3.prems"(2) by (intro "3.IH") auto
  then show ?case using step by (simp add: dedup_run_def del: dedup_step.simps)
qed

lemma journal_ok_new: "journal_ok (max capacity 1) ttl 0 (dedup_new capacity ttl, [])"
  using dedup_inv_new by (auto simp: journal_ok_def dedup_new_def dedup_log_def log_of_def newest_def)

section \<open>Guarantees\<close>

text \<open>
  C32. A message is refused as a replay exactly when it has an identity and that identity is one of
  the newest admissions, as many as the capacity, among those younger than the time to live: no
  replay inside the window passes, and nothing else is ever suppressed, whatever was evicted,
  refreshed or rescoped before.
\<close>

theorem duplicate_exact:
  assumes "dedup_run ops (dedup_new capacity ttl, []) = (d, J)" and "sorted (op_times ops @ [now])"
  shows "fst (check_duplicate now e d) \<longleftrightarrow>
    le_msg_id e \<noteq> 0 \<and>
    dedup_key d e \<in> fst ` set (newest (max capacity 1) (filter (alive ttl now) J))"
proof (rule journal_ok_verdict)
  have "sorted (0 # op_times ops @ [now])" using assms(2) by simp
  from journal_ok_run [OF journal_ok_new this, of capacity ttl] assms(1)
  show "journal_ok (max capacity 1) ttl now (d, J)" by simp
qed

text \<open>A session: two chat messages, one replayed twice.\<close>

definition sample_chat :: "u64 \<Rightarrow> live_event" where
  "sample_chat n =
     \<lparr>le_base = Chat \<lparr>eu_id = 7, eu_unique_id = ''fan'', eu_nickname = ''Fan'', eu_avatar_url = None\<rparr>,
      le_method = ''Chat'', le_msg_id = n, le_is_history = False, le_gift = None\<rparr>"

definition sample_session :: "dedup_op list" where
  "sample_session =
     [SetScope ''creator'' ''room'', Check 10 (sample_chat 41), Check 20 (sample_chat 42),
      Check 30 (sample_chat 41)]"

definition sample_guard :: "live_dedup \<times> journal" where
  "sample_guard = dedup_run sample_session (dedup_new 4 300, [])"

definition sample_identity :: "u64 \<Rightarrow> identity" where
  "sample_identity n = (''creator'', ''room'', ''Chat'', 1, n)"

lemma sample_guard_eq:
  "sample_guard =
     (\<lparr>dd_scope = Some (''creator'', ''room''),
       dd_seen = [(sample_identity 41, 10), (sample_identity 42, 20)],
       dd_order = [sample_identity 41, sample_identity 42], dd_capacity = 4, dd_ttl = 300,
       dd_duplicates = 1\<rparr>,
      [(sample_identity 41, 10), (sample_identity 42, 20)])"
  by (simp add: sample_guard_def sample_session_def dedup_run_def dedup_new_def set_scope_def
      check_duplicate_def sample_chat_def dedup_key_def admit_def sample_identity_def wrapping_inc_def
      u64_max_def Let_def)

theorem duplicate_exact_witness:
  "fst (check_duplicate 40 (sample_chat 42) (fst sample_guard)) \<and>
   \<not> fst (check_duplicate 400 (sample_chat 42) (fst sample_guard))"
proof -
  have run: "dedup_run sample_session (dedup_new 4 300, []) = (fst sample_guard, snd sample_guard)"
    by (simp add: sample_guard_def)
  have clock: "sorted (op_times sample_session @ [40])" "sorted (op_times sample_session @ [400])"
    by (simp_all add: sample_session_def)
  have "dedup_key (fst sample_guard) (sample_chat 42) = sample_identity 42" "le_msg_id (sample_chat 42) \<noteq> 0"
    by (simp_all add: sample_guard_eq dedup_key_def sample_chat_def sample_identity_def)
  moreover have "filter (alive 300 40) (snd sample_guard) = snd sample_guard"
    "filter (alive 300 400) (snd sample_guard) = []"
    "newest (max 4 1) (snd sample_guard) = snd sample_guard"
    by (simp_all add: sample_guard_eq alive_def newest_def)
  ultimately show ?thesis
    using duplicate_exact [OF run clock(1), of "sample_chat 42"]
      duplicate_exact [OF run clock(2), of "sample_chat 42"] by (simp add: sample_guard_eq newest_def)
qed

text \<open>The tables of the guard stay within the capacity, agree and never repeat an identity.\<close>

theorem dedup_bounded:
  assumes "dedup_run ops (dedup_new capacity ttl, []) = (d, J)" and "sorted (op_times ops @ [now])"
  shows "length (dd_seen d) \<le> max capacity 1 \<and> distinct (dd_order d) \<and>
    set (dd_order d) = hm_keys (dd_seen d)"
proof -
  have "sorted (0 # op_times ops @ [now])" using assms(2) by simp
  from journal_ok_run [OF journal_ok_new this, of capacity ttl] assms(1)
  have "journal_ok (max capacity 1) ttl now (d, J)" by simp
  then show ?thesis
    using tables_ok_len [of "dd_order d" "dd_seen d"] by (auto simp: journal_ok_def dedup_inv_def tables_ok_def)
qed

end
