(* ===== verification/Live_Totals_Inv.thy ===== *)
theory Live_Totals_Inv
  imports Live_Totals
begin

text \<open>
  The LIVE counters after any sequence of calls: no call aborts, the tables stay within their bounds
  and agree with each other, and the like totals are compared with the journal of all likes.
\<close>

text \<open>Rooms are pairs; quantifiers over them stay as they are.\<close>

declare split_paired_All [simp del] split_paired_Ex [simp del]

section \<open>Sessions\<close>

datatype totals_op = Observe nat live_event "live_context option" | IngressLoss "live_context option"

definition totals_step :: "totals_op \<Rightarrow> live_totals \<Rightarrow> (totals_value \<times> live_totals) run" where
  "totals_step op s =
     (case op of
        Observe now e c \<Rightarrow> totals_observe now e c s
      | IngressLoss c \<Rightarrow> Ret (NullTotals, mark_like_ingress_loss c s))"

fun totals_run :: "totals_op list \<Rightarrow> live_totals \<Rightarrow> (totals_value list \<times> live_totals) run" where
  "totals_run [] s = Ret ([], s)"
| "totals_run (op # ops) s =
     run_bind (totals_step op s) (\<lambda>(v, s1).
       run_bind (totals_run ops s1) (\<lambda>(vs, s2). Ret (v # vs, s2)))"

section \<open>Case rules of the like counters\<close>

definition ranking_of :: "live_totals \<Rightarrow> room \<Rightarrow> aggregation" where
  "ranking_of s rm = hm_get_or (lt_like_rankings s) rm (aggregation_new totals_capacity)"

definition room_total :: "live_totals \<Rightarrow> room \<Rightarrow> nat" where
  "room_total s rm = hm_get_or (lt_likes s) rm 0"

definition viewer_total :: "live_totals \<Rightarrow> room \<Rightarrow> string \<Rightarrow> nat" where
  "viewer_total s rm user = scores_of (ranking_of s rm) user"

lemma viewer_score_ranking: "viewer_score s rm user = hm_get (ag_scores (ranking_of s rm)) user"
  by (simp add: viewer_score_def ranking_of_def hm_get_or_def aggregation_score_def aggregation_new_def
      split: option.split)

lemma viewer_score_total: "(case viewer_score s rm user of None \<Rightarrow> 0 | Some p \<Rightarrow> p) = viewer_total s rm user"
  by (simp add: viewer_score_ranking viewer_total_def scores_of_def hm_get_or_def)

lemma count_room_cases:
  obtains (counted) "count_room rm c s =
        (Some (room_total s rm, room_total s rm + c),
         s\<lparr>lt_likes := hm_insert rm (room_total s rm + c) (lt_likes s)\<rparr>)"
      "hm_has (lt_likes s) rm \<or> tracked s < totals_capacity" "room_total s rm + c \<le> u64_max"
    | (full) "count_room rm c s = (None, untrack s)" "\<not> hm_has (lt_likes s) rm" "totals_capacity \<le> tracked s"
    | (over) "count_room rm c s =
        (None, overflow_like (s\<lparr>lt_likes := hm_insert rm (room_total s rm) (lt_likes s)\<rparr>))"
      "hm_has (lt_likes s) rm \<or> tracked s < totals_capacity"
  by (cases "\<not> hm_has (lt_likes s) rm \<and> tracked s \<ge> totals_capacity";
      cases "room_total s rm + c \<le> u64_max")
    (simp_all add: count_room_def room_total_def checked_add_def Let_def, auto)

definition credit_viewer :: "room \<Rightarrow> like_event \<Rightarrow> aggregation \<Rightarrow> live_totals \<Rightarrow> live_totals" where
  "credit_viewer rm l r s =
     touch_likes (s\<lparr>lt_like_rankings := hm_insert rm r (lt_like_rankings s),
       lt_like_participants :=
         (if viewer_score s rm (viewer_key (lv_user l)) = None
          then lt_like_participants s + 1 else lt_like_participants s),
       lt_like_identities :=
         hm_insert (fst rm, snd rm, viewer_key (lv_user l)) (like_identity_of (lv_user l))
           (lt_like_identities s)\<rparr>)"

lemma count_viewer_cases:
  assumes inv: "agg_inv (ranking_of s rm)"
  obtains (anonymous) "viewer_key (lv_user l) = []" "count_viewer rm l s = Ret (None, s)"
    | (full) "viewer_key (lv_user l) \<noteq> []" "count_viewer rm l s = Ret (None, untrack s)"
      "viewer_score s rm (viewer_key (lv_user l)) = None" "totals_capacity \<le> tracked s"
    | (none) before where "viewer_key (lv_user l) \<noteq> []" "lv_count l = 0"
      "count_viewer rm l s = Ret (Some (before, before), s)"
    | (rejected) s1 where "viewer_key (lv_user l) \<noteq> []"
      "s1 = s\<lparr>lt_like_rankings := hm_insert rm (ranking_of s rm) (lt_like_rankings s)\<rparr>"
      "count_viewer rm l s = Ret (None, untrack s1) \<or> count_viewer rm l s = Ret (None, overflow_like s1)"
      "viewer_score s rm (viewer_key (lv_user l)) \<noteq> None \<or> tracked s < totals_capacity"
    | (counted) r where "viewer_key (lv_user l) \<noteq> []"
      "aggregation_apply (viewer_key (lv_user l)) (lv_count l) 1 (ranking_of s rm) = (r, Inr ())"
      "0 < lv_count l"
      "count_viewer rm l s =
         Ret (Some (viewer_total s rm (viewer_key (lv_user l)),
                    viewer_total s rm (viewer_key (lv_user l)) + lv_count l), credit_viewer rm l r s)"
      "viewer_score s rm (viewer_key (lv_user l)) \<noteq> None \<or> tracked s < totals_capacity"
proof -
  let ?u = "viewer_key (lv_user l)"
  note defs = count_viewer_def Let_def viewer_score_total
  show ?thesis
  proof (cases "?u = []")
    case True
    then show ?thesis using anonymous by (simp add: count_viewer_def)
  next
    case u: False
    show ?thesis
    proof (cases "viewer_score s rm ?u = None \<and> tracked s \<ge> totals_capacity")
      case True
      then show ?thesis using u full by (simp add: defs)
    next
      case room: False
      then have room': "viewer_score s rm ?u \<noteq> None \<or> tracked s < totals_capacity" by auto
      have room_eq: "(viewer_score s rm ?u = None \<and> tracked s \<ge> totals_capacity) = False" using room by simp
      show ?thesis
      proof (cases "lv_count l = 0")
        case True
        then show ?thesis using u room none by (simp add: defs)
      next
        case False
        obtain r res where app: "aggregation_apply ?u (lv_count l) 1 (ranking_of s rm) = (r, res)" by force
        then have app': "aggregation_apply ?u (lv_count l) 1
            (hm_get_or (lt_like_rankings s) rm (aggregation_new totals_capacity)) = (r, res)"
          by (simp add: ranking_of_def)
        show ?thesis
        proof (cases res)
          case (Inl err)
          then have r: "r = ranking_of s rm" using app aggregation_apply_atomic by metis
          show ?thesis
            by (rule rejected [OF u refl _ room'])
              (use u False app' Inl r in \<open>simp add: defs room_eq\<close>)
        next
          case (Inr v)
          then have ok: "aggregation_apply ?u (lv_count l) 1 (ranking_of s rm) = (r, Inr ())"
            using app by simp
          from aggregation_apply_effect [OF inv ok]
          have sc: "scores_of r ?u = viewer_total s rm ?u + lv_count l" by (simp add: viewer_total_def)
          then have "aggregation_score ?u r = Some (viewer_total s rm ?u + lv_count l)"
            using False by (auto simp: scores_of_def hm_get_or_def aggregation_score_def split: option.splits)
          then have "count_viewer rm l s =
              Ret (Some (viewer_total s rm ?u, viewer_total s rm ?u + lv_count l), credit_viewer rm l r s)"
            using u False app' Inr by (simp add: defs room_eq credit_viewer_def)
          then show ?thesis using counted u ok False room' by auto
        qed
      qed
    qed
  qed
qed

section \<open>The invariant\<close>

definition viewers :: "live_totals \<Rightarrow> nat" where
  "viewers s = hm_sum (map (\<lambda>(rm, r). (rm, length (ag_scores r))) (lt_like_rankings s))"

definition totals_inv :: "live_totals \<Rightarrow> bool" where
  "totals_inv s \<longleftrightarrow>
     hm_wf (lt_combos s) \<and> length (lt_combos s) \<le> totals_capacity \<and>
     hm_wf (lt_likes s) \<and> hm_wf (lt_like_rankings s) \<and>
     hm_keys (lt_like_rankings s) \<subseteq> hm_keys (lt_likes s) \<and>
     (\<forall>rm. agg_inv (ranking_of s rm)) \<and>
     (\<forall>rm k. k \<in> hm_keys (ag_scores (ranking_of s rm)) \<longrightarrow> (fst rm, snd rm, k) \<in> hm_keys (lt_like_identities s)) \<and>
     lt_like_participants s = viewers s \<and> tracked s \<le> totals_capacity \<and>
     distinct (lt_degraded_scopes s) \<and> length (lt_degraded_scopes s) \<le> totals_capacity \<and>
     (lt_untracked_scope_failure s \<longrightarrow> lt_unknown_ingress_loss s \<or> totals_capacity \<le> tracked s)"

lemma hm_map_insert:
  "map (\<lambda>(k, v). (k, f v)) (hm_insert k v m) = hm_insert k (f v) (map (\<lambda>(k, v). (k, f v)) m)"
  by (induction m) auto

lemma hm_get_or_map:
  "hm_get_or (map (\<lambda>(k, v). (k, f v)) m) k d = (case hm_get m k of None \<Rightarrow> d | Some v \<Rightarrow> f v)"
  by (induction m) (auto simp: hm_get_or_def)

lemma scores_of_aggregation_new: "ag_scores (aggregation_new n) = []"
  by (simp add: aggregation_new_def)

lemma viewers_insert:
  "viewers (s\<lparr>lt_like_rankings := hm_insert rm r (lt_like_rankings s)\<rparr>) + length (ag_scores (ranking_of s rm)) =
   viewers s + length (ag_scores r)"
proof -
  let ?m = "map (\<lambda>(rm, r). (rm, length (ag_scores r))) (lt_like_rankings s)"
  have "hm_get_or ?m rm 0 = length (ag_scores (ranking_of s rm))"
    unfolding hm_get_or_map
    by (cases "hm_get (lt_like_rankings s) rm") (simp_all add: ranking_of_def hm_get_or_def scores_of_aggregation_new)
  then show ?thesis using hm_sum_insert [of rm "length (ag_scores r)" ?m]
    by (simp add: viewers_def hm_map_insert)
qed

lemma totals_inv_ranking: "totals_inv s \<Longrightarrow> agg_inv (ranking_of s rm)"
  unfolding totals_inv_def by blast

lemma totals_inv_default: "totals_inv totals_default"
  by (simp add: totals_inv_def totals_default_def tracked_def ranking_of_def hm_get_or_def agg_inv_new
      viewers_def scores_of_aggregation_new)

text \<open>The counters and flags that the invariant does not read.\<close>

lemma totals_inv_marks [simp]:
  "totals_inv (touch_likes s) = totals_inv s"
  "totals_inv (untrack s) = totals_inv s"
  "totals_inv (overflow_like s) = totals_inv s"
  by (simp_all add: totals_inv_def touch_likes_def untrack_def overflow_like_def tracked_def ranking_of_def
      viewers_def)

lemma marks_views [simp]:
  "room_total (touch_likes s) = room_total s" "room_total (untrack s) = room_total s"
  "room_total (overflow_like s) = room_total s"
  "viewer_total (touch_likes s) = viewer_total s" "viewer_total (untrack s) = viewer_total s"
  "viewer_total (overflow_like s) = viewer_total s"
  "ranking_of (touch_likes s) = ranking_of s" "ranking_of (untrack s) = ranking_of s"
  "ranking_of (overflow_like s) = ranking_of s"
  by (simp_all add: fun_eq_iff room_total_def viewer_total_def ranking_of_def touch_likes_def untrack_def
      overflow_like_def)

lemma marks_fields [simp]:
  "lt_likes (touch_likes s) = lt_likes s" "lt_likes (untrack s) = lt_likes s"
  "lt_likes (overflow_like s) = lt_likes s"
  "lt_untracked (touch_likes s) = lt_untracked s" "lt_untracked (untrack s) = wrapping_inc (lt_untracked s)"
  "lt_untracked (overflow_like s) = wrapping_inc (lt_untracked s)"
  "lt_unknown_ingress_loss (touch_likes s) = lt_unknown_ingress_loss s"
  "lt_unknown_ingress_loss (untrack s) = lt_unknown_ingress_loss s"
  "lt_unknown_ingress_loss (overflow_like s) = lt_unknown_ingress_loss s"
  "lt_untracked_scope_failure (touch_likes s) = lt_untracked_scope_failure s"
  "lt_untracked_scope_failure (untrack s) = lt_untracked_scope_failure s"
  "lt_untracked_scope_failure (overflow_like s) = lt_untracked_scope_failure s"
  "lt_degraded_scopes (touch_likes s) = lt_degraded_scopes s"
  "lt_degraded_scopes (untrack s) = lt_degraded_scopes s"
  "lt_degraded_scopes (overflow_like s) = lt_degraded_scopes s"
  "lt_like_participants (touch_likes s) = lt_like_participants s"
  "lt_like_participants (untrack s) = lt_like_participants s"
  "lt_like_participants (overflow_like s) = lt_like_participants s"
  "lt_combos (touch_likes s) = lt_combos s" "lt_combos (untrack s) = lt_combos s"
  "lt_combos (overflow_like s) = lt_combos s"
  "tracked (touch_likes s) = tracked s" "tracked (untrack s) = tracked s" "tracked (overflow_like s) = tracked s"
  by (simp_all add: touch_likes_def untrack_def overflow_like_def tracked_def)

lemma ranking_of_likes [simp]:
  "ranking_of (s\<lparr>lt_likes := m\<rparr>) = ranking_of s"
  by (simp add: fun_eq_iff ranking_of_def)

lemma totals_inv_put_room:
  assumes inv: "totals_inv s" and room: "hm_has (lt_likes s) rm \<or> tracked s < totals_capacity"
  shows "totals_inv (s\<lparr>lt_likes := hm_insert rm n (lt_likes s)\<rparr>)"
proof -
  have "length (hm_insert rm n (lt_likes s)) = (if rm \<in> hm_keys (lt_likes s) then length (lt_likes s) else Suc (length (lt_likes s)))"
    using inv by (simp add: totals_inv_def hm_len_insert)
  then show ?thesis using inv room
    by (auto simp: totals_inv_def tracked_def viewers_def hm_simps)
qed

lemma count_room_inv:
  assumes "totals_inv s" and "count_room rm c s = (g, s1)"
  shows "totals_inv s1"
  by (cases rule: count_room_cases [of rm c s]) (use assms totals_inv_put_room in auto)

lemma ranking_of_put:
  "ranking_of (s\<lparr>lt_like_rankings := hm_insert rm r (lt_like_rankings s)\<rparr>) = (ranking_of s)(rm := r)"
  by (auto simp: fun_eq_iff ranking_of_def hm_get_or_def hm_simps)

lemma ranking_in_likes:
  "totals_inv s \<Longrightarrow> ranking_of s rm \<noteq> aggregation_new totals_capacity \<Longrightarrow> hm_has (lt_likes s) rm"
  by (auto simp: totals_inv_def ranking_of_def hm_get_or_def hm_simps split: option.splits dest: hm_get_in_keys)

lemma totals_inv_put_ranking:
  assumes inv: "totals_inv s" and room: "hm_has (lt_likes s) rm"
  shows "totals_inv (s\<lparr>lt_like_rankings := hm_insert rm (ranking_of s rm) (lt_like_rankings s)\<rparr>)"
proof -
  have "viewers (s\<lparr>lt_like_rankings := hm_insert rm (ranking_of s rm) (lt_like_rankings s)\<rparr>) = viewers s"
    using viewers_insert [of rm "ranking_of s rm" s] by simp
  then show ?thesis using inv room
    by (auto simp: totals_inv_def ranking_of_put tracked_def hm_simps)
qed

text \<open>What an accepted like adds to the score table.\<close>

lemma apply_keys:
  assumes inv: "agg_inv a" and ok: "aggregation_apply k n 1 a = (a', Inr ())" and n: "0 < n"
  shows "hm_keys (ag_scores a') = insert k (hm_keys (ag_scores a)) \<and>
    length (ag_scores a') = (if k \<in> hm_keys (ag_scores a) then length (ag_scores a) else Suc (length (ag_scores a)))"
  using inv
proof (cases rule: aggregation_apply_cases [where key = k and delta = n and weight = 1])
  case added
  then have "ag_scores a' = hm_insert k (scores_of a k + n) (ag_scores a)" using ok by auto
  then show ?thesis by (simp add: hm_simps hm_len_insert)
qed (use ok n in auto)

lemma totals_inv_credit:
  assumes inv: "totals_inv s" and room: "hm_has (lt_likes s) rm"
    and ok: "aggregation_apply (viewer_key (lv_user l)) (lv_count l) 1 (ranking_of s rm) = (r, Inr ())"
    and n: "0 < lv_count l"
    and space: "viewer_score s rm (viewer_key (lv_user l)) \<noteq> None \<or> tracked s < totals_capacity"
  shows "totals_inv (credit_viewer rm l r s)"
proof -
  let ?u = "viewer_key (lv_user l)"
  let ?s1 = "s\<lparr>lt_like_rankings := hm_insert rm r (lt_like_rankings s)\<rparr>"
  let ?p = "if viewer_score s rm ?u = None then lt_like_participants s + 1 else lt_like_participants s"
  have agg: "agg_inv (ranking_of s rm)" using inv by (rule totals_inv_ranking)
  have r: "agg_inv r" using agg_inv_apply [OF agg] ok by (metis fst_conv)
  note keys = apply_keys [OF agg ok n]
  have fresh: "viewer_score s rm ?u = None \<longleftrightarrow> ?u \<notin> hm_keys (ag_scores (ranking_of s rm))"
    by (simp add: viewer_score_ranking hm_get_None)
  have count: "viewers ?s1 = ?p"
    using viewers_insert [of rm r s] keys fresh inv by (auto simp: totals_inv_def split: if_splits)
  have shape: "credit_viewer rm l r s =
      touch_likes (?s1\<lparr>lt_like_participants := ?p,
        lt_like_identities := hm_insert (fst rm, snd rm, ?u) (like_identity_of (lv_user l)) (lt_like_identities s)\<rparr>)"
    by (simp add: credit_viewer_def)
  have "viewers (?s1\<lparr>lt_like_participants := ?p,
      lt_like_identities := hm_insert (fst rm, snd rm, ?u) (like_identity_of (lv_user l)) (lt_like_identities s)\<rparr>) = ?p"
    using count by (simp add: viewers_def)
  moreover have "ranking_of (?s1\<lparr>lt_like_participants := ?p,
      lt_like_identities := hm_insert (fst rm, snd rm, ?u) (like_identity_of (lv_user l)) (lt_like_identities s)\<rparr>)
      = (ranking_of s)(rm := r)"
    using ranking_of_put [of rm r s] by (simp add: fun_eq_iff ranking_of_def)
  ultimately show ?thesis
    unfolding shape totals_inv_marks using inv room r keys space
    by (auto simp: totals_inv_def tracked_def hm_simps)
qed

lemma count_room_tracks:
  assumes "count_room rm c s = (g, s1)"
  shows "hm_has (lt_likes s1) rm \<or> \<not> hm_has (lt_likes s) rm \<and> totals_capacity \<le> tracked s1 \<and> s1 = untrack s"
  by (cases rule: count_room_cases [of rm c s]) (use assms in \<open>auto simp: hm_simps\<close>)

lemma count_viewer_inv:
  assumes inv: "totals_inv s"
    and room: "hm_has (lt_likes s) rm \<or> totals_capacity \<le> tracked s"
  shows "\<exists>u s2. count_viewer rm l s = Ret (u, s2) \<and> totals_inv s2"
proof -
  have agg: "agg_inv (ranking_of s rm)" using inv by (rule totals_inv_ranking)
  have has: "hm_has (lt_likes s) rm"
    if "viewer_score s rm (viewer_key (lv_user l)) \<noteq> None \<or> tracked s < totals_capacity"
    using that
  proof
    assume "viewer_score s rm (viewer_key (lv_user l)) \<noteq> None"
    then have "ranking_of s rm \<noteq> aggregation_new totals_capacity"
      by (auto simp: viewer_score_ranking scores_of_aggregation_new)
    then show ?thesis using inv ranking_in_likes by blast
  qed (use room in simp)
  from agg show ?thesis
  proof (cases rule: count_viewer_cases [where l = l])
    case (rejected s1)
    then have "totals_inv s1" using totals_inv_put_ranking [OF inv has] by simp
    then show ?thesis using rejected(3) by auto
  next
    case (counted r)
    then show ?thesis using totals_inv_credit [OF inv has [OF counted(5)]] by simp
  qed (use inv in simp_all)
qed

lemma totals_inv_flags:
  "totals_inv s \<Longrightarrow> totals_inv (s\<lparr>lt_unknown_ingress_loss := True\<rparr>)"
  "totals_inv s \<Longrightarrow> lt_unknown_ingress_loss s \<or> totals_capacity \<le> tracked s \<Longrightarrow>
   totals_inv (s\<lparr>lt_untracked_scope_failure := True\<rparr>)"
  by (simp_all add: totals_inv_def tracked_def ranking_of_def viewers_def)

lemma degrade_scope_inv:
  "totals_inv s \<Longrightarrow> scope_markable rm s \<Longrightarrow> totals_inv (degrade_scope rm s)"
  by (auto simp: degrade_scope_def scope_markable_def)
    (auto simp: totals_inv_def tracked_def ranking_of_def viewers_def)

lemma mark_untracked_inv:
  assumes "totals_inv s" and "hm_has (lt_likes s) rm \<or> totals_capacity \<le> tracked s"
  shows "totals_inv (mark_untracked rm s)"
  using assms by (auto simp: mark_untracked_def intro: degrade_scope_inv totals_inv_flags)

lemma count_viewer_tracks:
  assumes "totals_inv s" and "count_viewer rm l s = Ret (u, s2)"
  shows "lt_likes s2 = lt_likes s \<and> tracked s \<le> tracked s2"
  using totals_inv_ranking [OF assms(1), of rm]
  by (cases rule: count_viewer_cases [where l = l])
    (use assms(2) in \<open>auto simp: credit_viewer_def tracked_def\<close>)

lemma observe_like_inv:
  assumes inv: "totals_inv s"
  shows "\<exists>v s'. observe_like l rm s = Ret (v, s') \<and> totals_inv s'"
proof -
  obtain g s1 where one: "count_room rm (lv_count l) s = (g, s1)" by force
  have inv1: "totals_inv s1" using count_room_inv [OF inv one] .
  have room: "hm_has (lt_likes s1) rm \<or> totals_capacity \<le> tracked s1" using count_room_tracks [OF one] by auto
  obtain u s2 where two: "count_viewer rm l s1 = Ret (u, s2)" and inv2: "totals_inv s2"
    using count_viewer_inv [OF inv1 room, of l] by blast
  have "hm_has (lt_likes s2) rm \<or> totals_capacity \<le> tracked s2"
    using count_viewer_tracks [OF inv1 two] room by auto
  then have "totals_inv (mark_untracked rm s2)" using inv2 by (intro mark_untracked_inv)
  then show ?thesis using one two inv2 by (simp add: observe_like_def)
qed

lemma hm_filter: "hm_wf m \<Longrightarrow> hm_wf (filter P m)"
  by (induction m) (auto simp: hm_wf_def)

lemma totals_inv_combos:
  "totals_inv s \<Longrightarrow> hm_wf m \<Longrightarrow> length m \<le> totals_capacity \<Longrightarrow> totals_inv (s\<lparr>lt_combos := m\<rparr>)"
  by (auto simp: totals_inv_def tracked_def ranking_of_def viewers_def)

lemma totals_inv_other:
  "totals_inv s \<Longrightarrow> totals_inv (s\<lparr>lt_untracked_combos := n\<rparr>)"
  "totals_inv s \<Longrightarrow> totals_inv (s\<lparr>lt_unknown_methods := m\<rparr>)"
  by (auto simp: totals_inv_def tracked_def ranking_of_def viewers_def)

lemma hm_len_insert_le: "length m \<le> n \<Longrightarrow> k \<in> hm_keys m \<or> length m < n \<Longrightarrow> length (hm_insert k v m) \<le> n"
  unfolding hm_len_insert by (cases "k \<in> hm_keys m") simp_all

lemma observe_gift_cases:
  assumes "observe_gift now e g rm s = (v, s')"
  obtains (plain) "\<not> combo_evidence g" "s' = s"
      "v = GiftTotals (gift_quantity g) (gift_quantity g) (saturating_mul (gift_quantity g) (gift_price e g))"
    | (untracked) "combo_evidence g" "v = NullTotals"
      "s' = s\<lparr>lt_combos := retained now (lt_combos s), lt_untracked_combos := wrapping_inc (lt_untracked_combos s)\<rparr>"
      "\<not> hm_has (retained now (lt_combos s)) (combo_key_of rm g)"
    | (tracked) units paid at where "combo_evidence g"
      "hm_get_or (retained now (lt_combos s)) (combo_key_of rm g) (0, 0, now) = (units, paid, at)"
      "v = GiftTotals (gift_quantity g - units) (max units (gift_quantity g))
             (saturating_mul (max units (gift_quantity g)) (gift_price e g) - paid)"
      "s' = s\<lparr>lt_combos := hm_insert (combo_key_of rm g)
             (max units (gift_quantity g), max paid (saturating_mul (max units (gift_quantity g)) (gift_price e g)), now)
             (retained now (lt_combos s))\<rparr>"
      "hm_has (retained now (lt_combos s)) (combo_key_of rm g) \<or>
       length (retained now (lt_combos s)) < totals_capacity"
proof (cases "combo_evidence g")
  case False
  then show ?thesis using assms plain by (simp add: observe_gift_def Let_def)
next
  case True
  let ?m = "retained now (lt_combos s)"
  obtain units paid at where get: "hm_get_or ?m (combo_key_of rm g) (0, 0, now) = (units, paid, at)"
    by (metis prod_cases3)
  show ?thesis
  proof (cases "hm_has ?m (combo_key_of rm g) \<or> length ?m < totals_capacity")
    case False
    then show ?thesis using assms True untracked by (auto simp: observe_gift_def Let_def)
  next
    case room: True
    then show ?thesis using assms True get by (intro tracked [OF True get]) (auto simp: observe_gift_def Let_def)
  qed
qed

lemma observe_gift_inv:
  assumes inv: "totals_inv s" and run: "observe_gift now e g rm s = (v, s')"
  shows "totals_inv s'"
proof -
  have m: "hm_wf (retained now (lt_combos s))" "length (retained now (lt_combos s)) \<le> totals_capacity"
    using inv by (auto simp: totals_inv_def retained_def intro: hm_filter le_trans [OF length_filter_le])
  from run show ?thesis
  proof (cases rule: observe_gift_cases)
    case (untracked)
    then show ?thesis using inv m by (simp add: totals_inv_combos totals_inv_other)
  next
    case (tracked units paid at)
    show ?thesis unfolding tracked(4)
      using inv m tracked(5) by (intro totals_inv_combos hm_len_insert_le) (simp_all add: hm_has_keys)
  qed (use inv in simp)
qed

lemma totals_step_inv:
  assumes "totals_inv s"
  shows "\<exists>v s'. totals_step op s = Ret (v, s') \<and> totals_inv s'"
proof (cases op)
  case (Observe now e c)
  show ?thesis
  proof (cases "le_base e")
    case (Gift g)
    then show ?thesis using Observe observe_gift_inv [OF assms]
      by (simp add: totals_step_def totals_observe_def) (metis prod.exhaust)
  next
    case (Like l)
    then show ?thesis using Observe observe_like_inv [OF assms]
      by (simp add: totals_step_def totals_observe_def)
  qed (use Observe assms in \<open>simp_all add: totals_step_def totals_observe_def observe_unknown_def Let_def totals_inv_other\<close>)
next
  case (IngressLoss c)
  then show ?thesis using assms
    by (auto simp: totals_step_def mark_like_ingress_loss_def intro: degrade_scope_inv totals_inv_flags)
qed

section \<open>Likes against the journal\<close>

type_synonym like_log = "(room \<times> string \<times> u64) list"

definition room_likes :: "like_log \<Rightarrow> room \<Rightarrow> nat" where
  "room_likes L rm = sum_list (map (\<lambda>(r, u, n). if r = rm then n else 0) L)"

definition viewer_likes :: "like_log \<Rightarrow> room \<Rightarrow> string \<Rightarrow> nat" where
  "viewer_likes L rm user = sum_list (map (\<lambda>(r, u, n). if r = rm \<and> u = user then n else 0) L)"

definition likes_of :: "totals_op \<Rightarrow> like_log" where
  "likes_of op =
     (case op of
        Observe now e c \<Rightarrow>
          (case le_base e of
             Like l \<Rightarrow> [(context_scope c, viewer_key (lv_user l), lv_count l)]
           | _ \<Rightarrow> [])
      | IngressLoss c \<Rightarrow> [])"

definition like_journal :: "totals_op list \<Rightarrow> like_log" where
  "like_journal ops = concat (map likes_of ops)"

text \<open>A room whose likes are not reported as degraded.\<close>

definition complete :: "live_totals \<Rightarrow> room \<Rightarrow> bool" where
  "complete s rm \<longleftrightarrow>
     \<not> lt_unknown_ingress_loss s \<and> rm \<notin> set (lt_degraded_scopes s) \<and>
     (lt_untracked_scope_failure s \<longrightarrow> hm_has (lt_likes s) rm)"

lemma complete_status: "complete s (context_scope (Some c)) \<longleftrightarrow> like_integrity_status c s \<noteq> ''degraded''"
  by (simp add: complete_def like_integrity_status_def Let_def)

definition likes_exact :: "like_log \<Rightarrow> live_totals \<Rightarrow> bool" where
  "likes_exact L s \<longleftrightarrow>
     (\<forall>rm. room_total s rm \<le> room_likes L rm \<and>
       (\<forall>user. viewer_total s rm user \<le> viewer_likes L rm user) \<and>
       (complete s rm \<longrightarrow> room_total s rm = room_likes L rm \<and>
         (\<forall>user. user \<noteq> [] \<longrightarrow> viewer_total s rm user = viewer_likes L rm user)))"

text \<open>The effect of one like: exact when its room stays complete, never more than the like.\<close>

definition like_effect :: "room \<Rightarrow> string \<Rightarrow> u64 \<Rightarrow> live_totals \<Rightarrow> live_totals \<Rightarrow> bool" where
  "like_effect rm user n s s' \<longleftrightarrow>
     (\<forall>r. r \<noteq> rm \<longrightarrow> room_total s' r = room_total s r \<and> viewer_total s' r = viewer_total s r \<and>
       (complete s' r \<longrightarrow> complete s r)) \<and>
     room_total s' rm \<le> room_total s rm + n \<and>
     (\<forall>u. viewer_total s' rm u \<le> viewer_total s rm u + (if u = user then n else 0)) \<and>
     (complete s' rm \<longrightarrow> complete s rm \<and> room_total s' rm = room_total s rm + n \<and>
       (\<forall>u. u \<noteq> [] \<longrightarrow> viewer_total s' rm u = viewer_total s rm u + (if u = user then n else 0)))"

lemma likes_exact_effect:
  assumes ex: "likes_exact L s" and eff: "like_effect rm user n s s'"
  shows "likes_exact (L @ [(rm, user, n)]) s'"
proof -
  have journal: "room_likes (L @ [(rm, user, n)]) r = room_likes L r + (if r = rm then n else 0)"
    "viewer_likes (L @ [(rm, user, n)]) r u = viewer_likes L r u + (if r = rm \<and> u = user then n else 0)" for r u
    by (auto simp: room_likes_def viewer_likes_def)
  show ?thesis
    unfolding likes_exact_def
  proof (intro allI)
    fix r
    note old = ex [unfolded likes_exact_def, rule_format, of r]
    show "room_total s' r \<le> room_likes (L @ [(rm, user, n)]) r \<and>
        (\<forall>u. viewer_total s' r u \<le> viewer_likes (L @ [(rm, user, n)]) r u) \<and>
        (complete s' r \<longrightarrow> room_total s' r = room_likes (L @ [(rm, user, n)]) r \<and>
          (\<forall>u. u \<noteq> [] \<longrightarrow> viewer_total s' r u = viewer_likes (L @ [(rm, user, n)]) r u))"
    proof (cases "r = rm")
      case True
      have "viewer_total s' r u \<le> viewer_likes L r u + (if u = user then n else 0)" for u
        using eff old unfolding like_effect_def True by (meson add_mono_thms_linordered_semiring(3) le_trans)
      then show ?thesis using eff old unfolding like_effect_def journal True by auto
    next
      case False
      then show ?thesis using eff old unfolding like_effect_def journal by auto
    qed
  qed
qed

definition same_flags :: "live_totals \<Rightarrow> live_totals \<Rightarrow> bool" where
  "same_flags s s' \<longleftrightarrow>
     lt_unknown_ingress_loss s' = lt_unknown_ingress_loss s \<and>
     lt_untracked_scope_failure s' = lt_untracked_scope_failure s \<and>
     lt_degraded_scopes s' = lt_degraded_scopes s"

lemma count_room_effect:
  assumes "count_room rm c s = (g, s1)"
  shows "viewer_total s1 = viewer_total s \<and> same_flags s s1 \<and>
    (\<forall>r. r \<noteq> rm \<longrightarrow> room_total s1 r = room_total s r \<and> hm_has (lt_likes s1) r = hm_has (lt_likes s) r) \<and>
    (lt_untracked s1 = lt_untracked s \<and> room_total s1 rm = room_total s rm + c \<and> hm_has (lt_likes s1) rm \<and>
       (hm_has (lt_likes s) rm \<or> tracked s < totals_capacity) \<or>
     lt_untracked s1 = wrapping_inc (lt_untracked s) \<and> room_total s1 rm = room_total s rm)"
  by (cases rule: count_room_cases [of rm c s])
    (use assms in \<open>auto simp: same_flags_def room_total_def viewer_total_def fun_eq_iff hm_get_or_def hm_simps\<close>)

lemma viewer_total_put:
  "viewer_total (s\<lparr>lt_like_rankings := hm_insert rm r (lt_like_rankings s)\<rparr>) = (viewer_total s)(rm := scores_of r)"
  by (simp add: fun_eq_iff viewer_total_def ranking_of_put)

lemma viewer_total_credit: "viewer_total (credit_viewer rm l r s) = (viewer_total s)(rm := scores_of r)"
  using viewer_total_put [of rm r s]
  by (simp add: credit_viewer_def viewer_total_def ranking_of_def fun_eq_iff)

lemma count_viewer_effect:
  assumes inv: "totals_inv s" and run: "count_viewer rm l s = Ret (u, s2)"
  shows "same_flags s s2 \<and> (\<forall>r. r \<noteq> rm \<longrightarrow> viewer_total s2 r = viewer_total s r) \<and>
    (lt_untracked s2 = lt_untracked s \<and>
       (\<forall>w. viewer_total s2 rm w \<le> viewer_total s rm w + (if w = viewer_key (lv_user l) then lv_count l else 0)) \<and>
       (\<forall>w. w \<noteq> [] \<longrightarrow>
          viewer_total s2 rm w = viewer_total s rm w + (if w = viewer_key (lv_user l) then lv_count l else 0)) \<or>
     lt_untracked s2 = wrapping_inc (lt_untracked s) \<and> viewer_total s2 rm = viewer_total s rm)"
  using totals_inv_ranking [OF inv, of rm]
proof (cases rule: count_viewer_cases [where l = l])
  case (rejected s1)
  have "viewer_total s1 = viewer_total s" unfolding rejected(2) viewer_total_put by (simp add: fun_eq_iff viewer_total_def)
  moreover have "same_flags s s1" "lt_untracked s1 = lt_untracked s" using rejected(2) by (simp_all add: same_flags_def)
  ultimately show ?thesis using rejected(3) run by (auto simp: same_flags_def)
next
  case (counted r)
  have "scores_of r = (scores_of (ranking_of s rm))(viewer_key (lv_user l) :=
      scores_of (ranking_of s rm) (viewer_key (lv_user l)) + lv_count l)"
    using aggregation_apply_scores [OF totals_inv_ranking [OF inv] counted(2)] by simp
  moreover have "s2 = credit_viewer rm l r s" using counted(4) run by simp
  moreover have "same_flags s (credit_viewer rm l r s)" "lt_untracked (credit_viewer rm l r s) = lt_untracked s"
    by (simp_all add: credit_viewer_def same_flags_def)
  ultimately show ?thesis by (auto simp: viewer_total_credit viewer_total_def)
qed (use run in \<open>auto simp: same_flags_def\<close>)

lemma mark_untracked_effect:
  "room_total (mark_untracked rm s) = room_total s \<and> viewer_total (mark_untracked rm s) = viewer_total s \<and>
   (complete (mark_untracked rm s) r \<longrightarrow> complete s r) \<and> \<not> complete (mark_untracked rm s) rm"
  by (auto simp: mark_untracked_def degrade_scope_def complete_def room_total_def viewer_total_def
      ranking_of_def fun_eq_iff touch_likes_def)

lemma same_flags_complete:
  "same_flags s s' \<Longrightarrow> hm_has (lt_likes s') r = hm_has (lt_likes s) r \<Longrightarrow> complete s' r = complete s r"
  by (simp add: same_flags_def complete_def)

lemma same_flags_trans: "same_flags s s1 \<Longrightarrow> same_flags s1 s2 \<Longrightarrow> same_flags s s2"
  by (simp add: same_flags_def)

lemma observe_like_effect:
  assumes inv: "totals_inv s" and run: "observe_like l rm s = Ret (v, s')"
  shows "like_effect rm (viewer_key (lv_user l)) (lv_count l) s s'"
proof -
  obtain g s1 where one: "count_room rm (lv_count l) s = (g, s1)" by force
  have inv1: "totals_inv s1" using count_room_inv [OF inv one] .
  obtain u s2 where two: "count_viewer rm l s1 = Ret (u, s2)" and
    s': "s' = (if lt_untracked s2 \<noteq> lt_untracked s then mark_untracked rm s2 else s2)"
    using run one by (auto simp: observe_like_def run_bind_eq_Ret split: prod.splits)
  note e1 = count_room_effect [OF one] and e2 = count_viewer_effect [OF inv1 two]
  have likes: "lt_likes s2 = lt_likes s1" using count_viewer_tracks [OF inv1 two] by simp
  then have rt: "room_total s2 = room_total s1" by (simp add: fun_eq_iff room_total_def)
  have flags: "same_flags s s2" using e1 e2 same_flags_trans by blast
  have others: "complete s2 r = complete s r" if "r \<noteq> rm" for r
    using that e1 likes by (intro same_flags_complete [OF flags]) simp
  show ?thesis
  proof (cases "lt_untracked s2 = lt_untracked s")
    case True
    then have u1: "lt_untracked s1 = lt_untracked s" and u2: "lt_untracked s2 = lt_untracked s1"
      using e1 e2 by (metis wrapping_inc_neq)+
    have has: "hm_has (lt_likes s) rm \<or> tracked s < totals_capacity" "room_total s1 rm = room_total s rm + lv_count l"
      using e1 u1 wrapping_inc_neq by metis+
    have "complete s2 rm \<longrightarrow> complete s rm"
      using flags has(1) inv by (auto simp: complete_def same_flags_def totals_inv_def)
    then show ?thesis using True s' has(2) e1 e2 u2 rt others unfolding like_effect_def
      by (auto simp: wrapping_inc_neq [symmetric])
  next
    case False
    then have s': "s' = mark_untracked rm s2" using s' by simp
    have le: "viewer_total s2 rm w \<le> viewer_total s rm w + (if w = viewer_key (lv_user l) then lv_count l else 0)" for w
    proof -
      have "viewer_total s1 = viewer_total s" using e1 by blast
      moreover have "viewer_total s2 rm = viewer_total s1 rm \<or>
          viewer_total s2 rm w \<le> viewer_total s1 rm w + (if w = viewer_key (lv_user l) then lv_count l else 0)"
        using e2 by blast
      ultimately show ?thesis by (auto simp del: if_split_asm)
    qed
    have "room_total s2 rm \<le> room_total s rm + lv_count l" using e1 rt by auto
    moreover have "room_total s' r = room_total s r \<and> viewer_total s' r = viewer_total s r \<and>
        (complete s' r \<longrightarrow> complete s r)" if "r \<noteq> rm" for r
      using that others [OF that] e1 e2 rt mark_untracked_effect [of rm s2 r] s' by auto
    ultimately show ?thesis using le mark_untracked_effect [of rm s2 rm] unfolding like_effect_def s'
      by (simp only: simp_thms) blast
  qed
qed

text \<open>Everything that is not a like leaves the like totals alone.\<close>

lemma likes_exact_frame:
  assumes "likes_exact L s" and "room_total s' = room_total s" and "viewer_total s' = viewer_total s"
    and "\<And>r. complete s' r \<Longrightarrow> complete s r"
  shows "likes_exact L s'"
  using assms unfolding likes_exact_def by metis

definition same_likes :: "live_totals \<Rightarrow> live_totals \<Rightarrow> bool" where
  "same_likes s s' \<longleftrightarrow>
     lt_likes s' = lt_likes s \<and> lt_like_rankings s' = lt_like_rankings s \<and> same_flags s s'"

lemma frame_same_likes:
  assumes "same_likes s s'"
  shows "room_total s' = room_total s \<and> viewer_total s' = viewer_total s \<and> (complete s' r \<longrightarrow> complete s r)"
  using assms by (auto simp: same_likes_def same_flags_def fun_eq_iff room_total_def viewer_total_def
      ranking_of_def complete_def)

lemma same_likes_exact: "likes_exact L s \<Longrightarrow> same_likes s s' \<Longrightarrow> likes_exact L s'"
  using frame_same_likes likes_exact_frame by blast

lemma frame_loss:
  "room_total (mark_like_ingress_loss c s) = room_total s \<and>
   viewer_total (mark_like_ingress_loss c s) = viewer_total s \<and>
   (complete (mark_like_ingress_loss c s) r \<longrightarrow> complete s r)"
  by (auto simp: mark_like_ingress_loss_def degrade_scope_def touch_likes_def fun_eq_iff room_total_def
      viewer_total_def ranking_of_def complete_def)

lemma observe_gift_same_likes:
  assumes "observe_gift now e g rm s = (v, s')"
  shows "same_likes s s'"
  using assms by (cases rule: observe_gift_cases) (simp_all add: same_likes_def same_flags_def)

lemma totals_step_exact:
  assumes inv: "totals_inv s" and ex: "likes_exact L s" and run: "totals_step op s = Ret (v, s')"
  shows "likes_exact (L @ likes_of op) s'"
proof (cases op)
  case (IngressLoss c)
  then show ?thesis using run frame_loss
    by (auto simp: totals_step_def likes_of_def intro: likes_exact_frame [OF ex])
next
  case (Observe now e c)
  show ?thesis
  proof (cases "le_base e")
    case (Like l)
    then have "observe_like l (context_scope c) s = Ret (v, s')"
      using run Observe by (simp add: totals_step_def totals_observe_def)
    from likes_exact_effect [OF ex observe_like_effect [OF inv this]]
    show ?thesis using Observe Like by (simp add: likes_of_def)
  next
    case (Gift g)
    then have "observe_gift now e g (context_scope c) s = (v, s')"
      using run Observe by (simp add: totals_step_def totals_observe_def)
    from same_likes_exact [OF ex observe_gift_same_likes [OF this]]
    show ?thesis using Observe Gift by (simp add: likes_of_def)
  next
    case Unknown
    then have "s' = observe_unknown e s" using run Observe by (simp add: totals_step_def totals_observe_def)
    then have "same_likes s s'" by (simp add: observe_unknown_def Let_def same_likes_def same_flags_def)
    from same_likes_exact [OF ex this] show ?thesis using Observe Unknown by (simp add: likes_of_def)
  qed (use run Observe ex in \<open>simp_all add: totals_step_def totals_observe_def likes_of_def\<close>)
qed

lemma totals_run_exact:
  assumes "totals_inv s" and "likes_exact L s"
  shows "\<exists>vs s'. totals_run ops s = Ret (vs, s') \<and> totals_inv s' \<and> likes_exact (L @ like_journal ops) s'"
  using assms
proof (induction ops arbitrary: s L)
  case Nil
  then show ?case by (simp add: like_journal_def)
next
  case (Cons op ops)
  obtain v s1 where step: "totals_step op s = Ret (v, s1)" and inv: "totals_inv s1"
    using totals_step_inv [OF Cons.prems(1), of op] by blast
  have "likes_exact (L @ likes_of op) s1" using totals_step_exact [OF Cons.prems step] .
  from Cons.IH [OF inv this] step show ?case by (auto simp: like_journal_def)
qed

lemma likes_exact_default: "likes_exact [] totals_default"
  by (simp add: likes_exact_def room_total_def viewer_total_def ranking_of_def totals_default_def
      hm_get_or_def room_likes_def viewer_likes_def)

lemma totals_session:
  "\<exists>vs s. totals_run ops totals_default = Ret (vs, s) \<and> totals_inv s \<and> likes_exact (like_journal ops) s"
  using totals_run_exact [OF totals_inv_default likes_exact_default] by simp

end
