(* ===== verification/Live_Guarantees.thy ===== *)
theory Live_Guarantees
  imports Live_Replay Live_Totals_Inv
begin

text \<open>
  What the LIVE counters promise over whole sessions: like totals and the like leaderboard against
  the journal of all likes, and the credit of a gift combo against the quantities its packets
  showed.
\<close>

section \<open>Examples\<close>

definition sample_user :: "u64 \<Rightarrow> event_user" where
  "sample_user n = \<lparr>eu_id = n, eu_unique_id = ''fan'', eu_nickname = ''Fan'', eu_avatar_url = None\<rparr>"

definition sample_event :: "canonical_event \<Rightarrow> live_event" where
  "sample_event b = \<lparr>le_base = b, le_method = ''M'', le_msg_id = 1, le_is_history = False, le_gift = None\<rparr>"

definition sample_context :: live_context where
  "sample_context = \<lparr>lc_unique_id = ''creator'', lc_room_id = ''room'', lc_connection_id = ''connection-1''\<rparr>"

definition sample_like :: "u64 \<Rightarrow> u64 \<Rightarrow> totals_op" where
  "sample_like n c =
     Observe 0 (sample_event (Like \<lparr>lv_user = sample_user n, lv_count = c\<rparr>)) (Some sample_context)"

definition sample_likes :: "totals_op list" where
  "sample_likes = [sample_like 7 3, sample_like 8 10, sample_like 7 4]"

lemma sample_step_fields:
  "viewer_key (sample_user 7) = ''7''" "viewer_key (sample_user 8) = ''8''"
  "context_scope (Some sample_context) = (''creator'', ''room'')"
  by (code_simp, code_simp, code_simp)

section \<open>Likes\<close>

text \<open>
  C33. After any sequence of events and reported losses the counters run without aborting, no room
  and no viewer is ever credited more likes than were delivered, and in every room that is not
  reported as degraded the room total and the total of every identified viewer are exactly the sums
  of all delivered likes. The tables stay within their capacity.
\<close>

theorem like_totals_exact:
  "\<exists>vs s. totals_run ops totals_default = Ret (vs, s) \<and> tracked s \<le> totals_capacity \<and>
     (\<forall>c user.
        room_total s (context_scope (Some c)) \<le> room_likes (like_journal ops) (context_scope (Some c)) \<and>
        viewer_total s (context_scope (Some c)) user \<le> viewer_likes (like_journal ops) (context_scope (Some c)) user \<and>
        (like_integrity_status c s \<noteq> ''degraded'' \<longrightarrow>
           room_total s (context_scope (Some c)) = room_likes (like_journal ops) (context_scope (Some c)) \<and>
           (user \<noteq> [] \<longrightarrow>
              viewer_total s (context_scope (Some c)) user =
              viewer_likes (like_journal ops) (context_scope (Some c)) user)))"
proof -
  obtain vs s where "totals_run ops totals_default = Ret (vs, s)" and "totals_inv s"
    and ex: "likes_exact (like_journal ops) s" using totals_session by blast
  moreover have "tracked s \<le> totals_capacity" using \<open>totals_inv s\<close> by (simp add: totals_inv_def)
  moreover note ex [unfolded likes_exact_def, rule_format] complete_status [of s]
  ultimately show ?thesis by blast
qed

lemma leader_rows:
  assumes ids: "\<forall>k \<in> e_key ` set es. \<exists>i. hm_get (lt_like_identities s) (fst rm, snd rm, k) = Some i"
  shows "map (\<lambda>r. (ld_user_id r, ld_score r, ld_rank r)) (List.map_filter (leader_row s rm) es) =
    map (\<lambda>e. (e_key e, e_score e, e_rank e)) es"
  using ids by (induction es) (auto simp: List.map_filter_def leader_row_def)

lemma ball_subset_transfer: "\<forall>x \<in> A. P x \<Longrightarrow> B \<subseteq> A \<Longrightarrow> \<forall>x \<in> B. P x"
  by blast

lemma hm_keys_get: "k \<in> hm_keys m \<longleftrightarrow> (\<exists>i. hm_get m k = Some i)"
  using hm_get_None [of m k] by (cases "hm_get m k") auto

lemma entry_ranks: "map e_rank (number_entries i es) = [i + 1..<i + length es + 1]"
  by (induction es arbitrary: i) (simp_all add: upt_conv_Cons del: upt_Suc)

lemma leaderboard_rows:
  assumes inv: "totals_inv s"
  shows "map (\<lambda>r. (ld_user_id r, ld_score r)) (snd (like_leaderboard_with_limit c n s)) =
      take (min n 500) (leaderboard (ag_scores (ranking_of s (context_scope (Some c))))) \<and>
    map ld_rank (snd (like_leaderboard_with_limit c n s)) =
      [1..<length (snd (like_leaderboard_with_limit c n s)) + 1]"
proof (cases "hm_get (lt_like_rankings s) (context_scope (Some c))")
  case None
  then show ?thesis
    by (simp add: like_leaderboard_with_limit_def Let_def ranking_of_def hm_get_or_def scores_of_aggregation_new
        leaderboard_def ranked_def)
next
  case (Some a)
  let ?rm = "context_scope (Some c)" and ?k = "min n 500"
  let ?top = "take ?k (leaderboard (ag_scores a))"
  let ?es = "number_entries 0 (map (candidate_entry a) ?top)"
  have a: "ranking_of s ?rm = a" using Some by (simp add: ranking_of_def hm_get_or_def)
  then have agg: "agg_inv a" using totals_inv_ranking [OF inv] by metis
  have keys: "map e_key ?es = map fst ?top" "map e_score ?es = map snd ?top"
    by (simp_all add: map_number_entries candidate_entry_def Let_def comp_def case_prod_unfold)
  have "\<forall>k \<in> hm_keys (ag_scores a). (fst ?rm, snd ?rm, k) \<in> hm_keys (lt_like_identities s)"
    using inv a unfolding totals_inv_def by blast
  moreover have "e_key ` set ?es \<subseteq> hm_keys (ag_scores a)"
  proof -
    have "e_key ` set ?es = fst ` set ?top" using keys(1) by (metis list.set_map)
    also have "\<dots> \<subseteq> hm_keys (ag_scores a)"
      using image_mono [OF set_take_subset, of fst ?k "leaderboard (ag_scores a)"] by simp
    finally show ?thesis .
  qed
  ultimately have "\<forall>k \<in> e_key ` set ?es. (fst ?rm, snd ?rm, k) \<in> hm_keys (lt_like_identities s)"
    by (rule ball_subset_transfer)
  then have ids: "\<forall>k \<in> e_key ` set ?es. \<exists>i. hm_get (lt_like_identities s) (fst ?rm, snd ?rm, k) = Some i"
    by (simp only: hm_keys_get)
  let ?rows = "snd (like_leaderboard_with_limit c n s)"
  have "?rows = List.map_filter (leader_row s ?rm) ?es"
    using Some by (simp add: like_leaderboard_with_limit_def Let_def aggregation_snapshot_eq [OF agg])
  with leader_rows [OF ids] have rows: "map (\<lambda>r. (ld_user_id r, ld_score r, ld_rank r)) ?rows =
      map (\<lambda>e. (e_key e, e_score e, e_rank e)) ?es" by metis
  have "map (\<lambda>r. (ld_user_id r, ld_score r)) ?rows = map (\<lambda>(k, v, r). (k, v)) (map (\<lambda>r. (ld_user_id r, ld_score r, ld_rank r)) ?rows)"
    by simp
  also have "\<dots> = zip (map e_key ?es) (map e_score ?es)"
    unfolding rows by (simp add: zip_map_map zip_same_conv_map)
  also have "\<dots> = ?top" unfolding keys by (simp add: zip_map_fst_snd)
  finally have one: "map (\<lambda>r. (ld_user_id r, ld_score r)) ?rows = ?top" .
  have "map ld_rank ?rows = map (\<lambda>(k, v, r). r) (map (\<lambda>r. (ld_user_id r, ld_score r, ld_rank r)) ?rows)"
    by simp
  also have "\<dots> = map e_rank ?es" unfolding rows by simp
  also have "\<dots> = [1..<length ?es + 1]" using entry_ranks [of 0] by simp
  also have "length ?es = length ?rows" using arg_cong [OF rows, of length] by simp
  finally show ?thesis using one a by (simp only:)
qed

lemma sample_likes_run:
  "\<exists>vs s. totals_run sample_likes totals_default = Ret (vs, s) \<and>
     like_integrity_status sample_context s = ''unknown''"
  by (simp add: sample_likes_def sample_like_def sample_event_def totals_step_def totals_observe_def
      observe_like_def count_room_def count_viewer_def totals_default_def sample_step_fields tracked_def
      totals_capacity_def hm_has_keys hm_get_or_def checked_add_def checked_mul_def u64_max_def Let_def
      viewer_score_def aggregation_score_def aggregation_apply_def aggregation_new_def touch_likes_def
      like_integrity_status_def)

theorem like_totals_exact_witness:
  "\<exists>vs s. totals_run sample_likes totals_default = Ret (vs, s) \<and>
     room_total s (context_scope (Some sample_context)) = 17 \<and>
     viewer_total s (context_scope (Some sample_context)) ''7'' = 7"
proof -
  obtain vs s where run: "totals_run sample_likes totals_default = Ret (vs, s)"
    and ex: "\<And>c user. like_integrity_status c s \<noteq> ''degraded'' \<longrightarrow>
        room_total s (context_scope (Some c)) = room_likes (like_journal sample_likes) (context_scope (Some c)) \<and>
        (user \<noteq> [] \<longrightarrow> viewer_total s (context_scope (Some c)) user =
           viewer_likes (like_journal sample_likes) (context_scope (Some c)) user)"
    using like_totals_exact [of sample_likes] by blast
  have "like_integrity_status sample_context s = ''unknown''" using sample_likes_run run by simp
  then show ?thesis using run ex [of sample_context "''7''"]
    by (simp add: sample_step_fields like_journal_def sample_likes_def sample_like_def likes_of_def sample_event_def
        room_likes_def viewer_likes_def)
qed

text \<open>
  The like leaderboard of a room that is not degraded shows the viewers with the most likes: its
  rows are the first of the ranking of exactly the identified viewers who liked, as many as asked
  for up to 500, ranked 1, 2 and so on, each with the sum of that viewer's likes; no row is lost
  for want of a display identity.
\<close>

theorem like_leaderboard_exact:
  assumes run: "totals_run ops totals_default = Ret (vs, s)" and ok: "like_integrity_status c s \<noteq> ''degraded''"
  shows "map (\<lambda>r. (ld_user_id r, ld_score r)) (snd (like_leaderboard_with_limit c n s)) =
      take (min n 500) (leaderboard (ag_scores (ranking_of s (context_scope (Some c))))) \<and>
    map ld_rank (snd (like_leaderboard_with_limit c n s)) =
      [1..<length (snd (like_leaderboard_with_limit c n s)) + 1] \<and>
    (\<forall>r \<in> set (snd (like_leaderboard_with_limit c n s)).
       ld_score r = viewer_likes (like_journal ops) (context_scope (Some c)) (ld_user_id r)) \<and>
    hm_keys (ag_scores (ranking_of s (context_scope (Some c)))) =
      {user. user \<noteq> [] \<and> 0 < viewer_likes (like_journal ops) (context_scope (Some c)) user}"
proof -
  let ?rm = "context_scope (Some c)" and ?rows = "snd (like_leaderboard_with_limit c n s)"
  let ?a = "ranking_of s ?rm"
  have inv: "totals_inv s" and ex: "likes_exact (like_journal ops) s"
    using totals_session [of ops] run by auto
  have agg: "agg_inv ?a" using inv by (rule totals_inv_ranking)
  have "complete s ?rm" using ok complete_status by blast
  then have exact: "scores_of ?a user = viewer_likes (like_journal ops) ?rm user" if "user \<noteq> []" for user
    using ex that unfolding likes_exact_def viewer_total_def by blast
  have key: "k \<noteq> [] \<and> scores_of ?a k = v" if "(k, v) \<in> set (ag_scores ?a)" for k v
  proof -
    have get: "hm_get (ag_scores ?a) k = Some v" using that hm_get_Some_set [OF agg_inv_scores [OF agg]] by blast
    show ?thesis using agg_inv_entry [OF agg get] get by (simp add: valid_key_def scores_of_def hm_get_or_def)
  qed
  note rows = leaderboard_rows [OF inv, of c n]
  have "ld_score r = viewer_likes (like_journal ops) ?rm (ld_user_id r)" if "r \<in> set ?rows" for r
  proof -
    have "(ld_user_id r, ld_score r) \<in> set (map (\<lambda>r. (ld_user_id r, ld_score r)) ?rows)" using that by force
    also have "\<dots> \<subseteq> set (leaderboard (ag_scores ?a))" unfolding conjunct1 [OF rows] by (rule set_take_subset)
    finally have mem: "(ld_user_id r, ld_score r) \<in> set (ag_scores ?a)" by simp
    show ?thesis using key [OF mem] exact by metis
  qed
  moreover have "hm_keys (ag_scores ?a) = {user. user \<noteq> [] \<and> 0 < viewer_likes (like_journal ops) ?rm user}"
  proof (intro set_eqI iffI)
    fix k
    assume k: "k \<in> hm_keys (ag_scores ?a)"
    then have "k \<noteq> []" using key by force
    moreover have "0 < scores_of ?a k" using k scores_of_pos [OF agg] by (simp add: hm_has_keys)
    ultimately show "k \<in> {user. user \<noteq> [] \<and> 0 < viewer_likes (like_journal ops) ?rm user}" using exact by simp
  next
    fix k
    assume "k \<in> {user. user \<noteq> [] \<and> 0 < viewer_likes (like_journal ops) ?rm user}"
    then have "0 < scores_of ?a k" using exact by simp
    then show "k \<in> hm_keys (ag_scores ?a)" using scores_of_pos [OF agg] by (simp add: hm_has_keys)
  qed
  ultimately show ?thesis using rows by blast
qed

theorem like_leaderboard_exact_witness:
  "\<exists>vs s. totals_run sample_likes totals_default = Ret (vs, s) \<and>
     ''7'' \<in> hm_keys (ag_scores (ranking_of s (context_scope (Some sample_context)))) \<and>
     (\<forall>r \<in> set (like_leaderboard sample_context s).
        ld_score r = viewer_likes (like_journal sample_likes) (context_scope (Some sample_context)) (ld_user_id r))"
proof -
  obtain vs s where run: "totals_run sample_likes totals_default = Ret (vs, s)"
    and ok: "like_integrity_status sample_context s \<noteq> ''degraded''"
    using sample_likes_run by auto
  have "0 < viewer_likes (like_journal sample_likes) (context_scope (Some sample_context)) ''7''"
    by (simp add: sample_step_fields like_journal_def sample_likes_def sample_like_def likes_of_def sample_event_def
        viewer_likes_def)
  then show ?thesis using run like_leaderboard_exact [OF run ok, of 10] by (auto simp: like_leaderboard_def)
qed

section \<open>Combos\<close>

definition combo_packet :: "live_combo_key \<Rightarrow> totals_op \<Rightarrow> (nat \<times> u64 \<times> u64) option" where
  "combo_packet k op =
     (case op of
        Observe now e c \<Rightarrow>
          (case le_base e of
             Gift g \<Rightarrow>
               if combo_evidence g \<and> combo_key_of (context_scope c) g = k
               then Some (now, gift_quantity g, gift_price e g) else None
           | _ \<Rightarrow> None)
      | IngressLoss _ \<Rightarrow> None)"

text \<open>The clock readings of the events, and those of the packets of one combo.\<close>

fun event_times :: "totals_op list \<Rightarrow> nat list" where
  "event_times [] = []"
| "event_times (Observe now _ _ # ops) = now # event_times ops"
| "event_times (IngressLoss _ # ops) = event_times ops"

definition combo_times :: "live_combo_key \<Rightarrow> totals_op list \<Rightarrow> nat list" where
  "combo_times k ops = List.map_filter (\<lambda>op. map_option fst (combo_packet k op)) ops"

text \<open>The packets of one combo that were not refused, with what was reported for them.\<close>

definition combo_reports :: "live_combo_key \<Rightarrow> totals_op list \<Rightarrow> totals_value list \<Rightarrow> ((u64 \<times> u64) \<times> totals_value) list" where
  "combo_reports k ops vs =
     List.map_filter
       (\<lambda>(op, v). case combo_packet k op of
          None \<Rightarrow> None
        | Some (_, q) \<Rightarrow> if v = NullTotals then None else Some (q, v))
       (zip ops vs)"

text \<open>The account of a combo: units and diamonds credited so far.\<close>

definition combo_account :: "live_totals \<Rightarrow> live_combo_key \<Rightarrow> u64 \<times> u64" where
  "combo_account s k = (case hm_get (lt_combos s) k of None \<Rightarrow> (0, 0) | Some (u, p, _) \<Rightarrow> (u, p))"

definition combo_advance :: "u64 \<times> u64 \<Rightarrow> u64 \<times> u64 \<Rightarrow> u64 \<times> u64" where
  "combo_advance q a =
     (max (fst a) (fst q), max (snd a) (saturating_mul (max (fst a) (fst q)) (snd q)))"

lemma hm_get_filter:
  "hm_wf m \<Longrightarrow> hm_get (filter P m) k = (case hm_get m k of None \<Rightarrow> None | Some v \<Rightarrow> if P (k, v) then Some v else None)"
proof (induction m)
  case (Cons x m)
  obtain a b where x: "x = (a, b)" by force
  have "hm_wf m" using Cons.prems by (simp add: hm_wf_def)
  moreover have "a = k \<Longrightarrow> hm_get m k = None" using Cons.prems x by (auto simp: hm_wf_def map_of_eq_None_iff)
  ultimately show ?case using Cons.IH x by (auto split: option.splits)
qed simp

lemma hm_get_retained:
  "hm_wf m \<Longrightarrow> hm_get (retained now m) k =
     (case hm_get m k of None \<Rightarrow> None | Some (u, p, at) \<Rightarrow> if now - at < retention then Some (u, p, at) else None)"
  by (simp add: retained_def hm_get_filter split: option.split prod.split)

lemma observe_like_combos:
  assumes inv: "totals_inv s" and run: "observe_like l rm s = Ret (v, s')"
  shows "lt_combos s' = lt_combos s"
proof -
  obtain g s1 where one: "count_room rm (lv_count l) s = (g, s1)" by force
  have c1: "lt_combos s1 = lt_combos s"
    by (cases rule: count_room_cases [of rm "lv_count l" s]) (use one in auto)
  obtain u s2 where two: "count_viewer rm l s1 = Ret (u, s2)" and
    s': "s' = s2 \<or> s' = mark_untracked rm s2"
    using run one by (auto simp: observe_like_def run_bind_eq_Ret split: prod.splits)
  have "lt_combos s2 = lt_combos s1"
    using totals_inv_ranking [OF count_room_inv [OF inv one], of rm]
    by (cases rule: count_viewer_cases [where l = l]) (use two in \<open>auto simp: credit_viewer_def\<close>)
  moreover have "lt_combos (mark_untracked rm s2) = lt_combos s2"
    by (simp add: mark_untracked_def degrade_scope_def)
  ultimately show ?thesis using c1 s' by auto
qed

lemma combo_skip:
  assumes inv: "totals_inv s" and run: "totals_step op s = Ret (v, s1)" and skip: "combo_packet k op = None"
  shows "hm_get (lt_combos s1) k = hm_get (lt_combos s) k \<or>
    (\<exists>now e c u p at. op = Observe now e c \<and> hm_get (lt_combos s) k = Some (u, p, at) \<and> retention \<le> now - at)"
proof (cases op)
  case (IngressLoss c)
  then show ?thesis using run by (auto simp: totals_step_def mark_like_ingress_loss_def degrade_scope_def)
next
  case (Observe now e c)
  show ?thesis
  proof (cases "le_base e")
    case (Gift g)
    let ?key = "combo_key_of (context_scope c) g"
    have wf: "hm_wf (lt_combos s)" using inv by (simp add: totals_inv_def)
    have kept: "hm_get (retained now (lt_combos s)) k = hm_get (lt_combos s) k \<or>
        (\<exists>u p at. hm_get (lt_combos s) k = Some (u, p, at) \<and> retention \<le> now - at)"
      by (auto simp: hm_get_retained [OF wf] split: option.splits)
    have other: "combo_evidence g \<Longrightarrow> ?key \<noteq> k" using skip Observe Gift by (auto simp: combo_packet_def)
    have "observe_gift now e g (context_scope c) s = (v, s1)"
      using run Observe Gift by (simp add: totals_step_def totals_observe_def)
    then have "hm_get (lt_combos s1) k = hm_get (lt_combos s) k \<or>
        hm_get (lt_combos s1) k = hm_get (retained now (lt_combos s)) k"
      by (cases rule: observe_gift_cases) (use other in \<open>auto simp: hm_get_insert\<close>)
    then show ?thesis using kept Observe by auto
  next
    case (Like l)
    then have "observe_like l (context_scope c) s = Ret (v, s1)"
      using run Observe by (simp add: totals_step_def totals_observe_def)
    then show ?thesis using observe_like_combos [OF inv] by simp
  qed (use run Observe in \<open>auto simp: totals_step_def totals_observe_def observe_unknown_def Let_def\<close>)
qed

lemma combo_count:
  assumes inv: "totals_inv s" and run: "totals_step op s = Ret (v, s1)"
    and packet: "combo_packet k op = Some (now, q, price)"
    and young: "\<forall>u p at. hm_get (lt_combos s) k = Some (u, p, at) \<longrightarrow> now - at < retention"
  shows "v = NullTotals \<and> hm_get (lt_combos s) k = None \<and> hm_get (lt_combos s1) k = None \<or>
    (\<exists>inc cum dia. v = GiftTotals inc cum dia \<and>
       (fst (combo_account s k) + inc, snd (combo_account s k) + dia) = combo_advance (q, price) (combo_account s k) \<and>
       (\<exists>u p. hm_get (lt_combos s1) k = Some (u, p, now) \<and> combo_advance (q, price) (combo_account s k) = (u, p)))"
proof -
  obtain e c g where op: "op = Observe now e c" "le_base e = Gift g" "combo_evidence g"
    and k: "combo_key_of (context_scope c) g = k" and q: "q = gift_quantity g" "price = gift_price e g"
    using packet by (auto simp: combo_packet_def split: totals_op.splits canonical_event.splits if_splits)
  have wf: "hm_wf (lt_combos s)" using inv by (simp add: totals_inv_def)
  have get: "hm_get (retained now (lt_combos s)) k = hm_get (lt_combos s) k"
    using young by (auto simp: hm_get_retained [OF wf] split: option.splits)
  have "observe_gift now e g (context_scope c) s = (v, s1)"
    using run op by (simp add: totals_step_def totals_observe_def)
  then show ?thesis
  proof (cases rule: observe_gift_cases)
    case plain
    then show ?thesis using op(3) by simp
  next
    case untracked
    then have "hm_get (retained now (lt_combos s)) k = None" using k by (simp add: hm_has_keys hm_get_None)
    then show ?thesis using untracked get by simp
  next
    case (tracked units paid at)
    then have acc: "combo_account s k = (units, paid)"
      using get k by (auto simp: combo_account_def hm_get_or_def split: option.splits)
    have "hm_get (lt_combos s1) k = Some (max units q, max paid (saturating_mul (max units q) price), now)"
      using tracked(4) k q by (simp add: hm_get_insert)
    moreover have "v = GiftTotals (q - units) (max units q) (saturating_mul (max units q) price - paid)"
      using tracked(3) q by simp
    moreover have "units + (q - units) = max units q"
      "paid + (saturating_mul (max units q) price - paid) = max paid (saturating_mul (max units q) price)"
      by (simp_all add: max_def)
    ultimately show ?thesis using acc by (simp add: combo_advance_def)
  qed
qed

definition credited :: "((u64 \<times> u64) \<times> totals_value) list \<Rightarrow> u64 \<times> u64" where
  "credited rs = (sum_list (map (\<lambda>(_, v). increment v) rs), sum_list (map (\<lambda>(_, v). diamonds v) rs))"

lemma combo_packet_time: "combo_packet k op = Some (t, q) \<Longrightarrow> \<exists>e c. op = Observe t e c"
  by (auto simp: combo_packet_def split: totals_op.splits canonical_event.splits if_splits)

lemma combo_times_simps [simp]:
  "combo_times k [] = []"
  "combo_times k (op # ops) =
     (case combo_packet k op of None \<Rightarrow> combo_times k ops | Some (t, _) \<Rightarrow> t # combo_times k ops)"
  by (auto simp: combo_times_def List.map_filter_def split: option.split)

lemma combo_reports_simps [simp]:
  "combo_reports k [] vs = []"
  "combo_reports k (op # ops) (v # vs) =
     (case combo_packet k op of
        None \<Rightarrow> combo_reports k ops vs
      | Some (_, q) \<Rightarrow> if v = NullTotals then combo_reports k ops vs else (q, v) # combo_reports k ops vs)"
  by (auto simp: combo_reports_def List.map_filter_def split: option.split)

lemma credited_simps [simp]:
  "credited [] = (0, 0)"
  "credited ((q, v) # rs) = (increment v + fst (credited rs), diamonds v + snd (credited rs))"
  by (simp_all add: credited_def)

lemma combo_times_events: "set (combo_times k ops) \<subseteq> set (event_times ops)"
proof (induction ops)
  case (Cons op ops)
  then show ?case by (cases op) (auto dest: combo_packet_time split: option.splits)
qed simp

lemma combo_reports_none:
  assumes "combo_times k ops = []" and "length vs = length ops"
  shows "combo_reports k ops vs = []"
  using assms(2,1) by (induction vs ops rule: list_induct2) (auto split: option.splits)

lemma totals_run_length: "totals_run ops s = Ret (vs, s') \<Longrightarrow> length vs = length ops"
  by (induction ops arbitrary: s vs) (auto simp: run_bind_eq_Ret split: prod.splits)

text \<open>The account is young enough for the next packet of its combo.\<close>

definition combo_young :: "live_totals \<Rightarrow> live_combo_key \<Rightarrow> nat list \<Rightarrow> bool" where
  "combo_young s k ts \<longleftrightarrow>
     (case hm_get (lt_combos s) k of
        None \<Rightarrow> True
      | Some (_, _, at) \<Rightarrow> (case ts of [] \<Rightarrow> True | t # _ \<Rightarrow> t - at < retention))"

lemma combo_run:
  assumes "totals_inv s" and "totals_run ops s = Ret (vs, s')" and "sorted (event_times ops)"
    and "combo_young s k (combo_times k ops)"
    and "successively (\<lambda>a b. b - a < retention) (combo_times k ops)"
  shows "(fst (combo_account s k) + fst (credited (combo_reports k ops vs)),
      snd (combo_account s k) + snd (credited (combo_reports k ops vs))) =
    fold combo_advance (map fst (combo_reports k ops vs)) (combo_account s k)"
  using assms
proof (induction ops arbitrary: s vs)
  case Nil
  then show ?case by simp
next
  case (Cons op ops)
  show ?case
  proof (cases "combo_times k (op # ops) = []")
    case True
    then have "combo_reports k (op # ops) vs = []"
      using totals_run_length [OF Cons.prems(2)] by (intro combo_reports_none)
    then show ?thesis by simp
  next
    case some: False
    obtain v s1 ws where step: "totals_step op s = Ret (v, s1)" and rest: "totals_run ops s1 = Ret (ws, s')"
      and vs: "vs = v # ws"
      using Cons.prems(2) by (auto simp: run_bind_eq_Ret split: prod.splits)
    have inv1: "totals_inv s1" using totals_step_inv [OF Cons.prems(1), of op] step by auto
    have sorted1: "sorted (event_times ops)" using Cons.prems(3) by (cases op) simp_all
    show ?thesis
    proof (cases "combo_packet k op")
      case None
      then obtain t ts where times: "combo_times k ops = t # ts" using some by (cases "combo_times k ops") auto
      have same: "hm_get (lt_combos s1) k = hm_get (lt_combos s) k"
      proof (rule ccontr)
        assume "hm_get (lt_combos s1) k \<noteq> hm_get (lt_combos s) k"
        then obtain now e c u p at where op: "op = Observe now e c"
          and get: "hm_get (lt_combos s) k = Some (u, p, at)" and old: "retention \<le> now - at"
          using combo_skip [OF Cons.prems(1) step None] by blast
        have "t \<in> set (event_times ops)" using combo_times_events [of k ops] times by simp
        then have "now \<le> t" using Cons.prems(3) op by simp
        moreover have "t - at < retention" using Cons.prems(4) None times get by (simp add: combo_young_def)
        ultimately show False using old by simp
      qed
      have "combo_young s1 k (combo_times k ops)" using Cons.prems(4) None same by (simp add: combo_young_def)
      moreover have "successively (\<lambda>a b. b - a < retention) (combo_times k ops)" using Cons.prems(5) None by simp
      moreover have "combo_account s1 k = combo_account s k" using same by (simp add: combo_account_def)
      ultimately show ?thesis using Cons.IH [OF inv1 rest sorted1] None vs by simp
    next
      case (Some packet)
      then obtain now q price where packet: "combo_packet k op = Some (now, q, price)" by (cases packet) auto
      have young: "\<forall>u p at. hm_get (lt_combos s) k = Some (u, p, at) \<longrightarrow> now - at < retention"
        using Cons.prems(4) packet by (auto simp: combo_young_def)
      have gaps: "successively (\<lambda>a b. b - a < retention) (combo_times k ops)"
        using Cons.prems(5) packet by (auto simp: successively_Cons)
      from combo_count [OF Cons.prems(1) step packet young]
      show ?thesis
      proof (elim disjE conjE exE)
        assume "v = NullTotals" "hm_get (lt_combos s) k = None" "hm_get (lt_combos s1) k = None"
        then show ?thesis using Cons.IH [OF inv1 rest sorted1 _ gaps] packet vs
          by (simp add: combo_young_def combo_account_def)
      next
        fix inc cum dia u p
        assume v: "v = GiftTotals inc cum dia"
          and acc: "(fst (combo_account s k) + inc, snd (combo_account s k) + dia) =
            combo_advance (q, price) (combo_account s k)"
          and get: "hm_get (lt_combos s1) k = Some (u, p, now)"
          and adv: "combo_advance (q, price) (combo_account s k) = (u, p)"
        have acc1: "combo_account s1 k = (u, p)" using get by (simp add: combo_account_def)
        have "combo_young s1 k (combo_times k ops)"
          using get Cons.prems(5) packet by (auto simp: combo_young_def successively_Cons split: list.split)
        from Cons.IH [OF inv1 rest sorted1 this gaps] acc acc1 adv packet vs v
        show ?thesis by (simp add: add.assoc [symmetric])
      qed
    qed
  qed
qed

lemma fold_advance_units: "fst (fold combo_advance qs a) = fold max (map fst qs) (fst a)"
  by (induction qs arbitrary: a) (simp_all add: combo_advance_def max.commute)

lemma saturating_mul_mono: "m \<le> n \<Longrightarrow> saturating_mul m p \<le> saturating_mul n p"
  unfolding saturating_mul_def by (intro min.mono mult_right_mono) simp_all

lemma combo_advance_price:
  "combo_advance (q, p) (u, saturating_mul u p) = (max u q, saturating_mul (max u q) p)"
  using saturating_mul_mono [of u "max u q" p] by (simp add: combo_advance_def max_absorb2)

lemma fold_advance_price:
  "(\<forall>q \<in> set qs. snd q = p) \<Longrightarrow>
   snd (fold combo_advance qs (u, saturating_mul u p)) = saturating_mul (fst (fold combo_advance qs (u, saturating_mul u p))) p"
proof (induction qs arbitrary: u)
  case (Cons q qs)
  obtain n where "q = (n, p)" using Cons.prems by (cases q) simp
  then show ?case using Cons.IH [of "max u n"] Cons.prems by (simp add: combo_advance_price)
qed simp

text \<open>
  C34. A gift combo is credited exactly once: when its packets arrive within the retention window of
  each other, in any order, repeated, or mixed with other events, the increments reported for the
  packets that were counted add up to the largest quantity any of them showed; and when they all
  carry the same price, the credited diamonds are that quantity times the price, cut off at 64 bits.
\<close>

theorem live_combo_exact:
  assumes before: "totals_run ops\<^sub>0 totals_default = Ret (vs\<^sub>0, s\<^sub>0)" and fresh: "hm_get (lt_combos s\<^sub>0) k = None"
    and run: "totals_run ops s\<^sub>0 = Ret (vs, s)" and clock: "sorted (event_times ops)"
    and gaps: "successively (\<lambda>a b. b - a < retention) (combo_times k ops)"
  shows "fst (credited (combo_reports k ops vs)) =
      Max (insert 0 (set (map (fst \<circ> fst) (combo_reports k ops vs)))) \<and>
    (\<forall>price. (\<forall>r \<in> set (combo_reports k ops vs). snd (fst r) = price) \<longrightarrow>
       snd (credited (combo_reports k ops vs)) =
       saturating_mul (fst (credited (combo_reports k ops vs))) price)"
proof -
  let ?R = "combo_reports k ops vs"
  have inv: "totals_inv s\<^sub>0" using totals_session [of ops\<^sub>0] before by auto
  have "combo_young s\<^sub>0 k (combo_times k ops)" using fresh by (simp add: combo_young_def)
  from combo_run [OF inv run clock this gaps] fresh
  have eq: "credited ?R = fold combo_advance (map fst ?R) (0, 0)" by (simp add: combo_account_def)
  have "fst (credited ?R) = fold max (map (fst \<circ> fst) ?R) 0"
    unfolding eq by (simp add: fold_advance_units)
  also have "\<dots> = Max (insert 0 (set (map (fst \<circ> fst) ?R)))"
    by (metis Max.set_eq_fold list.simps(15))
  finally have units: "fst (credited ?R) = Max (insert 0 (set (map (fst \<circ> fst) ?R)))" .
  have "snd (credited ?R) = saturating_mul (fst (credited ?R)) price"
    if "\<forall>r \<in> set ?R. snd (fst r) = price" for price
  proof -
    have "(0, 0) = (0::u64, saturating_mul 0 price)" by (simp add: saturating_mul_def)
    then show ?thesis using fold_advance_price [of "map fst ?R" price 0] that unfolding eq by simp
  qed
  with units show ?thesis by blast
qed

definition sample_gift :: "nat \<Rightarrow> u64 \<Rightarrow> totals_op" where
  "sample_gift now n =
     Observe now
       (sample_event (Gift \<lparr>gv_user = sample_user 7, gv_gift_id = 5, gv_group_id = 9, gv_repeat_count = n,
          gv_combo_count = 0, gv_diamond_count = 2, gv_gift_name = ''Rose'',
          gv_gift_image_url = None\<rparr>)) (Some sample_context)"

definition sample_combo :: "totals_op list" where
  "sample_combo = [sample_gift 10 3, sample_gift 20 8, sample_gift 30 5, sample_gift 40 8]"

definition sample_combo_key :: live_combo_key where
  "sample_combo_key = (''creator'', ''room'', 7, 5, 9)"

definition sample_credits :: "totals_value list" where
  "sample_credits = [GiftTotals 3 3 6, GiftTotals 5 8 10, GiftTotals 0 8 0, GiftTotals 0 8 0]"

lemmas sample_combo_defs = sample_combo_def sample_gift_def sample_event_def sample_user_def sample_combo_key_def
  gift_quantity_def gift_price_def gift_diamond_count_def combo_evidence_def combo_key_of_def sample_step_fields

lemma sample_combo_run: "\<exists>s. totals_run sample_combo totals_default = Ret (sample_credits, s)"
  by (simp add: sample_combo_defs sample_credits_def totals_step_def totals_observe_def observe_gift_def
      totals_default_def Let_def retained_def hm_has_keys hm_get_or_def saturating_mul_def u64_max_def
      totals_capacity_def retention_def second_def)

lemma sample_combo_packets:
  "combo_times sample_combo_key sample_combo = [10, 20, 30, 40]"
  "combo_reports sample_combo_key sample_combo sample_credits =
     zip [(3, 2), (8, 2), (5, 2), (8, 2)] sample_credits"
  by (simp_all add: sample_combo_defs sample_credits_def combo_packet_def)

theorem live_combo_exact_witness:
  "\<exists>s. totals_run sample_combo totals_default = Ret (sample_credits, s) \<and>
     credited (combo_reports sample_combo_key sample_combo sample_credits) = (8, 16)"
proof -
  obtain s where run: "totals_run sample_combo totals_default = Ret (sample_credits, s)"
    using sample_combo_run by blast
  have before: "totals_run [] totals_default = Ret ([], totals_default)" by simp
  have fresh: "hm_get (lt_combos totals_default) sample_combo_key = None" by (simp add: totals_default_def)
  have clock: "sorted (event_times sample_combo)" by (simp add: sample_combo_def sample_gift_def)
  have gaps: "successively (\<lambda>a b. b - a < retention) (combo_times sample_combo_key sample_combo)"
    by (simp add: sample_combo_packets retention_def second_def)
  let ?R = "combo_reports sample_combo_key sample_combo sample_credits"
  note exact = live_combo_exact [OF before fresh run clock gaps]
  have "Max (insert 0 (set (map (fst \<circ> fst) ?R))) = 8" "\<forall>r \<in> set ?R. snd (fst r) = 2"
    unfolding sample_combo_packets(2) by (simp_all add: sample_credits_def)
  then have "fst (credited ?R) = 8" "snd (credited ?R) = saturating_mul 8 2" using exact by metis+
  then show ?thesis using run by (simp add: prod_eq_iff saturating_mul_def u64_max_def)
qed

end
