(* ===== verification/Live_Session.thy ===== *)
theory Live_Session
  imports Live_Admission Live_Guarantees Ranking_Guarantees
begin

text \<open>
  The LIVE stream as a whole: any interleaving of connections, deliveries, shed events and receiver
  lags, driven through the replay guard, the counters and the rankings. The guarantees combine those
  of the three components.
\<close>

section \<open>Sessions\<close>

datatype host_op =
    Connect live_context
  | Deliver nat u64 live_event
  | Shed u64 live_event
  | Lag u64 u64

text \<open>The journal lists the identities that were admitted, with the time of their admission.\<close>

fun host_step :: "live_api \<Rightarrow> host_op \<Rightarrow> live_host \<times> journal \<Rightarrow> (live_host \<times> journal) run" where
  "host_step api (Connect c) (h, J) = Ret (handle_connected c h, J)"
| "host_step api (Deliver now millis e) (h, J) =
     run_bind (prepare_live_event api now millis e h) (\<lambda>(v, h1).
       Ret (h1, if v = None \<or> le_msg_id e = 0 then J else J @ [(dedup_key (lh_dedup h) e, now)]))"
| "host_step api (Shed millis e) (h, J) = Ret (shed_event millis e h, J)"
| "host_step api (Lag millis n) (h, J) = Ret (receiver_lagged millis n h, J)"

fun host_run :: "live_api \<Rightarrow> host_op list \<Rightarrow> live_host \<times> journal \<Rightarrow> (live_host \<times> journal) run" where
  "host_run api [] p = Ret p"
| "host_run api (op # ops) p = run_bind (host_step api op p) (host_run api ops)"

text \<open>What a step is for the guard.\<close>

fun guard_ops :: "host_op \<Rightarrow> dedup_op list" where
  "guard_ops (Connect c) = [SetScope (lc_unique_id c) (lc_room_id c)]"
| "guard_ops (Deliver now _ e) = [Check now e]"
| "guard_ops _ = []"

definition host_times :: "host_op list \<Rightarrow> nat list" where
  "host_times ops = op_times (concat (map guard_ops ops))"

section \<open>The invariant\<close>

definition host_inv :: "live_host \<Rightarrow> bool" where
  "host_inv h \<longleftrightarrow> totals_inv (lh_totals h) \<and> engine_inv (lh_engine h)"

lemma ranking_input_inv:
  assumes "engine_inv eng"
  shows "\<exists>i eng1. ranking_input api e v c eng = Ret (i, eng1) \<and> engine_inv eng1"
proof -
  have gap: "\<exists>eng1. mark_gap cr rm s eng = Ret eng1 \<and> engine_inv eng1" for cr rm s
    using mark_gap_spec [OF assms] by blast
  have metric: "\<exists>eng1. mark_metric_gap cr rm s m eng = Ret eng1 \<and> engine_inv eng1" for cr rm s m
    using engine_inv_metric_gap [OF assms] by blast
  have "\<exists>i eng1. gift_input e g inc dia c eng = Ret (i, eng1) \<and> engine_inv eng1" for g inc dia
    using gap [of "lc_unique_id c" "lc_room_id c" "''tiktok.gift''"]
      metric [of "lc_unique_id c" "lc_room_id c" "''tiktok.gift''" "''gift.diamonds''"] assms
    by (auto simp: gift_input_def Let_def)
  then show ?thesis using assms
    by (auto simp: ranking_input_def Let_def split: canonical_event.split totals_value.split)
qed

lemma record_ranking_inv:
  assumes "engine_inv eng"
  shows "\<exists>eng1. record_ranking api millis e v c eng = Ret eng1 \<and> engine_inv eng1"
proof -
  obtain i eng1 where i: "ranking_input api e v c eng = Ret (i, eng1)" and inv: "engine_inv eng1"
    using ranking_input_inv [OF assms] by blast
  show ?thesis
    using i inv mark_gap_spec [OF inv, of "lc_unique_id c" "lc_room_id c" "rin_source i"]
      engine_inv_apply [OF inv, of "input_contribution c i" millis "user_metadata api e" "gift_entry_metadata api e"]
    by (auto simp: record_ranking_def aggregations_observe_def)
qed

lemma totals_observe_inv:
  assumes "totals_inv t"
  shows "\<exists>v t1. totals_observe now e c t = Ret (v, t1) \<and> totals_inv t1"
  using totals_step_inv [OF assms, of "Observe now e c"] by (simp add: totals_step_def)

lemma ingress_loss_inv: "totals_inv t \<Longrightarrow> totals_inv (mark_like_ingress_loss c t)"
  using totals_step_inv [of t "IngressLoss c"] by (simp add: totals_step_def)

lemma prepare_live_event_inv:
  assumes inv: "host_inv h"
  shows "\<exists>v h1. prepare_live_event api now millis e h = Ret (v, h1) \<and> host_inv h1 \<and>
    (lh_dedup h1, v = None) = (snd (check_duplicate now e (lh_dedup h)), fst (check_duplicate now e (lh_dedup h))) \<and>
    lh_context h1 = lh_context h"
proof -
  obtain dup d where check: "check_duplicate now e (lh_dedup h) = (dup, d)" by force
  obtain v t where t: "totals_observe now e (lh_context h) (lh_totals h) = Ret (v, t)" "totals_inv t"
    using inv totals_observe_inv host_inv_def by blast
  have einv: "engine_inv (lh_engine h)" using inv by (simp add: host_inv_def)
  obtain eng where eng: "(case lh_context h of None \<Rightarrow> Ret (lh_engine h)
      | Some c \<Rightarrow> record_ranking api millis e v c (lh_engine h)) = Ret eng" "engine_inv eng"
  proof (cases "lh_context h")
    case None
    then show ?thesis using that einv by simp
  next
    case (Some c)
    then show ?thesis using that record_ranking_inv [OF einv, of api millis e v c] by auto
  qed
  obtain eng2 where eng2: "(case lh_context h of None \<Rightarrow> Ret eng
      | Some c \<Rightarrow> mark_gap (lc_unique_id c) (lc_room_id c) ''tiktok.gift'' eng) = Ret eng2" "engine_inv eng2"
  proof (cases "lh_context h")
    case None
    then show ?thesis using that eng by simp
  next
    case (Some c)
    then show ?thesis using that mark_gap_spec [OF eng(2), of "lc_unique_id c" "lc_room_id c" "''tiktok.gift''"] by auto
  qed
  show ?thesis
  proof (cases dup)
    case True
    then show ?thesis using check inv by (simp add: prepare_live_event_def host_inv_def)
  next
    case False
    then show ?thesis using check t eng eng2
      by (cases "v = NullTotals \<and> is_gift e")
        (auto simp: prepare_live_event_def host_inv_def record_event_gap_def Let_def)
  qed
qed

lemma host_step_inv:
  assumes inv: "host_inv h"
  shows "\<exists>h1 J1. host_step api op (h, J) = Ret (h1, J1) \<and> host_inv h1 \<and>
    (lh_dedup h1, J1) = dedup_run (guard_ops op) (lh_dedup h, J)"
proof (cases op)
  case (Deliver now millis e)
  obtain v h1 where "prepare_live_event api now millis e h = Ret (v, h1)" "host_inv h1"
    "(lh_dedup h1, v = None) = (snd (check_duplicate now e (lh_dedup h)), fst (check_duplicate now e (lh_dedup h)))"
    using prepare_live_event_inv [OF inv] by blast
  then show ?thesis using Deliver
    by (cases "check_duplicate now e (lh_dedup h)") (auto simp: dedup_run_def)
next
  case (Shed millis e)
  then show ?thesis using inv ingress_loss_inv engine_inv_ingress_loss
    by (simp add: host_inv_def shed_event_def Let_def record_event_gap_def dedup_run_def split: canonical_event.split)
next
  case (Lag millis n)
  then show ?thesis using inv ingress_loss_inv engine_inv_ingress_loss
    by (simp add: host_inv_def receiver_lagged_def record_event_gap_def dedup_run_def)
qed (use inv in \<open>simp add: handle_connected_def host_inv_def dedup_run_def\<close>)

lemma host_run_inv:
  assumes "host_inv h"
  shows "\<exists>h1 J1. host_run api ops (h, J) = Ret (h1, J1) \<and> host_inv h1 \<and>
    (lh_dedup h1, J1) = dedup_run (concat (map guard_ops ops)) (lh_dedup h, J)"
  using assms
proof (induction ops arbitrary: h J)
  case Nil
  then show ?case by (simp add: dedup_run_def)
next
  case (Cons op ops)
  obtain h1 J1 where step: "host_step api op (h, J) = Ret (h1, J1)" "host_inv h1"
    "(lh_dedup h1, J1) = dedup_run (guard_ops op) (lh_dedup h, J)"
    using host_step_inv [OF Cons.prems] by blast
  from Cons.IH [OF step(2), of J1] step(1,3) show ?case
    by (auto simp: dedup_run_def)
qed

lemma host_inv_new: "engine_inv e \<Longrightarrow> host_inv (live_host_new e)"
  by (simp add: host_inv_def live_host_new_def totals_inv_default)

section \<open>Guarantees\<close>

text \<open>
  C35. A LIVE session never aborts, and a replay has no effect: after any connections, deliveries,
  shed events and lags, a message whose identity is among the newest 4096 admissions of the last
  five minutes is dropped, and the counters, the like totals, the rankings and the gap counters are
  left exactly as they were; every other message is admitted.
\<close>

theorem replay_has_no_effect:
  assumes inv: "engine_inv eng" and clock: "sorted (host_times ops @ [now])"
  shows "\<exists>h J. host_run api ops (live_host_new eng, []) = Ret (h, J) \<and> engine_inv (lh_engine h) \<and>
    (if le_msg_id e \<noteq> 0 \<and>
        dedup_key (lh_dedup h) e \<in> fst ` set (newest 4096 (filter (alive (300 * second) now) J))
     then \<exists>d. prepare_live_event api now millis e h = Ret (None, h\<lparr>lh_dedup := d\<rparr>) \<and> dedup_log d = dedup_log (lh_dedup h)
     else \<exists>v h1. prepare_live_event api now millis e h = Ret (Some v, h1) \<and> engine_inv (lh_engine h1))"
proof -
  obtain h J where run: "host_run api ops (live_host_new eng, []) = Ret (h, J)" and h: "host_inv h"
    and guard: "(lh_dedup h, J) = dedup_run (concat (map guard_ops ops)) (dedup_new 4096 (300 * second), [])"
    using host_run_inv [OF host_inv_new [OF inv], of api ops "[]"]
    by (auto simp: live_host_new_def dedup_default_def)
  note ok = journal_ok_run [OF journal_ok_new, of "concat (map guard_ops ops)" now 4096 "300 * second",
      folded guard, simplified]
  have jok: "journal_ok 4096 (300 * second) now (lh_dedup h, J)"
    using ok clock by (simp add: host_times_def)
  note verdict = journal_ok_verdict [OF jok, of e]
  obtain v h1 where p: "prepare_live_event api now millis e h = Ret (v, h1)" and h1: "host_inv h1"
    and d: "(lh_dedup h1, v = None) = (snd (check_duplicate now e (lh_dedup h)), fst (check_duplicate now e (lh_dedup h)))"
    using prepare_live_event_inv [OF h] by blast
  show ?thesis
  proof (cases "fst (check_duplicate now e (lh_dedup h))")
    case True
    obtain dd where check: "check_duplicate now e (lh_dedup h) = (True, dd)" using True by (cases "check_duplicate now e (lh_dedup h)") simp
    have "dedup_log dd = dedup_log (lh_dedup h)"
      using check by (auto simp: check_duplicate_def dedup_log_def Let_def split: if_splits option.splits)
    then show ?thesis using run h verdict True check
      by (intro exI [of _ h] exI [of _ J]) (auto simp: host_inv_def prepare_live_event_def)
  next
    case False
    then obtain w where "v = Some w" using d by auto
    then show ?thesis using run h verdict False p h1
      by (intro exI [of _ h] exI [of _ J]) (auto simp: host_inv_def)
  qed
qed

definition sample_api :: live_api where
  "sample_api = \<lparr>la_classify = (\<lambda>_. OtherSocial), la_user = (\<lambda>_. None), la_valid_url = (\<lambda>_. True)\<rparr>"

definition sample_delivery :: "host_op list" where
  "sample_delivery = [Deliver 10 1000 (sample_chat 41)]"

theorem replay_has_no_effect_witness:
  "\<exists>h J d. host_run sample_api sample_delivery (live_host_new engine_default, []) = Ret (h, J) \<and>
     prepare_live_event sample_api 20 2000 (sample_chat 41) h = Ret (None, h\<lparr>lh_dedup := d\<rparr>)"
proof -
  have clock: "sorted (host_times sample_delivery @ [20])" by (simp add: host_times_def sample_delivery_def)
  obtain h J where run: "host_run sample_api sample_delivery (live_host_new engine_default, []) = Ret (h, J)"
    and guard: "(lh_dedup h, J) = dedup_run (concat (map guard_ops sample_delivery)) (dedup_default, [])"
    using host_run_inv [OF host_inv_new [OF engine_inv_default], of sample_api sample_delivery "[]"]
    by (auto simp: live_host_new_def)
  have dj: "lh_dedup h = fst (dedup_run (concat (map guard_ops sample_delivery)) (dedup_default, []))"
    "J = snd (dedup_run (concat (map guard_ops sample_delivery)) (dedup_default, []))"
    by (simp_all add: guard [symmetric])
  have J: "J = [(([], [], ''Chat'', 1, 41), 10)]" "dd_scope (lh_dedup h) = None"
    unfolding dj by (simp_all add: sample_delivery_def dedup_run_def dedup_default_def dedup_new_def
        check_duplicate_def sample_chat_def dedup_key_def admit_def Let_def)
  have "dedup_key (lh_dedup h) (sample_chat 41) \<in> fst ` set (newest 4096 (filter (alive (300 * second) 20) J))"
    "le_msg_id (sample_chat 41) \<noteq> 0"
    by (simp_all add: J dedup_key_def sample_chat_def newest_def alive_def second_def)
  then show ?thesis
    using replay_has_no_effect [OF engine_inv_default clock, of sample_api "sample_chat 41" 2000] run by auto
qed

text \<open>What a gap mark does to a ranking: it degrades the rankings concerned and no score.\<close>

lemma reject_and_touch_scores: "scores_of (rk_state (reject_and_touch r)) = scores_of (rk_state r)"
  by (simp add: reject_and_touch_def)

lemma reject_and_touch_rejected: "0 < rk_rejected (reject_and_touch r)"
  by (simp add: reject_and_touch_def saturating_add_pos)

definition marked_only :: "ranking \<Rightarrow> ranking \<Rightarrow> bool" where
  "marked_only r r1 \<longleftrightarrow>
     scores_of (rk_state r1) = scores_of (rk_state r) \<and> rk_definition r1 = rk_definition r \<and>
     rk_paused r1 = rk_paused r \<and> (0 < rk_rejected r \<longrightarrow> 0 < rk_rejected r1)"

lemma marked_only_refl [simp]: "marked_only r r"
  by (simp add: marked_only_def)

lemma marked_only_trans: "marked_only r r1 \<Longrightarrow> marked_only r1 r2 \<Longrightarrow> marked_only r r2"
  by (auto simp: marked_only_def)

lemma marked_only_reject: "marked_only r (reject_and_touch r)"
  by (simp add: marked_only_def reject_and_touch_def saturating_add_pos)

definition listens :: "live_context \<Rightarrow> string \<Rightarrow> ranking \<Rightarrow> bool" where
  "listens c source r =
     gap_affects (lc_unique_id c) (lc_room_id c) source (\<lambda>rule. sr_enabled rule \<and> sr_source rule = source) r"

lemma listens_marked: "marked_only r r1 \<Longrightarrow> listens c source r1 = listens c source r"
  by (simp add: marked_only_def listens_def gap_affects_def)

text \<open>Every ranking of the engine is only marked, and those that listen to the source are degraded.\<close>

definition engine_marked :: "live_context \<Rightarrow> string option \<Rightarrow> engine \<Rightarrow> engine \<Rightarrow> bool" where
  "engine_marked c source e e1 \<longleftrightarrow>
     (\<forall>rid r. hm_get (en_rankings e) rid = Some r \<longrightarrow>
        (\<exists>r1. hm_get (en_rankings e1) rid = Some r1 \<and> marked_only r r1 \<and>
          (\<forall>s. source = Some s \<longrightarrow> listens c s r \<longrightarrow> 0 < rk_rejected r1)))"

lemma engine_marked_refl: "engine_marked c None e e"
  by (simp add: engine_marked_def)

lemma engine_marked_get:
  assumes "engine_marked c source e e1" and "hm_get (en_rankings e) rid = Some r"
  obtains r1 where "hm_get (en_rankings e1) rid = Some r1" and "marked_only r r1"
    and "\<And>s. source = Some s \<Longrightarrow> listens c s r \<Longrightarrow> 0 < rk_rejected r1"
  using assms unfolding engine_marked_def by blast

lemma engine_marked_then:
  assumes a: "engine_marked c None e e1" and b: "engine_marked c source e1 e2"
  shows "engine_marked c source e e2"
  unfolding engine_marked_def
proof (intro allI impI)
  fix rid r
  assume r: "hm_get (en_rankings e) rid = Some r"
  obtain r1 where r1: "hm_get (en_rankings e1) rid = Some r1" "marked_only r r1"
    using engine_marked_get [OF a r] by blast
  obtain r2 where r2: "hm_get (en_rankings e2) rid = Some r2" "marked_only r1 r2"
    "\<And>s. source = Some s \<Longrightarrow> listens c s r1 \<Longrightarrow> 0 < rk_rejected r2"
    using engine_marked_get [OF b r1(1)] by blast
  have "0 < rk_rejected r2" if "source = Some s" and "listens c s r" for s
    using r2(3) [OF that(1)] that(2) listens_marked [OF r1(2)] by simp
  then show "\<exists>r2. hm_get (en_rankings e2) rid = Some r2 \<and> marked_only r r2 \<and>
      (\<forall>s. source = Some s \<longrightarrow> listens c s r \<longrightarrow> 0 < rk_rejected r2)"
    using r2(1) marked_only_trans [OF r1(2) r2(2)] by blast
qed

lemma engine_marked_weaken: "engine_marked c (Some s) e e1 \<Longrightarrow> engine_marked c None e e1"
  unfolding engine_marked_def by blast

lemma mark_gap_marked:
  assumes "engine_inv e" and "mark_gap (lc_unique_id c) (lc_room_id c) source e = Ret e1"
  shows "engine_marked c (Some source) e e1"
proof -
  from mark_gap_spec [OF assms(1), of "lc_unique_id c" "lc_room_id c" source] assms(2)
  have each: "\<forall>rid r. hm_get (en_rankings e) rid = Some r \<longrightarrow>
      hm_get (en_rankings e1) rid = Some (if listens c source r then reject_and_touch r else r)"
    by (auto simp: listens_def)
  then show ?thesis using marked_only_reject reject_and_touch_rejected
    unfolding engine_marked_def by fastforce
qed

lemma marked_pointwise:
  assumes "\<forall>rid r. hm_get (en_rankings e) rid = Some r \<longrightarrow>
    hm_get (en_rankings e1) rid = Some (if Q r then reject_and_touch r else r)"
  shows "engine_marked c None e e1"
  using assms marked_only_reject unfolding engine_marked_def by fastforce

lemma mark_metric_gap_marked:
  assumes inv: "engine_inv e" and run: "mark_metric_gap creator rm source metric e = Ret e1"
  shows "engine_marked c None e e1"
proof (cases "hm_get (en_by_source e) source")
  case None
  then show ?thesis using run by (simp add: mark_metric_gap_def engine_marked_refl)
next
  case (Some ids)
  let ?P = "gap_affects creator rm source
      (\<lambda>rule. sr_enabled rule \<and> sr_weight rule > 0 \<and> sr_source rule = source \<and> sr_metric rule = metric)"
  obtain rs where rs: "mark_where ?P ids (en_rankings e) = Ret rs"
    and each: "\<forall>rid r. hm_get (en_rankings e) rid = Some r \<longrightarrow>
       hm_get rs rid = Some (if uses_source (rk_definition r) source \<and> ?P r then reject_and_touch r else r)"
    using mark_where_engine [OF inv Some, of ?P] by (elim exE conjE) (rule that)
  have "e1 = e\<lparr>en_rankings := rs\<rparr>" using run Some rs by (simp add: mark_metric_gap_def)
  then show ?thesis using each by (intro marked_pointwise [where Q = "\<lambda>r. uses_source (rk_definition r) source \<and> ?P r"]) simp
qed

text \<open>The source an event belongs to, empty for events no ranking counts.\<close>

definition event_source :: "live_api \<Rightarrow> live_event \<Rightarrow> string" where
  "event_source api e =
     (case le_base e of
        Like _ \<Rightarrow> ''tiktok.like''
      | Gift _ \<Rightarrow> ''tiktok.gift''
      | Social _ action \<Rightarrow>
          (case la_classify api action of Share \<Rightarrow> ''tiktok.share'' | Follow \<Rightarrow> ''tiktok.follow''
           | OtherSocial \<Rightarrow> ''tiktok.social'')
      | Chat _ \<Rightarrow> ''tiktok.chat''
      | EmoteChat _ \<Rightarrow> ''tiktok.chat''
      | Member _ \<Rightarrow> ''tiktok.join''
      | RoomUser \<Rightarrow> []
      | Unknown \<Rightarrow> [])"

lemma ranking_input_marked:
  assumes inv: "engine_inv eng" and run: "ranking_input api e v c eng = Ret (i, eng1)"
  shows "engine_inv eng1 \<and> engine_marked c None eng eng1 \<and>
    (rin_source i = event_source api e \<or>
     rin_source i = [] \<and> is_gift e \<and> (v = NullTotals \<or> (\<exists>g u. v = LikeTotals g u) \<or> engine_marked c (Some ''tiktok.gift'') eng eng1))"
proof (cases "le_base e")
  case (Gift g)
  have gift: ?thesis if "gift_input e g inc dia c eng = Ret (i, eng1)" for inc dia
  proof (cases "ambiguous_streak e g")
    case True
    then have "mark_gap (lc_unique_id c) (lc_room_id c) ''tiktok.gift'' eng = Ret eng1" "rin_source i = []"
      using that by (auto simp: gift_input_def run_bind_eq_Ret no_input_def)
    moreover have "engine_inv eng1" using mark_gap_spec [OF inv, of "lc_unique_id c" "lc_room_id c" "''tiktok.gift''"]
      calculation by auto
    moreover have "engine_marked c (Some ''tiktok.gift'') eng eng1" using mark_gap_marked [OF inv] calculation by blast
    ultimately show ?thesis using engine_marked_weaken Gift by (simp add: is_gift_def)
  next
    case False
    have "eng1 = eng \<or> mark_metric_gap (lc_unique_id c) (lc_room_id c) ''tiktok.gift'' ''gift.diamonds'' eng = Ret eng1"
      and src: "rin_source i = ''tiktok.gift''"
      using that False by (auto simp: gift_input_def Let_def run_bind_eq_Ret split: if_splits)
    then have "engine_inv eng1 \<and> engine_marked c None eng eng1"
      using inv mark_metric_gap_marked [OF inv] engine_marked_refl
        engine_inv_metric_gap [OF inv, of "lc_unique_id c" "lc_room_id c" "''tiktok.gift''" "''gift.diamonds''"] by auto
    then show ?thesis using src Gift by (simp add: event_source_def)
  qed
  show ?thesis
  proof (cases v)
    case (GiftTotals inc cum dia)
    then show ?thesis using gift run Gift by (simp add: ranking_input_def)
  qed (use run Gift inv engine_marked_refl in \<open>auto simp: ranking_input_def no_input_def is_gift_def\<close>)
qed (use run inv engine_marked_refl in
    \<open>auto simp: ranking_input_def plain_input_def no_input_def event_source_def split: social_kind.split\<close>)

lemma record_ranking_marked:
  assumes inv: "engine_inv eng" and run: "record_ranking api millis e v c eng = Ret eng1" and un: "unproven e"
  shows "engine_inv eng1 \<and> engine_marked c None eng eng1 \<and>
    (event_source api e = [] \<or> v = NullTotals \<and> is_gift e \<or> (\<exists>g u. v = LikeTotals g u) \<and> is_gift e \<or>
     engine_marked c (Some (event_source api e)) eng eng1)"
proof -
  obtain i eng0 where i: "ranking_input api e v c eng = Ret (i, eng0)"
    and rest: "(if rin_source i = [] then Ret eng0
       else mark_gap (lc_unique_id c) (lc_room_id c) (rin_source i) eng0) = Ret eng1"
    using run un by (auto simp: record_ranking_def run_bind_eq_Ret split: if_splits)
  note m = ranking_input_marked [OF inv i]
  have inv0: "engine_inv eng0" and none: "engine_marked c None eng eng0" using m by simp_all
  show ?thesis
  proof (cases "rin_source i = []")
    case True
    then have "eng1 = eng0" using rest by simp
    moreover have "is_gift e \<Longrightarrow> event_source api e = ''tiktok.gift''"
      by (simp add: is_gift_def event_source_def split: canonical_event.splits)
    ultimately show ?thesis using m True by metis
  next
    case False
    then have gap: "mark_gap (lc_unique_id c) (lc_room_id c) (rin_source i) eng0 = Ret eng1" using rest by simp
    have "engine_marked c (Some (rin_source i)) eng eng1"
      using engine_marked_then [OF none mark_gap_marked [OF inv0 gap]] .
    moreover have "engine_inv eng1"
      using mark_gap_spec [OF inv0, of "lc_unique_id c" "lc_room_id c" "rin_source i"] gap by auto
    moreover have "rin_source i = event_source api e" using m False by blast
    ultimately show ?thesis using engine_marked_weaken by metis
  qed
qed

lemma gift_totals: "le_base e = Gift g \<Longrightarrow> totals_observe now e c t = Ret (v, t1) \<Longrightarrow> \<nexists>x u. v = LikeTotals x u"
  by (auto simp: totals_observe_def Let_def elim: observe_gift_cases)

lemma prepare_admitted:
  assumes conn: "lh_context h = Some c" and run: "prepare_live_event api now millis e h = Ret (Some v, h1)"
  shows "\<exists>t eng1. totals_observe now e (Some c) (lh_totals h) = Ret (v, t) \<and>
    record_ranking api millis e v c (lh_engine h) = Ret eng1 \<and>
    (if v = NullTotals \<and> is_gift e
     then mark_gap (lc_unique_id c) (lc_room_id c) ''tiktok.gift'' eng1 = Ret (lh_engine h1)
     else lh_engine h1 = eng1)"
proof -
  obtain dup d where guard: "check_duplicate now e (lh_dedup h) = (dup, d)" by force
  then have "\<not> dup" using run by (cases dup) (simp_all add: prepare_live_event_def Let_def)
  then have check: "check_duplicate now e (lh_dedup h) = (False, d)" using guard by simp
  obtain w t where t: "totals_observe now e (Some c) (lh_totals h) = Ret (w, t)"
    using run conn check by (cases "totals_observe now e (Some c) (lh_totals h)") (auto simp: prepare_live_event_def)
  obtain eng1 where rec: "record_ranking api millis e w c (lh_engine h) = Ret eng1"
    using run conn check t by (cases "record_ranking api millis e w c (lh_engine h)") (auto simp: prepare_live_event_def)
  show ?thesis
  proof (cases "w = NullTotals \<and> is_gift e")
    case True
    then show ?thesis using run conn check t rec
      by (auto simp: prepare_live_event_def Let_def run_bind_eq_Ret record_event_gap_def)
  next
    case False
    then show ?thesis using run conn check t rec by (auto simp: prepare_live_event_def Let_def)
  qed
qed

text \<open>
  C36. Events that cannot be proven new never change a score: an event without a message identity or
  from the history leaves every score of every ranking as it was, and degrades every running ranking
  that listens to its source in the connected room, so that the gap shows in its snapshot.
\<close>

theorem unproven_never_counted:
  assumes inv: "engine_inv eng" and reach: "host_run api ops (live_host_new eng, []) = Ret (h, J)"
    and conn: "lh_context h = Some c" and un: "unproven e"
    and run: "prepare_live_event api now millis e h = Ret (Some v, h1)"
    and r: "hm_get (en_rankings (lh_engine h)) rid = Some r"
  shows "\<exists>r1 s. hm_get (en_rankings (lh_engine h1)) rid = Some r1 \<and>
    scores_of (rk_state r1) = scores_of (rk_state r) \<and> engine_snapshot rid (lh_engine h1) = Some s \<and>
    (event_source api e \<noteq> [] \<and> listens c (event_source api e) r \<longrightarrow>
       sn_integrity_status s = ''degraded'' \<and> 0 < sn_rejected s)"
proof -
  have h: "host_inv h" using host_run_inv [OF host_inv_new [OF inv], of api ops "[]"] reach by auto
  then have einv: "engine_inv (lh_engine h)" by (simp add: host_inv_def)
  obtain t eng1 where t: "totals_observe now e (Some c) (lh_totals h) = Ret (v, t)"
    and rec: "record_ranking api millis e v c (lh_engine h) = Ret eng1"
    and fin: "if v = NullTotals \<and> is_gift e
      then mark_gap (lc_unique_id c) (lc_room_id c) ''tiktok.gift'' eng1 = Ret (lh_engine h1)
      else lh_engine h1 = eng1"
    using prepare_admitted [OF conn run] by blast
  note m = record_ranking_marked [OF einv rec un]
  have gift: "is_gift e \<Longrightarrow> event_source api e = ''tiktok.gift''"
    by (simp add: is_gift_def event_source_def split: canonical_event.splits)
  have like: "is_gift e \<Longrightarrow> \<nexists>x u. v = LikeTotals x u"
    using gift_totals [OF _ t] by (auto simp: is_gift_def split: canonical_event.splits)
  have marked: "engine_marked c None (lh_engine h) (lh_engine h1) \<and>
      (event_source api e = [] \<or> engine_marked c (Some (event_source api e)) (lh_engine h) (lh_engine h1))"
  proof (cases "v = NullTotals \<and> is_gift e")
    case True
    then have "mark_gap (lc_unique_id c) (lc_room_id c) ''tiktok.gift'' eng1 = Ret (lh_engine h1)" using fin by simp
    moreover have "engine_inv eng1" "engine_marked c None (lh_engine h) eng1" using m by simp_all
    ultimately have "engine_marked c (Some ''tiktok.gift'') (lh_engine h) (lh_engine h1)"
      using engine_marked_then mark_gap_marked by blast
    then show ?thesis using gift True engine_marked_weaken by simp
  next
    case False
    then show ?thesis using m fin like by auto
  qed
  obtain r1 where r1: "hm_get (en_rankings (lh_engine h1)) rid = Some r1" "marked_only r r1"
    "event_source api e \<noteq> [] \<Longrightarrow> listens c (event_source api e) r \<Longrightarrow> 0 < rk_rejected r1"
    using marked r unfolding engine_marked_def by (metis r)
  then show ?thesis
    by (auto simp: marked_only_def engine_snapshot_def snapshot_unranked_def snapshot_unranked_capped_def Let_def
        complete_snapshot_def rank_snapshot_def)
qed

definition ana_context :: live_context where
  "ana_context = \<lparr>lc_unique_id = ''ana'', lc_room_id = ''r1'', lc_connection_id = ''connection-1''\<rparr>"

definition old_gift :: live_event where
  "old_gift =
     \<lparr>le_base = Gift \<lparr>gv_user = sample_user 7, gv_gift_id = 5, gv_group_id = 9, gv_repeat_count = 3,
        gv_combo_count = 0, gv_diamond_count = 2, gv_gift_name = ''Rose'', gv_gift_image_url = None\<rparr>,
      le_method = ''Gift'', le_msg_id = 77, le_is_history = True, le_gift = None\<rparr>"

theorem unproven_never_counted_witness:
  "\<exists>h J v h1 s. host_run sample_api [Connect ana_context] (live_host_new (gift_engine Session None), []) = Ret (h, J) \<and>
     prepare_live_event sample_api 10 1000 old_gift h = Ret (Some v, h1) \<and>
     engine_snapshot ''top'' (lh_engine h1) = Some s \<and> sn_integrity_status s = ''degraded''"
proof -
  let ?h = "handle_connected ana_context (live_host_new (gift_engine Session None))"
  have valid: "\<not> definition_invalid (gift_ranking Session None)" by (simp add: gift_ranking_valid)
  have reach: "host_run sample_api [Connect ana_context] (live_host_new (gift_engine Session None), []) = Ret (?h, [])"
    by simp
  have inv: "host_inv ?h" using host_inv_new [OF gift_engine_inv] by (simp add: host_inv_def handle_connected_def)
  have conn: "lh_context ?h = Some ana_context" by (simp add: handle_connected_def)
  have un: "unproven old_gift" by (simp add: unproven_def old_gift_def)
  have "\<not> fst (check_duplicate 10 old_gift (lh_dedup ?h))"
    by (simp add: handle_connected_def live_host_new_def dedup_default_def dedup_new_def set_scope_def
        check_duplicate_def old_gift_def Let_def)
  then obtain v h1 where run: "prepare_live_event sample_api 10 1000 old_gift ?h = Ret (Some v, h1)"
    using prepare_live_event_inv [OF inv, of sample_api 10 1000 old_gift] by auto
  have r: "hm_get (en_rankings (lh_engine ?h)) ''top'' = Some (gift_state Session None)"
    using gift_engine_rankings(1) [OF valid] by (simp add: handle_connected_def live_host_new_def)
  have "event_source sample_api old_gift = ''tiktok.gift''" by (simp add: event_source_def old_gift_def)
  moreover have "listens ana_context ''tiktok.gift'' (gift_state Session None)"
    by (simp add: listens_def gap_affects_def gift_state_def ranking_new_def ana_context_def has_vote_source_def
        gift_ranking_def gift_rule_def)
  ultimately show ?thesis
    using unproven_never_counted [OF gift_engine_inv reach conn un run r] reach run by auto
qed

end
