(* ===== verification/Ranking_Store.thy ===== *)
theory Ranking_Store
  imports Engine_Checkpoint Store_Model
begin

text \<open>
  The ranking tables of the database (\<open>db/sqlite/aggregations.rs\<close>): definitions, the newest
  checkpoint of every ranking, the owner of the checkpoints and the state of the current run, and the
  identities of external contributions. As in \<^theory_text>\<open>Store_Model\<close> a table is the map from its primary
  key, a JSON column the value it decodes to, and an error rolls back.

  The length of a checkpoint's JSON text is an argument.
\<close>

section \<open>Tables\<close>

record ranking_row =
  rr_row_creator :: string
  rr_row_room :: string
  rr_row_schema :: nat
  rr_row_definition :: "ranking_definition option"

record checkpoint_row =
  ck_schema :: nat
  ck_checkpoint :: "checkpoint option"

datatype run_status = Run_Open | Run_Clean

record ranking_store =
  rs_definitions :: "(string, ranking_row) hmap"
  rs_checkpoints :: "(string, checkpoint_row) hmap"
  rs_owner :: "string option"
  rs_run :: "run_status option"
  rs_external :: "(string, int) hmap"

definition ranking_store_empty :: ranking_store where
  "ranking_store_empty =
     \<lparr>rs_definitions = [], rs_checkpoints = [], rs_owner = None, rs_run = None, rs_external = []\<rparr>"

section \<open>The run\<close>

definition checkpoint_owner_changed :: db_error where
  "checkpoint_owner_changed = Db_Invalid ''aggregation checkpoint owner changed''"

definition claim_aggregation_checkpoints ::
  "string \<Rightarrow> ranking_store \<Rightarrow> ranking_store \<times> (db_error + bool)" where
  "claim_aggregation_checkpoints owner s =
     transact s (Inr (rs_run s \<noteq> Some Run_Open, Some (s\<lparr>rs_owner := Some owner, rs_run := Some Run_Open\<rparr>)))"

text \<open>The update counts the rows it changed: the run row must exist and the owner must match.\<close>

definition finish_aggregation_checkpoints ::
  "string \<Rightarrow> ranking_store \<Rightarrow> ranking_store \<times> (db_error + unit)" where
  "finish_aggregation_checkpoints owner s =
     transact s
       (if rs_run s \<noteq> None \<and> rs_owner s = Some owner then Inr ((), Some (s\<lparr>rs_run := Some Run_Clean\<rparr>))
        else Inl checkpoint_owner_changed)"

section \<open>Checkpoints\<close>

text \<open>The validation by a fresh engine: its ranking is created and the checkpoint restored into it.\<close>

definition checkpoint_invalid :: "string option \<Rightarrow> checkpoint \<Rightarrow> db_error option" where
  "checkpoint_invalid identity cp =
     (case engine_create identity (cp_definition cp) engine_default of
        (_, Inl _) \<Rightarrow> Some (Db_Invalid ''invalid checkpoint definition'')
      | (validator, Inr _) \<Rightarrow>
        (case snd (restore_session_checkpoint cp validator) of
           Inl _ \<Rightarrow> Some (Db_Invalid ''invalid aggregation checkpoint'')
         | Inr _ \<Rightarrow> None))"

definition save_aggregation_checkpoint ::
  "string option \<Rightarrow> (checkpoint \<Rightarrow> nat) \<Rightarrow> checkpoint \<Rightarrow> string \<Rightarrow> ranking_store \<Rightarrow> ranking_store \<times> (db_error + unit)" where
  "save_aggregation_checkpoint identity json_len cp owner s =
     transact s
       (case checkpoint_invalid identity cp of
          Some err \<Rightarrow> Inl err
        | None \<Rightarrow>
          if json_len cp > 32 * 1024 * 1024 then Inl (Db_Invalid ''aggregation checkpoint too large'')
          else if rs_owner s \<noteq> Some owner then Inl checkpoint_owner_changed
          else
            (case hm_get (rs_definitions s) (rd_id (cp_definition cp)) of
               None \<Rightarrow> Inl (Db_Invalid ''ranking definition missing'')
             | Some row \<Rightarrow>
               bind_result (decoded (rr_row_definition row)) (\<lambda>d.
                 if d \<noteq> cp_definition cp then Inl (Db_Invalid ''ranking definition changed'')
                 else Inr ((), Some (s\<lparr>rs_checkpoints :=
                   hm_insert (rd_id (cp_definition cp)) \<lparr>ck_schema = 1, ck_checkpoint = Some cp\<rparr>
                     (rs_checkpoints s)\<rparr>)))))"

definition load_aggregation_checkpoint ::
  "string \<Rightarrow> string \<Rightarrow> ranking_store \<Rightarrow> db_error + checkpoint option" where
  "load_aggregation_checkpoint rid owner s =
     (if rs_owner s \<noteq> Some owner then Inl checkpoint_owner_changed
      else
        (case hm_get (rs_checkpoints s) rid of
           None \<Rightarrow> Inr None
         | Some row \<Rightarrow>
           if ck_schema row \<noteq> 1 then Inr None
           else bind_result (decoded (ck_checkpoint row)) (\<lambda>cp. Inr (Some cp))))"

definition clear_aggregation_checkpoint :: "string \<Rightarrow> ranking_store \<Rightarrow> ranking_store \<times> (db_error + unit)" where
  "clear_aggregation_checkpoint rid s =
     transact s (Inr ((), Some (s\<lparr>rs_checkpoints := hm_remove rid (rs_checkpoints s)\<rparr>)))"

section \<open>External contributions\<close>

text \<open>\<open>INSERT OR IGNORE\<close>, and every 64th millisecond the identities older than seven days are pruned.\<close>

definition week_ms :: int where
  "week_ms = 7 * 24 * 60 * 60 * 1000"

definition saturating_i64 :: "int \<Rightarrow> int" where
  "saturating_i64 i = max (- int i64_max - 1) (min (int i64_max) i)"

definition admit_external_contribution ::
  "string \<Rightarrow> int \<Rightarrow> ranking_store \<Rightarrow> ranking_store \<times> (db_error + bool)" where
  "admit_external_contribution event_id now s =
     (if hm_has (rs_external s) event_id then (s, Inr False)
      else
        (let rows = hm_insert event_id now (rs_external s) in
         (s\<lparr>rs_external :=
              (if now mod 64 = 0 then filter (\<lambda>(_, at). at \<ge> saturating_i64 (now - week_ms)) rows else rows)\<rparr>,
          Inr True)))"

section \<open>Definitions\<close>

definition ranking_row_of :: "ranking_definition \<Rightarrow> ranking_row" where
  "ranking_row_of d =
     \<lparr>rr_row_creator = rd_creator_id d, rr_row_room = rd_room_id d, rr_row_schema = rd_schema_version d,
      rr_row_definition = Some d\<rparr>"

fun decode_definitions :: "ranking_row list \<Rightarrow> db_error + ranking_definition list" where
  "decode_definitions [] = Inr []"
| "decode_definitions (row # rows) =
     bind_result (decoded (rr_row_definition row)) (\<lambda>d.
       bind_result (decode_definitions rows) (\<lambda>ds. Inr (d # ds)))"

text \<open>\<open>ORDER BY id\<close>\<close>

definition load_aggregation_definitions :: "ranking_store \<Rightarrow> db_error + ranking_definition list" where
  "load_aggregation_definitions s = decode_definitions (map snd (sort_key fst (rs_definitions s)))"

definition insert_aggregation_definition ::
  "ranking_definition \<Rightarrow> ranking_store \<Rightarrow> ranking_store \<times> (db_error + unit)" where
  "insert_aggregation_definition d s =
     transact s
       (bind_result (insert_row (rd_id d) (ranking_row_of d) (rs_definitions s)) (\<lambda>rows.
          Inr ((), Some (s\<lparr>rs_definitions := rows\<rparr>))))"

definition update_aggregation_definition ::
  "ranking_definition \<Rightarrow> ranking_store \<Rightarrow> ranking_store \<times> (db_error + bool)" where
  "update_aggregation_definition d s =
     transact s
       (if hm_has (rs_definitions s) (rd_id d)
        then Inr (True, Some (s\<lparr>rs_definitions := hm_insert (rd_id d) (ranking_row_of d) (rs_definitions s),
               rs_checkpoints := hm_remove (rd_id d) (rs_checkpoints s)\<rparr>))
        else Inr (False, Some s))"

definition delete_aggregation_definition ::
  "string \<Rightarrow> ranking_store \<Rightarrow> ranking_store \<times> (db_error + bool)" where
  "delete_aggregation_definition rid s =
     transact s
       (if hm_has (rs_definitions s) rid
        then Inr (True, Some (s\<lparr>rs_definitions := hm_remove rid (rs_definitions s),
               rs_checkpoints := hm_remove rid (rs_checkpoints s)\<rparr>))
        else Inr (False, Some s))"

end
