(* ===== verification/Competition_Service.thy ===== *)
theory Competition_Service
  imports Command_Index Ranking_Store Store_Projections
begin

text \<open>
  The competition definitions the application keeps in memory, their command index and their clean
  shutdown (\<open>services/competitions.rs\<close>). The index is built from the definitions and the rankings
  they refer to; a definition whose ranking is missing, or a second one on the same vote ranking,
  makes the build fail and the service unavailable.
\<close>

section \<open>State\<close>

record competition_service =
  cs_definitions :: "(string, competition_definition) hmap"
  cs_index :: command_index
  cs_load_failed :: bool

definition competition_service_default :: competition_service where
  "competition_service_default =
     \<lparr>cs_definitions = [], cs_index = index_default, cs_load_failed = False\<rparr>"

section \<open>Building the index\<close>

definition vote_sources :: "ranking_definition \<Rightarrow> string list" where
  "vote_sources ranking =
     filter (\<lambda>source. list_ex (\<lambda>rule. sr_enabled rule \<and> sr_weight rule > 0 \<and> sr_source rule = source)
         (rd_sources ranking))
       [''tiktok.like'', ''tiktok.share'', ''tiktok.gift'']"

fun index_definitions ::
  "(string \<Rightarrow> string) \<Rightarrow> ranking_definition list \<Rightarrow> string list \<Rightarrow> competition_definition list \<Rightarrow>
   command_index \<Rightarrow> (competition_error + command_index) run" where
  "index_definitions lower rankings used [] i = Ret (Inr i)"
| "index_definitions lower rankings used (d # ds) i =
     (case find (\<lambda>r. rd_id r = cd_ranking_id d) rankings of
        None \<Rightarrow> Ret (Inl InvalidCandidate)
      | Some r \<Rightarrow>
        if has_vote_source r \<and> rd_id r \<in> set used then Ret (Inl InvalidCandidate)
        else
          (case index_register lower d (rd_creator_id r) (rd_room_id r) i of
             Panic \<Rightarrow> Panic
           | Ret (_, Inl err) \<Rightarrow> Ret (Inl err)
           | Ret (i1, Inr _) \<Rightarrow>
             if has_vote_source r then
               (case index_register_sources (cd_id d) (rd_creator_id r) (rd_room_id r) (vote_sources r) i1 of
                  (_, Inl err) \<Rightarrow> Ret (Inl err)
                | (i2, Inr _) \<Rightarrow> index_definitions lower rankings (rd_id r # used) ds i2)
             else index_definitions lower rankings used ds i1))"

text \<open>The definitions are a \<open>BTreeMap\<close>: they are visited in the order of their identifiers.\<close>

definition map_values :: "(string, 'v) hmap \<Rightarrow> 'v list" where
  "map_values m = map snd (sort_key fst m)"

definition build_index ::
  "(string \<Rightarrow> string) \<Rightarrow> (string, competition_definition) hmap \<Rightarrow> ranking_definition list \<Rightarrow>
   (competition_error + command_index) run" where
  "build_index lower definitions rankings =
     index_definitions lower rankings [] (map_values definitions) index_default"

section \<open>Restart\<close>

fun collect_definitions ::
  "(string \<Rightarrow> string) \<Rightarrow> (string, competition_definition) hmap \<Rightarrow> competition_definition list \<Rightarrow>
   (string, competition_definition) hmap option" where
  "collect_definitions lower restored [] = Some restored"
| "collect_definitions lower restored (d # ds) =
     (if \<not> is_ok (validate lower d) \<or> length restored \<ge> 128 \<or> hm_has restored (cd_id d) then None
      else collect_definitions lower (hm_insert (cd_id d) d restored) ds)"

definition competitions_unavailable :: competition_service where
  "competitions_unavailable = competition_service_default\<lparr>cs_load_failed := True\<rparr>"

definition restore_competitions ::
  "(string \<Rightarrow> string) \<Rightarrow> ranking_store \<Rightarrow> store \<Rightarrow> competition_service run" where
  "restore_competitions lower rankings s =
     (case load_competition_definitions s of
        Inl _ \<Rightarrow> Ret competitions_unavailable
      | Inr definitions \<Rightarrow>
        (case collect_definitions lower [] definitions of
           None \<Rightarrow> Ret competitions_unavailable
         | Some restored \<Rightarrow>
           (case load_aggregation_definitions rankings of
              Inl _ \<Rightarrow> Ret competitions_unavailable
            | Inr ds \<Rightarrow>
              run_bind (build_index lower restored ds) (\<lambda>built.
                Ret (case built of
                       Inl _ \<Rightarrow> competitions_unavailable
                     | Inr i \<Rightarrow> competition_service_default\<lparr>cs_definitions := restored, cs_index := i\<rparr>)))))"

section \<open>Clean shutdown\<close>

definition counting_phase :: "lifecycle \<Rightarrow> bool" where
  "counting_phase phase \<longleftrightarrow> phase \<in> {Active, Paused, Finalizing}"

text \<open>The engine's definitions are searched by identifier.\<close>

definition find_ranking :: "string \<Rightarrow> engine \<Rightarrow> ranking_definition option" where
  "find_ranking rid e = find (\<lambda>r. rd_id r = rid) (engine_definitions e)"

fun collect_checkpoints ::
  "bool \<Rightarrow> engine \<Rightarrow> store \<Rightarrow> competition_definition list \<Rightarrow> db_error + (string \<times> u64 \<times> bool) list" where
  "collect_checkpoints ingress_complete e s [] = Inr []"
| "collect_checkpoints ingress_complete e s (d # ds) =
     bind_result (load_competition_state (cd_id d) s) (\<lambda>column.
       case column of
         None \<Rightarrow> Inl (Db_Invalid ''competition state missing'')
       | Some state \<Rightarrow>
         if \<not> counting_phase (ls_lifecycle state) then collect_checkpoints ingress_complete e s ds
         else
           (case find_ranking (cd_ranking_id d) e of
              None \<Rightarrow> Inl (Db_Invalid ''ranking missing'')
            | Some r \<Rightarrow>
              if \<not> has_vote_source r then collect_checkpoints ingress_complete e s ds
              else
                (case engine_snapshot (cd_ranking_id d) e of
                   None \<Rightarrow> Inl (Db_Invalid ''ranking state missing'')
                 | Some snapshot \<Rightarrow>
                   bind_result (collect_checkpoints ingress_complete e s ds) (\<lambda>rest.
                     Inr ((cd_id d, ls_generation state,
                           ingress_complete \<and> sn_integrity_status snapshot \<noteq> ''degraded'') # rest)))))"

definition competition_checkpoint_shutdown ::
  "bool \<Rightarrow> string option \<Rightarrow> competition_service \<Rightarrow> engine \<Rightarrow> store \<Rightarrow> store \<times> (db_error + unit)" where
  "competition_checkpoint_shutdown ingress_complete owner c e s =
     (if cs_load_failed c then (s, Inl (Db_Invalid ''competition definitions unavailable''))
      else
        (case collect_checkpoints ingress_complete e s (map_values (cs_definitions c)) of
           Inl err \<Rightarrow> (s, Inl err)
         | Inr checkpoints \<Rightarrow>
           (case owner of
              None \<Rightarrow> (s, Inl (Db_Invalid ''competition integrity owner unavailable''))
            | Some o' \<Rightarrow> save_competition_integrity checkpoints o' s)))"

end
