(* ===== verification/Ranking_Service.thy ===== *)
theory Ranking_Service
  imports Competition_Service
begin

text \<open>
  The ranking service of the application (\<open>services/aggregations.rs\<close>, \<open>control/rankings.rs\<close>): the
  engine in memory, its durable definitions and checkpoints, and the control operations that keep
  both in step. A control operation and one write of a checkpoint hold the mutation lock and are one
  step here; events of the stream fall between such steps, since a checkpoint is written from the
  copy taken under the engine lock.

  Identities and owners come from the random source and are arguments, as are the clock readings, the
  lower-casing of commands and the length of a checkpoint's JSON text. Failures of the disk are not
  modelled.
\<close>

section \<open>State\<close>

record service =
  sv_engine :: engine
  sv_owner :: "string option"
  sv_persisted :: "(string, u64 \<times> u64) hmap"
  sv_rankings :: ranking_store
  sv_competitions :: competition_service
  sv_store :: store
  sv_shutdown :: bool

datatype control_error =
    Ce_Invalid string
  | Ce_Conflict string
  | Ce_Unavailable string
  | Ce_Not_Found string

section \<open>Checkpoints\<close>

definition checkpointed :: "engine \<Rightarrow> string list" where
  "checkpointed e = map rd_id (filter (\<lambda>d. \<not> has_vote_source d) (engine_definitions e))"

definition change_token :: "string \<Rightarrow> engine \<Rightarrow> (u64 \<times> u64) option" where
  "change_token rid e = map_option snd (find (\<lambda>(active, _). active = rid) (change_tokens e))"

definition persist_one ::
  "string option \<Rightarrow> (checkpoint \<Rightarrow> nat) \<Rightarrow> string \<Rightarrow> string \<Rightarrow> bool \<Rightarrow> service \<Rightarrow> service \<times> (db_error + bool)" where
  "persist_one identity json_len owner rid only_changed s =
     (case change_token rid (sv_engine s) of
        None \<Rightarrow> (s, Inr False)
      | Some token \<Rightarrow>
        if only_changed \<and> hm_get (sv_persisted s) rid = Some token then (s, Inr False)
        else
          (case session_checkpoint rid (sv_engine s) of
             Inl _ \<Rightarrow> (s, Inl (Db_Invalid ''aggregation snapshot failed''))
           | Inr cp \<Rightarrow>
             (case save_aggregation_checkpoint identity json_len cp owner (sv_rankings s) of
                (rs, Inl err) \<Rightarrow> (s\<lparr>sv_rankings := rs\<rparr>, Inl err)
              | (rs, Inr _) \<Rightarrow>
                (s\<lparr>sv_rankings := rs, sv_persisted := hm_insert rid token (sv_persisted s)\<rparr>, Inr True))))"

text \<open>The runtime pass; a pass that meets the shutdown stops.\<close>

fun persist_changed ::
  "(string \<Rightarrow> string option) \<Rightarrow> (checkpoint \<Rightarrow> nat) \<Rightarrow> string \<Rightarrow> string list \<Rightarrow> service \<Rightarrow> service \<times> nat" where
  "persist_changed identity json_len owner [] s = (s, 0)"
| "persist_changed identity json_len owner (rid # ids) s =
     (if sv_shutdown s then (s, 0)
      else
        (case persist_one (identity rid) json_len owner rid True s of
           (s1, res) \<Rightarrow>
             (case persist_changed identity json_len owner ids s1 of
                (s2, written) \<Rightarrow> (s2, if res = Inr True then written + 1 else written))))"

definition checkpoint_changed ::
  "(string \<Rightarrow> string option) \<Rightarrow> (checkpoint \<Rightarrow> nat) \<Rightarrow> service \<Rightarrow> service \<times> nat" where
  "checkpoint_changed identity json_len s =
     (case sv_owner s of
        None \<Rightarrow> (s, 0)
      | Some owner \<Rightarrow>
        (let ids = checkpointed (sv_engine s) in
         persist_changed identity json_len owner ids
           (s\<lparr>sv_persisted := filter (\<lambda>(rid, _). rid \<in> set ids) (sv_persisted s)\<rparr>)))"

text \<open>At shutdown every ranking is tried and the first error is reported.\<close>

fun persist_rest ::
  "(string \<Rightarrow> string option) \<Rightarrow> (checkpoint \<Rightarrow> nat) \<Rightarrow> string \<Rightarrow> string list \<Rightarrow> db_error option \<Rightarrow> service \<Rightarrow>
   service \<times> db_error option" where
  "persist_rest identity json_len owner [] first_error s = (s, first_error)"
| "persist_rest identity json_len owner (rid # ids) first_error s =
     (case persist_one (identity rid) json_len owner rid True s of
        (s1, Inl err) \<Rightarrow>
          persist_rest identity json_len owner ids (if first_error = None then Some err else first_error) s1
      | (s1, Inr _) \<Rightarrow> persist_rest identity json_len owner ids first_error s1)"

definition checkpoint_shutdown ::
  "(string \<Rightarrow> string option) \<Rightarrow> (checkpoint \<Rightarrow> nat) \<Rightarrow> bool \<Rightarrow> service \<Rightarrow> service \<times> (db_error + unit)" where
  "checkpoint_shutdown identity json_len ingress_complete s =
     (case sv_owner s of
        None \<Rightarrow> (s, Inl (Db_Invalid ''aggregation checkpoint owner unavailable''))
      | Some owner \<Rightarrow>
        (let e = (if ingress_complete then sv_engine s else mark_ingress_loss 1 (sv_engine s)) in
         (case persist_rest identity json_len owner (checkpointed e) None (s\<lparr>sv_engine := e\<rparr>) of
            (s1, Some err) \<Rightarrow> (s1, Inl err)
          | (s1, None) \<Rightarrow>
            (case finish_aggregation_checkpoints owner (sv_rankings s1) of
               (rs, res) \<Rightarrow> (s1\<lparr>sv_rankings := rs\<rparr>, res)))))"

section \<open>Restart\<close>

text \<open>Each created ranking draws a new identity; the argument counts the draws.\<close>

fun create_definitions :: "(nat \<Rightarrow> string option) \<Rightarrow> nat \<Rightarrow> ranking_definition list \<Rightarrow> engine \<Rightarrow> engine" where
  "create_definitions identity n [] e = e"
| "create_definitions identity n (d # ds) e =
     create_definitions identity (n + 1) ds (fst (engine_create (identity n) d e))"

definition recover_ranking ::
  "string option \<Rightarrow> bool \<Rightarrow> ranking_store \<Rightarrow> ranking_definition \<Rightarrow> engine \<Rightarrow> engine" where
  "recover_ranking owner previous_clean rs d e =
     (if has_vote_source d then e
      else
        (case (case owner of
                 None \<Rightarrow> (e, False)
               | Some o' \<Rightarrow>
                 (case load_aggregation_checkpoint (rd_id d) o' rs of
                    Inr (Some cp) \<Rightarrow> (case restore_session_checkpoint cp e of (e', res) \<Rightarrow> (e', is_ok res))
                  | _ \<Rightarrow> (e, False))) of
           (e1, recovered) \<Rightarrow>
             if \<not> previous_clean \<or> \<not> recovered then fst (mark_recovery_gap (rd_id d) e1) else e1))"

definition vote_gap :: "ranking_definition \<Rightarrow> engine \<Rightarrow> engine run" where
  "vote_gap d e = mark_gap (rd_creator_id d) (rd_room_id d) ''competition.vote'' e"

text \<open>What the ledger knows of a competition: votes, scores, and whether it was closed cleanly.\<close>

definition load_ledger ::
  "string option \<Rightarrow> bool \<Rightarrow> string \<Rightarrow> store \<Rightarrow>
   store \<times> (db_error + (string \<times> u64) list \<times> (string \<times> u64) list \<times> bool)" where
  "load_ledger owner vote_ranking cid s =
     (case bind_result (load_competition_state cid s) (\<lambda>column.
             case column of None \<Rightarrow> Inl (Db_Invalid ''competition state missing'') | Some state \<Rightarrow> Inr state) of
        Inl err \<Rightarrow> (s, Inl err)
      | Inr state \<Rightarrow>
        (case (if counting_phase (ls_lifecycle state)
               then (case owner of
                       None \<Rightarrow> (s, Inr False)
                     | Some o' \<Rightarrow> begin_competition_recovery cid (ls_generation state) o' s)
               else (s, Inr True)) of
           (s1, Inl err) \<Rightarrow> (s1, Inl err)
         | (s1, Inr clean) \<Rightarrow>
           (s1, bind_result (if vote_ranking then competition_vote_totals cid (ls_generation state) s1 else Inr [])
             (\<lambda>totals. bind_result
               (if vote_ranking then competition_scored_totals cid (ls_generation state) s1 else Inr [])
               (\<lambda>scores. Inr (totals, scores, clean))))))"

fun label_options ::
  "ranking_definition \<Rightarrow> option_definition list \<Rightarrow> engine \<Rightarrow> engine run" where
  "label_options d [] e = Ret e"
| "label_options d (opt # opts) e =
     (case set_entry_metadata (rd_id d) (od_id opt)
             (entry_metadata_default\<lparr>em_label := Some (od_label opt), em_icon_url := od_image_url opt\<rparr>) e of
        (e1, Inl _) \<Rightarrow> run_bind (vote_gap d e1) (label_options d opts)
      | (e1, Inr _) \<Rightarrow> label_options d opts e1)"

definition rebuild_votes ::
  "ranking_definition \<Rightarrow> competition_definition \<Rightarrow> (string \<times> u64) list \<Rightarrow> (string \<times> u64) list \<Rightarrow> engine \<Rightarrow> engine run" where
  "rebuild_votes d c totals scores e =
     (case restore_assignments_with_scores (rd_id d) totals scores e of
        (e1, Inl _) \<Rightarrow> vote_gap d e1
      | (e1, Inr _) \<Rightarrow> label_options d (cd_options c) e1)"

definition recover_competition ::
  "string option \<Rightarrow> ranking_definition \<Rightarrow> competition_definition \<Rightarrow> engine \<Rightarrow> store \<Rightarrow> (engine \<times> store) run" where
  "recover_competition owner d c e s =
     (case load_ledger owner (has_vote_source d) (cd_id c) s of
        (s1, Inl _) \<Rightarrow> run_bind (vote_gap d e) (\<lambda>e1. Ret (e1, s1))
      | (s1, Inr (totals, scores, clean)) \<Rightarrow>
        if \<not> has_vote_source d then Ret (e, s1)
        else run_bind (if clean then Ret e else vote_gap d e) (\<lambda>e1.
               run_bind (rebuild_votes d c totals scores e1) (\<lambda>e2. Ret (e2, s1))))"

fun recover_competitions ::
  "string option \<Rightarrow> string list \<Rightarrow> competition_definition list \<Rightarrow> engine \<Rightarrow> store \<Rightarrow> (engine \<times> store) run" where
  "recover_competitions owner used [] e s = Ret (e, s)"
| "recover_competitions owner used (c # cs) e s =
     (case find_ranking (cd_ranking_id c) e of
        None \<Rightarrow> recover_competitions owner used cs e s
      | Some d \<Rightarrow>
        if has_vote_source d \<and> rd_id d \<in> set used
        then run_bind (vote_gap d e) (\<lambda>e1. recover_competitions owner used cs e1 s)
        else run_bind (recover_competition owner d c e s) (\<lambda>(e1, s1).
               recover_competitions owner (if has_vote_source d then rd_id d # used else used) cs e1 s1))"

definition recovered_engine ::
  "string option \<Rightarrow> bool \<Rightarrow> (nat \<Rightarrow> string option) \<Rightarrow> ranking_store \<Rightarrow> engine" where
  "recovered_engine owner previous_clean identity rs =
     (let e = (case load_aggregation_definitions rs of
                 Inl _ \<Rightarrow> engine_default
               | Inr definitions \<Rightarrow> create_definitions identity 0 definitions engine_default)
      in fold (recover_ranking owner previous_clean rs) (engine_definitions e) e)"

definition claim_run :: "string option \<Rightarrow> ranking_store \<Rightarrow> ranking_store \<times> (string \<times> bool) option" where
  "claim_run drawn rs =
     (case drawn of
        None \<Rightarrow> (rs, None)
      | Some bytes \<Rightarrow>
        (case claim_aggregation_checkpoints (hex_bytes bytes) rs of
           (rs', Inl _) \<Rightarrow> (rs', None)
         | (rs', Inr clean) \<Rightarrow> (rs', Some (hex_bytes bytes, clean))))"

definition restore_service ::
  "(string \<Rightarrow> string) \<Rightarrow> string option \<Rightarrow> (nat \<Rightarrow> string option) \<Rightarrow> ranking_store \<Rightarrow> store \<Rightarrow> service run" where
  "restore_service lower drawn identity rs s =
     (case claim_run drawn rs of
        (rs1, claim) \<Rightarrow>
          (let owner = map_option fst claim;
               previous_clean = (case claim of None \<Rightarrow> False | Some (_, clean) \<Rightarrow> clean);
               e = recovered_engine owner previous_clean identity rs1
           in run_bind (case load_competition_definitions s of
                          Inl _ \<Rightarrow> Ret (e, s)
                        | Inr cs \<Rightarrow> recover_competitions owner [] cs e s) (\<lambda>(e1, s1).
              run_bind (restore_competitions lower rs1 s1) (\<lambda>c.
                Ret \<lparr>sv_engine = e1, sv_owner = owner, sv_persisted = [], sv_rankings = rs1,
                     sv_competitions = c, sv_store = s1, sv_shutdown = False\<rparr>))))"

end
