(* ===== verification/Ranking_Control.thy ===== *)
theory Ranking_Control
  imports Ranking_Service
begin

text \<open>
  The control operations on rankings (\<open>control/rankings.rs\<close>) and the service as a machine: creation,
  update, reset, pause and deletion change the tables before the engine, and external contributions
  are admitted by their identity before they are scored.
\<close>

section \<open>A ranking in use\<close>

definition competition_state :: "string \<Rightarrow> service \<Rightarrow> control_error + lifecycle_state" where
  "competition_state cid s =
     (if cs_load_failed (sv_competitions s) then Inl (Ce_Unavailable ''competition definitions unavailable'')
      else
        (case load_competition_state cid (sv_store s) of
           Inl _ \<Rightarrow> Inl (Ce_Unavailable ''competition state read failed'')
         | Inr None \<Rightarrow> Inl (Ce_Not_Found ''competition not found'')
         | Inr (Some state) \<Rightarrow> Inr state))"

fun none_counting :: "string list \<Rightarrow> service \<Rightarrow> control_error + unit" where
  "none_counting [] s = Inr ()"
| "none_counting (cid # cids) s =
     (case competition_state cid s of
        Inl err \<Rightarrow> Inl err
      | Inr state \<Rightarrow>
        if counting_phase (ls_lifecycle state) then Inl (Ce_Conflict ''ranking is used by an active competition'')
        else none_counting cids s)"

definition ensure_ranking_not_in_use :: "string \<Rightarrow> service \<Rightarrow> control_error + unit" where
  "ensure_ranking_not_in_use rid s =
     (if cs_load_failed (sv_competitions s) then Inl (Ce_Unavailable ''competition definitions unavailable'')
      else none_counting
        (map cd_id (filter (\<lambda>d. cd_ranking_id d = rid) (map_values (cs_definitions (sv_competitions s))))) s)"

section \<open>Definitions\<close>

definition ranking_create ::
  "string option \<Rightarrow> string option \<Rightarrow> ranking_definition \<Rightarrow> service \<Rightarrow> service \<times> (control_error + unit)" where
  "ranking_create probe identity d s =
     (case snd (engine_create probe d engine_default) of
        Inl _ \<Rightarrow> (s, Inl (Ce_Invalid ''invalid ranking definition''))
      | Inr _ \<Rightarrow>
        (let existing = engine_definitions (sv_engine s) in
         if list_ex (\<lambda>item. rd_id item = rd_id d) existing
         then (s, Inl (Ce_Conflict ''ranking already exists''))
         else if length existing \<ge> 128 then (s, Inl (Ce_Unavailable ''ranking capacity exhausted''))
         else
           (case insert_aggregation_definition d (sv_rankings s) of
              (rs, Inl _) \<Rightarrow>
                (s\<lparr>sv_rankings := rs\<rparr>, Inl (Ce_Unavailable ''ranking definition persistence failed''))
            | (rs, Inr _) \<Rightarrow>
              (case engine_create identity d (sv_engine s) of
                 (e, Inl _) \<Rightarrow>
                   (s\<lparr>sv_rankings := rs, sv_engine := e\<rparr>, Inl (Ce_Unavailable ''ranking creation failed''))
               | (e, Inr _) \<Rightarrow> (s\<lparr>sv_rankings := rs, sv_engine := e\<rparr>, Inr ())))))"

definition update_refusal :: "definition_error \<Rightarrow> control_error" where
  "update_refusal err =
     (case err of
        DefinitionNotFound \<Rightarrow> Ce_Not_Found ''ranking not found''
      | NotPaused \<Rightarrow> Ce_Conflict ''pause ranking before updating''
      | ResetRequired \<Rightarrow> Ce_Conflict ''score-affecting changes require reset''
      | _ \<Rightarrow> Ce_Invalid ''invalid ranking update'')"

text \<open>The first ranking of the list with the identifier is replaced.\<close>

fun replace_definition :: "ranking_definition \<Rightarrow> ranking_definition list \<Rightarrow> ranking_definition list" where
  "replace_definition d [] = []"
| "replace_definition d (x # xs) = (if rd_id x = rd_id d then d # xs else x # replace_definition d xs)"

definition ranking_update ::
  "(string \<Rightarrow> string) \<Rightarrow> string option \<Rightarrow> string option \<Rightarrow> ranking_definition \<Rightarrow> bool \<Rightarrow> service \<Rightarrow>
   (service \<times> (control_error + unit)) run" where
  "ranking_update lower probe identity d reset s =
     (case (if reset then ensure_ranking_not_in_use (rd_id d) s else Inr ()) of
        Inl err \<Rightarrow> Ret (s, Inl err)
      | Inr _ \<Rightarrow>
        (case validate_update probe d reset (sv_engine s) of
           Inl err \<Rightarrow> Ret (s, Inl (update_refusal err))
         | Inr _ \<Rightarrow>
           run_bind (build_index lower (cs_definitions (sv_competitions s))
               (replace_definition d (engine_definitions (sv_engine s)))) (\<lambda>built.
             case built of
               Inl _ \<Rightarrow> Ret (s, Inl (Ce_Unavailable ''competition command index cannot be rebuilt''))
             | Inr i \<Rightarrow>
               (case update_aggregation_definition d (sv_rankings s) of
                  (rs, Inl _) \<Rightarrow> Ret (s\<lparr>sv_rankings := rs\<rparr>, Inl (Ce_Unavailable ''ranking update failed''))
                | (rs, Inr False) \<Rightarrow>
                  Ret (s\<lparr>sv_rankings := rs\<rparr>, Inl (Ce_Unavailable ''ranking definition missing from storage''))
                | (rs, Inr True) \<Rightarrow>
                  run_bind (engine_update identity d reset (sv_engine s)) (\<lambda>(e, res).
                    Ret (case res of
                      Inl _ \<Rightarrow> (s\<lparr>sv_rankings := rs, sv_engine := e\<rparr>, Inl (Ce_Unavailable ''ranking update failed''))
                    | Inr _ \<Rightarrow>
                      (s\<lparr>sv_rankings := rs, sv_engine := e,
                         sv_competitions := (sv_competitions s)\<lparr>cs_index := i\<rparr>\<rparr>, Inr ())))))))"

section \<open>Reset, pause and deletion\<close>

definition ranking_missing :: "string \<Rightarrow> service \<Rightarrow> bool" where
  "ranking_missing rid s \<longleftrightarrow> \<not> list_ex (\<lambda>d. rd_id d = rid) (engine_definitions (sv_engine s))"

definition engine_result ::
  "string \<Rightarrow> service \<Rightarrow> engine \<times> (agg_error + unit) option \<Rightarrow> service \<times> (control_error + unit)" where
  "engine_result failure s = (\<lambda>(e, res).
     (s\<lparr>sv_engine := e\<rparr>,
      (case res of
         None \<Rightarrow> Inl (Ce_Not_Found ''ranking not found'')
       | Some (Inl _) \<Rightarrow> Inl (Ce_Unavailable failure)
       | Some (Inr _) \<Rightarrow> Inr ())))"

definition ranking_reset :: "string \<Rightarrow> service \<Rightarrow> service \<times> (control_error + unit)" where
  "ranking_reset rid s =
     (case ensure_ranking_not_in_use rid s of
        Inl err \<Rightarrow> (s, Inl err)
      | Inr _ \<Rightarrow>
        if ranking_missing rid s then (s, Inl (Ce_Not_Found ''ranking not found''))
        else
          (case clear_aggregation_checkpoint rid (sv_rankings s) of
             (rs, Inl _) \<Rightarrow> (s\<lparr>sv_rankings := rs\<rparr>, Inl (Ce_Unavailable ''ranking reset failed''))
           | (rs, Inr _) \<Rightarrow>
             engine_result ''ranking revision overflow'' (s\<lparr>sv_rankings := rs\<rparr>)
               (engine_reset rid (sv_engine s))))"

definition ranking_pause :: "string \<Rightarrow> bool \<Rightarrow> service \<Rightarrow> service \<times> (control_error + unit)" where
  "ranking_pause rid paused s =
     (case (if paused then ensure_ranking_not_in_use rid s else Inr ()) of
        Inl err \<Rightarrow> (s, Inl err)
      | Inr _ \<Rightarrow> engine_result ''ranking revision overflow'' s (set_paused rid paused (sv_engine s)))"

definition ranking_delete :: "string \<Rightarrow> service \<Rightarrow> service \<times> (control_error + unit)" where
  "ranking_delete rid s =
     (if cs_load_failed (sv_competitions s) then (s, Inl (Ce_Unavailable ''competition definitions unavailable''))
      else if list_ex (\<lambda>d. cd_ranking_id d = rid) (map_values (cs_definitions (sv_competitions s)))
      then (s, Inl (Ce_Conflict ''ranking is used by a competition''))
      else if ranking_missing rid s then (s, Inl (Ce_Not_Found ''ranking not found''))
      else
        (case delete_aggregation_definition rid (sv_rankings s) of
           (rs, Inl _) \<Rightarrow> (s\<lparr>sv_rankings := rs\<rparr>, Inl (Ce_Unavailable ''ranking deletion failed''))
         | (rs, Inr False) \<Rightarrow>
           (s\<lparr>sv_rankings := rs\<rparr>, Inl (Ce_Unavailable ''ranking definition missing from storage''))
         | (rs, Inr True) \<Rightarrow>
           (s\<lparr>sv_rankings := rs, sv_engine := fst (engine_remove rid (sv_engine s))\<rparr>, Inr ())))"

section \<open>Reads\<close>

definition ranking_list :: "service \<Rightarrow> ranking_definition list" where
  "ranking_list s = engine_definitions (sv_engine s)"

definition ranking_get :: "string \<Rightarrow> service \<Rightarrow> control_error + ranking_definition" where
  "ranking_get rid s =
     (case find (\<lambda>item. rd_id item = rid) (ranking_list s) of
        None \<Rightarrow> Inl (Ce_Not_Found ''ranking not found'')
      | Some d \<Rightarrow> Inr d)"

definition ranking_snapshot :: "string \<Rightarrow> u64 \<Rightarrow> service \<Rightarrow> (service \<times> (control_error + snapshot)) run" where
  "ranking_snapshot rid now s =
     run_bind (expire_at now (sv_engine s)) (\<lambda>e.
       Ret (s\<lparr>sv_engine := e\<rparr>,
         (case snapshot_unranked rid e of
            None \<Rightarrow> Inl (Ce_Not_Found ''ranking not found'')
          | Some (snapshot, limit) \<Rightarrow> Inr (rank_snapshot limit snapshot))))"

section \<open>External contributions\<close>

record external_contribution =
  ex_event_id :: string
  ex_creator_id :: string
  ex_room_id :: string
  ex_source :: string
  ex_user :: "string option"
  ex_label :: "string option"
  ex_team :: "string option"
  ex_custom_key :: "string option"
  ex_option :: "string option"
  ex_metrics :: "(string \<times> u64) list"

definition starts_with :: "string \<Rightarrow> string \<Rightarrow> bool" where
  "starts_with prefix text \<longleftrightarrow> take (length prefix) text = prefix"

definition bounded_field :: "string option \<Rightarrow> bool" where
  "bounded_field value = (case value of None \<Rightarrow> True | Some v \<Rightarrow> v \<noteq> [] \<and> length v \<le> 512)"

definition external_invalid :: "external_contribution \<Rightarrow> bool" where
  "external_invalid c \<longleftrightarrow>
     ex_event_id c = [] \<or> length (ex_event_id c) > 256 \<or>
     \<not> (starts_with ''plugin.'' (ex_source c) \<or> starts_with ''custom.'' (ex_source c)) \<or>
     length (ex_source c) > 128 \<or> ex_creator_id c = [] \<or> ex_room_id c = [] \<or> ex_metrics c = [] \<or>
     length (ex_metrics c) > 16 \<or>
     list_ex (\<lambda>(metric, _). metric = [] \<or> length metric > 128) (ex_metrics c) \<or>
     \<not> bounded_field (ex_user c) \<or> \<not> bounded_field (ex_label c) \<or> \<not> bounded_field (ex_team c) \<or>
     \<not> bounded_field (ex_custom_key c) \<or> \<not> bounded_field (ex_option c)"

definition external_identity :: "external_contribution \<Rightarrow> string" where
  "external_identity c = ex_source c @ '':'' @ ex_event_id c"

definition external_event :: "external_contribution \<Rightarrow> contribution" where
  "external_event c =
     \<lparr>c_creator_id = ex_creator_id c, c_room_id = ex_room_id c, c_source = ex_source c,
      c_user = ex_user c, c_gift = None, c_option = ex_option c, c_team = ex_team c,
      c_custom_key = ex_custom_key c, c_metrics = ex_metrics c\<rparr>"

text \<open>Two readings of the clock: one for the admission, one for the engine.\<close>

definition ranking_contribute ::
  "u64 \<Rightarrow> u64 \<Rightarrow> external_contribution \<Rightarrow> service \<Rightarrow> (service \<times> (control_error + bool)) run" where
  "ranking_contribute admitted_at now c s =
     (if external_invalid c then Ret (s, Inl (Ce_Invalid ''invalid ranking contribution''))
      else if \<not> has_source (ex_source c) (sv_engine s) then Ret (s, Inr False)
      else
        (case admit_external_contribution (external_identity c) (int (min admitted_at i64_max)) (sv_rankings s) of
           (rs, Inl _) \<Rightarrow> Ret (s\<lparr>sv_rankings := rs\<rparr>, Inl (Ce_Unavailable ''contribution admission failed''))
         | (rs, Inr False) \<Rightarrow> Ret (s\<lparr>sv_rankings := rs\<rparr>, Inr True)
         | (rs, Inr True) \<Rightarrow>
           run_bind (apply_at_with_metadata (external_event c) now
               (map_option (\<lambda>l. entry_metadata_default\<lparr>em_label := Some l\<rparr>) (ex_label c)) None (sv_engine s))
             (\<lambda>(e, _). Ret (s\<lparr>sv_rankings := rs, sv_engine := e\<rparr>, Inr False))))"

section \<open>The service as a machine\<close>

text \<open>
  The shutdown closes the competitions first; only when that succeeded are the rankings written and
  the run marked clean.
\<close>

definition service_shutdown ::
  "(string \<Rightarrow> string option) \<Rightarrow> (checkpoint \<Rightarrow> nat) \<Rightarrow> bool \<Rightarrow> service \<Rightarrow> service \<times> (db_error + unit)" where
  "service_shutdown identity json_len ingress_complete s =
     (let s0 = s\<lparr>sv_shutdown := True\<rparr> in
      case competition_checkpoint_shutdown ingress_complete (sv_owner s0) (sv_competitions s0) (sv_engine s0)
             (sv_store s0) of
        (st, Inl err) \<Rightarrow> (s0\<lparr>sv_store := st\<rparr>, Inl err)
      | (st, Inr _) \<Rightarrow> checkpoint_shutdown identity json_len ingress_complete (s0\<lparr>sv_store := st\<rparr>))"

text \<open>
  The history of the application on its tables: control operations, checkpoint passes, the engine
  operations of the stream and of the competitions, whatever else changes the competitions, the
  shutdown, and a restart on what the tables hold. A restart that follows no shutdown is a crash.
\<close>

datatype service_op =
    Sv_Create "string option" "string option" ranking_definition
  | Sv_Update "string option" "string option" ranking_definition bool
  | Sv_Reset string
  | Sv_Pause string bool
  | Sv_Delete string
  | Sv_Snapshot string u64
  | Sv_Contribute u64 u64 external_contribution
  | Sv_Stream engine_op
  | Sv_Competitions competition_service store
  | Sv_Pass "string \<Rightarrow> string option"
  | Sv_Shutdown "string \<Rightarrow> string option" bool
  | Sv_Restart "string option" "nat \<Rightarrow> string option"

definition service_step ::
  "(string \<Rightarrow> string) \<Rightarrow> (checkpoint \<Rightarrow> nat) \<Rightarrow> service_op \<Rightarrow> service \<Rightarrow> service run" where
  "service_step lower json_len op s =
     (case op of
        Sv_Create probe identity d \<Rightarrow> Ret (fst (ranking_create probe identity d s))
      | Sv_Update probe identity d reset \<Rightarrow>
          run_bind (ranking_update lower probe identity d reset s) (\<lambda>p. Ret (fst p))
      | Sv_Reset rid \<Rightarrow> Ret (fst (ranking_reset rid s))
      | Sv_Pause rid paused \<Rightarrow> Ret (fst (ranking_pause rid paused s))
      | Sv_Delete rid \<Rightarrow> Ret (fst (ranking_delete rid s))
      | Sv_Snapshot rid now \<Rightarrow> run_bind (ranking_snapshot rid now s) (\<lambda>p. Ret (fst p))
      | Sv_Contribute admitted_at now c \<Rightarrow> run_bind (ranking_contribute admitted_at now c s) (\<lambda>p. Ret (fst p))
      | Sv_Stream op \<Rightarrow> run_bind (engine_step op (sv_engine s)) (\<lambda>e. Ret (s\<lparr>sv_engine := e\<rparr>))
      | Sv_Competitions c st \<Rightarrow> Ret (s\<lparr>sv_competitions := c, sv_store := st\<rparr>)
      | Sv_Pass identity \<Rightarrow> Ret (fst (checkpoint_changed identity json_len s))
      | Sv_Shutdown identity ingress_complete \<Rightarrow> Ret (fst (service_shutdown identity json_len ingress_complete s))
      | Sv_Restart drawn identity \<Rightarrow> restore_service lower drawn identity (sv_rankings s) (sv_store s))"

primrec service_run ::
  "(string \<Rightarrow> string) \<Rightarrow> (checkpoint \<Rightarrow> nat) \<Rightarrow> service_op list \<Rightarrow> service \<Rightarrow> service run" where
  "service_run lower json_len [] s = Ret s"
| "service_run lower json_len (op # ops) s =
     run_bind (service_step lower json_len op s) (service_run lower json_len ops)"

text \<open>The first start, on empty tables.\<close>

definition service_new :: service where
  "service_new =
     \<lparr>sv_engine = engine_default, sv_owner = None, sv_persisted = [], sv_rankings = ranking_store_empty,
      sv_competitions = competition_service_default, sv_store = store_empty, sv_shutdown = False\<rparr>"

text \<open>The operations the stream and the competitions perform on the engine directly.\<close>

fun stream_op :: "engine_op \<Rightarrow> bool" where
  "stream_op (Op_Apply _ _ _ _) \<longleftrightarrow> True"
| "stream_op (Op_Expire _) \<longleftrightarrow> True"
| "stream_op (Op_Gap _ _ _) \<longleftrightarrow> True"
| "stream_op (Op_Metric_Gap _ _ _ _) \<longleftrightarrow> True"
| "stream_op (Op_Ranking_Gap _) \<longleftrightarrow> True"
| "stream_op (Op_Ingress_Loss _) \<longleftrightarrow> True"
| "stream_op (Op_Assignment _ _ _) \<longleftrightarrow> True"
| "stream_op (Op_Committed_Score _ _ _) \<longleftrightarrow> True"
| "stream_op (Op_Metadata _ _ _) \<longleftrightarrow> True"
| "stream_op _ \<longleftrightarrow> False"

text \<open>The random source works: every identity it is asked for has 16 bytes.\<close>

definition drawn_ok :: "string option \<Rightarrow> bool" where
  "drawn_ok drawn \<longleftrightarrow> (\<exists>bytes. drawn = Some bytes \<and> length bytes = 16)"

fun service_op_ok :: "service_op \<Rightarrow> bool" where
  "service_op_ok (Sv_Create probe identity _) \<longleftrightarrow> drawn_ok probe \<and> drawn_ok identity"
| "service_op_ok (Sv_Update probe identity _ _) \<longleftrightarrow> drawn_ok probe \<and> drawn_ok identity"
| "service_op_ok (Sv_Stream op) \<longleftrightarrow> stream_op op"
| "service_op_ok (Sv_Restart _ identity) \<longleftrightarrow> (\<forall>n. drawn_ok (identity n))"
| "service_op_ok _ \<longleftrightarrow> True"

end
