(* ===== verification/Ranking_Advance.thy ===== *)
theory Ranking_Advance
  imports Engine_Checkpoint
begin

text \<open>
  The change token of a ranking is its instance and its revision. What this theory shows of it: every
  operation of the engine moves a ranking forward, and as long as the revision has room an unchanged
  token means an unchanged ranking, up to the time of its last expiry. That makes the token a sound
  test for skipping a checkpoint that is already durable.
\<close>

section \<open>Forward moves of the score table\<close>

definition table_advances :: "aggregation \<Rightarrow> aggregation \<Rightarrow> bool" where
  "table_advances a b \<longleftrightarrow>
     ag_revision a \<le> ag_revision b \<and>
     length (ag_scores b) + ag_revision a \<le> length (ag_scores a) + ag_revision b \<and>
     (ag_revision b = ag_revision a \<longrightarrow> b = a)"

lemma table_advances_refl [simp]: "table_advances a a"
  by (simp add: table_advances_def)

lemma table_advances_trans: "table_advances a b \<Longrightarrow> table_advances b c \<Longrightarrow> table_advances a c"
  by (auto simp: table_advances_def)

lemma table_advances_metadata:
  "table_advances a b \<Longrightarrow> ag_revision a < ag_revision b \<Longrightarrow>
   table_advances a (aggregation_update_metadata key md b)"
  by (auto simp: table_advances_def aggregation_update_metadata_def)

lemma hm_len_insert_Suc: "length (hm_insert k v m) \<le> Suc (length m)"
  by (simp add: hm_len_insert)

lemma table_advances_touch [simp]: "table_advances a (fst (aggregation_touch a))"
  by (simp add: aggregation_touch_def table_advances_def checked_add_def)

lemma table_advances_reset [simp]: "table_advances a (fst (aggregation_reset a))"
  by (simp add: aggregation_reset_def table_advances_def checked_add_def)

lemma table_advances_apply:
  "table_advances a (fst (aggregation_apply key delta weight a))"
  using hm_len_insert_Suc [of key _ "ag_scores a"]
  by (auto simp: aggregation_apply_def table_advances_def checked_add_def checked_mul_def Let_def
      split: option.splits)

text \<open>An accepted positive amount bumps the revision.\<close>

lemma aggregation_apply_revision:
  assumes "aggregation_apply key delta weight a = (b, Inr ())" and "0 < delta * weight"
  shows "ag_revision b = ag_revision a + 1"
  using assms by (auto simp: aggregation_apply_def checked_add_def checked_mul_def Let_def
      split: option.splits if_splits)

lemma table_advances_expire:
  "aggregation_expire key amount a = Ret (b, res) \<Longrightarrow> table_advances a b"
  using length_delete_le [of key "ag_scores a"] hm_len_insert_Suc [of key _ "ag_scores a"]
  by (auto simp: aggregation_expire_def table_advances_def checked_add_def Let_def
      split: option.splits if_splits)

text \<open>Moving a score removes or keeps its source and adds at most one entry.\<close>

lemma hm_len_moved:
  "length (hm_remove k m) \<le> Suc (length m)"
  "length (hm_insert k v (hm_remove j m)) \<le> Suc (length m)"
  "hm_get m j = Some x \<Longrightarrow> length (hm_insert j n m) \<le> Suc (length m)"
  "hm_get m j = Some x \<Longrightarrow> length (hm_insert k v (hm_insert j n m)) \<le> Suc (length m)"
  using length_delete_le [of k m] length_delete_le [of j m] hm_len_insert_Suc [of k v "hm_remove j m"]
    hm_len_insert_Suc [of k v "hm_insert j n m"] hm_get_in_keys [of m j x]
  by (simp_all add: hm_len_insert)

lemma table_advances_reassign:
  "table_advances a (fst (aggregation_reassign from_key to_key amount additional a))"
  by (auto simp: aggregation_reassign_def table_advances_def Let_def checked_add_def hm_len_moved
      split: option.splits if_splits)

section \<open>Forward moves of a ranking\<close>

definition token :: "ranking \<Rightarrow> u64 \<times> u64" where
  "token r = (rk_instance r, ag_revision (rk_state r))"

definition entries_counted :: "ranking \<Rightarrow> bool" where
  "entries_counted r \<longleftrightarrow> length (ag_scores (rk_state r)) \<le> ag_revision (rk_state r)"

definition advances :: "ranking \<Rightarrow> ranking \<Rightarrow> bool" where
  "advances r r' \<longleftrightarrow>
     rk_instance r' = rk_instance r \<and> ag_revision (rk_state r) \<le> ag_revision (rk_state r') \<and>
     length (ag_scores (rk_state r')) + ag_revision (rk_state r)
       \<le> length (ag_scores (rk_state r)) + ag_revision (rk_state r') \<and>
     (ag_revision (rk_state r') = ag_revision (rk_state r) \<and> ag_revision (rk_state r) < u64_max \<longrightarrow>
        r' = r\<lparr>rk_last_time := rk_last_time r'\<rparr>)"

lemma advances_refl [simp]: "advances r r"
  by (simp add: advances_def)

lemma advances_trans: "advances r s \<Longrightarrow> advances s t \<Longrightarrow> advances r t"
  unfolding advances_def by (elim conjE, intro conjI) (simp, simp, simp, clarsimp, metis (no_types, lifting) le_antisym ranking.surjective ranking.update_convs(9))

lemma advances_counted: "advances r r' \<Longrightarrow> entries_counted r \<Longrightarrow> entries_counted r'"
  by (simp add: advances_def entries_counted_def)

text \<open>The forms the operations produce: a bumped table with anything else changed, or the clock only.\<close>

lemma advances_bumped:
  assumes "table_advances (rk_state r) (rk_state r')" and "rk_instance r' = rk_instance r"
    and "ag_revision (rk_state r) < ag_revision (rk_state r')"
  shows "advances r r'"
  using assms by (simp add: advances_def table_advances_def)

lemma advances_clock [simp]: "advances r (r\<lparr>rk_last_time := t\<rparr>)"
  by (simp add: advances_def)

lemma advances_state:
  "table_advances (rk_state r) a \<Longrightarrow> advances r (r\<lparr>rk_state := a\<rparr>)"
  by (auto simp: advances_def table_advances_def)

lemma touched_revision:
  "ag_revision (rk_state r) < u64_max \<Longrightarrow>
   ag_revision (fst (aggregation_touch (rk_state r))) = ag_revision (rk_state r) + 1"
  by (simp add: aggregation_touch_def checked_add_def)

text \<open>A touch makes room for any change of the counters.\<close>

lemma advances_touched:
  assumes "rk_state r' = fst (aggregation_touch (rk_state r))" and "rk_instance r' = rk_instance r"
  shows "advances r r'"
proof (cases "ag_revision (rk_state r) < u64_max")
  case True
  then show ?thesis using assms advances_bumped [of r r'] touched_revision [OF True] by simp
next
  case False
  then show ?thesis using assms by (simp add: advances_def aggregation_touch_def checked_add_def)
qed

lemma advances_reject_and_touch [simp]: "advances r (reject_and_touch r)"
  by (rule advances_touched) (simp_all add: reject_and_touch_def)

section \<open>Expiry\<close>

lemma expire_window_advances:
  "expire_window duration now a es = Ret (b, es', res) \<Longrightarrow>
   table_advances a b \<and> (ag_revision b = ag_revision a \<longrightarrow> es' = es) \<and>
   (\<not> is_ok res \<longrightarrow> ag_revision b = u64_max \<or> u64_max < ag_revision b)"
proof (induction es arbitrary: a)
  case (Cons e es)
  obtain at key amount where e: "e = (at, key, amount)" by (cases e)
  show ?case
  proof (cases "now - at < duration")
    case True
    then show ?thesis using Cons.prems e by auto
  next
    case False
    show ?thesis
    proof (cases "aggregation_expire key amount a")
      case (Ret p)
      obtain a1 r1 where p: "p = (a1, r1)" by (cases p)
      have adv: "table_advances a a1" using Ret p table_advances_expire by blast
      show ?thesis
      proof (cases r1)
        case (Inl err)
        then have "u64_max < ag_revision a + 1" "a1 = a"
          using Ret p by (auto simp: aggregation_expire_def checked_add_def Let_def split: option.splits if_splits)
        then show ?thesis using Cons.prems False e Ret p Inl by auto
      next
        case (Inr u)
        then have rev: "ag_revision a1 = ag_revision a + 1"
          using Ret p by (auto simp: aggregation_expire_def checked_add_def Let_def split: option.splits if_splits)
        have "expire_window duration now a1 es = Ret (b, es', res)"
          using Cons.prems False e Ret p Inr by simp
        from Cons.IH [OF this] have IH: "table_advances a1 b" "\<not> is_ok res \<longrightarrow> ag_revision b = u64_max \<or> u64_max < ag_revision b"
          by simp_all
        moreover have "ag_revision b \<noteq> ag_revision a" using IH(1) rev by (simp add: table_advances_def)
        ultimately show ?thesis using table_advances_trans [OF adv IH(1)] by simp
      qed
    qed (use Cons.prems False e in simp)
  qed
qed auto

text \<open>An expiry that fails has run out of revisions, so the rejection it is counted as is no change
  the token hides.\<close>

lemma expire_ranking_advances:
  assumes "expire_ranking now r = Ret (r', res)"
  shows "advances r r'" and "\<not> is_ok res \<Longrightarrow> u64_max \<le> ag_revision (rk_state r')"
proof -
  have "advances r r' \<and> (\<not> is_ok res \<longrightarrow> u64_max \<le> ag_revision (rk_state r'))"
  proof (cases "rd_window (rk_definition r)")
    case Session
    then show ?thesis using assms by (auto simp: expire_ranking_def)
  next
    case (Daily offset)
    have reset: "ag_revision (rk_state r) < ag_revision s \<and> table_advances (rk_state r) s"
      if "aggregation_reset (rk_state r) = (s, Inr u)" for s u
      using that table_advances_reset [of "rk_state r"]
      by (auto simp: aggregation_reset_def checked_add_def split: option.splits if_splits)
    show ?thesis
      using assms Daily reset
      by (auto simp: expire_ranking_def Let_def aggregation_reset_def checked_add_def
          split: option.splits if_splits intro: advances_bumped)
  next
    case (Rolling duration mx)
    let ?r1 = "r\<lparr>rk_last_time := max (rk_last_time r) now\<rparr>"
    obtain s es res' where w: "expire_window duration (rk_last_time ?r1) (rk_state ?r1) (rk_window_events ?r1) = Ret (s, es, res')"
      "r' = ?r1\<lparr>rk_state := s, rk_window_events := es\<rparr>" "res' = res"
      using assms Rolling by (auto simp: expire_ranking_def Let_def split: run.splits)
    have a: "table_advances (rk_state r) s" "ag_revision s = ag_revision (rk_state r) \<longrightarrow> es = rk_window_events r"
      "\<not> is_ok res \<longrightarrow> u64_max \<le> ag_revision s"
      using expire_window_advances [OF w(1)] w(3) by auto
    have "advances r r'" using a(1,2) w(2) by (auto simp: advances_def table_advances_def)
    then show ?thesis using a(3) w(2) by simp
  qed
  then show "advances r r'" and "\<not> is_ok res \<Longrightarrow> u64_max \<le> ag_revision (rk_state r')" by simp_all
qed

text \<open>The rejection counted for such an expiry.\<close>

lemma expire_rejected_advances:
  assumes "expire_ranking now r = Ret (r1, res)"
  shows "advances r (if is_ok res then r1 else r1\<lparr>rk_rejected := saturating_add (rk_rejected r1) 1\<rparr>)"
  using expire_ranking_advances [OF assms] by (auto simp: advances_def)

section \<open>Contributions\<close>

lemma group_metadata_advances:
  assumes "aggregation_apply key amount 1 a = (b, Inr ())" and "0 < amount"
  shows "table_advances a (case md of None \<Rightarrow> b | Some m \<Rightarrow> aggregation_update_metadata key m b)"
    and "ag_revision (case md of None \<Rightarrow> b | Some m \<Rightarrow> aggregation_update_metadata key m b) = ag_revision a + 1"
proof -
  have rev: "ag_revision b = ag_revision a + 1" using aggregation_apply_revision [OF assms(1)] assms(2) by simp
  moreover have "table_advances a b" using table_advances_apply [of a key amount 1] assms(1) by simp
  ultimately show "table_advances a (case md of None \<Rightarrow> b | Some m \<Rightarrow> aggregation_update_metadata key m b)"
    by (auto split: option.split intro: table_advances_metadata)
  show "ag_revision (case md of None \<Rightarrow> b | Some m \<Rightarrow> aggregation_update_metadata key m b) = ag_revision a + 1"
    using rev by (simp add: aggregation_update_metadata_def split: option.split)
qed

lemma accept_contribution_advances:
  assumes "accept_contribution c user gift key amount r = Ret (r', res)" and "0 < amount"
  shows "advances r r' \<and> (\<not> is_ok res \<longrightarrow> r' = r)"
proof -
  obtain s res' where s: "aggregation_apply key amount 1 (rk_state r) = (s, res')" by force
  show ?thesis
  proof (cases res')
    case (Inl err)
    then have "s = rk_state r" using s aggregation_apply_atomic by blast
    then show ?thesis using assms s Inl by (auto simp: accept_contribution_def)
  next
    case (Inr u)
    then have a: "aggregation_apply key amount 1 (rk_state r) = (s, Inr ())" using s by simp
    let ?s = "case group_metadata (rd_group_by (rk_definition r)) user gift of None \<Rightarrow> s
      | Some md \<Rightarrow> aggregation_update_metadata key md s"
    have "rk_state r' = ?s" "rk_instance r' = rk_instance r" "is_ok res"
      using assms(1) a by (auto simp: accept_contribution_def Let_def run_bind_eq_Ret
          split: if_splits option.splits window.splits)
    then show ?thesis using group_metadata_advances [OF a assms(2)] by (auto intro: advances_bumped)
  qed
qed

lemma account_contribution_advances:
  assumes "account_contribution c user gift sc r = Ret (r', res)" and "sc \<noteq> Inr 0"
  shows "advances r r' \<and> (\<not> is_ok res \<longrightarrow> r' = r)"
proof -
  have held: "advances r (r\<lparr>rk_state := s, rk_limited := n\<rparr>)"
    "advances r (r\<lparr>rk_state := s, rk_cooldown_rejected := n\<rparr>)"
    if "aggregation_touch (rk_state r) = (s, x)" for s x n
    using that by (auto intro!: advances_touched)
  have failed: "s = rk_state r" if "aggregation_touch (rk_state r) = (s, Inl err)" for s err
    using that by (auto simp: aggregation_touch_def split: option.splits)
  show ?thesis
    using assms accept_contribution_advances [of c user gift _ _ r r' res]
    by (auto simp: account_contribution_def dest: failed
        split: sum.splits option.splits if_splits decision.splits prod.splits intro: held)
qed

lemma contribute_to_ranking_advances:
  assumes "contribute_to_ranking c now user gift r = Ret (r', f)"
  shows "advances r r'"
proof (cases "rk_paused r \<or> rd_creator_id (rk_definition r) \<noteq> c_creator_id c \<or>
    rd_room_id (rk_definition r) \<noteq> c_room_id c")
  case False
  then obtain r1 res where e: "expire_ranking now r = Ret (r1, res)"
    using assms by (auto simp: contribute_to_ranking_def split: run.splits)
  note adv = expire_ranking_advances(1) [OF e]
  show ?thesis
  proof (cases res)
    case (Inl err)
    then show ?thesis using assms False e expire_rejected_advances [OF e]
      by (auto simp: contribute_to_ranking_def)
  next
    case (Inr u)
    let ?sc = "score (rd_sources (rk_definition r1)) c"
    show ?thesis
    proof (cases "(c_option c = None \<and> has_vote_source (rk_definition r1)) \<or> ?sc = Inr 0")
      case True
      then show ?thesis using assms False e Inr adv
        by (auto simp: contribute_to_ranking_def Let_def split: if_splits)
    next
      case sc: False
      then obtain r2 res2 where a: "account_contribution c user gift ?sc r1 = Ret (r2, res2)"
        "r' = (if is_ok res2 then r2 else reject_and_touch r2)"
        using assms False e Inr
        by (auto simp: contribute_to_ranking_def Let_def split: run.splits sum.splits)
      have "advances r1 r2" using account_contribution_advances [OF a(1)] sc by simp
      then show ?thesis using adv a(2) advances_trans advances_reject_and_touch by (metis (full_types))
    qed
  qed
qed (use assms in \<open>auto simp: contribute_to_ranking_def\<close>)

section \<open>The engine\<close>

text \<open>The stream moves every ranking forward; it neither adds, drops nor redefines one.\<close>

definition moves :: "ranking \<Rightarrow> ranking \<Rightarrow> bool" where
  "moves r r' \<longleftrightarrow> advances r r' \<and> rk_definition r' = rk_definition r"

definition rankings_move :: "(string, ranking) hmap \<Rightarrow> (string, ranking) hmap \<Rightarrow> bool" where
  "rankings_move rs rs' \<longleftrightarrow> (\<forall>rid. rel_option moves (hm_get rs rid) (hm_get rs' rid))"

lemma moves_refl [simp]: "moves r r"
  by (simp add: moves_def)

lemma moves_trans: "moves r s \<Longrightarrow> moves s t \<Longrightarrow> moves r t"
  using advances_trans by (auto simp: moves_def)

lemma moves_reject [simp]: "moves r (reject_and_touch r)"
  by (simp add: moves_def)

lemma rankings_move_refl [simp]: "rankings_move rs rs"
  by (simp add: rankings_move_def option.rel_refl)

lemma rankings_move_trans: "rankings_move a b \<Longrightarrow> rankings_move b c \<Longrightarrow> rankings_move a c"
  unfolding rankings_move_def
proof
  fix rid assume "\<forall>rid. rel_option moves (hm_get a rid) (hm_get b rid)" "\<forall>rid. rel_option moves (hm_get b rid) (hm_get c rid)"
  then have "rel_option moves (hm_get a rid) (hm_get b rid)" "rel_option moves (hm_get b rid) (hm_get c rid)" by simp_all
  then show "rel_option moves (hm_get a rid) (hm_get c rid)"
    by (auto simp: option_rel_Some1 option_rel_Some2 dest: moves_trans elim!: option.rel_cases)
qed

lemma rankings_move_put:
  "hm_get rs rid = Some r \<Longrightarrow> moves r r' \<Longrightarrow> rankings_move rs (hm_insert rid r' rs)"
  by (simp add: rankings_move_def hm_simps option.rel_refl)

lemma rankings_move_Cons:
  "moves r q \<Longrightarrow> rankings_move rs rs' \<Longrightarrow> rankings_move ((rid, r) # rs) ((rid, q) # rs')"
  by (simp add: rankings_move_def)

lemma expire_ranking_definition: "expire_ranking now r = Ret (r', res) \<Longrightarrow> rk_definition r' = rk_definition r"
  by (auto simp: expire_ranking_def Let_def split: window.splits prod.splits sum.splits run.splits if_splits)

lemma contribute_to_ranking_definition:
  "contribute_to_ranking c now user gift r = Ret (r', f) \<Longrightarrow> rk_definition r' = rk_definition r"
  by (auto simp: contribute_to_ranking_def account_contribution_def accept_contribution_def Let_def
      run_bind_eq_Ret reject_and_touch_def dest: expire_ranking_definition
      split: run.splits prod.splits sum.splits option.splits if_splits decision.splits window.splits)

lemma contribute_to_all_moves:
  "contribute_to_all c now user gift ids rs = Ret (rs', fs) \<Longrightarrow> rankings_move rs rs'"
proof (induction ids arbitrary: rs rs' fs)
  case (Cons rid ids)
  then obtain r r1 f fs1 where h: "hm_get rs rid = Some r" "contribute_to_ranking c now user gift r = Ret (r1, f)"
    "contribute_to_all c now user gift ids (hm_insert rid r1 rs) = Ret (rs', fs1)"
    by (auto split: option.splits run.splits prod.splits)
  have "moves r r1"
    using contribute_to_ranking_advances [OF h(2)] contribute_to_ranking_definition [OF h(2)] by (simp add: moves_def)
  then show ?case using rankings_move_trans [OF rankings_move_put [OF h(1)] Cons.IH [OF h(3)]] by simp
qed simp

lemma expire_all_moves: "expire_all now rs = Ret rs' \<Longrightarrow> rankings_move rs rs'"
proof (induction rs arbitrary: rs')
  case (Cons p rs)
  obtain rid r where p: "p = (rid, r)" by force
  with Cons.prems obtain r1 res rs1 where h: "expire_ranking now r = Ret (r1, res)" "expire_all now rs = Ret rs1"
    "rs' = (rid, if is_ok res then r1 else r1\<lparr>rk_rejected := saturating_add (rk_rejected r1) 1\<rparr>) # rs1"
    by (auto simp: run_bind_eq_Ret split: run.splits prod.splits)
  have "moves r (if is_ok res then r1 else r1\<lparr>rk_rejected := saturating_add (rk_rejected r1) 1\<rparr>)"
    using expire_rejected_advances [OF h(1)] expire_ranking_definition [OF h(1)] by (simp add: moves_def)
  then show ?case unfolding h(3) p using Cons.IH [OF h(2)] by (rule rankings_move_Cons)
qed (simp add: rankings_move_def)

lemma mark_where_moves: "mark_where P ids rs = Ret rs' \<Longrightarrow> rankings_move rs rs'"
proof (induction ids arbitrary: rs)
  case (Cons rid ids)
  then obtain r where h: "hm_get rs rid = Some r"
    "mark_where P ids (if P r then hm_insert rid (reject_and_touch r) rs else rs) = Ret rs'"
    by (auto split: option.splits)
  have "rankings_move rs (if P r then hm_insert rid (reject_and_touch r) rs else rs)"
    using rankings_move_put [OF h(1) moves_reject] by simp
  then show ?case using rankings_move_trans Cons.IH [OF h(2)] by blast
qed simp

lemma mark_ingress_loss_moves: "rankings_move (en_rankings e) (en_rankings (mark_ingress_loss n e))"
proof -
  let ?f = "\<lambda>r. if rk_paused r then r
    else r\<lparr>rk_dropped := saturating_add (rk_dropped r) n, rk_state := fst (aggregation_touch (rk_state r))\<rparr>"
  have f: "moves r (?f r)" for r
    by (auto simp: moves_def intro: advances_touched)
  have "rel_option moves (hm_get rs rid) (hm_get (map (\<lambda>(rid, r). (rid, ?f r)) rs) rid)" for rs rid
    by (induction rs) (use f in auto)
  then have "rankings_move (en_rankings e) (map (\<lambda>(rid, r). (rid, ?f r)) (en_rankings e))"
    unfolding rankings_move_def by (intro allI)
  then show ?thesis unfolding mark_ingress_loss_def by (cases "n = 0") (simp_all del: One_nat_def)
qed

lemma assign_votes_advances:
  "assign_votes weight old new a = Inr (b, res) \<Longrightarrow> table_advances a b"
  using table_advances_apply [of a] table_advances_reassign [of a]
  by (auto simp: assign_votes_def split: prod.splits option.splits if_splits dest!: sym [of "(b, res)"])
    (metis fst_conv)+

lemma recorded_moves:
  assumes "table_advances (rk_state r) s"
  shows "moves r (r\<lparr>rk_state := s\<rparr>)" and "moves r (reject_and_touch (r\<lparr>rk_state := s\<rparr>))"
proof -
  show "moves r (r\<lparr>rk_state := s\<rparr>)" using assms by (simp add: moves_def advances_state)
  then show "moves r (reject_and_touch (r\<lparr>rk_state := s\<rparr>))" using moves_trans moves_reject by blast
qed

lemma apply_assignment_moves:
  "rankings_move (en_rankings e) (en_rankings (fst (apply_assignment rid previous new e)))"
  by (auto simp: apply_assignment_def split: option.splits sum.splits prod.splits
      intro!: rankings_move_put recorded_moves intro: assign_votes_advances)

lemma apply_committed_score_moves:
  "rankings_move (en_rankings e) (en_rankings (fst (apply_committed_score rid opt n e)))"
proof -
  have "table_advances (rk_state r) s" if "aggregation_apply opt n (Suc 0) (rk_state r) = (s, res)" for r s res
    using table_advances_apply [of "rk_state r" opt n "Suc 0"] that by simp
  then show ?thesis
    by (auto simp: apply_committed_score_def split: option.splits sum.splits prod.splits
        intro!: rankings_move_put recorded_moves)
qed

text \<open>A change that follows a successful bump of the revision.\<close>

lemma bumped_moves:
  assumes "ag_revision (rk_state r') = ag_revision (rk_state r) + 1" and "rk_instance r' = rk_instance r"
    and "rk_definition r' = rk_definition r" and "length (ag_scores (rk_state r')) \<le> length (ag_scores (rk_state r))"
  shows "moves r r'"
  using assms by (simp add: moves_def advances_def)

lemma touch_Inr: "aggregation_touch a = (b, Inr u) \<Longrightarrow> b = a\<lparr>ag_revision := ag_revision a + 1\<rparr>"
  by (auto simp: aggregation_touch_def checked_add_def split: option.splits if_splits)

lemma set_entry_metadata_moves:
  "rankings_move (en_rankings e) (en_rankings (fst (set_entry_metadata rid key md e)))"
proof -
  have "moves r (r\<lparr>rk_state := s\<lparr>ag_metadata := m\<rparr>\<rparr>)" if "aggregation_touch (rk_state r) = (s, Inr u)" for r s m u
    using touch_Inr [OF that] by (intro bumped_moves) simp_all
  then show ?thesis
    by (auto simp: set_entry_metadata_def Let_def split: option.splits sum.splits prod.splits
        intro!: rankings_move_put)
qed

lemma paused_moves:
  "rankings_move (en_rankings e) (en_rankings (fst (set_paused rid paused e)))"
proof -
  have "moves r (r\<lparr>rk_state := s, rk_paused := b\<rparr>)" if "aggregation_touch (rk_state r) = (s, x)" for r s b x
    using that by (auto simp: moves_def intro: advances_touched)
  moreover have "moves r (r\<lparr>rk_state := s\<rparr>)" if "aggregation_touch (rk_state r) = (s, x)" for r s x
    using that by (auto simp: moves_def intro: advances_touched)
  ultimately show ?thesis
    by (auto simp: set_paused_def split: option.splits sum.splits prod.splits intro!: rankings_move_put)
qed

text \<open>A reset bumps the revision or, at its end, fails and leaves the ranking alone.\<close>

lemma reset_moves:
  "rankings_move (en_rankings e) (en_rankings (fst (engine_reset rid e)))"
proof -
  have ok: "moves r (clear_accounting (r\<lparr>rk_state := s\<rparr>))" if "aggregation_reset (rk_state r) = (s, Inr u)" for r s u
    using that by (intro bumped_moves) (auto simp: aggregation_reset_def checked_add_def clear_accounting_def
        split: option.splits if_splits)
  have failed: "moves r (r\<lparr>rk_state := s\<rparr>)" if "aggregation_reset (rk_state r) = (s, Inl err)" for r s err
    using that by (auto simp: aggregation_reset_def split: option.splits)
  show ?thesis
  proof (cases "hm_get (en_rankings e) rid")
    case (Some r)
    obtain s res where s: "aggregation_reset (rk_state r) = (s, res)" by force
    show ?thesis by (cases res) (use Some s ok failed in \<open>auto simp: engine_reset_def intro!: rankings_move_put\<close>)
  qed (simp add: engine_reset_def)
qed

lemma mark_gap_moves: "mark_gap creator room source e = Ret e' \<Longrightarrow> rankings_move (en_rankings e) (en_rankings e')"
  by (auto simp: mark_gap_def run_bind_eq_Ret split: option.splits dest: mark_where_moves)

lemma mark_metric_gap_moves:
  "mark_metric_gap creator room source metric e = Ret e' \<Longrightarrow> rankings_move (en_rankings e) (en_rankings e')"
  by (auto simp: mark_metric_gap_def run_bind_eq_Ret split: option.splits dest: mark_where_moves)

lemma mark_ranking_gap_moves: "rankings_move (en_rankings e) (en_rankings (mark_ranking_gap rid e))"
  by (auto simp: mark_ranking_gap_def split: option.split intro: rankings_move_put)

lemma apply_at_moves:
  "apply_at_with_metadata c now user gift e = Ret (e', fs) \<Longrightarrow> rankings_move (en_rankings e) (en_rankings e')"
  by (auto simp: apply_at_with_metadata_def split: option.splits run.splits prod.splits dest: contribute_to_all_moves)

lemma expire_at_moves: "expire_at now e = Ret e' \<Longrightarrow> rankings_move (en_rankings e) (en_rankings e')"
  by (auto simp: expire_at_def run_bind_eq_Ret dest: expire_all_moves)

end
