(* ===== verification/Ranking_Durability.thy ===== *)
theory Ranking_Durability
  imports Ranking_Control Ranking_Advance Ranking_Guarantees
begin

text \<open>
  The invariant of the ranking service: the definition rows are the definitions of the engine, every
  stored checkpoint belongs to its row, and a recorded change token that is still current vouches for
  a durable checkpoint of the ranking as it is. Every operation of a running application keeps it.
\<close>

section \<open>The invariant\<close>

definition rows_match :: "engine \<Rightarrow> ranking_store \<Rightarrow> bool" where
  "rows_match e rs \<longleftrightarrow> hm_wf (rs_definitions rs) \<and>
     (\<forall>rid. hm_get (rs_definitions rs) rid = map_option (ranking_row_of \<circ> rk_definition) (hm_get (en_rankings e) rid))"

definition checkpoints_ok :: "ranking_store \<Rightarrow> bool" where
  "checkpoints_ok rs \<longleftrightarrow>
     (\<forall>rid row. hm_get (rs_checkpoints rs) rid = Some row \<longrightarrow>
        ck_schema row = 1 \<and> (\<exists>cp. ck_checkpoint row = Some cp \<and> checkpoint_typed cp \<and> rd_id (cp_definition cp) = rid))"

text \<open>The time of the last expiry may lag in the durable copy.\<close>

definition durable :: "ranking \<Rightarrow> ranking_store \<Rightarrow> bool" where
  "durable r rs \<longleftrightarrow>
     (\<exists>t. ranking_inv (r\<lparr>rk_last_time := t\<rparr>) \<and> hm_get (rs_checkpoints rs) (rd_id (rk_definition r)) =
        Some \<lparr>ck_schema = 1, ck_checkpoint = Some (ranking_checkpoint (r\<lparr>rk_last_time := t\<rparr>))\<rparr>)"

definition token_ok :: "engine \<Rightarrow> ranking_store \<Rightarrow> string \<Rightarrow> u64 \<times> u64 \<Rightarrow> bool" where
  "token_ok e rs rid tok \<longleftrightarrow> fst tok \<le> en_next_instance e \<and>
     (\<forall>r. hm_get (en_rankings e) rid = Some r \<and> rk_instance r = fst tok \<longrightarrow>
        snd tok \<le> ag_revision (rk_state r) \<and>
        (snd tok = ag_revision (rk_state r) \<and> snd tok < u64_max \<longrightarrow> durable r rs))"

definition instances_ok :: "engine \<Rightarrow> bool" where
  "instances_ok e \<longleftrightarrow>
     (\<forall>rid r. hm_get (en_rankings e) rid = Some r \<longrightarrow> rk_instance r \<le> en_next_instance e \<and>
        (\<not> has_vote_source (rk_definition r) \<longrightarrow> entries_counted r))"

definition service_inv :: "service \<Rightarrow> bool" where
  "service_inv s \<longleftrightarrow>
     engine_inv (sv_engine s) \<and> instances_ok (sv_engine s) \<and> rows_match (sv_engine s) (sv_rankings s) \<and>
     checkpoints_ok (sv_rankings s) \<and>
     (\<forall>rid tok. hm_get (sv_persisted s) rid = Some tok \<longrightarrow> token_ok (sv_engine s) (sv_rankings s) rid tok) \<and>
     (sv_owner s \<noteq> None \<longrightarrow> rs_owner (sv_rankings s) = sv_owner s)"

lemma service_invD:
  assumes "service_inv s"
  shows "engine_inv (sv_engine s)" and "instances_ok (sv_engine s)" and "rows_match (sv_engine s) (sv_rankings s)"
    and "checkpoints_ok (sv_rankings s)"
    and "hm_get (sv_persisted s) rid = Some tok \<Longrightarrow> token_ok (sv_engine s) (sv_rankings s) rid tok"
    and "sv_owner s \<noteq> None \<Longrightarrow> rs_owner (sv_rankings s) = sv_owner s"
  using assms unfolding service_inv_def by blast+

lemma service_invI:
  assumes "engine_inv (sv_engine s)" and "instances_ok (sv_engine s)" and "rows_match (sv_engine s) (sv_rankings s)"
    and "checkpoints_ok (sv_rankings s)"
    and "\<And>rid tok. hm_get (sv_persisted s) rid = Some tok \<Longrightarrow> token_ok (sv_engine s) (sv_rankings s) rid tok"
    and "sv_owner s \<noteq> None \<Longrightarrow> rs_owner (sv_rankings s) = sv_owner s"
  shows "service_inv s"
  using assms unfolding service_inv_def by blast

section \<open>Forward moves\<close>

lemma rankings_move_get:
  assumes "rankings_move rs rs'" and "hm_get rs' rid = Some r'"
  shows "\<exists>r. hm_get rs rid = Some r \<and> moves r r'"
proof -
  have "rel_option moves (hm_get rs rid) (hm_get rs' rid)" using assms(1) by (simp add: rankings_move_def)
  then show ?thesis using assms(2) by (auto simp: option_rel_Some2)
qed

lemma rankings_move_definitions: "rankings_move rs rs' \<Longrightarrow> definitions_of rs' = definitions_of rs"
proof
  fix rid assume "rankings_move rs rs'"
  then have "rel_option moves (hm_get rs rid) (hm_get rs' rid)" by (simp add: rankings_move_def)
  then show "definitions_of rs' rid = definitions_of rs rid"
    by (auto simp: definitions_of_def moves_def elim: option.rel_cases)
qed

lemma rows_match_definitions:
  "rows_match e rs \<longleftrightarrow> hm_wf (rs_definitions rs) \<and>
     (\<forall>rid. hm_get (rs_definitions rs) rid = map_option ranking_row_of (definitions_of (en_rankings e) rid))"
  by (simp add: rows_match_def definitions_of_def option.map_comp)

lemma durable_moves:
  assumes "moves r r'" and "ag_revision (rk_state r') = ag_revision (rk_state r)"
    and "ag_revision (rk_state r) < u64_max"
  shows "durable r' rs = durable r rs"
proof -
  have "r' = r\<lparr>rk_last_time := rk_last_time r'\<rparr>" using assms by (simp add: moves_def advances_def)
  then obtain t where "r' = r\<lparr>rk_last_time := t\<rparr>" ..
  then show ?thesis by (simp add: durable_def)
qed

lemma token_ok_moves:
  assumes tok: "token_ok e rs rid tok" and move: "rankings_move (en_rankings e) (en_rankings e')"
    and next_no: "en_next_instance e \<le> en_next_instance e'"
  shows "token_ok e' rs rid tok"
  unfolding token_ok_def
proof (intro conjI allI impI)
  show "fst tok \<le> en_next_instance e'" using tok next_no by (simp add: token_ok_def)
next
  fix r' assume r': "hm_get (en_rankings e') rid = Some r' \<and> rk_instance r' = fst tok"
  then obtain r where r: "hm_get (en_rankings e) rid = Some r" "moves r r'"
    using rankings_move_get [OF move] by blast
  then have adv: "rk_instance r = fst tok" "ag_revision (rk_state r) \<le> ag_revision (rk_state r')"
    using r' by (simp_all add: moves_def advances_def)
  have old: "snd tok \<le> ag_revision (rk_state r)"
    "snd tok = ag_revision (rk_state r) \<and> snd tok < u64_max \<longrightarrow> durable r rs"
    using tok r(1) adv(1) by (auto simp: token_ok_def)
  then show "snd tok \<le> ag_revision (rk_state r')" using adv(2) by simp
  assume "snd tok = ag_revision (rk_state r') \<and> snd tok < u64_max"
  then show "durable r' rs" using old adv(2) durable_moves [OF r(2)] by simp
qed

lemma instances_ok_moves:
  assumes "instances_ok e" and "rankings_move (en_rankings e) (en_rankings e')"
    and "en_next_instance e \<le> en_next_instance e'"
  shows "instances_ok e'"
  unfolding instances_ok_def
proof (intro allI impI)
  fix rid r' assume "hm_get (en_rankings e') rid = Some r'"
  then obtain r where r: "hm_get (en_rankings e) rid = Some r" "moves r r'"
    using rankings_move_get [OF assms(2)] by blast
  then have m: "rk_instance r' = rk_instance r" "rk_definition r' = rk_definition r" "entries_counted r \<Longrightarrow> entries_counted r'"
    using advances_counted [of r r'] by (simp_all add: moves_def advances_def)
  have "rk_instance r \<le> en_next_instance e" "\<not> has_vote_source (rk_definition r) \<Longrightarrow> entries_counted r"
    using assms(1) r(1) by (auto simp: instances_ok_def)
  then show "rk_instance r' \<le> en_next_instance e' \<and> (\<not> has_vote_source (rk_definition r') \<longrightarrow> entries_counted r')"
    using m assms(3) by simp
qed

text \<open>Any change of the engine by forward moves keeps the service invariant.\<close>

lemma service_inv_moves:
  assumes inv: "service_inv s" and e: "engine_inv e" "rankings_move (en_rankings (sv_engine s)) (en_rankings e)"
    "en_next_instance e = en_next_instance (sv_engine s)"
  shows "service_inv (s\<lparr>sv_engine := e\<rparr>)"
proof (rule service_invI)
  show "instances_ok (sv_engine (s\<lparr>sv_engine := e\<rparr>))"
    using instances_ok_moves [OF service_invD(2) [OF inv] e(2)] e(3) by simp
  show "rows_match (sv_engine (s\<lparr>sv_engine := e\<rparr>)) (sv_rankings (s\<lparr>sv_engine := e\<rparr>))"
    using service_invD(3) [OF inv] rankings_move_definitions [OF e(2)] by (simp add: rows_match_definitions)
  show "token_ok (sv_engine (s\<lparr>sv_engine := e\<rparr>)) (sv_rankings (s\<lparr>sv_engine := e\<rparr>)) rid tok"
    if "hm_get (sv_persisted (s\<lparr>sv_engine := e\<rparr>)) rid = Some tok" for rid tok
    using token_ok_moves [OF service_invD(5) [OF inv] e(2)] e(3) that by simp
qed (use service_invD [OF inv] e in simp_all)

text \<open>So does any change of the tables that keeps definitions, checkpoints and owner.\<close>

lemma service_inv_tables:
  assumes inv: "service_inv s" and same: "rs_definitions rs = rs_definitions (sv_rankings s)"
    "rs_checkpoints rs = rs_checkpoints (sv_rankings s)" "rs_owner rs = rs_owner (sv_rankings s)"
  shows "service_inv (s\<lparr>sv_rankings := rs\<rparr>)"
  using inv same by (simp add: service_inv_def rows_match_def checkpoints_ok_def token_ok_def durable_def)

lemma service_inv_other [simp]:
  "service_inv (s\<lparr>sv_competitions := c\<rparr>) = service_inv s"
  "service_inv (s\<lparr>sv_store := st\<rparr>) = service_inv s"
  "service_inv (s\<lparr>sv_shutdown := b\<rparr>) = service_inv s"
  by (simp_all add: service_inv_def)

section \<open>Looking up definitions\<close>

lemma engine_definitions_set:
  "engine_inv e \<Longrightarrow> d \<in> set (engine_definitions e) \<longleftrightarrow>
     (\<exists>r. hm_get (en_rankings e) (rd_id d) = Some r \<and> rk_definition r = d)"
proof -
  assume inv: "engine_inv e"
  then have ok: "hm_wf (en_rankings e)"
    "\<And>rid r. hm_get (en_rankings e) rid = Some r \<Longrightarrow> rd_id (rk_definition r) = rid"
    by (auto simp: engine_inv_def rankings_ok_def)
  have "d \<in> set (engine_definitions e) \<longleftrightarrow> (\<exists>rid r. hm_get (en_rankings e) rid = Some r \<and> rk_definition r = d)"
    using ok(1) by (force simp: engine_definitions_def hm_get_Some_set image_iff)
  then show ?thesis using ok(2) by blast
qed

lemma distinct_map_sort_key: "distinct (map f (sort_key f xs)) = distinct (map f xs)"
  by (simp add: distinct_map)

lemma engine_definitions_distinct: "engine_inv e \<Longrightarrow> distinct (map rd_id (engine_definitions e))"
proof -
  assume inv: "engine_inv e"
  then have wf: "hm_wf (en_rankings e)" by (simp add: engine_inv_def rankings_ok_def)
  have eq: "map rd_id (map (\<lambda>(_, r). rk_definition r) (en_rankings e)) = map fst (en_rankings e)"
    using inv wf by (force simp: engine_inv_def rankings_ok_def hm_get_Some_set)
  have "distinct (map rd_id (map (\<lambda>(_, r). rk_definition r) (en_rankings e)))"
    unfolding eq using wf by (simp add: hm_wf_def)
  then show ?thesis unfolding engine_definitions_def distinct_map_sort_key .
qed

lemma ranking_known:
  assumes "engine_inv e"
  shows "list_ex (\<lambda>d. rd_id d = rid) (engine_definitions e) \<longleftrightarrow> hm_get (en_rankings e) rid \<noteq> None"
proof
  assume "list_ex (\<lambda>d. rd_id d = rid) (engine_definitions e)"
  then show "hm_get (en_rankings e) rid \<noteq> None"
    using engine_definitions_set [OF assms] by (auto simp: list_ex_iff)
next
  assume "hm_get (en_rankings e) rid \<noteq> None"
  then obtain r where r: "hm_get (en_rankings e) rid = Some r" by blast
  then have "rd_id (rk_definition r) = rid" using assms by (simp add: engine_inv_def rankings_ok_def)
  then show "list_ex (\<lambda>d. rd_id d = rid) (engine_definitions e)"
    using engine_definitions_set [OF assms, of "rk_definition r"] r by (auto simp: list_ex_iff)
qed

lemma ranking_missing_iff:
  "engine_inv (sv_engine s) \<Longrightarrow> ranking_missing rid s \<longleftrightarrow> hm_get (en_rankings (sv_engine s)) rid = None"
  using ranking_known [of "sv_engine s" rid] by (simp add: ranking_missing_def)

lemma engine_inv_id:
  "engine_inv e \<Longrightarrow> hm_get (en_rankings e) rid = Some r \<Longrightarrow> rd_id (rk_definition r) = rid"
  by (simp add: engine_inv_def rankings_ok_def)

lemma change_token_get: "change_token rid e = map_option token (hm_get (en_rankings e) rid)"
proof -
  have "map_option snd (find (\<lambda>(active, _). active = rid) (map (\<lambda>(rid, r). (rid, rk_instance r, ag_revision (rk_state r))) rs))
      = map_option token (hm_get rs rid)" for rs
    by (induction rs) (auto simp: token_def)
  then show ?thesis by (simp add: change_token_def change_tokens_def)
qed

section \<open>The stream\<close>

lemma stream_step:
  assumes inv: "service_inv s" and ok: "stream_op op" and counter: "en_next_instance (sv_engine s) < u64_max"
  shows "\<exists>e. engine_step op (sv_engine s) = Ret e \<and> service_inv (s\<lparr>sv_engine := e\<rparr>) \<and>
    en_next_instance e = en_next_instance (sv_engine s)"
proof -
  have "op_ok op" using ok by (cases op) auto
  then obtain e where e: "engine_step op (sv_engine s) = Ret e" "engine_inv e"
    using engine_step_inv [OF service_invD(1) [OF inv] counter] by blast
  have move: "rankings_move (en_rankings (sv_engine s)) (en_rankings e) \<and> en_next_instance e = en_next_instance (sv_engine s)"
    using ok e(1)
    by (cases op) (auto simp: engine_step_def run_bind_eq_Ret next_instance_ops
        apply_assignment_moves apply_committed_score_moves set_entry_metadata_moves mark_ingress_loss_moves
        mark_ranking_gap_moves dest: apply_at_moves expire_at_moves mark_gap_moves mark_metric_gap_moves
        next_instance_ops(4-7))
  then show ?thesis using service_inv_moves [OF inv e(2)] e(1) by simp
qed

end
