(* ===== verification/Ranking_Steps.thy ===== *)
theory Ranking_Steps
  imports Ranking_Durability
begin

text \<open>
  Every operation of the running service keeps its invariant: the control operations, the external
  contributions, the checkpoint passes and the shutdown. The restart is in \<open>Ranking_Restart\<close>.
\<close>

section \<open>Control operations on the engine\<close>

lemma snapshot_step:
  assumes inv: "service_inv s"
  shows "\<exists>s' res. ranking_snapshot rid now s = Ret (s', res) \<and> service_inv s' \<and>
    en_next_instance (sv_engine s') = en_next_instance (sv_engine s)"
proof -
  obtain e where e: "expire_at now (sv_engine s) = Ret e" "engine_inv e"
    using engine_inv_expire_at [OF service_invD(1) [OF inv]] by blast
  have "service_inv (s\<lparr>sv_engine := e\<rparr>)"
    using service_inv_moves [OF inv e(2) expire_at_moves [OF e(1)] next_instance_ops(5) [OF e(1)]] .
  then show ?thesis using e(1) next_instance_ops(5) [OF e(1)] by (simp add: ranking_snapshot_def)
qed

lemma pause_step:
  assumes inv: "service_inv s"
  shows "service_inv (fst (ranking_pause rid paused s)) \<and>
    en_next_instance (sv_engine (fst (ranking_pause rid paused s))) = en_next_instance (sv_engine s)"
proof -
  let ?e = "fst (set_paused rid paused (sv_engine s))"
  have "service_inv (s\<lparr>sv_engine := ?e\<rparr>)"
    using service_inv_moves [OF inv engine_inv_set_paused [OF service_invD(1) [OF inv]] paused_moves
        next_instance_ops(16)] .
  then show ?thesis using inv next_instance_ops(16) [of rid paused "sv_engine s"]
    by (auto simp: ranking_pause_def engine_result_def case_prod_beta split: sum.split)
qed

text \<open>A reset clears the durable copy and bumps the revision, so no token vouches for the old one.\<close>

lemma durable_other:
  assumes "rd_id (rk_definition r) \<noteq> rid"
  shows "durable r (rs\<lparr>rs_checkpoints := hm_remove rid (rs_checkpoints rs)\<rparr>) = durable r rs"
    and "durable r (rs\<lparr>rs_checkpoints := hm_insert rid row (rs_checkpoints rs)\<rparr>) = durable r rs"
  using assms by (simp_all add: durable_def hm_simps)

lemma checkpoints_ok_remove:
  "checkpoints_ok rs \<Longrightarrow> checkpoints_ok (rs\<lparr>rs_checkpoints := hm_remove rid (rs_checkpoints rs)\<rparr>)"
  by (simp add: checkpoints_ok_def hm_simps)

lemma engine_reset_bumps:
  assumes "hm_get (en_rankings e) rid = Some r"
  shows "\<exists>r'. hm_get (en_rankings (fst (engine_reset rid e))) rid = Some r' \<and> rk_instance r' = rk_instance r \<and>
    (ag_revision (rk_state r) < ag_revision (rk_state r') \<or> u64_max \<le> ag_revision (rk_state r'))"
  using assms
  by (auto simp: engine_reset_def aggregation_reset_def clear_accounting_def checked_add_def hm_simps
      split: option.split)

lemma engine_reset_other:
  "rid' \<noteq> rid \<Longrightarrow> hm_get (en_rankings (fst (engine_reset rid e))) rid' = hm_get (en_rankings e) rid'"
  by (auto simp: engine_reset_def hm_simps split: option.split prod.split)

lemma reset_step:
  assumes inv: "service_inv s"
  shows "service_inv (fst (ranking_reset rid s)) \<and>
    en_next_instance (sv_engine (fst (ranking_reset rid s))) = en_next_instance (sv_engine s)"
proof (cases "is_ok (ensure_ranking_not_in_use rid s) \<and> \<not> ranking_missing rid s")
  case False
  then show ?thesis using inv by (auto simp: ranking_reset_def split: sum.split)
next
  case True
  let ?e = "fst (engine_reset rid (sv_engine s))"
  let ?rs = "(sv_rankings s)\<lparr>rs_checkpoints := hm_remove rid (rs_checkpoints (sv_rankings s))\<rparr>"
  let ?s = "s\<lparr>sv_rankings := ?rs, sv_engine := ?e\<rparr>"
  have run: "fst (ranking_reset rid s) = ?s"
    using True by (auto simp: ranking_reset_def engine_result_def clear_aggregation_checkpoint_def case_prod_beta is_ok_iff)
  have moved: "service_inv (s\<lparr>sv_engine := ?e\<rparr>)"
    using service_inv_moves [OF inv engine_inv_reset [OF service_invD(1) [OF inv]] reset_moves next_instance_ops(15)] .
  note old = service_invD [OF inv] and new = service_invD [OF moved]
  obtain r0 where r0: "hm_get (en_rankings (sv_engine s)) rid = Some r0"
    using True ranking_missing_iff [OF old(1), of rid] by auto
  have "service_inv ?s"
  proof (rule service_invI)
    show "checkpoints_ok (sv_rankings ?s)" using checkpoints_ok_remove [OF old(4)] by simp
    fix k tok assume tok: "hm_get (sv_persisted ?s) k = Some tok"
    have t: "token_ok (sv_engine s) (sv_rankings s) k tok" "token_ok ?e (sv_rankings s) k tok"
      using old(5) [of k tok] new(5) [of k tok] tok by simp_all
    show "token_ok (sv_engine ?s) (sv_rankings ?s) k tok"
    proof (cases "k = rid")
      case True
      obtain r' where r': "hm_get (en_rankings ?e) rid = Some r'" "rk_instance r' = rk_instance r0"
        "ag_revision (rk_state r0) < ag_revision (rk_state r') \<or> u64_max \<le> ag_revision (rk_state r')"
        using engine_reset_bumps [OF r0] by blast
      have "rk_instance r0 = fst tok \<longrightarrow> snd tok \<le> ag_revision (rk_state r0)"
        using t(1) r0 True by (auto simp: token_ok_def)
      then show ?thesis using t(2) r' True by (auto simp: token_ok_def)
    next
      case False
      have "durable r ?rs = durable r (sv_rankings s)" if "hm_get (en_rankings ?e) k = Some r" for r
        using durable_other(1) [of r rid] engine_inv_id [OF new(1)] that False by simp
      then show ?thesis using t(2) by (auto simp: token_ok_def)
    qed
  qed (use new in \<open>simp_all add: rows_match_def\<close>)
  then show ?thesis using run next_instance_ops(15) [of rid "sv_engine s"] by simp
qed

section \<open>Deletion, creation and update\<close>

lemma delete_step:
  assumes inv: "service_inv s"
  shows "service_inv (fst (ranking_delete rid s)) \<and>
    en_next_instance (sv_engine (fst (ranking_delete rid s))) = en_next_instance (sv_engine s)"
proof (cases "cs_load_failed (sv_competitions s) \<or>
    list_ex (\<lambda>d. cd_ranking_id d = rid) (map_values (cs_definitions (sv_competitions s))) \<or> ranking_missing rid s")
  case True
  then show ?thesis using inv by (auto simp: ranking_delete_def)
next
  case False
  note old = service_invD [OF inv]
  obtain r0 where r0: "hm_get (en_rankings (sv_engine s)) rid = Some r0"
    using False ranking_missing_iff [OF old(1), of rid] by auto
  then have row: "hm_has (rs_definitions (sv_rankings s)) rid"
    using old(3) by (simp add: rows_match_def hm_has_def)
  let ?e = "fst (engine_remove rid (sv_engine s))"
  let ?rs = "(sv_rankings s)\<lparr>rs_definitions := hm_remove rid (rs_definitions (sv_rankings s)),
      rs_checkpoints := hm_remove rid (rs_checkpoints (sv_rankings s))\<rparr>"
  let ?s = "s\<lparr>sv_rankings := ?rs, sv_engine := ?e\<rparr>"
  have run: "fst (ranking_delete rid s) = ?s"
    using False row by (simp add: ranking_delete_def delete_aggregation_definition_def)
  have get: "hm_get (en_rankings ?e) k = (if k = rid then None else hm_get (en_rankings (sv_engine s)) k)" for k
    using r0 by (simp add: engine_remove_def hm_simps)
  have e: "engine_inv ?e" using engine_inv_remove [OF old(1)] .
  have "service_inv ?s"
  proof (rule service_invI)
    show "instances_ok (sv_engine ?s)"
      using old(2) next_instance_ops(3) [of rid "sv_engine s"] by (simp add: instances_ok_def get)
    show "rows_match (sv_engine ?s) (sv_rankings ?s)" using old(3) by (simp add: rows_match_def get hm_simps)
    show "checkpoints_ok (sv_rankings ?s)" using old(4) by (simp add: checkpoints_ok_def hm_simps)
    fix k tok assume "hm_get (sv_persisted ?s) k = Some tok"
    then have t: "token_ok (sv_engine s) (sv_rankings s) k tok" using old(5) by simp
    have "durable r ?rs = durable r (sv_rankings s)" if "hm_get (en_rankings ?e) k = Some r" for r
      using engine_inv_id [OF e that] that get [of k] by (auto simp: durable_def hm_simps split: if_splits)
    then show "token_ok (sv_engine ?s) (sv_rankings ?s) k tok"
      using t next_instance_ops(3) [of rid "sv_engine s"] get [of k] by (auto simp: token_ok_def split: if_splits)
  qed (use old(6) e in simp_all)
  then show ?thesis using run next_instance_ops(3) [of rid "sv_engine s"] by simp
qed

lemma probe_same:
  "drawn_ok a \<Longrightarrow> drawn_ok b \<Longrightarrow> is_ok (snd (engine_create a d engine_default)) =
     is_ok (snd (engine_create b d engine_default))"
  by (auto simp: drawn_ok_def engine_create_def engine_default_def Let_def checked_add_def u64_max_def hm_has_def)

lemma engine_create_ok:
  assumes "drawn_ok identity" and "length (en_rankings e) < 128" and "\<not> definition_invalid d"
    and "hm_get (en_rankings e) (rd_id d) = None" and "en_next_instance e < u64_max"
  shows "\<exists>bytes e'. engine_create identity d e = (e', Inr ()) \<and> en_next_instance e' = en_next_instance e + 1 \<and>
    en_rankings e' = hm_insert (rd_id d) (ranking_new d (en_next_instance e + 1) (hex_bytes bytes)) (en_rankings e)"
  using assms by (auto simp: engine_create_def drawn_ok_def hm_has_def Let_def checked_add_def)

lemma drawn_length: "drawn_ok identity \<Longrightarrow> \<forall>bytes. identity = Some bytes \<longrightarrow> length bytes = 16"
  by (auto simp: drawn_ok_def)

lemma create_step:
  assumes inv: "service_inv s" and drawn: "drawn_ok probe" "drawn_ok identity"
    and counter: "en_next_instance (sv_engine s) < u64_max"
  shows "service_inv (fst (ranking_create probe identity d s)) \<and>
    en_next_instance (sv_engine (fst (ranking_create probe identity d s))) \<le> en_next_instance (sv_engine s) + 1"
proof (cases "is_ok (snd (engine_create probe d engine_default)) \<and>
    \<not> list_ex (\<lambda>item. rd_id item = rd_id d) (engine_definitions (sv_engine s)) \<and>
    length (engine_definitions (sv_engine s)) < 128")
  case False
  then show ?thesis using inv by (auto simp: ranking_create_def Let_def split: sum.split)
next
  case True
  note old = service_invD [OF inv]
  have free: "hm_get (en_rankings (sv_engine s)) (rd_id d) = None"
    using True ranking_known [OF old(1), of "rd_id d"] by simp
  have valid: "\<not> definition_invalid d"
    using True by (auto simp: engine_create_def engine_default_def split: if_splits)
  have len: "length (en_rankings (sv_engine s)) < 128" using True by (simp add: engine_definitions_def)
  obtain bytes e where e: "engine_create identity d (sv_engine s) = (e, Inr ())"
    "en_next_instance e = en_next_instance (sv_engine s) + 1"
    "en_rankings e = hm_insert (rd_id d) (ranking_new d (en_next_instance (sv_engine s) + 1) (hex_bytes bytes))
       (en_rankings (sv_engine s))"
    using engine_create_ok [OF drawn(2) len valid free counter] by blast
  let ?rs = "(sv_rankings s)\<lparr>rs_definitions := hm_insert (rd_id d) (ranking_row_of d) (rs_definitions (sv_rankings s))\<rparr>"
  let ?s = "s\<lparr>sv_rankings := ?rs, sv_engine := e\<rparr>"
  have row: "hm_get (rs_definitions (sv_rankings s)) (rd_id d) = None"
    using old(3) free by (simp add: rows_match_def)
  obtain u where probe_ok: "snd (engine_create probe d engine_default) = Inr u" using True by (auto simp: is_ok_iff)
  have run: "fst (ranking_create probe identity d s) = ?s"
    using True probe_ok e(1) row
    by (simp add: ranking_create_def insert_aggregation_definition_def insert_row_fresh)
  have new: "engine_inv e"
    using engine_inv_create [OF old(1) counter drawn_length [OF drawn(2)], of d] e(1) by simp
  have get: "hm_get (en_rankings e) k = (if k = rd_id d
      then Some (ranking_new d (en_next_instance (sv_engine s) + 1) (hex_bytes bytes))
      else hm_get (en_rankings (sv_engine s)) k)" for k
    using e(3) by (simp add: hm_simps)
  have "service_inv ?s"
  proof (rule service_invI)
    show "instances_ok (sv_engine ?s)"
      using old(2) e(2) by (auto simp: instances_ok_def get ranking_new_def entries_counted_def aggregation_new_def
          le_SucI)
    show "rows_match (sv_engine ?s) (sv_rankings ?s)"
      using old(3) by (simp add: rows_match_def get hm_simps ranking_new_def)
    show "checkpoints_ok (sv_rankings ?s)" using old(4) by (simp add: checkpoints_ok_def)
    fix k tok assume "hm_get (sv_persisted ?s) k = Some tok"
    then have "token_ok (sv_engine s) (sv_rankings s) k tok" using old(5) by simp
    then show "token_ok (sv_engine ?s) (sv_rankings ?s) k tok"
      using e(2) get [of k] by (auto simp: token_ok_def ranking_new_def durable_def split: if_splits)
  qed (use new old(6) in simp_all)
  then show ?thesis using run e(2) by simp
qed

lemma engine_update_done:
  assumes inv: "engine_inv e" and ok: "validate_update identity d reset e = Inr u"
  shows "\<exists>r r' e'. hm_get (en_rankings e) (rd_id d) = Some r \<and> engine_update identity d reset e = Ret (e', Inr ()) \<and>
    engine_inv e' \<and> en_next_instance e' = en_next_instance e \<and>
    en_rankings e' = hm_insert (rd_id d) r' (en_rankings e) \<and> rk_definition r' = d \<and>
    rk_instance r' = rk_instance r \<and> ag_revision (rk_state r') = ag_revision (rk_state r) + 1 \<and>
    (ag_scores (rk_state r') = [] \<or>
     ag_scores (rk_state r') = ag_scores (rk_state r) \<and> rd_sources d = rd_sources (rk_definition r))"
proof -
  obtain r where r: "hm_get (en_rankings e) (rd_id d) = Some r"
    "reset \<or> (rk_definition r)\<lparr>rd_limit := rd_limit d\<rparr> = d" "ag_revision (rk_state r) \<noteq> u64_max"
    using validate_update_Inr [OF ok] by blast
  have room: "ag_revision (rk_state r) + 1 \<le> u64_max"
    using agg_inv_revision [OF ranking_inv_state [OF engine_inv_get [OF inv r(1)]]] r(3) by linarith
  have same: "rd_sources d = rd_sources (rk_definition r)" if "\<not> reset"
  proof -
    have "(rk_definition r)\<lparr>rd_limit := rd_limit d\<rparr> = d" using r(2) that by blast
    then have "rd_sources ((rk_definition r)\<lparr>rd_limit := rd_limit d\<rparr>) = rd_sources d" by simp
    then show ?thesis by simp
  qed
  obtain e' res where e': "engine_update identity d reset e = Ret (e', res)" "engine_inv e'"
    using engine_inv_update [OF inv, of identity d reset] by blast
  have "res = Inr () \<and> en_next_instance e' = en_next_instance e \<and>
    (\<exists>r'. en_rankings e' = hm_insert (rd_id d) r' (en_rankings e) \<and> rk_definition r' = d \<and>
      rk_instance r' = rk_instance r \<and> ag_revision (rk_state r') = ag_revision (rk_state r) + 1 \<and>
      (ag_scores (rk_state r') = [] \<or>
       ag_scores (rk_state r') = ag_scores (rk_state r) \<and> rd_sources d = rd_sources (rk_definition r)))"
  proof (cases reset)
    case True
    then show ?thesis using e'(1) ok r(1) room
      by (auto simp: engine_update_def Let_def aggregation_reset_def checked_add_def clear_accounting_def
          aggregation_set_capacity_def)
  next
    case False
    then show ?thesis using e'(1) ok r(1) room same
      by (auto simp: engine_update_def Let_def aggregation_touch_def checked_add_def)
  qed
  then show ?thesis using e' r(1) by blast
qed

text \<open>The command index is rebuilt from scratch and never aborts.\<close>

lemma index_definitions_total:
  "index_ok lower i \<Longrightarrow> \<exists>res. index_definitions lower rankings used ds i = Ret res"
proof (induction ds arbitrary: used i)
  case (Cons d ds)
  show ?case
  proof (cases "find (\<lambda>r. rd_id r = cd_ranking_id d) rankings")
    case (Some r)
    obtain i1 where i1: "index_step lower (Ix_Register d (rd_creator_id r) (rd_room_id r)) i = Ret i1" "index_ok lower i1"
      using index_step_ok [OF Cons.prems] by blast
    then obtain res where reg: "index_register lower d (rd_creator_id r) (rd_room_id r) i = Ret (i1, res)"
      by (auto simp: index_step_def run_bind_eq_Ret)
    have sources: "index_ok lower (fst (index_register_sources cid creator room names i1))" for cid creator room names
      using index_step_ok [OF i1(2), of "Ix_Sources cid creator room names"] by (simp add: index_step_def)
    show ?thesis
      using Some reg Cons.IH [OF i1(2)] Cons.IH [OF sources]
      by (auto split: sum.split prod.split) (metis fst_conv)
  qed simp
qed simp

lemma build_index_total: "\<exists>res. build_index lower definitions rankings = Ret res"
  unfolding build_index_def using index_definitions_total [OF index_ok_default] .

lemma probe_update:
  assumes "validate_update probe d reset e = Inr u" and "drawn_ok probe" and "drawn_ok identity"
  shows "validate_update identity d reset e = Inr u"
proof -
  obtain a where a: "snd (engine_create probe d engine_default) = Inr a"
    using assms(1) by (auto simp: validate_update_def split: sum.splits)
  then obtain b where "snd (engine_create identity d engine_default) = Inr b"
    using probe_same [OF assms(2,3), of d] by (auto simp: is_ok_iff)
  then show ?thesis using assms(1) a by (simp add: validate_update_def)
qed

lemma has_vote_sources: "rd_sources d = rd_sources d' \<Longrightarrow> has_vote_source d = has_vote_source d'"
  by (simp add: has_vote_source_def)

text \<open>An update replaces the definition row, drops the durable copy and bumps the revision.\<close>

lemma updated_inv:
  assumes inv: "service_inv s" and r: "hm_get (en_rankings (sv_engine s)) rid = Some r"
    and e: "engine_inv e" "en_next_instance e = en_next_instance (sv_engine s)"
      "en_rankings e = hm_insert rid r' (en_rankings (sv_engine s))"
    and r': "rk_definition r' = d" "rd_id d = rid" "rk_instance r' = rk_instance r"
      "ag_revision (rk_state r') = ag_revision (rk_state r) + 1"
      "ag_scores (rk_state r') = [] \<or>
       ag_scores (rk_state r') = ag_scores (rk_state r) \<and> rd_sources d = rd_sources (rk_definition r)"
  shows "service_inv (s\<lparr>sv_engine := e, sv_rankings := (sv_rankings s)
      \<lparr>rs_definitions := hm_insert rid (ranking_row_of d) (rs_definitions (sv_rankings s)),
       rs_checkpoints := hm_remove rid (rs_checkpoints (sv_rankings s))\<rparr>\<rparr>)" (is "service_inv ?s")
proof (rule service_invI)
  note old = service_invD [OF inv]
  have get: "hm_get (en_rankings e) k = (if k = rid then Some r' else hm_get (en_rankings (sv_engine s)) k)" for k
    using e(3) by (simp add: hm_simps)
  have counted: "\<not> has_vote_source d \<Longrightarrow> entries_counted r'"
    using r' old(2) r has_vote_sources [of d "rk_definition r"]
    by (auto simp: instances_ok_def entries_counted_def le_SucI)
  show "instances_ok (sv_engine ?s)"
    using old(2) e(2) r r'(1,3) counted by (auto simp: instances_ok_def get)
  show "rows_match (sv_engine ?s) (sv_rankings ?s)"
    using old(3) r'(1) by (simp add: rows_match_def get hm_simps)
  show "checkpoints_ok (sv_rankings ?s)" using old(4) by (simp add: checkpoints_ok_def hm_simps)
  fix k tok assume "hm_get (sv_persisted ?s) k = Some tok"
  then have t: "token_ok (sv_engine s) (sv_rankings s) k tok" using old(5) by simp
  show "token_ok (sv_engine ?s) (sv_rankings ?s) k tok"
  proof (cases "k = rid")
    case True
    then show ?thesis using t r r'(3,4) e(2) by (auto simp: token_ok_def get)
  next
    case False
    then have "durable q (sv_rankings ?s) = durable q (sv_rankings s)"
      if "hm_get (en_rankings (sv_engine s)) k = Some q" for q
      using engine_inv_id [OF old(1) that] by (simp add: durable_def hm_simps)
    then show ?thesis using t False e(2) by (auto simp: token_ok_def get)
  qed
qed (use service_invD [OF inv] e(1) in simp_all)

lemma update_step:
  assumes inv: "service_inv s" and drawn: "drawn_ok probe" "drawn_ok identity"
  shows "\<exists>s' res. ranking_update lower probe identity d reset s = Ret (s', res) \<and> service_inv s' \<and>
    en_next_instance (sv_engine s') = en_next_instance (sv_engine s)"
proof (cases "is_ok (if reset then ensure_ranking_not_in_use (rd_id d) s else Inr ()) \<and>
    is_ok (validate_update probe d reset (sv_engine s))")
  case False
  then show ?thesis using inv by (auto simp: ranking_update_def is_ok_def split: sum.splits if_splits)
next
  case True
  note old = service_invD [OF inv]
  obtain u where v: "validate_update probe d reset (sv_engine s) = Inr u" using True by (auto simp: is_ok_iff)
  obtain x where x: "(if reset then ensure_ranking_not_in_use (rd_id d) s else Inr ()) = Inr x"
    using True by (auto simp: is_ok_iff)
  obtain built where b: "build_index lower (cs_definitions (sv_competitions s))
      (replace_definition d (engine_definitions (sv_engine s))) = Ret built"
    using build_index_total by blast
  show ?thesis
  proof (cases built)
    case (Inl err)
    then show ?thesis using inv v x b by (simp add: ranking_update_def)
  next
    case (Inr i)
    obtain r r' e where e: "hm_get (en_rankings (sv_engine s)) (rd_id d) = Some r"
      "engine_update identity d reset (sv_engine s) = Ret (e, Inr ())" "engine_inv e"
      "en_next_instance e = en_next_instance (sv_engine s)"
      "en_rankings e = hm_insert (rd_id d) r' (en_rankings (sv_engine s))" "rk_definition r' = d"
      "rk_instance r' = rk_instance r" "ag_revision (rk_state r') = ag_revision (rk_state r) + 1"
      "ag_scores (rk_state r') = [] \<or>
       ag_scores (rk_state r') = ag_scores (rk_state r) \<and> rd_sources d = rd_sources (rk_definition r)"
      using engine_update_done [OF old(1) probe_update [OF v drawn]] by blast
    have row: "hm_has (rs_definitions (sv_rankings s)) (rd_id d)"
      using old(3) e(1) by (simp add: rows_match_def hm_has_def)
    let ?s = "s\<lparr>sv_engine := e, sv_rankings := (sv_rankings s)
      \<lparr>rs_definitions := hm_insert (rd_id d) (ranking_row_of d) (rs_definitions (sv_rankings s)),
       rs_checkpoints := hm_remove (rd_id d) (rs_checkpoints (sv_rankings s))\<rparr>\<rparr>"
    have "ranking_update lower probe identity d reset s =
        Ret (?s\<lparr>sv_competitions := (sv_competitions s)\<lparr>cs_index := i\<rparr>\<rparr>, Inr ())"
      using x v b Inr row e(2) by (simp add: ranking_update_def update_aggregation_definition_def)
    moreover have "service_inv ?s" using updated_inv [OF inv e(1,3,4,5,6) refl e(7,8,9)] .
    ultimately show ?thesis using e(4) by simp
  qed
qed

section \<open>External contributions\<close>

lemma contribute_step:
  assumes inv: "service_inv s"
  shows "\<exists>s' res. ranking_contribute admitted_at now c s = Ret (s', res) \<and> service_inv s' \<and>
    en_next_instance (sv_engine s') = en_next_instance (sv_engine s)"
proof -
  have same: "rs_definitions rs = rs_definitions (sv_rankings s)" "rs_checkpoints rs = rs_checkpoints (sv_rankings s)"
    "rs_owner rs = rs_owner (sv_rankings s)"
    if "admit_external_contribution event_id at (sv_rankings s) = (rs, res)" for rs event_id at res
    using that by (auto simp: admit_external_contribution_def Let_def split: if_splits)
  obtain rs res where a: "admit_external_contribution (external_identity c) (int (min admitted_at i64_max)) (sv_rankings s) = (rs, res)"
    by force
  let ?s = "s\<lparr>sv_rankings := rs\<rparr>"
  have inv': "service_inv ?s" using service_inv_tables [OF inv same [OF a]] .
  let ?md = "map_option (\<lambda>l. entry_metadata_default\<lparr>em_label := Some l\<rparr>) (ex_label c)"
  obtain e fs where e: "apply_at_with_metadata (external_event c) now ?md None (sv_engine s) = Ret (e, fs)" "engine_inv e"
    using engine_inv_apply [OF service_invD(1) [OF inv]] by blast
  have next_no: "en_next_instance e = en_next_instance (sv_engine s)" using next_instance_ops(4) [OF e(1)] by simp
  have "service_inv (?s\<lparr>sv_engine := e\<rparr>)"
    using service_inv_moves [OF inv' e(2)] apply_at_moves [OF e(1)] next_no by simp
  then show ?thesis using inv inv' a e(1) next_no
    by (cases res) (auto simp: ranking_contribute_def split: bool.split)
qed

section \<open>Checkpoint passes\<close>

lemma ranking_checkpoint_typed:
  assumes "ranking_inv r"
  shows "checkpoint_typed (ranking_checkpoint r)"
proof -
  have users: "\<forall>p \<in> set (rk_users r). us_count (snd p) \<le> u64_max" and wf: "hm_wf (rk_users r)"
    using ranking_inv_users [OF assms]
    by (cases "rd_user_limits (rk_definition r)"; auto simp: user_ok_def list_all_iff)+
  have "ag_revision (rk_state r) \<le> u64_max" using agg_inv_revision [OF ranking_inv_state [OF assms]] .
  then show ?thesis using assms users wf
    by (simp add: checkpoint_typed_def ranking_checkpoint_def ranking_selection_eq [OF assms] complete_snapshot_def
        snapshot_candidates_def ranking_inv_def Let_def)
qed

lemma save_checkpoint_cases:
  assumes "save_aggregation_checkpoint identity json_len cp owner rs = (rs', res)"
  shows "case res of Inl _ \<Rightarrow> rs' = rs
    | Inr _ \<Rightarrow> rs_owner rs = Some owner \<and> rs' = rs\<lparr>rs_checkpoints :=
        hm_insert (rd_id (cp_definition cp)) \<lparr>ck_schema = 1, ck_checkpoint = Some cp\<rparr> (rs_checkpoints rs)\<rparr>"
  using assms
  by (auto simp: save_aggregation_checkpoint_def transact_def bind_result_def decoded_def
      split: option.splits if_splits sum.splits)

lemma persist_one_frame:
  "sv_engine (fst (persist_one identity json_len owner rid only s)) = sv_engine s"
  "sv_owner (fst (persist_one identity json_len owner rid only s)) = sv_owner s"
  "sv_shutdown (fst (persist_one identity json_len owner rid only s)) = sv_shutdown s"
  by (auto simp: persist_one_def split: option.split sum.split prod.split)

lemma persist_one_cases:
  assumes inv: "engine_inv (sv_engine s)" and r: "hm_get (en_rankings (sv_engine s)) rid = Some r"
  shows "persist_one identity json_len owner rid only s =
    (if only \<and> hm_get (sv_persisted s) rid = Some (token r) then (s, Inr False)
     else (case save_aggregation_checkpoint identity json_len (ranking_checkpoint r) owner (sv_rankings s) of
        (rs, Inl err) \<Rightarrow> (s\<lparr>sv_rankings := rs\<rparr>, Inl err)
      | (rs, Inr _) \<Rightarrow> (s\<lparr>sv_rankings := rs, sv_persisted := hm_insert rid (token r) (sv_persisted s)\<rparr>, Inr True)))"
  using r session_checkpoint_eq [OF r] by (simp add: persist_one_def change_token_get)

lemma durable_saved:
  assumes "ranking_inv r" and "hm_get (rs_checkpoints rs) (rd_id (rk_definition r)) =
    Some \<lparr>ck_schema = 1, ck_checkpoint = Some (ranking_checkpoint r)\<rparr>"
  shows "durable r rs"
  using assms unfolding durable_def by (intro exI [of _ "rk_last_time r"]) simp

lemma persist_one_inv:
  assumes inv: "service_inv s"
  shows "service_inv (fst (persist_one identity json_len owner rid only s))"
proof (cases "hm_get (en_rankings (sv_engine s)) rid")
  case None
  then show ?thesis using inv by (simp add: persist_one_def change_token_get)
next
  case (Some r)
  note old = service_invD [OF inv]
  have r: "ranking_inv r" "rd_id (rk_definition r) = rid"
    using engine_inv_get [OF old(1) Some] engine_inv_id [OF old(1) Some] .
  obtain rs res where save: "save_aggregation_checkpoint identity json_len (ranking_checkpoint r) owner (sv_rankings s) = (rs, res)"
    by force
  show ?thesis
  proof (cases "only \<and> hm_get (sv_persisted s) rid = Some (token r)")
    case False
    show ?thesis
    proof (cases res)
      case (Inl err)
      then show ?thesis using False inv save save_checkpoint_cases [OF save]
        by (simp add: persist_one_cases [OF old(1) Some])
    next
      case (Inr u)
      let ?row = "\<lparr>ck_schema = 1, ck_checkpoint = Some (ranking_checkpoint r)\<rparr>"
      have rs: "rs = (sv_rankings s)\<lparr>rs_checkpoints := hm_insert rid ?row (rs_checkpoints (sv_rankings s))\<rparr>"
        using save_checkpoint_cases [OF save] Inr r(2) by (simp add: ranking_checkpoint_def)
      let ?s = "s\<lparr>sv_rankings := rs, sv_persisted := hm_insert rid (token r) (sv_persisted s)\<rparr>"
      have run: "fst (persist_one identity json_len owner rid only s) = ?s"
        using False save Inr unfolding persist_one_cases [OF old(1) Some] by auto
      have "service_inv ?s"
      proof (rule service_invI)
        show "rows_match (sv_engine ?s) (sv_rankings ?s)" using old(3) by (simp add: rs rows_match_def)
        show "checkpoints_ok (sv_rankings ?s)"
          using old(4) ranking_checkpoint_typed [OF r(1)] r(2)
          by (simp add: rs checkpoints_ok_def hm_simps ranking_checkpoint_def)
        fix k tok assume tok: "hm_get (sv_persisted ?s) k = Some tok"
        show "token_ok (sv_engine ?s) (sv_rankings ?s) k tok"
        proof (cases "k = rid")
          case True
          have d: "durable r rs" using durable_saved [OF r(1), of rs] r(2) by (simp add: rs hm_simps)
          have i: "rk_instance r \<le> en_next_instance (sv_engine s)"
            using old(2) Some by (simp add: instances_ok_def)
          have t: "tok = (rk_instance r, ag_revision (rk_state r))"
            using tok True by (simp add: hm_simps token_def)
          have "token_ok (sv_engine s) rs rid (rk_instance r, ag_revision (rk_state r))"
            unfolding token_ok_def fst_conv snd_conv Some option.inject using d i by blast
          then show ?thesis using t True by simp
        next
          case False
          then have t: "token_ok (sv_engine s) (sv_rankings s) k tok" using tok old(5) by (simp add: hm_simps)
          have "durable q rs = durable q (sv_rankings s)" if "hm_get (en_rankings (sv_engine s)) k = Some q" for q
            unfolding rs using durable_other(2) engine_inv_id [OF old(1) that] False by simp
          then show ?thesis using t by (auto simp: token_ok_def)
        qed
      qed (use old in \<open>simp_all add: rs\<close>)
      then show ?thesis using run by simp
    qed
  qed (use inv in \<open>simp add: persist_one_cases [OF old(1) Some]\<close>)
qed

lemma persist_changed_inv:
  "service_inv s \<Longrightarrow> service_inv (fst (persist_changed identity json_len owner ids s)) \<and>
     sv_engine (fst (persist_changed identity json_len owner ids s)) = sv_engine s \<and>
     sv_owner (fst (persist_changed identity json_len owner ids s)) = sv_owner s"
proof (induction ids arbitrary: s)
  case (Cons rid ids)
  let ?s1 = "fst (persist_one (identity rid) json_len owner rid True s)"
  have "service_inv ?s1" using persist_one_inv [OF Cons.prems] .
  from Cons.IH [OF this] show ?case using Cons.prems persist_one_frame [of "identity rid" json_len owner rid True s]
    by (auto split: prod.split)
qed simp

lemma hm_get_retain: "hm_get (filter (\<lambda>(k, _). P k) m) k = (if P k then hm_get m k else None)"
  by (induction m) auto

lemma service_inv_forget: "service_inv s \<Longrightarrow> service_inv (s\<lparr>sv_persisted := filter (\<lambda>(k, _). P k) (sv_persisted s)\<rparr>)"
  by (rule service_invI) (auto simp: hm_get_retain service_invD split: if_splits)

lemma pass_step:
  assumes inv: "service_inv s"
  shows "service_inv (fst (checkpoint_changed identity json_len s)) \<and>
    sv_engine (fst (checkpoint_changed identity json_len s)) = sv_engine s"
proof (cases "sv_owner s")
  case (Some owner)
  then show ?thesis
    using persist_changed_inv [OF service_inv_forget [OF inv, of "\<lambda>k. k \<in> set (checkpointed (sv_engine s))"]]
    by (simp add: checkpoint_changed_def Let_def)
qed (simp add: checkpoint_changed_def inv)

section \<open>The shutdown\<close>

lemma persist_rest_inv:
  "service_inv s \<Longrightarrow> service_inv (fst (persist_rest identity json_len owner ids err s)) \<and>
     sv_engine (fst (persist_rest identity json_len owner ids err s)) = sv_engine s \<and>
     sv_owner (fst (persist_rest identity json_len owner ids err s)) = sv_owner s"
proof (induction ids arbitrary: s err)
  case (Cons rid ids)
  obtain s1 res where p: "persist_one (identity rid) json_len owner rid True s = (s1, res)" by force
  have "service_inv s1" "sv_engine s1 = sv_engine s" "sv_owner s1 = sv_owner s"
    using persist_one_inv [OF Cons.prems, of "identity rid" json_len owner rid True]
      persist_one_frame [of "identity rid" json_len owner rid True s] p by simp_all
  then show ?case using Cons.IH p by (cases res) simp_all
qed simp

lemma finish_tables:
  "fst (finish_aggregation_checkpoints owner rs) \<in> {rs, rs\<lparr>rs_run := Some Run_Clean\<rparr>}"
  by (simp add: finish_aggregation_checkpoints_def)

lemma checkpoint_shutdown_inv:
  assumes inv: "service_inv s"
  shows "service_inv (fst (checkpoint_shutdown identity json_len ingress_complete s)) \<and>
    en_next_instance (sv_engine (fst (checkpoint_shutdown identity json_len ingress_complete s))) =
      en_next_instance (sv_engine s)"
proof (cases "sv_owner s")
  case (Some owner)
  let ?e = "if ingress_complete then sv_engine s else mark_ingress_loss 1 (sv_engine s)"
  have e: "service_inv (s\<lparr>sv_engine := ?e\<rparr>) \<and> en_next_instance ?e = en_next_instance (sv_engine s)"
    using inv service_inv_moves [OF inv engine_inv_ingress_loss [OF service_invD(1) [OF inv]] mark_ingress_loss_moves
        next_instance_ops(10)] next_instance_ops(10) by simp
  obtain s1 err where p: "persist_rest identity json_len owner (checkpointed ?e) None (s\<lparr>sv_engine := ?e\<rparr>) = (s1, err)"
    by force
  have s1: "service_inv s1" "sv_engine s1 = ?e"
    using persist_rest_inv [of "s\<lparr>sv_engine := ?e\<rparr>" identity json_len owner "checkpointed ?e" None] e p by simp_all
  have "service_inv (s1\<lparr>sv_rankings := fst (finish_aggregation_checkpoints owner (sv_rankings s1))\<rparr>)"
    using finish_tables [of owner "sv_rankings s1"] s1(1) by (intro service_inv_tables) auto
  then show ?thesis using Some p s1 e
    by (cases err) (auto simp: checkpoint_shutdown_def Let_def split: prod.split)
qed (simp add: checkpoint_shutdown_def inv)

lemma shutdown_step:
  assumes inv: "service_inv s"
  shows "service_inv (fst (service_shutdown identity json_len ingress_complete s)) \<and>
    en_next_instance (sv_engine (fst (service_shutdown identity json_len ingress_complete s))) =
      en_next_instance (sv_engine s)"
proof -
  have "service_inv (s\<lparr>sv_shutdown := True, sv_store := st\<rparr>)" for st using inv by simp
  from checkpoint_shutdown_inv [OF this] show ?thesis using inv
    by (auto simp: service_shutdown_def Let_def split: prod.split sum.split)
qed

end
