(* ===== verification/Ranking_Recovery.thy ===== *)
theory Ranking_Recovery
  imports Ranking_Steps
begin

text \<open>
  The restart: definitions are created again, each ranking takes its newest durable checkpoint, and the
  vote rankings are rebuilt from the ledger. It never aborts and re-establishes the service invariant;
  of every other ranking it is stated exactly what comes back.
\<close>

section \<open>Definitions\<close>

lemma decode_definitions_all:
  "\<forall>row \<in> set rows. rr_row_definition row \<noteq> None \<Longrightarrow>
   decode_definitions rows = Inr (map (\<lambda>row. the (rr_row_definition row)) rows)"
  by (induction rows) auto

lemma load_definitions:
  assumes inv: "engine_inv e" and rows: "rows_match e rs"
  shows "\<exists>ds. load_aggregation_definitions rs = Inr ds \<and> distinct (map rd_id ds) \<and> length ds \<le> 128 \<and>
    (\<forall>d. d \<in> set ds \<longleftrightarrow> (\<exists>r. hm_get (en_rankings e) (rd_id d) = Some r \<and> rk_definition r = d))"
proof -
  let ?rows = "rs_definitions rs"
  let ?d = "\<lambda>(rid, row). the (rr_row_definition row)"
  have wf: "hm_wf ?rows" and get: "hm_get ?rows rid = map_option (ranking_row_of \<circ> rk_definition) (hm_get (en_rankings e) rid)" for rid
    using rows by (simp_all add: rows_match_def)
  have row: "\<exists>r. hm_get (en_rankings e) rid = Some r \<and> row = ranking_row_of (rk_definition r)" if "(rid, row) \<in> set ?rows" for rid row
    using that get [of rid] hm_get_Some_set [OF wf, of rid row] by auto
  have ids: "rd_id (?d p) = fst p" and some: "rr_row_definition (snd p) \<noteq> None" if "p \<in> set ?rows" for p
    using row [of "fst p" "snd p"] that engine_inv_id [OF inv] by (auto simp: ranking_row_of_def case_prod_beta)
  let ?ds = "map ?d (sort_key fst ?rows)"
  have load: "load_aggregation_definitions rs = Inr ?ds"
    using decode_definitions_all [of "map snd (sort_key fst ?rows)"] some
    by (simp add: load_aggregation_definitions_def comp_def case_prod_beta)
  have eq: "map rd_id ?ds = map fst (sort_key fst ?rows)" using ids by (simp add: comp_def)
  have "distinct (map rd_id ?ds)" unfolding eq distinct_map_sort_key using wf by (simp add: hm_wf_def)
  moreover have "length ?ds \<le> 128"
  proof -
    have "k \<notin> hm_keys ?rows \<longleftrightarrow> k \<notin> hm_keys (en_rankings e)" for k
      unfolding hm_get_None [symmetric] get [of k] by simp
    then have "hm_keys ?rows = hm_keys (en_rankings e)" by blast
    moreover have "hm_wf (en_rankings e)" "length (en_rankings e) \<le> 128"
      using inv by (simp_all add: engine_inv_def rankings_ok_def)
    ultimately show ?thesis using hm_len_keys [OF wf] hm_len_keys [of "en_rankings e"] by simp
  qed
  moreover have "d \<in> set ?ds \<longleftrightarrow> (\<exists>r. hm_get (en_rankings e) (rd_id d) = Some r \<and> rk_definition r = d)" for d
  proof
    assume "d \<in> set ?ds"
    then obtain rid drow where m: "(rid, drow) \<in> set ?rows" "d = the (rr_row_definition drow)" by auto
    then show "\<exists>r. hm_get (en_rankings e) (rd_id d) = Some r \<and> rk_definition r = d"
      using row [OF m(1)] engine_inv_id [OF inv] by (auto simp: ranking_row_of_def)
  next
    assume "\<exists>r. hm_get (en_rankings e) (rd_id d) = Some r \<and> rk_definition r = d"
    then have "(rd_id d, ranking_row_of d) \<in> set ?rows"
      using get [of "rd_id d"] hm_get_Some_set [OF wf] by auto
    then show "d \<in> set ?ds" by (force simp: ranking_row_of_def image_iff)
  qed
  ultimately show ?thesis using load by blast
qed

lemma create_definitions_spec:
  assumes "engine_inv e" and "instances_ok e" and "distinct (map rd_id ds)"
    and "\<forall>d \<in> set ds. \<not> definition_invalid d \<and> hm_get (en_rankings e) (rd_id d) = None"
    and "length (en_rankings e) + length ds \<le> 128" and "en_next_instance e + length ds \<le> u64_max"
    and drawn: "\<forall>n. drawn_ok (identity n)"
  shows "engine_inv (create_definitions identity n ds e) \<and> instances_ok (create_definitions identity n ds e) \<and>
    en_next_instance (create_definitions identity n ds e) = en_next_instance e + length ds \<and>
    (\<forall>k. k \<notin> rd_id ` set ds \<longrightarrow> hm_get (en_rankings (create_definitions identity n ds e)) k = hm_get (en_rankings e) k) \<and>
    (\<forall>d \<in> set ds. \<exists>i h. hm_get (en_rankings (create_definitions identity n ds e)) (rd_id d) = Some (ranking_new d i h))"
  using assms
proof (induction ds arbitrary: n e)
  case (Cons d ds)
  have h: "length (en_rankings e) < 128" "en_next_instance e < u64_max" "\<not> definition_invalid d"
    "hm_get (en_rankings e) (rd_id d) = None" "drawn_ok (identity n)"
    using Cons.prems by auto
  obtain bytes e1 where e1: "engine_create (identity n) d e = (e1, Inr ())" "en_next_instance e1 = en_next_instance e + 1"
    "en_rankings e1 = hm_insert (rd_id d) (ranking_new d (en_next_instance e + 1) (hex_bytes bytes)) (en_rankings e)"
    using engine_create_ok [OF h(5,1,3,4,2)] by blast
  have inv1: "engine_inv e1" using engine_inv_create [OF Cons.prems(1) h(2) drawn_length [OF h(5)], of d] e1(1) by simp
  have get1: "hm_get (en_rankings e1) k =
      (if k = rd_id d then Some (ranking_new d (en_next_instance e + 1) (hex_bytes bytes)) else hm_get (en_rankings e) k)" for k
    using e1(3) by (simp add: hm_simps)
  have ok1: "instances_ok e1"
    using Cons.prems(2) e1(2) by (auto simp: instances_ok_def get1 ranking_new_def entries_counted_def aggregation_new_def le_SucI)
  have "rd_id d \<notin> hm_keys (en_rankings e)" using h(4) by (simp add: hm_get_None)
  then have len1: "length (en_rankings e1) = length (en_rankings e) + 1" using e1(3) by (simp add: hm_len_insert)
  have fresh: "\<forall>d' \<in> set ds. rd_id d' \<noteq> rd_id d" using Cons.prems(3) by (auto simp: image_iff)
  then have "\<forall>d' \<in> set ds. \<not> definition_invalid d' \<and> hm_get (en_rankings e1) (rd_id d') = None"
    using Cons.prems(4) by (simp add: get1)
  from Cons.IH [OF inv1 ok1 _ this, of "n + 1"] Cons.prems(3,5-7) len1 e1(2)
  have IH: "engine_inv (create_definitions identity (n + 1) ds e1)" "instances_ok (create_definitions identity (n + 1) ds e1)"
    "en_next_instance (create_definitions identity (n + 1) ds e1) = en_next_instance e + length (d # ds)"
    "\<forall>k. k \<notin> rd_id ` set ds \<longrightarrow> hm_get (en_rankings (create_definitions identity (n + 1) ds e1)) k = hm_get (en_rankings e1) k"
    "\<forall>d \<in> set ds. \<exists>i h. hm_get (en_rankings (create_definitions identity (n + 1) ds e1)) (rd_id d) = Some (ranking_new d i h)"
    by simp_all
  have "rd_id d \<notin> rd_id ` set ds" using Cons.prems(3) by auto
  then have "hm_get (en_rankings (create_definitions identity (n + 1) ds e1)) (rd_id d) =
      Some (ranking_new d (en_next_instance e + 1) (hex_bytes bytes))"
    using IH(4) by (simp add: get1)
  then show ?case using IH e1(1) get1 by auto
qed simp

section \<open>Checkpoints\<close>

text \<open>What comes back of a ranking that does not count votes.\<close>

definition durable_copy :: "string option \<Rightarrow> ranking_store \<Rightarrow> ranking \<Rightarrow> ranking option" where
  "durable_copy owner rs r =
     (case owner of
        None \<Rightarrow> None
      | Some o' \<Rightarrow>
        (case load_aggregation_checkpoint (rd_id (rk_definition r)) o' rs of
           Inr (Some cp) \<Rightarrow> (case restore_ranking cp r of Inl _ \<Rightarrow> None | Inr r' \<Rightarrow> Some r')
         | _ \<Rightarrow> None))"

definition recovered :: "string option \<Rightarrow> bool \<Rightarrow> ranking_store \<Rightarrow> ranking \<Rightarrow> ranking" where
  "recovered owner previous_clean rs r =
     (if has_vote_source (rk_definition r) then r
      else (case durable_copy owner rs r of
              None \<Rightarrow> reject_and_touch r
            | Some r' \<Rightarrow> if previous_clean then r' else reject_and_touch r'))"

lemma mark_recovery_gap_get:
  "hm_get (en_rankings e) rid = Some r \<Longrightarrow>
   fst (mark_recovery_gap rid e) = e\<lparr>en_rankings := hm_insert rid (reject_and_touch r) (en_rankings e)\<rparr>"
  by (simp add: mark_recovery_gap_def reject_and_touch_def Let_def case_prod_beta)

lemma loaded_checkpoint:
  assumes "checkpoints_ok rs" and "load_aggregation_checkpoint rid owner rs = Inr (Some cp)"
  shows "checkpoint_typed cp \<and> rd_id (cp_definition cp) = rid"
  using assms
  by (fastforce simp: load_aggregation_checkpoint_def checkpoints_ok_def bind_result_def decoded_def
      split: if_splits option.splits sum.splits)

text \<open>The first half of the recovery of one ranking.\<close>

lemma recover_load:
  assumes inv: "engine_inv e" and r: "hm_get (en_rankings e) (rd_id d) = Some r" "rk_definition r = d"
    and ok: "checkpoints_ok rs"
  shows "\<exists>e1. (case owner of None \<Rightarrow> (e, False)
      | Some o' \<Rightarrow> (case load_aggregation_checkpoint (rd_id d) o' rs of
          Inr (Some cp) \<Rightarrow> (case restore_session_checkpoint cp e of (e', res) \<Rightarrow> (e', is_ok res))
        | _ \<Rightarrow> (e, False))) = (e1, durable_copy owner rs r \<noteq> None) \<and> engine_inv e1 \<and>
    en_next_instance e1 = en_next_instance e \<and>
    (\<forall>k. hm_get (en_rankings e1) k = (if k = rd_id d
       then Some (case durable_copy owner rs r of None \<Rightarrow> r | Some r' \<Rightarrow> r') else hm_get (en_rankings e) k))"
proof (cases "\<exists>o' cp. owner = Some o' \<and> load_aggregation_checkpoint (rd_id d) o' rs = Inr (Some cp)")
  case False
  then show ?thesis using inv r
    by (cases owner) (auto simp: durable_copy_def split: sum.split option.split)
next
  case True
  then obtain o' cp where cp: "owner = Some o'" "load_aggregation_checkpoint (rd_id d) o' rs = Inr (Some cp)" by blast
  have t: "checkpoint_typed cp" "rd_id (cp_definition cp) = rd_id d" using loaded_checkpoint [OF ok cp(2)] by simp_all
  have "engine_inv (fst (restore_session_checkpoint cp e))" using engine_inv_restore_checkpoint [OF inv t(1)] by simp
  then show ?thesis using cp t(2) r inv
    by (cases "restore_ranking cp r") (auto simp: durable_copy_def restore_session_checkpoint_def hm_simps)
qed

lemma recover_ranking_spec:
  assumes inv: "engine_inv e" and r: "hm_get (en_rankings e) (rd_id d) = Some r" "rk_definition r = d"
    and ok: "checkpoints_ok rs"
  shows "engine_inv (recover_ranking owner previous_clean rs d e) \<and>
    en_next_instance (recover_ranking owner previous_clean rs d e) = en_next_instance e \<and>
    (\<forall>k. hm_get (en_rankings (recover_ranking owner previous_clean rs d e)) k =
       (if k = rd_id d then Some (recovered owner previous_clean rs r) else hm_get (en_rankings e) k))"
proof (cases "has_vote_source d")
  case False
  obtain e1 where e1: "(case owner of None \<Rightarrow> (e, False)
      | Some o' \<Rightarrow> (case load_aggregation_checkpoint (rd_id d) o' rs of
          Inr (Some cp) \<Rightarrow> (case restore_session_checkpoint cp e of (e', res) \<Rightarrow> (e', is_ok res))
        | _ \<Rightarrow> (e, False))) = (e1, durable_copy owner rs r \<noteq> None)" "engine_inv e1"
    "en_next_instance e1 = en_next_instance e"
    "\<forall>k. hm_get (en_rankings e1) k = (if k = rd_id d
       then Some (case durable_copy owner rs r of None \<Rightarrow> r | Some r' \<Rightarrow> r') else hm_get (en_rankings e) k)"
    using recover_load [OF assms, of owner] by blast
  let ?q = "case durable_copy owner rs r of None \<Rightarrow> r | Some r' \<Rightarrow> r'"
  have q: "hm_get (en_rankings e1) (rd_id d) = Some ?q" using e1(4) by simp
  have run: "recover_ranking owner previous_clean rs d e =
      (if \<not> previous_clean \<or> durable_copy owner rs r = None then fst (mark_recovery_gap (rd_id d) e1) else e1)"
    using False unfolding recover_ranking_def e1(1) by simp
  show ?thesis
  proof (cases "\<not> previous_clean \<or> durable_copy owner rs r = None")
    case True
    then have rec: "recovered owner previous_clean rs r = reject_and_touch ?q"
      using False r(2) by (auto simp: recovered_def split: option.split)
    have "engine_inv (fst (mark_recovery_gap (rd_id d) e1))" using engine_inv_recovery_gap [OF e1(2)] .
    then show ?thesis using True run e1(3,4) rec
      by (simp add: mark_recovery_gap_get [OF q] hm_simps)
  next
    case clean: False
    then obtain r' where r': "previous_clean" "durable_copy owner rs r = Some r'" by blast
    then have "recovered owner previous_clean rs r = r'" using False r(2) by (simp add: recovered_def)
    then show ?thesis using r' run e1(2-4) by simp
  qed
qed (use assms in \<open>simp add: recover_ranking_def recovered_def\<close>)

lemma recover_rankings_spec:
  assumes "engine_inv e" and "checkpoints_ok rs" and "distinct (map rd_id ds)"
    and "\<forall>d \<in> set ds. \<exists>r. hm_get (en_rankings e) (rd_id d) = Some r \<and> rk_definition r = d"
  shows "engine_inv (fold (recover_ranking owner previous_clean rs) ds e) \<and>
    en_next_instance (fold (recover_ranking owner previous_clean rs) ds e) = en_next_instance e \<and>
    (\<forall>k. hm_get (en_rankings (fold (recover_ranking owner previous_clean rs) ds e)) k =
       (if k \<in> rd_id ` set ds then map_option (recovered owner previous_clean rs) (hm_get (en_rankings e) k)
        else hm_get (en_rankings e) k))"
  using assms
proof (induction ds arbitrary: e)
  case (Cons d ds)
  then obtain r where r: "hm_get (en_rankings e) (rd_id d) = Some r" "rk_definition r = d" by auto
  let ?e1 = "recover_ranking owner previous_clean rs d e"
  have e1: "engine_inv ?e1" "en_next_instance ?e1 = en_next_instance e"
    "hm_get (en_rankings ?e1) k =
       (if k = rd_id d then Some (recovered owner previous_clean rs r) else hm_get (en_rankings e) k)" for k
    using recover_ranking_spec [OF Cons.prems(1) r Cons.prems(2), of owner previous_clean] by simp_all
  let ?f = "fold (recover_ranking owner previous_clean rs) ds ?e1"
  have fresh: "\<forall>d' \<in> set ds. rd_id d' \<noteq> rd_id d" using Cons.prems(3) by (auto simp: image_iff)
  then have "\<forall>d' \<in> set ds. \<exists>q. hm_get (en_rankings ?e1) (rd_id d') = Some q \<and> rk_definition q = d'"
    using Cons.prems(4) by (simp add: e1(3))
  from Cons.IH [OF e1(1) Cons.prems(2) _ this] Cons.prems(3)
  have IH: "engine_inv ?f" "en_next_instance ?f = en_next_instance ?e1"
    "hm_get (en_rankings ?f) k = (if k \<in> rd_id ` set ds then map_option (recovered owner previous_clean rs) (hm_get (en_rankings ?e1) k)
        else hm_get (en_rankings ?e1) k)" for k by simp_all
  have "rd_id d \<notin> rd_id ` set ds" using fresh by auto
  then have "hm_get (en_rankings ?f) k = (if k \<in> rd_id ` set (d # ds)
      then map_option (recovered owner previous_clean rs) (hm_get (en_rankings e) k) else hm_get (en_rankings e) k)" for k
    unfolding IH(3) e1(3) using r(1) by (cases "k = rd_id d") simp_all
  then show ?case using IH(1,2) e1(2) by simp
qed simp

text \<open>What the recovery keeps of a freshly created ranking.\<close>

lemma restore_entries_counted:
  "restore_entries seen xs a = Inr b \<Longrightarrow> length (ag_scores b) + ag_revision a \<le> length (ag_scores a) + ag_revision b"
proof (induction xs arbitrary: seen a)
  case (Cons x xs)
  then obtain a1 where a1: "aggregation_apply (e_key x) (e_score x) 1 a = (a1, Inr ())"
    "restore_entries (e_key x # seen) xs
      (aggregation_update_metadata (e_key x) ((e_metadata x)\<lparr>em_label := Some (e_label x)\<rparr>) a1) = Inr b"
    by (auto split: if_splits prod.splits sum.splits)
  have "length (ag_scores a1) + ag_revision a \<le> length (ag_scores a) + ag_revision a1"
    using table_advances_apply [of a "e_key x" "e_score x" 1] a1(1) by (simp add: table_advances_def)
  then show ?case using Cons.IH [OF a1(2)] by (simp add: aggregation_update_metadata_def split: if_splits)
qed simp

lemma restored_ranking:
  assumes "restore_ranking cp r = Inr r'"
  shows "rk_definition r' = rk_definition r \<and> rk_instance r' = rk_instance r \<and> entries_counted r'"
proof -
  obtain a where a: "restore_entries [] (sn_entries (cp_snapshot cp)) (aggregation_new (rd_capacity (rk_definition r))) = Inr a"
    "\<not> sn_revision (cp_snapshot cp) < ag_revision a" "r' = checkpoint_ranking cp a r"
    using assms by (auto simp: restore_ranking_def split: if_splits sum.splits)
  have "length (ag_scores a) \<le> ag_revision a"
    using restore_entries_counted [OF a(1)] by (simp add: aggregation_new_def)
  then show ?thesis using a(2,3) by (simp add: checkpoint_ranking_def Let_def entries_counted_def)
qed

lemma durable_copy_kept:
  assumes "durable_copy owner rs r = Some r'"
  shows "rk_definition r' = rk_definition r \<and> rk_instance r' = rk_instance r \<and> entries_counted r'"
  using assms restored_ranking by (auto simp: durable_copy_def split: option.splits sum.splits)

lemma recovered_kept:
  assumes "entries_counted r"
  shows "rk_definition (recovered owner previous_clean rs r) = rk_definition r \<and>
    rk_instance (recovered owner previous_clean rs r) = rk_instance r \<and>
    (\<not> has_vote_source (rk_definition r) \<longrightarrow> entries_counted (recovered owner previous_clean rs r))"
proof -
  have touched: "rk_definition (reject_and_touch q) = rk_definition q \<and> rk_instance (reject_and_touch q) = rk_instance q \<and>
      (entries_counted q \<longrightarrow> entries_counted (reject_and_touch q))" for q
    using advances_counted [OF advances_reject_and_touch [of q]] by (simp add: reject_and_touch_def)
  show ?thesis using assms touched durable_copy_kept
    by (cases "durable_copy owner rs r") (auto simp: recovered_def)
qed

section \<open>The vote rankings\<close>

text \<open>The second half of the restart changes vote rankings only.\<close>

definition votes_rebuilt :: "engine \<Rightarrow> engine \<Rightarrow> bool" where
  "votes_rebuilt e e' \<longleftrightarrow> en_next_instance e' = en_next_instance e \<and>
     (\<forall>rid. rel_option (\<lambda>r r'. rk_definition r' = rk_definition r \<and> rk_instance r' = rk_instance r \<and>
        (\<not> has_vote_source (rk_definition r) \<longrightarrow> r' = r)) (hm_get (en_rankings e) rid) (hm_get (en_rankings e') rid))"

lemma votes_rebuilt_refl [simp]: "votes_rebuilt e e"
  by (simp add: votes_rebuilt_def option.rel_refl)

lemma votes_rebuilt_trans:
  assumes "votes_rebuilt a b" and "votes_rebuilt b c"
  shows "votes_rebuilt a c"
  unfolding votes_rebuilt_def
proof (intro conjI allI)
  show "en_next_instance c = en_next_instance a" using assms by (simp add: votes_rebuilt_def)
  fix rid
  have "rel_option (\<lambda>r r'. rk_definition r' = rk_definition r \<and> rk_instance r' = rk_instance r \<and>
      (\<not> has_vote_source (rk_definition r) \<longrightarrow> r' = r)) (hm_get (en_rankings a) rid) (hm_get (en_rankings b) rid)"
    "rel_option (\<lambda>r r'. rk_definition r' = rk_definition r \<and> rk_instance r' = rk_instance r \<and>
      (\<not> has_vote_source (rk_definition r) \<longrightarrow> r' = r)) (hm_get (en_rankings b) rid) (hm_get (en_rankings c) rid)"
    using assms by (simp_all add: votes_rebuilt_def)
  then show "rel_option (\<lambda>r r'. rk_definition r' = rk_definition r \<and> rk_instance r' = rk_instance r \<and>
      (\<not> has_vote_source (rk_definition r) \<longrightarrow> r' = r)) (hm_get (en_rankings a) rid) (hm_get (en_rankings c) rid)"
    by (cases "hm_get (en_rankings a) rid"; cases "hm_get (en_rankings b) rid"; cases "hm_get (en_rankings c) rid") auto
qed

lemma votes_rebuilt_put:
  assumes "hm_get (en_rankings e) rid = Some r" and "has_vote_source (rk_definition r)"
    and "rk_definition r' = rk_definition r" and "rk_instance r' = rk_instance r"
  shows "votes_rebuilt e (e\<lparr>en_rankings := hm_insert rid r' (en_rankings e)\<rparr>)"
  using assms by (simp add: votes_rebuilt_def hm_simps option.rel_refl)

lemma vote_gap_rebuilt:
  assumes "engine_inv e"
  shows "\<exists>e'. vote_gap d e = Ret e' \<and> engine_inv e' \<and> votes_rebuilt e e'"
proof -
  let ?vote = "''competition.vote''"
  let ?P = "gap_affects (rd_creator_id d) (rd_room_id d) ?vote (\<lambda>rule. sr_enabled rule \<and> sr_source rule = ?vote)"
  obtain e' where e': "vote_gap d e = Ret e'" "engine_inv e'"
    "\<forall>rid r. hm_get (en_rankings e) rid = Some r \<longrightarrow>
       hm_get (en_rankings e') rid = Some (if ?P r then reject_and_touch r else r)"
    using mark_gap_spec [OF assms, of "rd_creator_id d" "rd_room_id d" ?vote] unfolding vote_gap_def by blast
  have voting: "?P r \<Longrightarrow> has_vote_source (rk_definition r)" for r
    by (auto simp: gap_affects_def has_vote_source_def list_ex_iff)
  have "votes_rebuilt e e'"
    unfolding votes_rebuilt_def
  proof (intro conjI allI)
    show "en_next_instance e' = en_next_instance e" using next_instance_ops(6) e'(1) unfolding vote_gap_def by blast
    fix rid
    have "rel_option moves (hm_get (en_rankings e) rid) (hm_get (en_rankings e') rid)"
      using mark_gap_moves e'(1) unfolding vote_gap_def rankings_move_def by blast
    then show "rel_option (\<lambda>r r'. rk_definition r' = rk_definition r \<and> rk_instance r' = rk_instance r \<and>
        (\<not> has_vote_source (rk_definition r) \<longrightarrow> r' = r)) (hm_get (en_rankings e) rid) (hm_get (en_rankings e') rid)"
      using e'(3) voting
      by (cases "hm_get (en_rankings e) rid") (auto simp: moves_def advances_def option_rel_Some1)
  qed
  then show ?thesis using e' by blast
qed

text \<open>A ranking the engine holds under a definition that counts votes.\<close>

definition vote_ranking_in :: "ranking_definition \<Rightarrow> engine \<Rightarrow> bool" where
  "vote_ranking_in d e \<longleftrightarrow> has_vote_source d \<and> (\<exists>r. hm_get (en_rankings e) (rd_id d) = Some r \<and> rk_definition r = d)"

lemma vote_ranking_in_rebuilt: "vote_ranking_in d e \<Longrightarrow> votes_rebuilt e e' \<Longrightarrow> vote_ranking_in d e'"
proof -
  assume d: "vote_ranking_in d e" and rebuilt: "votes_rebuilt e e'"
  then obtain r where r: "hm_get (en_rankings e) (rd_id d) = Some r" "rk_definition r = d" "has_vote_source d"
    by (auto simp: vote_ranking_in_def)
  have "rel_option (\<lambda>r r'. rk_definition r' = rk_definition r \<and> rk_instance r' = rk_instance r \<and>
      (\<not> has_vote_source (rk_definition r) \<longrightarrow> r' = r)) (hm_get (en_rankings e) (rd_id d)) (hm_get (en_rankings e') (rd_id d))"
    using rebuilt by (simp add: votes_rebuilt_def)
  then show "vote_ranking_in d e'" using r by (auto simp: vote_ranking_in_def option_rel_Some1)
qed

lemma set_metadata_rebuilt:
  assumes "vote_ranking_in d e"
  shows "votes_rebuilt e (fst (set_entry_metadata (rd_id d) key md e))"
proof -
  obtain r where r: "hm_get (en_rankings e) (rd_id d) = Some r" "has_vote_source (rk_definition r)"
    using assms by (auto simp: vote_ranking_in_def)
  note put = votes_rebuilt_put [OF r(1,2)]
  show ?thesis
    unfolding set_entry_metadata_def Let_def r(1) option.case
    by (auto split: sum.split prod.split intro!: put)
qed

lemma label_options_rebuilt:
  assumes "engine_inv e" and "vote_ranking_in d e"
  shows "\<exists>e'. label_options d opts e = Ret e' \<and> engine_inv e' \<and> votes_rebuilt e e'"
  using assms
proof (induction opts arbitrary: e)
  case (Cons opt opts)
  let ?md = "entry_metadata_default\<lparr>em_label := Some (od_label opt), em_icon_url := od_image_url opt\<rparr>"
  obtain e1 res where set: "set_entry_metadata (rd_id d) (od_id opt) ?md e = (e1, res)" by force
  have e1: "engine_inv e1" "votes_rebuilt e e1"
    using engine_inv_set_metadata [OF Cons.prems(1), of "rd_id d" "od_id opt" ?md]
      set_metadata_rebuilt [OF Cons.prems(2), of "od_id opt" ?md] set by simp_all
  obtain e2 where e2: "vote_gap d e1 = Ret e2" "engine_inv e2" "votes_rebuilt e1 e2"
    using vote_gap_rebuilt [OF e1(1)] by blast
  have in1: "vote_ranking_in d e1" using vote_ranking_in_rebuilt [OF Cons.prems(2) e1(2)] .
  have in2: "vote_ranking_in d e2" using vote_ranking_in_rebuilt [OF in1 e2(3)] .
  show ?case
  proof (cases res)
    case (Inl err)
    obtain e3 where "label_options d opts e2 = Ret e3" "engine_inv e3" "votes_rebuilt e2 e3"
      using Cons.IH [OF e2(2) in2] by blast
    moreover from this(3) have "votes_rebuilt e e3"
      using votes_rebuilt_trans [OF votes_rebuilt_trans [OF e1(2) e2(3)]] by blast
    ultimately show ?thesis using set Inl e2(1) by simp
  next
    case (Inr u)
    obtain e3 where "label_options d opts e1 = Ret e3" "engine_inv e3" "votes_rebuilt e1 e3"
      using Cons.IH [OF e1(1) in1] by blast
    moreover from this(3) have "votes_rebuilt e e3" using votes_rebuilt_trans [OF e1(2)] by blast
    ultimately show ?thesis using set Inr by simp
  qed
qed simp

lemma rebuild_votes_rebuilt:
  assumes inv: "engine_inv e" and d: "vote_ranking_in d e"
  shows "\<exists>e'. rebuild_votes d c totals scores e = Ret e' \<and> engine_inv e' \<and> votes_rebuilt e e'"
proof -
  obtain e1 res where run: "restore_assignments_with_scores (rd_id d) totals scores e = (e1, res)" by force
  have e1: "engine_inv e1" using engine_inv_restore [OF inv, of "rd_id d" totals scores] run by simp
  obtain r where r: "hm_get (en_rankings e) (rd_id d) = Some r" "has_vote_source (rk_definition r)"
    using d by (auto simp: vote_ranking_in_def)
  have rebuilt: "votes_rebuilt e e1"
    using run r by (auto simp: restore_assignments_with_scores_def split: option.splits sum.splits intro: votes_rebuilt_put)
  obtain eg where eg: "vote_gap d e1 = Ret eg" "engine_inv eg" "votes_rebuilt e1 eg"
    using vote_gap_rebuilt [OF e1] by blast
  obtain el where el: "label_options d (cd_options c) e1 = Ret el" "engine_inv el" "votes_rebuilt e1 el"
    using label_options_rebuilt [OF e1 vote_ranking_in_rebuilt [OF d rebuilt]] by blast
  note both = votes_rebuilt_trans [OF rebuilt eg(3)] votes_rebuilt_trans [OF rebuilt el(3)]
  show ?thesis
  proof (cases res)
    case (Inl err)
    then show ?thesis using run eg both unfolding rebuild_votes_def by simp
  next
    case (Inr u)
    then show ?thesis using run el both unfolding rebuild_votes_def by simp
  qed
qed

lemma find_ranking_in:
  assumes "engine_inv e" and "find_ranking rid e = Some d"
  shows "\<exists>r. hm_get (en_rankings e) (rd_id d) = Some r \<and> rk_definition r = d"
proof -
  have "d \<in> set (engine_definitions e)"
    using assms(2) by (auto simp: find_ranking_def find_Some_iff)
  then show ?thesis using engine_definitions_set [OF assms(1)] by simp
qed

lemma recover_competition_rebuilt:
  assumes inv: "engine_inv e" and d: "has_vote_source d \<longrightarrow> vote_ranking_in d e"
  shows "\<exists>e' s'. recover_competition owner d c e s = Ret (e', s') \<and> engine_inv e' \<and> votes_rebuilt e e'"
proof -
  obtain s1 res where l: "load_ledger owner (has_vote_source d) (cd_id c) s = (s1, res)" by force
  obtain eg where eg: "vote_gap d e = Ret eg" "engine_inv eg" "votes_rebuilt e eg"
    using vote_gap_rebuilt [OF inv] by blast
  show ?thesis
  proof (cases res)
    case (Inl err)
    then show ?thesis using l eg by (simp add: recover_competition_def)
  next
    case (Inr x)
    obtain totals scores clean where x: "x = (totals, scores, clean)" by (cases x)
    show ?thesis
    proof (cases "has_vote_source d")
      case True
      let ?e = "if clean then e else eg"
      have e: "engine_inv ?e" "votes_rebuilt e ?e" using inv eg by simp_all
      have "vote_ranking_in d ?e" using d True vote_ranking_in_rebuilt [OF _ e(2)] by blast
      then obtain e2 where e2: "rebuild_votes d c totals scores ?e = Ret e2" "engine_inv e2" "votes_rebuilt ?e e2"
        using rebuild_votes_rebuilt [OF e(1)] by blast
      have "run_bind (if clean then Ret e else vote_gap d e) (\<lambda>e1.
          run_bind (rebuild_votes d c totals scores e1) (\<lambda>e2. Ret (e2, s1))) = Ret (e2, s1)"
        using e2(1) eg(1) by (cases clean) simp_all
      then have "recover_competition owner d c e s = Ret (e2, s1)"
        using l Inr x True unfolding recover_competition_def by simp
      then show ?thesis using e2(2) votes_rebuilt_trans [OF e(2) e2(3)] by blast
    qed (use l Inr x inv in \<open>simp add: recover_competition_def\<close>)
  qed
qed

lemma recover_competitions_rebuilt:
  assumes "engine_inv e"
  shows "\<exists>e' s'. recover_competitions owner used cs e s = Ret (e', s') \<and> engine_inv e' \<and> votes_rebuilt e e'"
  using assms
proof (induction cs arbitrary: used e s)
  case (Cons c cs)
  show ?case
  proof (cases "find_ranking (cd_ranking_id c) e")
    case (Some d)
    note found = find_ranking_in [OF Cons.prems Some]
    show ?thesis
    proof (cases "has_vote_source d \<and> rd_id d \<in> set used")
      case True
      obtain e1 where "vote_gap d e = Ret e1" "engine_inv e1" "votes_rebuilt e e1"
        using vote_gap_rebuilt [OF Cons.prems] by blast
      then show ?thesis using Cons.IH [of e1 used s] Some True votes_rebuilt_trans by fastforce
    next
      case False
      have "has_vote_source d \<longrightarrow> vote_ranking_in d e" using found by (simp add: vote_ranking_in_def)
      from recover_competition_rebuilt [OF Cons.prems this]
      obtain e1 s1 where "recover_competition owner d c e s = Ret (e1, s1)" "engine_inv e1" "votes_rebuilt e e1" by blast
      then show ?thesis
        using Cons.IH [of e1 "if has_vote_source d then rd_id d # used else used" s1] Some False votes_rebuilt_trans
        by fastforce
    qed
  qed (use Cons in simp)
qed simp

end
