(* ===== verification/Ranking_Restart.thy ===== *)
theory Ranking_Restart
imports Ranking_Recovery
begin

text \<open>
  The restart of the service as a step of its history: the definitions of the rows, each recovered from its
  checkpoint row, the vote tables rebuilt from the ledgers, and the index over them. The invariant of the service
  holds again afterwards, so that every operation keeps it, along any history.
\<close>

section \<open>The restart\<close>

lemma restore_competitions_total: "\<exists>c. restore_competitions lower rs s = Ret c"
proof -
  consider "\<exists>e. load_competition_definitions s = Inl e"
    | "\<exists>cs. load_competition_definitions s = Inr cs \<and> collect_definitions lower [] cs = None"
    | cs restored where "load_competition_definitions s = Inr cs" "collect_definitions lower [] cs = Some restored"
    by (cases "load_competition_definitions s") (blast, metis option.exhaust)
  then show ?thesis
  proof cases
    case (3 cs restored)
    show ?thesis
    proof (cases "load_aggregation_definitions rs")
      case (Inr ds)
      obtain built where "build_index lower restored ds = Ret built" using build_index_total by blast
      then show ?thesis using 3 Inr by (simp add: restore_competitions_def)
    qed (use 3 in \<open>simp add: restore_competitions_def\<close>)
  qed (auto simp: restore_competitions_def)
qed

lemma claim_run_tables:
  assumes "claim_run drawn rs = (rs1, claim)"
  shows "rs_definitions rs1 = rs_definitions rs" and "rs_checkpoints rs1 = rs_checkpoints rs"
    and "claim = Some (owner, clean) \<Longrightarrow> rs_owner rs1 = Some owner \<and> clean = (rs_run rs \<noteq> Some Run_Open)"
    and "rs_external rs1 = rs_external rs"
  using assms by (auto simp: claim_run_def claim_aggregation_checkpoints_def split: option.splits)

definition claim_owner :: "string option \<Rightarrow> ranking_store \<Rightarrow> string option" where
  "claim_owner drawn rs = map_option fst (snd (claim_run drawn rs))"

definition claim_clean :: "string option \<Rightarrow> ranking_store \<Rightarrow> bool" where
  "claim_clean drawn rs = (case snd (claim_run drawn rs) of None \<Rightarrow> False | Some (_, clean) \<Rightarrow> clean)"

text \<open>What a restart makes of a ranking of the engine before it.\<close>

definition comes_back :: "string option \<Rightarrow> ranking_store \<Rightarrow> ranking \<Rightarrow> ranking \<Rightarrow> bool" where
  "comes_back drawn rs r r' \<longleftrightarrow>
     rk_definition r' = rk_definition r \<and>
     (\<not> has_vote_source (rk_definition r) \<longrightarrow>
        (\<exists>i h. ranking_inv (ranking_new (rk_definition r) i h) \<and>
           r' = recovered (claim_owner drawn rs) (claim_clean drawn rs) (fst (claim_run drawn rs))
             (ranking_new (rk_definition r) i h)))"

lemma recovered_engine_spec:
  assumes inv: "engine_inv e" and rows: "rows_match e rs" and cps: "checkpoints_ok rs"
    and drawn: "\<forall>n. drawn_ok (identity n)"
  shows "engine_inv (recovered_engine owner clean identity rs) \<and> instances_ok (recovered_engine owner clean identity rs) \<and>
    en_next_instance (recovered_engine owner clean identity rs) \<le> 128 \<and>
    (\<forall>k. case hm_get (en_rankings e) k of
       None \<Rightarrow> hm_get (en_rankings (recovered_engine owner clean identity rs)) k = None
     | Some r \<Rightarrow> \<exists>i h. ranking_inv (ranking_new (rk_definition r) i h) \<and>
         hm_get (en_rankings (recovered_engine owner clean identity rs)) k =
           Some (recovered owner clean rs (ranking_new (rk_definition r) i h)))"
proof -
  obtain ds where ds: "load_aggregation_definitions rs = Inr ds" "distinct (map rd_id ds)" "length ds \<le> 128"
    "\<And>d. d \<in> set ds \<longleftrightarrow> (\<exists>r. hm_get (en_rankings e) (rd_id d) = Some r \<and> rk_definition r = d)"
    using load_definitions [OF inv rows] by blast
  let ?e = "create_definitions identity 0 ds engine_default"
  have valid: "\<forall>d \<in> set ds. \<not> definition_invalid d \<and> hm_get (en_rankings engine_default) (rd_id d) = None"
  proof
    fix d assume "d \<in> set ds"
    then obtain r where "hm_get (en_rankings e) (rd_id d) = Some r" "rk_definition r = d" using ds(4) by blast
    then show "\<not> definition_invalid d \<and> hm_get (en_rankings engine_default) (rd_id d) = None"
      using ranking_inv_definition [OF engine_inv_get [OF inv]] by (auto simp: engine_default_def)
  qed
  have e0: "engine_inv engine_default" "instances_ok engine_default"
    using engine_inv_default by (simp_all add: instances_ok_def engine_default_def)
  have cap: "length (en_rankings engine_default) + length ds \<le> 128"
    "en_next_instance engine_default + length ds \<le> u64_max"
    using ds(3) by (simp_all add: engine_default_def u64_max_def)
  note created = create_definitions_spec [OF e0 ds(2) valid cap drawn, of 0]
  have c: "engine_inv ?e" "instances_ok ?e" "en_next_instance ?e \<le> 128"
    using created ds(3) by (simp_all add: engine_default_def)
  have none: "hm_get (en_rankings ?e) k = None" if "k \<notin> rd_id ` set ds" for k
    using created that by (simp add: engine_default_def)
  have some: "\<exists>i h. hm_get (en_rankings ?e) (rd_id d) = Some (ranking_new d i h)" if "d \<in> set ds" for d
    using created that by blast
  let ?ds = "engine_definitions ?e" and ?f = "recovered_engine owner clean identity rs"
  have f_eq: "?f = fold (recover_ranking owner clean rs) ?ds ?e"
    using ds(1) by (simp add: recovered_engine_def Let_def)
  have all: "\<forall>d \<in> set ?ds. \<exists>r. hm_get (en_rankings ?e) (rd_id d) = Some r \<and> rk_definition r = d"
    using engine_definitions_set [OF c(1)] by blast
  note spec = recover_rankings_spec [OF c(1) cps engine_definitions_distinct [OF c(1)] all, of owner clean,
      folded f_eq]
  have get: "hm_get (en_rankings ?f) k = map_option (recovered owner clean rs) (hm_get (en_rankings ?e) k)" for k
  proof (cases "hm_get (en_rankings ?e) k")
    case (Some r)
    then have "rk_definition r \<in> set ?ds" "rd_id (rk_definition r) = k"
      using engine_definitions_set [OF c(1), of "rk_definition r"] engine_inv_id [OF c(1) Some] by auto
    then have "k \<in> rd_id ` set ?ds" by blast
    then show ?thesis using spec by simp
  qed (use spec in simp)
  have fresh: "entries_counted r" if "hm_get (en_rankings ?e) k = Some r" for k r
  proof -
    have "k \<in> rd_id ` set ds" using none [of k] that by (rule_tac ccontr) simp
    then obtain d where d: "d \<in> set ds" "rd_id d = k" by blast
    obtain i h where "hm_get (en_rankings ?e) (rd_id d) = Some (ranking_new d i h)" using some [OF d(1)] by blast
    then have "r = ranking_new d i h" using that d(2) by simp
    then show ?thesis by (simp add: ranking_new_def entries_counted_def aggregation_new_def)
  qed
  have "instances_ok ?f"
    unfolding instances_ok_def
  proof (intro allI impI)
    fix k q assume "hm_get (en_rankings ?f) k = Some q"
    then obtain r where r: "hm_get (en_rankings ?e) k = Some r" "q = recovered owner clean rs r" using get [of k] by auto
    have "rk_instance r \<le> en_next_instance ?e" using c(2) r(1) by (simp add: instances_ok_def)
    then show "rk_instance q \<le> en_next_instance ?f \<and> (\<not> has_vote_source (rk_definition q) \<longrightarrow> entries_counted q)"
      using recovered_kept [OF fresh [OF r(1)], of owner clean rs] r(2) spec by simp
  qed
  moreover have "case hm_get (en_rankings e) k of
       None \<Rightarrow> hm_get (en_rankings ?f) k = None
     | Some r \<Rightarrow> \<exists>i h. ranking_inv (ranking_new (rk_definition r) i h) \<and>
         hm_get (en_rankings ?f) k = Some (recovered owner clean rs (ranking_new (rk_definition r) i h))" for k
  proof (cases "hm_get (en_rankings e) k")
    case None
    then have "k \<notin> rd_id ` set ds" using ds(4) by auto
    then show ?thesis using None none get [of k] by simp
  next
    case (Some r)
    have "rd_id (rk_definition r) = k" using engine_inv_id [OF inv Some] .
    moreover from this have "rk_definition r \<in> set ds" using ds(4) Some by simp
    ultimately obtain i h where "hm_get (en_rankings ?e) k = Some (ranking_new (rk_definition r) i h)"
      using some by blast
    then show ?thesis using get [of k] engine_inv_get [OF c(1)] Some by auto
  qed
  ultimately show ?thesis using spec c(3) by simp
qed

lemma votes_rebuilt_get:
  assumes "votes_rebuilt e e'" and "hm_get (en_rankings e') k = Some r'"
  shows "\<exists>r. hm_get (en_rankings e) k = Some r \<and> rk_instance r' = rk_instance r \<and>
    rk_definition r' = rk_definition r \<and> (\<not> has_vote_source (rk_definition r) \<longrightarrow> r' = r)"
proof -
  have "rel_option (\<lambda>r r'. rk_definition r' = rk_definition r \<and> rk_instance r' = rk_instance r \<and>
      (\<not> has_vote_source (rk_definition r) \<longrightarrow> r' = r)) (hm_get (en_rankings e) k) (hm_get (en_rankings e') k)"
    using assms(1) by (simp add: votes_rebuilt_def)
  then show ?thesis using assms(2) by (auto simp: option_rel_Some2)
qed

lemma votes_rebuilt_instances:
  assumes "votes_rebuilt e e'" and "instances_ok e"
  shows "instances_ok e'"
  unfolding instances_ok_def
proof (intro allI impI)
  fix k r' assume "hm_get (en_rankings e') k = Some r'"
  then obtain r where r: "hm_get (en_rankings e) k = Some r" "rk_instance r' = rk_instance r"
    "rk_definition r' = rk_definition r" "\<not> has_vote_source (rk_definition r) \<longrightarrow> r' = r"
    using votes_rebuilt_get [OF assms(1)] by blast
  have "rk_instance r \<le> en_next_instance e \<and> (\<not> has_vote_source (rk_definition r) \<longrightarrow> entries_counted r)"
    using assms(2) r(1) by (simp add: instances_ok_def)
  moreover have "en_next_instance e' = en_next_instance e" using assms(1) by (simp add: votes_rebuilt_def)
  ultimately show "rk_instance r' \<le> en_next_instance e' \<and> (\<not> has_vote_source (rk_definition r') \<longrightarrow> entries_counted r')"
    using r by auto
qed

lemma restart_step:
  assumes inv: "service_inv s" and drawn: "\<forall>n. drawn_ok (identity n)"
  shows "\<exists>s'. restore_service lower drawn identity (sv_rankings s) (sv_store s) = Ret s' \<and> service_inv s' \<and>
    en_next_instance (sv_engine s') \<le> 128 \<and> sv_owner s' = claim_owner drawn (sv_rankings s) \<and>
    sv_rankings s' = fst (claim_run drawn (sv_rankings s)) \<and> sv_persisted s' = [] \<and> \<not> sv_shutdown s' \<and>
    (\<forall>k. rel_option (comes_back drawn (sv_rankings s)) (hm_get (en_rankings (sv_engine s)) k)
       (hm_get (en_rankings (sv_engine s')) k))"
proof -
  note old = service_invD [OF inv]
  let ?rs = "sv_rankings s"
  obtain rs1 claim where cl: "claim_run drawn ?rs = (rs1, claim)" by force
  let ?owner = "claim_owner drawn ?rs" and ?clean = "claim_clean drawn ?rs"
  have owner: "map_option fst claim = ?owner" "(case claim of None \<Rightarrow> False | Some (_, clean) \<Rightarrow> clean) = ?clean"
    using cl by (simp_all add: claim_owner_def claim_clean_def)
  note tables = claim_run_tables [OF cl]
  have rows: "rows_match (sv_engine s) rs1" and cps: "checkpoints_ok rs1"
    using old(3,4) tables(1,2) by (simp_all add: rows_match_def checkpoints_ok_def)
  let ?e = "recovered_engine ?owner ?clean identity rs1"
  have e: "engine_inv ?e" "instances_ok ?e" "en_next_instance ?e \<le> 128"
    "\<And>k. case hm_get (en_rankings (sv_engine s)) k of
       None \<Rightarrow> hm_get (en_rankings ?e) k = None
     | Some r \<Rightarrow> \<exists>i h. ranking_inv (ranking_new (rk_definition r) i h) \<and>
         hm_get (en_rankings ?e) k = Some (recovered ?owner ?clean rs1 (ranking_new (rk_definition r) i h))"
    using recovered_engine_spec [OF old(1) rows cps drawn, of ?owner ?clean] by blast+
  have "\<exists>e1 s1. (case load_competition_definitions (sv_store s) of
        Inl _ \<Rightarrow> Ret (?e, sv_store s)
      | Inr cs \<Rightarrow> recover_competitions ?owner [] cs ?e (sv_store s)) = Ret (e1, s1) \<and> engine_inv e1 \<and> votes_rebuilt ?e e1"
    using recover_competitions_rebuilt [OF e(1)] e(1) by (auto split: sum.split)
  then obtain e1 s1 where e1: "(case load_competition_definitions (sv_store s) of
        Inl _ \<Rightarrow> Ret (?e, sv_store s)
      | Inr cs \<Rightarrow> recover_competitions ?owner [] cs ?e (sv_store s)) = Ret (e1, s1)" "engine_inv e1" "votes_rebuilt ?e e1"
    by blast
  obtain c where c: "restore_competitions lower rs1 s1 = Ret c" using restore_competitions_total by blast
  let ?s = "\<lparr>sv_engine = e1, sv_owner = ?owner, sv_persisted = [], sv_rankings = rs1, sv_competitions = c,
      sv_store = s1, sv_shutdown = False\<rparr>"
  have run: "restore_service lower drawn identity ?rs (sv_store s) = Ret ?s"
    unfolding restore_service_def cl prod.case Let_def owner e1(1) using c by simp
  have returns: "rel_option (comes_back drawn ?rs) (hm_get (en_rankings (sv_engine s)) k) (hm_get (en_rankings e1) k)" for k
  proof -
    have rel: "rel_option (\<lambda>r r'. rk_definition r' = rk_definition r \<and> rk_instance r' = rk_instance r \<and>
        (\<not> has_vote_source (rk_definition r) \<longrightarrow> r' = r)) (hm_get (en_rankings ?e) k) (hm_get (en_rankings e1) k)"
      using e1(3) by (simp add: votes_rebuilt_def)
    show ?thesis
    proof (cases "hm_get (en_rankings (sv_engine s)) k")
      case None
      then show ?thesis using e(4) [of k] rel by simp
    next
      case (Some r)
      obtain i h where q: "ranking_inv (ranking_new (rk_definition r) i h)"
        "hm_get (en_rankings ?e) k = Some (recovered ?owner ?clean rs1 (ranking_new (rk_definition r) i h))"
        using e(4) [of k] Some by auto
      have d: "rk_definition (recovered ?owner ?clean rs1 (ranking_new (rk_definition r) i h)) = rk_definition r"
        using recovered_kept [of "ranking_new (rk_definition r) i h" ?owner ?clean rs1]
        by (simp add: entries_counted_def ranking_new_def aggregation_new_def)
      obtain r' where r': "hm_get (en_rankings e1) k = Some r'" "rk_definition r' = rk_definition r"
        "\<not> has_vote_source (rk_definition r) \<Longrightarrow> r' = recovered ?owner ?clean rs1 (ranking_new (rk_definition r) i h)"
        using rel q(2) d by (auto simp: option_rel_Some1)
      then show ?thesis using Some cl q(1) by (auto simp: comes_back_def)
    qed
  qed
  have "service_inv ?s"
  proof (rule service_invI)
    show "engine_inv (sv_engine ?s)" "checkpoints_ok (sv_rankings ?s)" using e1(2) cps by simp_all
    show "instances_ok (sv_engine ?s)" using votes_rebuilt_instances [OF e1(3) e(2)] by simp
    show "token_ok (sv_engine ?s) (sv_rankings ?s) rid tok" if "hm_get (sv_persisted ?s) rid = Some tok" for rid tok
      using that by simp
    show "rs_owner (sv_rankings ?s) = sv_owner ?s" if "sv_owner ?s \<noteq> None"
    proof (cases claim)
      case (Some p)
      then show ?thesis using tables(3) [of "fst p" "snd p"] cl by (simp add: claim_owner_def)
    qed (use that cl in \<open>simp add: claim_owner_def\<close>)
    show "rows_match (sv_engine ?s) (sv_rankings ?s)"
    proof -
      have "definitions_of (en_rankings e1) k = definitions_of (en_rankings (sv_engine s)) k" for k
        using returns [of k] unfolding definitions_of_def
        by (cases "hm_get (en_rankings (sv_engine s)) k") (auto simp: option_rel_Some1 comes_back_def)
      then show ?thesis using rows by (simp add: rows_match_definitions)
    qed
  qed
  moreover have "en_next_instance e1 \<le> 128" using e1(3) e(3) by (simp add: votes_rebuilt_def)
  ultimately show ?thesis using run returns cl by simp
qed

section \<open>Any history\<close>

text \<open>The counter of instances grows by one at most, and starts again at a restart.\<close>

lemma service_step_kept:
  assumes inv: "service_inv s" and ok: "service_op_ok op" and counter: "en_next_instance (sv_engine s) < u64_max"
  shows "\<exists>s'. service_step lower json_len op s = Ret s' \<and> service_inv s' \<and>
    (en_next_instance (sv_engine s') \<le> 128 \<or> en_next_instance (sv_engine s') \<le> en_next_instance (sv_engine s) + 1)"
proof (cases op)
  case (Sv_Create probe identity d)
  then show ?thesis using create_step [OF inv _ _ counter, of probe identity d] ok by (simp add: service_step_def)
next
  case (Sv_Update probe identity d reset)
  then have "drawn_ok probe" "drawn_ok identity" using ok by simp_all
  from update_step [OF inv this, of lower d reset] show ?thesis using Sv_Update by (auto simp: service_step_def)
next
  case (Sv_Snapshot rid now)
  then show ?thesis using snapshot_step [OF inv, of rid now] by (auto simp: service_step_def)
next
  case (Sv_Contribute admitted_at now c)
  then show ?thesis using contribute_step [OF inv, of admitted_at now c] by (auto simp: service_step_def)
next
  case (Sv_Stream op')
  then have "stream_op op'" using ok by simp
  from stream_step [OF inv this counter] show ?thesis using Sv_Stream by (auto simp: service_step_def)
next
  case (Sv_Restart drawn identity)
  then have "\<forall>n. drawn_ok (identity n)" using ok by simp
  from restart_step [OF inv this, of lower drawn]
  obtain s' where "restore_service lower drawn identity (sv_rankings s) (sv_store s) = Ret s'" "service_inv s'"
    "en_next_instance (sv_engine s') \<le> 128" by blast
  then show ?thesis using Sv_Restart by (simp add: service_step_def)
next
  case (Sv_Pass identity)
  then show ?thesis using pass_step [OF inv, of identity json_len] by (simp add: service_step_def)
next
  case (Sv_Shutdown identity complete)
  then show ?thesis using shutdown_step [OF inv, of identity json_len complete] by (simp add: service_step_def)
qed (use inv reset_step [OF inv] pause_step [OF inv] delete_step [OF inv] in \<open>simp_all add: service_step_def\<close>)

lemma service_run_kept:
  assumes "service_inv s" and "list_all service_op_ok ops"
    and "en_next_instance (sv_engine s) \<le> n" and "128 \<le> n" and "n + length ops \<le> u64_max"
  shows "\<exists>s'. service_run lower json_len ops s = Ret s' \<and> service_inv s' \<and>
    en_next_instance (sv_engine s') \<le> n + length ops"
  using assms
proof (induction ops arbitrary: s n)
  case (Cons op ops)
  have "en_next_instance (sv_engine s) < u64_max" "service_op_ok op" using Cons.prems by simp_all
  from service_step_kept [OF Cons.prems(1) this(2,1), of lower json_len]
  obtain s1 where s1: "service_step lower json_len op s = Ret s1" "service_inv s1"
    "en_next_instance (sv_engine s1) \<le> 128 \<or> en_next_instance (sv_engine s1) \<le> en_next_instance (sv_engine s) + 1"
    by blast
  have "en_next_instance (sv_engine s1) \<le> n + 1" "128 \<le> n + 1" "n + 1 + length ops \<le> u64_max" "list_all service_op_ok ops"
    using s1(3) Cons.prems by auto
  from Cons.IH [OF s1(2) this(4,1-3)] show ?case using s1(1) by auto
qed auto

lemma service_inv_new: "service_inv service_new"
  using engine_inv_default
  by (simp add: service_inv_def service_new_def instances_ok_def rows_match_def checkpoints_ok_def
      engine_default_def ranking_store_empty_def)

lemma service_history:
  assumes "list_all service_op_ok ops" and "128 + length ops \<le> u64_max"
  obtains s where "service_run lower json_len ops service_new = Ret s" "service_inv s"
  using service_run_kept [OF service_inv_new assms(1) _ _ assms(2), of lower json_len] that
  by (auto simp: service_new_def engine_default_def)

end
