(* ===== verification/Ranking_Coverage.thy ===== *)
theory Ranking_Coverage
  imports Ranking_Restart
begin

text \<open>
  What a checkpoint pass and the shutdown leave in the tables: a pass by the owner covers every ranking
  it writes, a shutdown without an error covers all of them, and a covered ranking comes back from a
  restart that follows a clean shutdown. A restart that follows none leaves every ranking degraded.
\<close>

section \<open>Covered rankings\<close>

definition covered :: "service \<Rightarrow> string \<Rightarrow> bool" where
  "covered s rid \<longleftrightarrow>
     (\<forall>r. hm_get (en_rankings (sv_engine s)) rid = Some r \<longrightarrow> hm_get (sv_persisted s) rid = Some (token r))"

lemma covered_durable:
  assumes inv: "service_inv s" and cov: "covered s rid" and r: "hm_get (en_rankings (sv_engine s)) rid = Some r"
    and bound: "ag_revision (rk_state r) < u64_max"
  shows "durable r (sv_rankings s)"
proof -
  have "hm_get (sv_persisted s) rid = Some (token r)" using cov r by (simp add: covered_def)
  from service_invD(5) [OF inv this]
  have "token_ok (sv_engine s) (sv_rankings s) rid (rk_instance r, ag_revision (rk_state r))" by (simp add: token_def)
  then show ?thesis using r bound unfolding token_ok_def fst_conv snd_conv by blast
qed

lemma durable_row:
  assumes inv: "engine_inv e" and r: "hm_get (en_rankings e) rid = Some r" and dur: "durable r rs"
  shows "\<exists>t. hm_get (rs_checkpoints rs) rid =
    Some \<lparr>ck_schema = 1, ck_checkpoint = Some (ranking_checkpoint (r\<lparr>rk_last_time := t\<rparr>))\<rparr>"
  using dur engine_inv_id [OF inv r] by (auto simp: durable_def)

text \<open>The machine integers of a ranking.\<close>

lemma ranking_values_typed:
  assumes inv: "ranking_inv r"
  shows "ag_total (rk_state r) \<le> u64_max \<and> ag_revision (rk_state r) \<le> u64_max \<and>
       Aggregation.scores_of (rk_state r) key \<le> u64_max \<and>
       length (ag_scores (rk_state r)) \<le> rd_capacity (rk_definition r) \<and>
       rk_rejected r \<le> u64_max \<and> rk_dropped r \<le> u64_max \<and> rk_limited r \<le> u64_max \<and>
       rk_cooldown_rejected r \<le> u64_max \<and> (\<forall>p \<in> set (rk_users r). us_count (snd p) \<le> u64_max)"
proof -
  have a: "agg_inv (rk_state r)" using inv by (rule ranking_inv_state)
  have key: "Aggregation.scores_of (rk_state r) key \<le> ag_total (rk_state r)"
    using scores_of_le_total [OF a] .
  have "\<forall>p \<in> set (rk_users r). us_count (snd p) \<le> u64_max"
    using ranking_inv_users [OF inv]
    by (cases "rd_user_limits (rk_definition r)") (auto simp: user_ok_def list_all_iff)
  then show ?thesis using inv a key by (auto simp: ranking_inv_def agg_inv_def)
qed

lemma persist_one_covers:
  assumes inv: "service_inv s" and p: "persist_one identity json_len owner rid True s = (s1, Inr b)"
  shows "covered s1 rid" and "covered s k \<Longrightarrow> covered s1 k"
proof -
  have e: "sv_engine s1 = sv_engine s" using persist_one_frame(1) [of identity json_len owner rid True s] p by simp
  have "covered s1 rid \<and> (covered s k \<longrightarrow> covered s1 k)"
  proof (cases "hm_get (en_rankings (sv_engine s)) rid")
    case None
    then show ?thesis using p by (auto simp: persist_one_def change_token_get covered_def)
  next
    case (Some r)
    then show ?thesis using p e unfolding persist_one_cases [OF service_invD(1) [OF inv] Some]
      by (auto simp: covered_def hm_simps split: if_splits prod.splits sum.splits)
  qed
  then show "covered s1 rid" and "covered s k \<Longrightarrow> covered s1 k" by blast+
qed

lemma persist_rest_error: "snd (persist_rest identity json_len owner ids (Some err) s) \<noteq> None"
proof (induction ids arbitrary: s)
  case (Cons rid ids)
  then show ?case by (auto split: prod.split sum.split)
qed simp

lemma persist_rest_covers:
  assumes "service_inv s" and "persist_rest identity json_len owner ids None s = (s1, None)"
  shows "(\<forall>rid \<in> set ids. covered s1 rid) \<and> (\<forall>k. covered s k \<longrightarrow> covered s1 k)"
  using assms
proof (induction ids arbitrary: s)
  case (Cons rid ids)
  obtain s2 res where p: "persist_one (identity rid) json_len owner rid True s = (s2, res)" by force
  show ?case
  proof (cases res)
    case (Inl err)
    then have "persist_rest identity json_len owner ids (Some err) s2 = (s1, None)" using Cons.prems(2) p by simp
    then show ?thesis using persist_rest_error [of identity json_len owner ids err s2] by simp
  next
    case (Inr b)
    have inv2: "service_inv s2" using persist_one_inv [OF Cons.prems(1), of "identity rid" json_len owner rid True] p by simp
    have "persist_rest identity json_len owner ids None s2 = (s1, None)" using Cons.prems(2) p Inr by simp
    from Cons.IH [OF inv2 this]
    have IH: "\<forall>rid \<in> set ids. covered s1 rid" "\<And>k. covered s2 k \<Longrightarrow> covered s1 k" by blast+
    have "covered s2 rid" "\<And>k. covered s k \<Longrightarrow> covered s2 k"
      using persist_one_covers [OF Cons.prems(1)] p Inr by blast+
    then show ?thesis using IH by simp
  qed
qed simp

section \<open>A save that succeeds\<close>

lemma checkpoint_of_valid:
  assumes r: "ranking_inv r" "entries_counted r" and drawn: "drawn_ok identity"
  shows "checkpoint_invalid identity (ranking_checkpoint r) = None"
proof -
  let ?d = "rk_definition r"
  have e0: "length (en_rankings engine_default) < 128" "hm_get (en_rankings engine_default) (rd_id ?d) = None"
    "en_next_instance engine_default < u64_max"
    by (simp_all add: engine_default_def u64_max_def)
  obtain bytes e where e: "engine_create identity ?d engine_default = (e, Inr ())"
    "en_rankings e = hm_insert (rd_id ?d) (ranking_new ?d (en_next_instance engine_default + 1) (hex_bytes bytes))
       (en_rankings engine_default)"
    using engine_create_ok [OF drawn e0(1) ranking_inv_definition [OF r(1)] e0(2,3)] by blast
  let ?q = "ranking_new ?d (en_next_instance engine_default + 1) (hex_bytes bytes)"
  have q: "hm_get (en_rankings e) (rd_id ?d) = Some ?q" using e(2) by (simp add: hm_simps)
  have "engine_inv e" using engine_inv_create [OF engine_inv_default e0(3) drawn_length [OF drawn], of ?d] e(1) by simp
  then have "ranking_inv ?q" using engine_inv_get q by blast
  from checkpoint_round_trip [OF r(1) this] r(2)
  obtain r' where "restore_ranking (ranking_checkpoint r) ?q = Inr r'"
    by (auto simp: ranking_new_def aggregation_new_def entries_counted_def)
  then show ?thesis using e(1) q
    by (simp add: checkpoint_invalid_def restore_session_checkpoint_def ranking_checkpoint_def)
qed

lemma persist_one_succeeds:
  assumes inv: "service_inv s" and owner: "rs_owner (sv_rankings s) = Some owner" and drawn: "drawn_ok identity"
    and r: "hm_get (en_rankings (sv_engine s)) rid = Some r" "\<not> has_vote_source (rk_definition r)"
    and small: "json_len (ranking_checkpoint r) \<le> 32 * 1024 * 1024"
  shows "\<exists>s1 b. persist_one identity json_len owner rid True s = (s1, Inr b) \<and> rs_owner (sv_rankings s1) = Some owner"
proof -
  note old = service_invD [OF inv]
  have ri: "ranking_inv r" "entries_counted r"
    using engine_inv_get [OF old(1) r(1)] old(2) r by (simp_all add: instances_ok_def)
  have id_eq: "rd_id (rk_definition r) = rid" using engine_inv_id [OF old(1) r(1)] .
  have row: "hm_get (rs_definitions (sv_rankings s)) rid = Some (ranking_row_of (rk_definition r))"
    using old(3) r(1) by (simp add: rows_match_def)
  have cp: "cp_definition (ranking_checkpoint r) = rk_definition r" by (simp add: ranking_checkpoint_def)
  obtain rs where rs: "save_aggregation_checkpoint identity json_len (ranking_checkpoint r) owner (sv_rankings s) = (rs, Inr ())"
    using checkpoint_of_valid [OF ri drawn] small owner row id_eq
    by (simp add: save_aggregation_checkpoint_def cp ranking_row_of_def decoded_def)
  have "rs_owner rs = Some owner" using save_checkpoint_cases [OF rs] by simp
  then show ?thesis unfolding persist_one_cases [OF old(1) r(1)] using rs owner by auto
qed

section \<open>The pass and the shutdown\<close>

lemma checkpointed_set:
  assumes inv: "engine_inv e"
  shows "rid \<in> set (checkpointed e) \<longleftrightarrow> (\<exists>r. hm_get (en_rankings e) rid = Some r \<and> \<not> has_vote_source (rk_definition r))"
proof
  assume "rid \<in> set (checkpointed e)"
  then obtain d where d: "d \<in> set (engine_definitions e)" "\<not> has_vote_source d" "rd_id d = rid"
    by (auto simp: checkpointed_def)
  then show "\<exists>r. hm_get (en_rankings e) rid = Some r \<and> \<not> has_vote_source (rk_definition r)"
    using engine_definitions_set [OF inv, of d] by auto
next
  assume "\<exists>r. hm_get (en_rankings e) rid = Some r \<and> \<not> has_vote_source (rk_definition r)"
  then obtain r where r: "hm_get (en_rankings e) rid = Some r" "\<not> has_vote_source (rk_definition r)" by blast
  have id_eq: "rd_id (rk_definition r) = rid" using engine_inv_id [OF inv r(1)] .
  then have "rk_definition r \<in> set (engine_definitions e)" using engine_definitions_set [OF inv] r(1) by auto
  then show "rid \<in> set (checkpointed e)" using r(2) id_eq by (force simp: checkpointed_def)
qed

lemma persist_changed_covers:
  assumes "service_inv s" and "\<not> sv_shutdown s" and "rs_owner (sv_rankings s) = Some owner"
    and drawn: "\<forall>rid. drawn_ok (identity rid)" and small: "\<forall>cp. json_len cp \<le> 32 * 1024 * 1024"
    and "set ids \<subseteq> set (checkpointed (sv_engine s))"
  shows "(\<forall>rid \<in> set ids. covered (fst (persist_changed identity json_len owner ids s)) rid) \<and>
    (\<forall>k. covered s k \<longrightarrow> covered (fst (persist_changed identity json_len owner ids s)) k)"
  using assms(1-3,6)
proof (induction ids arbitrary: s)
  case (Cons rid ids)
  obtain r where r: "hm_get (en_rankings (sv_engine s)) rid = Some r" "\<not> has_vote_source (rk_definition r)"
    using checkpointed_set [OF service_invD(1) [OF Cons.prems(1)]] Cons.prems(4) by auto
  obtain s1 b where p: "persist_one (identity rid) json_len owner rid True s = (s1, Inr b)"
    "rs_owner (sv_rankings s1) = Some owner"
    using persist_one_succeeds [OF Cons.prems(1,3) _ r] drawn small by blast
  have s1: "service_inv s1" "sv_engine s1 = sv_engine s" "sv_shutdown s1 = sv_shutdown s"
    using persist_one_inv [OF Cons.prems(1), of "identity rid" json_len owner rid True]
      persist_one_frame [of "identity rid" json_len owner rid True s] p(1) by simp_all
  have "\<not> sv_shutdown s1" "set ids \<subseteq> set (checkpointed (sv_engine s1))" using s1 Cons.prems by simp_all
  note IH = Cons.IH [OF s1(1) this(1) p(2) this(2)]
  have "covered s1 rid" "\<And>k. covered s k \<Longrightarrow> covered s1 k" using persist_one_covers [OF Cons.prems(1) p(1)] by blast+
  then show ?case using IH p(1) Cons.prems(2) by (simp add: case_prod_beta)
qed simp

lemma pass_covers:
  assumes inv: "service_inv s" and live: "\<not> sv_shutdown s" "sv_owner s = Some owner"
    and "\<forall>rid. drawn_ok (identity rid)" and "\<forall>cp. json_len cp \<le> 32 * 1024 * 1024"
    and r: "hm_get (en_rankings (sv_engine s)) rid = Some r" "\<not> has_vote_source (rk_definition r)"
  shows "covered (fst (checkpoint_changed identity json_len s)) rid"
proof -
  let ?ids = "checkpointed (sv_engine s)"
  let ?s = "s\<lparr>sv_persisted := filter (\<lambda>(rid, _). rid \<in> set ?ids) (sv_persisted s)\<rparr>"
  have own: "rs_owner (sv_rankings s) = Some owner" using service_invD(6) [OF inv] live(2) by simp
  have "rid \<in> set ?ids" using checkpointed_set [OF service_invD(1) [OF inv]] r by blast
  then show ?thesis
    using persist_changed_covers [OF service_inv_forget [OF inv, of "\<lambda>k. k \<in> set ?ids"], of owner identity json_len ?ids]
      live own assms(4,5) by (simp add: checkpoint_changed_def Let_def)
qed

lemma checkpoint_shutdown_clean:
  assumes "checkpoint_shutdown identity json_len complete s = (s1, Inr ())"
    and "e = (if complete then sv_engine s else mark_ingress_loss 1 (sv_engine s))"
  shows "\<exists>owner s2 rs. persist_rest identity json_len owner (checkpointed e) None (s\<lparr>sv_engine := e\<rparr>) = (s2, None) \<and>
    finish_aggregation_checkpoints owner (sv_rankings s2) = (rs, Inr ()) \<and> s1 = s2\<lparr>sv_rankings := rs\<rparr>"
  using assms(1) unfolding checkpoint_shutdown_def Let_def assms(2) [symmetric]
  by (fastforce split: option.splits prod.splits)

text \<open>A shutdown without an error: the owner wrote everything and marked the run clean.\<close>

lemma shutdown_covers:
  assumes inv: "service_inv s"
    and clean: "service_shutdown identity json_len complete s = (s1, Inr ())"
  shows "sv_engine s1 = (if complete then sv_engine s else mark_ingress_loss 1 (sv_engine s))" (is ?engine)
    and "rs_run (sv_rankings s1) = Some Run_Clean"
    and "\<And>rid r. hm_get (en_rankings (sv_engine s1)) rid = Some r \<Longrightarrow> \<not> has_vote_source (rk_definition r) \<Longrightarrow>
      ag_revision (rk_state r) < u64_max \<Longrightarrow> durable r (sv_rankings s1)"
proof -
  obtain st where st: "checkpoint_shutdown identity json_len complete (s\<lparr>sv_shutdown := True, sv_store := st\<rparr>) = (s1, Inr ())"
    using clean by (auto simp: service_shutdown_def Let_def split: prod.splits sum.splits)
  let ?e = "if complete then sv_engine s else mark_ingress_loss 1 (sv_engine s)"
  let ?s = "s\<lparr>sv_shutdown := True, sv_store := st, sv_engine := ?e\<rparr>"
  obtain owner s2 rs where s2: "persist_rest identity json_len owner (checkpointed ?e) None ?s = (s2, None)"
    "finish_aggregation_checkpoints owner (sv_rankings s2) = (rs, Inr ())" "s1 = s2\<lparr>sv_rankings := rs\<rparr>"
    using checkpoint_shutdown_clean [OF st, of ?e] by auto
  let ?t = "s\<lparr>sv_shutdown := True, sv_store := st\<rparr>"
  have i0: "service_inv ?t" using inv by simp
  have "service_inv (?t\<lparr>sv_engine := mark_ingress_loss 1 (sv_engine ?t)\<rparr>)"
    by (rule service_inv_moves [OF i0 engine_inv_ingress_loss [OF service_invD(1) [OF i0]] mark_ingress_loss_moves
        next_instance_ops(10)])
  then have e: "service_inv ?s" using i0 by (cases complete) simp_all
  have inv2: "service_inv s2" "sv_engine s2 = ?e"
    using persist_rest_inv [OF e, of identity json_len owner "checkpointed ?e" None] unfolding s2(1) fst_conv by simp_all
  have eng: "sv_engine s1 = sv_engine s2" using s2(3) by simp
  show ?engine using eng inv2(2) by simp
  have fin: "rs_run (sv_rankings s1) = Some Run_Clean \<and> rs_checkpoints (sv_rankings s1) = rs_checkpoints (sv_rankings s2)"
    using s2(2,3) by (auto simp: finish_aggregation_checkpoints_def split: if_splits)
  then show "rs_run (sv_rankings s1) = Some Run_Clean" by blast
  show "durable r (sv_rankings s1)" if r: "hm_get (en_rankings (sv_engine s1)) rid = Some r"
    "\<not> has_vote_source (rk_definition r)" "ag_revision (rk_state r) < u64_max" for rid r
  proof -
    have "rid \<in> set (checkpointed ?e)" using checkpointed_set [OF service_invD(1) [OF inv2(1)]] r eng inv2(2) by auto
    then have "covered s2 rid" using persist_rest_covers [OF e s2(1)] by blast
    from covered_durable [OF inv2(1) this] have "durable r (sv_rankings s2)" using r eng by simp
    then show ?thesis using fin by (simp add: durable_def)
  qed
qed

section \<open>The restart after a clean shutdown\<close>

text \<open>Everything a ranking shows and everything its rules read; only the time of the last expiry may be older.\<close>

definition resumes :: "ranking \<Rightarrow> ranking \<Rightarrow> bool" where
  "resumes r r' \<longleftrightarrow>
     rk_definition r' = rk_definition r \<and> ranking_selection r' = ranking_selection r \<and>
     Aggregation.scores_of (rk_state r') = Aggregation.scores_of (rk_state r) \<and> rk_window_events r' = rk_window_events r \<and>
     rk_users r' = rk_users r \<and> rk_paused r' = rk_paused r \<and> same_counters r r'"

lemma selection_last_time [simp]: "ranking_selection (r\<lparr>rk_last_time := t\<rparr>) = ranking_selection r"
  by (simp add: ranking_selection_def complete_snapshot_def)

lemma recovered_durable:
  assumes q: "ranking_inv (ranking_new (rk_definition r) i h)" and dur: "durable r rs" and counted: "entries_counted r"
    and "rs_owner rs = Some owner" and "\<not> has_vote_source (rk_definition r)"
  shows "resumes r (recovered (Some owner) True rs (ranking_new (rk_definition r) i h))"
proof -
  let ?q = "ranking_new (rk_definition r) i h"
  obtain t where t: "ranking_inv (r\<lparr>rk_last_time := t\<rparr>)" "hm_get (rs_checkpoints rs) (rd_id (rk_definition r)) =
      Some \<lparr>ck_schema = 1, ck_checkpoint = Some (ranking_checkpoint (r\<lparr>rk_last_time := t\<rparr>))\<rparr>"
    using dur by (auto simp: durable_def)
  have "rk_definition ?q = rk_definition (r\<lparr>rk_last_time := t\<rparr>)" "ag_revision (rk_state ?q) = 0"
    "length (ag_scores (rk_state (r\<lparr>rk_last_time := t\<rparr>))) \<le> ag_revision (rk_state (r\<lparr>rk_last_time := t\<rparr>))"
    using counted by (simp_all add: ranking_new_def aggregation_new_def entries_counted_def)
  from checkpoint_round_trip [OF t(1) q this]
  obtain r' where r': "restore_ranking (ranking_checkpoint (r\<lparr>rk_last_time := t\<rparr>)) ?q = Inr r'" "resumes r r'"
    by (auto simp: resumes_def same_counters_def)
  have d: "rk_definition ?q = rk_definition r" by (simp add: ranking_new_def)
  have "durable_copy (Some owner) rs ?q = Some r'"
    using t(2) r'(1) assms(4) by (simp add: durable_copy_def load_aggregation_checkpoint_def decoded_def d)
  then show ?thesis using r'(2) assms(5) by (simp add: recovered_def d)
qed

lemma claim_run_drawn:
  "claim_owner (Some bytes) rs = Some (hex_bytes bytes)"
  "claim_clean (Some bytes) rs = (rs_run rs \<noteq> Some Run_Open)"
  "fst (claim_run (Some bytes) rs) = rs\<lparr>rs_owner := Some (hex_bytes bytes), rs_run := Some Run_Open\<rparr>"
  by (simp_all add: claim_owner_def claim_clean_def claim_run_def claim_aggregation_checkpoints_def)

lemma clean_restart:
  assumes inv: "service_inv s" and clean: "rs_run (sv_rankings s) = Some Run_Clean" and drawn: "\<forall>n. drawn_ok (ids n)"
  obtains s' where "service_step lower json_len (Sv_Restart (Some bytes) ids) s = Ret s'" "service_inv s'"
    "\<And>rid r. hm_get (en_rankings (sv_engine s)) rid = Some r \<Longrightarrow> \<not> has_vote_source (rk_definition r) \<Longrightarrow>
      durable r (sv_rankings s) \<Longrightarrow> \<exists>r'. hm_get (en_rankings (sv_engine s')) rid = Some r' \<and> resumes r r'"
proof -
  obtain s' where s': "service_step lower json_len (Sv_Restart (Some bytes) ids) s = Ret s'" "service_inv s'"
    "\<And>k. rel_option (comes_back (Some bytes) (sv_rankings s)) (hm_get (en_rankings (sv_engine s)) k)
       (hm_get (en_rankings (sv_engine s')) k)"
    using restart_step [OF inv drawn, of lower "Some bytes"] by (auto simp: service_step_def)
  have "\<exists>r'. hm_get (en_rankings (sv_engine s')) rid = Some r' \<and> resumes r r'"
    if r: "hm_get (en_rankings (sv_engine s)) rid = Some r" "\<not> has_vote_source (rk_definition r)"
      "durable r (sv_rankings s)" for rid r
  proof -
    let ?rs = "fst (claim_run (Some bytes) (sv_rankings s))"
    obtain r' where r': "hm_get (en_rankings (sv_engine s')) rid = Some r'" "comes_back (Some bytes) (sv_rankings s) r r'"
      using s'(3) [of rid] r(1) by (auto simp: option_rel_Some1)
    have "claim_clean (Some bytes) (sv_rankings s)" using clean by (simp add: claim_run_drawn)
    then obtain i h where q: "ranking_inv (ranking_new (rk_definition r) i h)"
      "r' = recovered (Some (hex_bytes bytes)) True ?rs (ranking_new (rk_definition r) i h)"
      using r'(2) r(2) by (auto simp: comes_back_def claim_run_drawn(1))
    have "durable r ?rs" "rs_owner ?rs = Some (hex_bytes bytes)"
      using r(3) by (simp_all add: claim_run_drawn durable_def)
    moreover have "entries_counted r" using service_invD(2) [OF inv] r(1,2) by (simp add: instances_ok_def)
    ultimately show ?thesis using recovered_durable [OF q(1)] q(2) r(2) r'(1) by blast
  qed
  then show ?thesis using that s'(1,2) by blast
qed

section \<open>The restart after a crash\<close>

lemma recovered_degraded:
  assumes "\<not> has_vote_source (rk_definition r)"
  shows "rk_rejected (recovered owner False rs r) > 0"
  using assms by (auto simp: recovered_def reject_and_touch_def saturating_add_def u64_max_def split: option.split)

lemma crash_restart:
  assumes inv: "service_inv s" and open_run: "rs_run (sv_rankings s) = Some Run_Open" and drawn: "\<forall>n. drawn_ok (ids n)"
  shows "\<exists>s'. service_step lower json_len (Sv_Restart bytes ids) s = Ret s' \<and> service_inv s' \<and>
    (\<forall>rid. hm_has (en_rankings (sv_engine s')) rid = hm_has (en_rankings (sv_engine s)) rid) \<and>
    (\<forall>rid r'. hm_get (en_rankings (sv_engine s')) rid = Some r' \<and> \<not> has_vote_source (rk_definition r') \<longrightarrow>
       rk_rejected r' > 0)"
proof -
  obtain s' where s': "service_step lower json_len (Sv_Restart bytes ids) s = Ret s'" "service_inv s'"
    "\<And>k. rel_option (comes_back bytes (sv_rankings s)) (hm_get (en_rankings (sv_engine s)) k)
       (hm_get (en_rankings (sv_engine s')) k)"
    using restart_step [OF inv drawn, of lower bytes] by (auto simp: service_step_def)
  have unclean: "\<not> claim_clean bytes (sv_rankings s)"
    using open_run claim_run_drawn(2) [of _ "sv_rankings s"]
    by (cases bytes) (simp_all add: claim_clean_def [of None] claim_run_def)
  have "rk_rejected r' > 0" if r': "hm_get (en_rankings (sv_engine s')) rid = Some r'" "\<not> has_vote_source (rk_definition r')" for rid r'
  proof -
    obtain r where r: "comes_back bytes (sv_rankings s) r r'"
      using s'(3) [of rid] r'(1) by (auto simp: option_rel_Some2)
    then have d: "rk_definition r' = rk_definition r" by (simp add: comes_back_def)
    then obtain i h where "r' = recovered (claim_owner bytes (sv_rankings s)) False (fst (claim_run bytes (sv_rankings s)))
        (ranking_new (rk_definition r) i h)"
      using r r'(2) unclean by (auto simp: comes_back_def)
    then show ?thesis using recovered_degraded r'(2) d by (simp add: ranking_new_def)
  qed
  moreover have "hm_has (en_rankings (sv_engine s')) rid = hm_has (en_rankings (sv_engine s)) rid" for rid
    using s'(3) [of rid] by (cases "hm_get (en_rankings (sv_engine s)) rid") (auto simp: hm_has_def option_rel_Some1)
  ultimately show ?thesis using s'(1,2) by blast
qed

section \<open>The run stays open\<close>

text \<open>Only a shutdown marks the run clean.\<close>

fun running_op :: "service_op \<Rightarrow> bool" where
  "running_op (Sv_Shutdown _ _) \<longleftrightarrow> False"
| "running_op (Sv_Restart _ _) \<longleftrightarrow> False"
| "running_op _ \<longleftrightarrow> True"

lemma save_checkpoint_frame:
  "rs_run (fst (save_aggregation_checkpoint identity json_len cp owner rs)) = rs_run rs"
  "rs_external (fst (save_aggregation_checkpoint identity json_len cp owner rs)) = rs_external rs"
proof -
  obtain rs' res where save: "save_aggregation_checkpoint identity json_len cp owner rs = (rs', res)" by force
  have "rs_run rs' = rs_run rs \<and> rs_external rs' = rs_external rs"
    using save_checkpoint_cases [OF save] by (cases res) simp_all
  then show "rs_run (fst (save_aggregation_checkpoint identity json_len cp owner rs)) = rs_run rs"
    and "rs_external (fst (save_aggregation_checkpoint identity json_len cp owner rs)) = rs_external rs"
    using save by simp_all
qed

lemma persist_one_tables:
  "rs_run (sv_rankings (fst (persist_one identity json_len owner rid only s))) = rs_run (sv_rankings s)"
  "rs_external (sv_rankings (fst (persist_one identity json_len owner rid only s))) = rs_external (sv_rankings s)"
  using save_checkpoint_frame [of identity json_len _ owner "sv_rankings s"]
  by (auto simp: persist_one_def split: option.split sum.split prod.split) (metis fst_conv)+

lemma persist_changed_tables:
  "rs_run (sv_rankings (fst (persist_changed identity json_len owner ids s))) = rs_run (sv_rankings s) \<and>
   rs_external (sv_rankings (fst (persist_changed identity json_len owner ids s))) = rs_external (sv_rankings s)"
proof (induction ids arbitrary: s)
  case (Cons rid ids)
  then show ?case using persist_one_tables [of "identity rid" json_len owner rid True s]
    by (simp add: case_prod_beta)
qed simp

lemma persist_rest_tables:
  "rs_run (sv_rankings (fst (persist_rest identity json_len owner ids err s))) = rs_run (sv_rankings s) \<and>
   rs_external (sv_rankings (fst (persist_rest identity json_len owner ids err s))) = rs_external (sv_rankings s)"
proof (induction ids arbitrary: s err)
  case (Cons rid ids)
  obtain s1 res where p: "persist_one (identity rid) json_len owner rid True s = (s1, res)" by force
  then show ?case using Cons.IH persist_one_tables [of "identity rid" json_len owner rid True s]
    by (cases res) simp_all
qed simp

lemma pass_tables:
  "rs_run (sv_rankings (fst (checkpoint_changed identity json_len s))) = rs_run (sv_rankings s)"
  "rs_external (sv_rankings (fst (checkpoint_changed identity json_len s))) = rs_external (sv_rankings s)"
  using persist_changed_tables by (simp_all add: checkpoint_changed_def Let_def split: option.split)

lemma definition_tables:
  "rs_run (fst (insert_aggregation_definition d rs)) = rs_run rs"
  "rs_external (fst (insert_aggregation_definition d rs)) = rs_external rs"
  "rs_run (fst (update_aggregation_definition d rs)) = rs_run rs"
  "rs_external (fst (update_aggregation_definition d rs)) = rs_external rs"
  "rs_run (fst (delete_aggregation_definition rid rs)) = rs_run rs"
  "rs_external (fst (delete_aggregation_definition rid rs)) = rs_external rs"
  "rs_run (fst (clear_aggregation_checkpoint rid rs)) = rs_run rs"
  "rs_external (fst (clear_aggregation_checkpoint rid rs)) = rs_external rs"
  "rs_run (fst (admit_external_contribution eid at rs)) = rs_run rs"
  by (auto simp: insert_aggregation_definition_def update_aggregation_definition_def delete_aggregation_definition_def
      clear_aggregation_checkpoint_def admit_external_contribution_def insert_row_def Let_def)

lemma definition_table_runs:
  "insert_aggregation_definition d rs = (rs', res) \<Longrightarrow> rs_run rs' = rs_run rs \<and> rs_external rs' = rs_external rs"
  "update_aggregation_definition d rs = (rs', upd) \<Longrightarrow> rs_run rs' = rs_run rs \<and> rs_external rs' = rs_external rs"
  "delete_aggregation_definition rid rs = (rs', upd) \<Longrightarrow> rs_run rs' = rs_run rs \<and> rs_external rs' = rs_external rs"
  "clear_aggregation_checkpoint rid rs = (rs', res) \<Longrightarrow> rs_run rs' = rs_run rs \<and> rs_external rs' = rs_external rs"
  using definition_tables(1,2) [of d rs] definition_tables(3,4) [of d rs] definition_tables(5-8) [of rid rs] by auto

lemma control_tables:
  "rs_run (sv_rankings (fst (ranking_create probe identity d s))) = rs_run (sv_rankings s) \<and>
   rs_external (sv_rankings (fst (ranking_create probe identity d s))) = rs_external (sv_rankings s)"
  "rs_run (sv_rankings (fst (ranking_reset rid s))) = rs_run (sv_rankings s) \<and>
   rs_external (sv_rankings (fst (ranking_reset rid s))) = rs_external (sv_rankings s)"
  "rs_run (sv_rankings (fst (ranking_pause rid paused s))) = rs_run (sv_rankings s) \<and>
   rs_external (sv_rankings (fst (ranking_pause rid paused s))) = rs_external (sv_rankings s)"
  "rs_run (sv_rankings (fst (ranking_delete rid s))) = rs_run (sv_rankings s) \<and>
   rs_external (sv_rankings (fst (ranking_delete rid s))) = rs_external (sv_rankings s)"
  by (auto simp: ranking_create_def ranking_reset_def ranking_pause_def ranking_delete_def engine_result_def Let_def
      dest: definition_table_runs split: sum.split prod.split bool.split)

lemma update_tables:
  assumes "ranking_update lower probe identity d reset s = Ret (s', res)"
  shows "rs_run (sv_rankings s') = rs_run (sv_rankings s) \<and> rs_external (sv_rankings s') = rs_external (sv_rankings s)"
proof -
  obtain rs upd where u: "update_aggregation_definition d (sv_rankings s) = (rs, upd)" by force
  note frame = definition_table_runs(2) [OF u]
  obtain built where b: "build_index lower (cs_definitions (sv_competitions s))
      (replace_definition d (engine_definitions (sv_engine s))) = Ret built"
    using build_index_total by blast
  have engine: "sv_rankings s' = rs"
    if "run_bind m (\<lambda>(e, r). Ret (case r of Inl _ \<Rightarrow> (s\<lparr>sv_rankings := rs, sv_engine := e\<rparr>, x)
        | Inr _ \<Rightarrow> (s\<lparr>sv_rankings := rs, sv_engine := e, sv_competitions := c\<rparr>, y))) = Ret (s', res)"
    for m :: "(engine \<times> ('e + unit)) run" and c x y
    using that by (auto simp: run_bind_eq_Ret split: sum.splits)
  show ?thesis
  proof (cases built)
    case (Inr i)
    show ?thesis
    proof (cases "upd = Inr True")
      case True
      then show ?thesis using assms u b frame Inr
        by (auto simp: ranking_update_def dest!: engine split: sum.splits)
    next
      case False
      then show ?thesis using assms u b frame Inr
        by (cases upd) (auto simp: ranking_update_def split: sum.splits)
    qed
  qed (use assms b in \<open>auto simp: ranking_update_def split: sum.splits\<close>)
qed

lemma step_run_kept:
  assumes "service_step lower json_len op s = Ret s'" and "running_op op"
  shows "rs_run (sv_rankings s') = rs_run (sv_rankings s)"
proof (cases op)
  case (Sv_Update probe identity d reset)
  then show ?thesis using assms(1) by (auto simp: service_step_def run_bind_eq_Ret dest!: update_tables)
next
  case (Sv_Snapshot rid now)
  then show ?thesis using assms(1) by (auto simp: service_step_def ranking_snapshot_def run_bind_eq_Ret)
next
  case (Sv_Contribute admitted_at now c)
  have "rs_run rs = rs_run (sv_rankings s)"
    if "admit_external_contribution eid at (sv_rankings s) = (rs, res)" for eid at rs res
    using definition_tables(9) [of eid at "sv_rankings s"] that by simp
  then show ?thesis using assms(1) Sv_Contribute
    by (auto simp: service_step_def ranking_contribute_def run_bind_eq_Ret split: if_splits prod.splits sum.splits bool.splits)
next
  case (Sv_Stream op')
  then show ?thesis using assms(1) by (auto simp: service_step_def run_bind_eq_Ret)
qed (use assms control_tables pass_tables in \<open>auto simp: service_step_def\<close>)

lemma run_stays_open:
  assumes "service_run lower json_len ops s = Ret s'" and "list_all running_op ops"
  shows "rs_run (sv_rankings s') = rs_run (sv_rankings s)"
  using assms by (induction ops arbitrary: s) (auto simp: run_bind_eq_Ret dest!: step_run_kept)

lemma run_open_after:
  assumes "service_run lower json_len (ops @ Sv_Restart (Some bytes) ids # afterwards) s0 = Ret s'"
    and "list_all running_op afterwards"
  shows "rs_run (sv_rankings s') = Some Run_Open"
proof -
  have split: "service_run lower json_len (xs @ ys) s = run_bind (service_run lower json_len xs s) (service_run lower json_len ys)"
    for xs ys s by (induction xs arbitrary: s) (auto simp: run_bind_def split: run.split)
  obtain s :: service and s1 where s1: "restore_service lower (Some bytes) ids (sv_rankings s) (sv_store s) = Ret s1"
    "service_run lower json_len afterwards s1 = Ret s'"
    using assms(1) unfolding split service_run.simps run_bind_eq_Ret service_step_def service_op.case by blast
  have "rs_run (sv_rankings s1) = Some Run_Open"
    using s1(1)
    by (auto simp: restore_service_def claim_run_def claim_aggregation_checkpoints_def Let_def run_bind_eq_Ret)
  then show ?thesis using run_stays_open [OF s1(2) assms(2)] by simp
qed

lemma degraded_shown:
  assumes "rk_rejected r > 0"
  shows "sn_integrity_status (ranking_selection r) = ''degraded''"
  using assms by (simp add: ranking_selection_def rank_snapshot_def complete_snapshot_def Let_def)

section \<open>External identities\<close>

text \<open>An identity is pruned only by an admission more than a week after its own.\<close>

definition within_week :: "int \<Rightarrow> service_op \<Rightarrow> bool" where
  "within_week t op =
     (case op of Sv_Contribute admitted_at _ _ \<Rightarrow> int (min admitted_at i64_max) \<le> t + week_ms | _ \<Rightarrow> True)"

lemma hm_get_kept: "hm_get m k = Some x \<Longrightarrow> P x \<Longrightarrow> hm_get (filter (\<lambda>(_, y). P y) m) k = Some x"
  by (induction m) (auto split: if_splits)

lemma admitted_identity_kept:
  assumes "hm_get (rs_external rs) k = Some t" and "0 \<le> now" and "now \<le> t + week_ms"
  shows "hm_get (rs_external (fst (admit_external_contribution eid now rs))) k = Some t"
proof -
  have "saturating_i64 (now - week_ms) \<le> t"
    using assms(2,3) by (simp add: saturating_i64_def week_ms_def i64_max_def)
  moreover have "hm_get (hm_insert eid now (rs_external rs)) k = Some t" if "\<not> hm_has (rs_external rs) eid"
    using that assms(1) by (auto simp: hm_has_def hm_simps)
  ultimately show ?thesis using assms(1)
    by (simp add: admit_external_contribution_def Let_def hm_get_kept)
qed

lemma shutdown_tables:
  "rs_external (sv_rankings (fst (service_shutdown identity json_len complete s))) = rs_external (sv_rankings s)"
proof -
  have fin: "rs_external rs' = rs_external rs" if "finish_aggregation_checkpoints owner rs = (rs', res)" for owner rs rs' res
    using that by (auto simp: finish_aggregation_checkpoints_def split: if_splits)
  have rest: "rs_external (sv_rankings s2) = rs_external (sv_rankings s1)"
    if "persist_rest identity json_len owner ids None s1 = (s2, err)" for owner ids s1 s2 err
    using persist_rest_tables [of identity json_len owner ids None s1] that by simp
  show ?thesis
    by (auto simp: service_shutdown_def checkpoint_shutdown_def Let_def dest!: fin rest
        split: prod.split sum.split option.split)
qed

lemma restore_tables:
  assumes "restore_service lower drawn ids rs st = Ret s'"
  shows "rs_external (sv_rankings s') = rs_external rs"
proof -
  obtain rs1 claim where "claim_run drawn rs = (rs1, claim)" by force
  then show ?thesis using assms claim_run_tables(4) [of drawn rs rs1 claim]
    by (auto simp: restore_service_def Let_def run_bind_eq_Ret)
qed

lemma step_identity_kept:
  assumes step: "service_step lower json_len op s = Ret s'" and kept: "hm_get (rs_external (sv_rankings s)) k = Some t"
    and week: "within_week t op"
  shows "hm_get (rs_external (sv_rankings s')) k = Some t"
proof (cases op)
  case (Sv_Update probe identity d reset)
  then show ?thesis using step kept by (auto simp: service_step_def run_bind_eq_Ret dest!: update_tables)
next
  case (Sv_Snapshot rid now)
  then show ?thesis using step kept by (auto simp: service_step_def ranking_snapshot_def run_bind_eq_Ret)
next
  case (Sv_Contribute admitted_at now c)
  have "hm_get (rs_external rs) k = Some t"
    if "admit_external_contribution eid (int (min admitted_at i64_max)) (sv_rankings s) = (rs, res)" for eid rs res
    using admitted_identity_kept [OF kept, of "int (min admitted_at i64_max)" eid] that week Sv_Contribute
    by (simp add: within_week_def)
  then show ?thesis using step kept Sv_Contribute
    by (auto simp: service_step_def ranking_contribute_def run_bind_eq_Ret split: if_splits prod.splits sum.splits bool.splits)
next
  case (Sv_Stream op')
  then show ?thesis using step kept by (auto simp: service_step_def run_bind_eq_Ret)
next
  case (Sv_Shutdown identity complete)
  then show ?thesis using step kept shutdown_tables [of identity json_len complete s] by (auto simp: service_step_def)
next
  case (Sv_Restart drawn ids)
  then show ?thesis using step kept by (simp add: service_step_def restore_tables)
qed (use step kept control_tables pass_tables in \<open>auto simp: service_step_def\<close>)

lemma run_identity_kept:
  assumes "service_run lower json_len ops s = Ret s'" and "hm_get (rs_external (sv_rankings s)) k = Some t"
    and "list_all (within_week t) ops"
  shows "hm_get (rs_external (sv_rankings s')) k = Some t"
  using assms by (induction ops arbitrary: s) (auto simp: run_bind_eq_Ret dest: step_identity_kept)

lemma admitted_contribution:
  assumes "ranking_contribute at now c s = Ret (s1, Inr False)" and "\<not> external_invalid c"
    and "has_source (ex_source c) (sv_engine s)"
  shows "hm_get (rs_external (sv_rankings s1)) (external_identity c) = Some (int (min at i64_max))"
proof -
  let ?t = "int (min at i64_max)"
  obtain rs res where a: "admit_external_contribution (external_identity c) ?t (sv_rankings s) = (rs, Inr res)"
    by (cases "hm_has (rs_external (sv_rankings s)) (external_identity c)")
      (auto simp: admit_external_contribution_def Let_def)
  have new: "res" using assms a by (cases res) (simp_all add: ranking_contribute_def)
  have "saturating_i64 (?t - week_ms) \<le> ?t" by (simp add: saturating_i64_def week_ms_def i64_max_def)
  then have "hm_get (rs_external rs) (external_identity c) = Some ?t"
    using a new by (auto simp: admit_external_contribution_def Let_def hm_simps hm_get_kept split: if_splits)
  moreover have "sv_rankings s1 = rs"
    using assms a new by (auto simp: ranking_contribute_def run_bind_eq_Ret)
  ultimately show ?thesis by simp
qed

section \<open>A pass over covered rankings\<close>

lemma covered_unchanged:
  assumes inv: "engine_inv (sv_engine s)" and "\<forall>rid \<in> set ids. covered s rid"
  shows "persist_changed identity json_len owner ids s = (s, 0)"
  using assms(2)
proof (induction ids)
  case (Cons rid ids)
  have "persist_one (identity rid) json_len owner rid True s = (s, Inr False)"
  proof (cases "hm_get (en_rankings (sv_engine s)) rid")
    case None
    then show ?thesis by (simp add: persist_one_def change_token_get)
  next
    case (Some r)
    then show ?thesis using Cons.prems unfolding persist_one_cases [OF inv Some] by (simp add: covered_def)
  qed
  then show ?case using Cons by simp
qed simp

lemma second_pass_idle:
  assumes inv: "service_inv s" and "\<And>rid. rid \<in> set (checkpointed (sv_engine s)) \<Longrightarrow> covered s rid"
  shows "snd (checkpoint_changed identity json_len s) = 0"
proof (cases "sv_owner s")
  case (Some owner)
  let ?ids = "checkpointed (sv_engine s)"
  let ?s = "s\<lparr>sv_persisted := filter (\<lambda>(rid, _). rid \<in> set ?ids) (sv_persisted s)\<rparr>"
  have "\<forall>rid \<in> set ?ids. covered ?s rid"
    using assms(2) by (auto simp: covered_def hm_get_retain)
  from covered_unchanged [OF _ this] show ?thesis using Some service_invD(1) [OF inv]
    by (simp add: checkpoint_changed_def Let_def)
qed (simp add: checkpoint_changed_def)

end
