(* ===== verification/Durability_Guarantees.thy ===== *)
theory Durability_Guarantees
  imports Ranking_Coverage
begin

text \<open>
  The properties of the ranking service over its whole life: any sequence of control operations, stream
  events, checkpoint passes, shutdowns, crashes and restarts, from empty tables.
\<close>

section \<open>Examples\<close>

definition demo_ids :: "nat \<Rightarrow> string option" where
  "demo_ids n = Some example_identity"

definition demo_ops :: "service_op list" where
  "demo_ops =
     [Sv_Restart (Some example_identity) demo_ids,
      Sv_Create (Some example_identity) (Some example_identity) (gift_ranking Session None)]"

definition demo_service :: service where
  "demo_service =
     \<lparr>sv_engine = gift_engine Session None, sv_owner = Some (hex_bytes example_identity), sv_persisted = [],
      sv_rankings = ranking_store_empty\<lparr>rs_definitions := [(''top'', ranking_row_of (gift_ranking Session None))],
        rs_owner := Some (hex_bytes example_identity), rs_run := Some Run_Open\<rparr>,
      sv_competitions = competition_service_default, sv_store = store_empty, sv_shutdown = False\<rparr>"

lemma demo_ids_drawn [simp]: "drawn_ok (demo_ids n)"
  by (simp add: drawn_ok_def demo_ids_def example_identity_def)

lemma demo_identity_drawn [simp]: "drawn_ok (Some example_identity)"
  by (simp add: drawn_ok_def example_identity_def)

lemma demo_ops_ok: "list_all service_op_ok demo_ops"
  by (simp add: demo_ops_def)

lemma demo_create:
  "snd (engine_create (Some example_identity) (gift_ranking Session None) engine_default) = Inr ()"
proof -
  have e0: "length (en_rankings engine_default) < 128" "en_next_instance engine_default < u64_max"
    "hm_get (en_rankings engine_default) (rd_id (gift_ranking Session None)) = None"
    by (simp_all add: engine_default_def u64_max_def)
  have "\<not> definition_invalid (gift_ranking Session None)" by (simp add: gift_ranking_valid)
  from engine_create_ok [OF demo_identity_drawn e0(1) this e0(3,2)] show ?thesis by auto
qed

lemma demo_run: "service_run lower json_len demo_ops service_new = Ret demo_service"
proof -
  have i: "competition_service_default\<lparr>cs_definitions := [], cs_index := index_default\<rparr> = competition_service_default"
    by (simp add: competition_service_default_def)
  have "service_step lower json_len (Sv_Restart (Some example_identity) demo_ids) service_new =
      Ret (service_new\<lparr>sv_owner := Some (hex_bytes example_identity),
        sv_rankings := ranking_store_empty\<lparr>rs_owner := Some (hex_bytes example_identity), rs_run := Some Run_Open\<rparr>\<rparr>)"
    using i by (simp add: service_step_def restore_service_def service_new_def claim_run_def claim_aggregation_checkpoints_def
        recovered_engine_def load_aggregation_definitions_def ranking_store_empty_def engine_default_def engine_definitions_def
        load_competition_definitions_def store_empty_def restore_competitions_def build_index_def map_values_def Let_def)
  moreover have "service_step lower json_len
      (Sv_Create (Some example_identity) (Some example_identity) (gift_ranking Session None))
      (service_new\<lparr>sv_owner := Some (hex_bytes example_identity),
        sv_rankings := ranking_store_empty\<lparr>rs_owner := Some (hex_bytes example_identity), rs_run := Some Run_Open\<rparr>\<rparr>) =
      Ret demo_service"
    using demo_create
    by (cases "engine_create (Some example_identity) (gift_ranking Session None) engine_default")
      (simp add: service_step_def ranking_create_def demo_service_def service_new_def
        insert_aggregation_definition_def insert_row_def ranking_store_empty_def engine_definitions_def gift_engine_def
        gift_ranking_def engine_default_def hm_has_def)
  ultimately show ?thesis by (simp add: demo_ops_def)
qed

lemma demo_in_history: "128 + length demo_ops \<le> u64_max"
  by (simp add: demo_ops_def u64_max_def)

lemma demo_ranking:
  "hm_get (en_rankings (sv_engine demo_service)) ''top'' = Some (gift_state Session None)"
  "\<not> has_vote_source (rk_definition (gift_state Session None))"
  "ag_revision (rk_state (gift_state Session None)) = 0"
proof -
  have "\<not> definition_invalid (gift_ranking Session None)" by (simp add: gift_ranking_valid)
  from gift_engine_rankings(1) [OF this]
  show "hm_get (en_rankings (sv_engine demo_service)) ''top'' = Some (gift_state Session None)"
    by (simp add: demo_service_def)
qed (simp_all add: gift_state_def ranking_new_def gift_ranking_def gift_rule_def has_vote_source_def aggregation_new_def)

section \<open>Every value fits its type\<close>



section \<open>What the recorded tokens promise\<close>



section \<open>A pass completes\<close>



section \<open>Shutdown and restart\<close>


lemma demo_inv: "service_inv demo_service"
  using service_history [OF demo_ops_ok demo_in_history, of "\<lambda>x. x" "\<lambda>_. 0"] demo_run by (metis run.inject)



lemma demo_restarted:
  assumes "service_step lower json_len (Sv_Restart bytes demo_ids) demo_service = Ret s'"
  shows "\<exists>r. hm_get (en_rankings (sv_engine s')) ''top'' = Some r \<and> \<not> has_vote_source (rk_definition r)"
proof -
  have "\<forall>n. drawn_ok (demo_ids n)" by simp
  from restart_step [OF demo_inv this, of lower bytes] assms
  have "rel_option (comes_back bytes (sv_rankings demo_service)) (hm_get (en_rankings (sv_engine demo_service)) ''top'')
      (hm_get (en_rankings (sv_engine s')) ''top'')"
    by (auto simp: service_step_def)
  then show ?thesis using demo_ranking(1,2) by (auto simp: option_rel_Some1 comes_back_def)
qed

section \<open>Crash and restart\<close>

text \<open>
  C12. A crash is never hidden: a restart after a run in which the application was started and never shut
  down, whatever was written in between, marks every ranking that does not count votes as degraded, with
  a positive count of rejected contributions, even when its checkpoint was read back. No ranking is lost
  and none appears.
\<close>

theorem crash_degrades_rankings:
  assumes "list_all service_op_ok (ops @ Sv_Restart (Some bytes) ids # running)" and "list_all running_op running"
    and "129 + length ops + length running \<le> u64_max" and "\<forall>n. drawn_ok (ids' n)"
  shows "\<exists>s s'. service_run lower json_len (ops @ Sv_Restart (Some bytes) ids # running) service_new = Ret s \<and>
    service_step lower json_len (Sv_Restart bytes' ids') s = Ret s' \<and>
    (\<forall>rid. hm_has (en_rankings (sv_engine s')) rid = hm_has (en_rankings (sv_engine s)) rid) \<and>
    (\<forall>rid r. hm_get (en_rankings (sv_engine s')) rid = Some r \<and> \<not> has_vote_source (rk_definition r) \<longrightarrow>
       rk_rejected r > 0 \<and> map_option sn_integrity_status (selection_snapshot rid (sv_engine s')) = Some ''degraded'')"
proof -
  let ?ops = "ops @ Sv_Restart (Some bytes) ids # running"
  have len: "128 + length ?ops \<le> u64_max" using assms(3) by simp
  obtain s where s: "service_run lower json_len ?ops service_new = Ret s" "service_inv s"
    using service_history [OF assms(1) len] .
  have run: "rs_run (sv_rankings s) = Some Run_Open" using run_open_after [OF s(1) assms(2)] .
  obtain s' where s': "service_step lower json_len (Sv_Restart bytes' ids') s = Ret s'"
    "\<forall>rid. hm_has (en_rankings (sv_engine s')) rid = hm_has (en_rankings (sv_engine s)) rid"
    "\<forall>rid r. hm_get (en_rankings (sv_engine s')) rid = Some r \<and> \<not> has_vote_source (rk_definition r) \<longrightarrow> rk_rejected r > 0"
    using crash_restart [OF s(2) run assms(4), of lower json_len bytes'] by blast
  have "map_option sn_integrity_status (selection_snapshot rid (sv_engine s')) = Some ''degraded''"
    if "hm_get (en_rankings (sv_engine s')) rid = Some r" "\<not> has_vote_source (rk_definition r)" for rid r
    using degraded_shown [of r] s'(3) that by (simp add: selection_snapshot_def)
  then show ?thesis using s(1) s' by blast
qed

theorem crash_degrades_rankings_witness:
  "\<exists>s s'. service_run (\<lambda>x. x) (\<lambda>_. 0) demo_ops service_new = Ret s \<and>
    service_step (\<lambda>x. x) (\<lambda>_. 0) (Sv_Restart None demo_ids) s = Ret s' \<and>
    map_option sn_integrity_status (selection_snapshot ''top'' (sv_engine s')) = Some ''degraded''"
proof -
  let ?create = "Sv_Create (Some example_identity) (Some example_identity) (gift_ranking Session None)"
  have ops: "[] @ Sv_Restart (Some example_identity) demo_ids # [?create] = demo_ops" by (simp add: demo_ops_def)
  have h: "list_all service_op_ok ([] @ Sv_Restart (Some example_identity) demo_ids # [?create])"
    "list_all running_op [?create]" "129 + length ([] :: service_op list) + length [?create] \<le> u64_max"
    "\<forall>n. drawn_ok (demo_ids n)"
    by (simp_all add: u64_max_def)
  obtain s s' where s: "service_run (\<lambda>x. x) (\<lambda>_. 0) demo_ops service_new = Ret s"
    "service_step (\<lambda>x. x) (\<lambda>_. 0) (Sv_Restart None demo_ids) s = Ret s'"
    "hm_has (en_rankings (sv_engine s')) ''top'' = hm_has (en_rankings (sv_engine s)) ''top''"
    "\<And>rid r. hm_get (en_rankings (sv_engine s')) rid = Some r \<and> \<not> has_vote_source (rk_definition r) \<Longrightarrow>
       map_option sn_integrity_status (selection_snapshot rid (sv_engine s')) = Some ''degraded''"
    using crash_degrades_rankings [OF h, of "\<lambda>x. x" "\<lambda>_. 0" None] unfolding ops by blast
  have "s = demo_service" using s(1) demo_run by simp
  then have "service_step (\<lambda>x. x) (\<lambda>_. 0) (Sv_Restart None demo_ids) demo_service = Ret s'"
    using s(2) by simp
  from demo_restarted [OF this] obtain r where "hm_get (en_rankings (sv_engine s')) ''top'' = Some r"
    "\<not> has_vote_source (rk_definition r)" by blast
  then show ?thesis using s(1,2) s(4) [of "''top''" r] by blast
qed

section \<open>External contributions\<close>

text \<open>
  C13. A contribution of a plugin is counted at most once: after it was admitted, another contribution
  with the same identity changes nothing at all, the tables included, whatever happened in between -
  other contributions, control operations, checkpoint passes, crashes and restarts - as long as no
  contribution in between was admitted more than seven days later.
\<close>

theorem contribution_counted_once:
  assumes "\<not> external_invalid c" and "has_source (ex_source c) (sv_engine s)"
    and "ranking_contribute at now c s = Ret (s1, Inr False)"
    and "service_run lower json_len ops s1 = Ret s2"
    and "list_all (within_week (int (min at i64_max))) ops"
    and "external_identity c' = external_identity c"
  shows "ranking_contribute at' now' c' s2 = Ret (s2,
    if external_invalid c' then Inl (Ce_Invalid ''invalid ranking contribution'')
    else if has_source (ex_source c') (sv_engine s2) then Inr True else Inr False)"
proof -
  have "hm_get (rs_external (sv_rankings s1)) (external_identity c) = Some (int (min at i64_max))"
    using admitted_contribution [OF assms(3,1,2)] .
  from run_identity_kept [OF assms(4) this assms(5)]
  have "hm_has (rs_external (sv_rankings s2)) (external_identity c')" using assms(6) by (simp add: hm_has_def)
  then show ?thesis by (simp add: ranking_contribute_def admit_external_contribution_def)
qed

definition demo_contribution :: external_contribution where
  "demo_contribution =
     \<lparr>ex_event_id = ''e1'', ex_creator_id = ''ana'', ex_room_id = ''r1'', ex_source = ''plugin.quiz'', ex_user = Some ''bob'',
      ex_label = None, ex_team = None, ex_custom_key = None, ex_option = None, ex_metrics = [(''quiz.points'', 3)]\<rparr>"

definition quiz_ranking :: ranking_definition where
  "quiz_ranking = (gift_ranking Session None)
     \<lparr>rd_sources := [\<lparr>sr_source = ''plugin.quiz'', sr_metric = ''quiz.points'', sr_weight = 2, sr_enabled = True,
        sr_gift_multipliers = []\<rparr>]\<rparr>"

definition quiz_service :: service where
  "quiz_service = demo_service\<lparr>sv_engine := fst (engine_create (Some example_identity) quiz_ranking engine_default)\<rparr>"

theorem contribution_counted_once_witness:
  "\<exists>s e fs. apply_at_with_metadata (external_event demo_contribution) 6 None None (sv_engine quiz_service) = Ret (e, fs) \<and>
    ranking_contribute 5 6 demo_contribution quiz_service = Ret (s, Inr False) \<and> sv_engine s = e \<and>
    ranking_contribute 7 8 demo_contribution s = Ret (s, Inr True)"
proof -
  have c: "\<not> external_invalid demo_contribution"
    by (simp add: external_invalid_def demo_contribution_def starts_with_def bounded_field_def)
  have by_source: "en_by_source (sv_engine quiz_service) = [(''plugin.quiz'', [''top''])]"
    by (simp add: quiz_service_def engine_create_def quiz_ranking_def gift_ranking_def definition_invalid_def
        has_vote_source_def source_rule_invalid_def engine_default_def example_identity_def hm_has_def checked_add_def u64_max_def
        index_sources_def add_source_def hm_get_or_def)
  have src: "has_source (ex_source demo_contribution) (sv_engine quiz_service)"
    by (simp add: by_source demo_contribution_def has_source_def hm_has_def)
  have small: "en_next_instance engine_default < u64_max" by (simp add: engine_default_def u64_max_def)
  have "engine_inv (sv_engine quiz_service)"
    using engine_inv_create [OF engine_inv_default small, of "Some example_identity" quiz_ranking]
    by (simp add: quiz_service_def example_identity_def)
  then obtain e fs where e: "apply_at_with_metadata (external_event demo_contribution) 6 None None (sv_engine quiz_service) = Ret (e, fs)"
    using engine_inv_apply by blast
  let ?s1 = "quiz_service\<lparr>sv_rankings := (sv_rankings quiz_service)\<lparr>rs_external := [(''plugin.quiz:e1'', 5)]\<rparr>, sv_engine := e\<rparr>"
  have first_one: "ranking_contribute 5 6 demo_contribution quiz_service = Ret (?s1, Inr False)"
    using c src e
    by (simp add: ranking_contribute_def admit_external_contribution_def external_identity_def hm_has_def Let_def i64_max_def)
      (simp add: demo_contribution_def quiz_service_def demo_service_def ranking_store_empty_def)
  have "en_by_source e = en_by_source (sv_engine quiz_service)"
    using e by (auto simp: apply_at_with_metadata_def split: option.splits run.splits)
  then have again: "has_source (ex_source demo_contribution) (sv_engine ?s1)" using src by (simp add: has_source_def)
  have "ranking_contribute 7 8 demo_contribution ?s1 = Ret (?s1, Inr True)"
    using contribution_counted_once [OF c src first_one, of "\<lambda>x. x" "\<lambda>_. 0" "[]" ?s1 demo_contribution 7 8] c again by simp
  then show ?thesis using e first_one by (intro exI [of _ ?s1] exI [of _ e] exI [of _ fs]) simp
qed

end
