(* ===== verification/Live_Ingress.thy ===== *)
theory Live_Ingress
  imports Live_Session
begin

text \<open>
  The staged LIVE ingestion (\<open>live_events/ingress.rs\<close>, \<open>live_events/pump.rs\<close>): the pump that receives
  and admits, the bounded queue, the ordered worker, its queue of persistence effects, and the ladder
  that stops them. The tasks run concurrently; a step here is what one task does between two points
  where another can interfere. The gauge \<open>queued\<close> is written by the pump and by the worker, so its
  updates are steps of their own; the other counters have one writer.

  The effect of a message on the host is that of \<open>Live_Admission\<close>. Routing to competitions and the
  application of an effect are the places where a task waits; what they, the control surface and the
  deadline worker do to the host meanwhile is a step of the environment, of which only the invariant of
  the host is used. The three presentation counters that \<open>prepare_live_event\<close> moves are left alone.
\<close>

section \<open>Counters\<close>

definition wrapping_add :: "u64 \<Rightarrow> u64 \<Rightarrow> u64" where
  "wrapping_add n k = (n + k) mod (u64_max + 1)"

definition wrapping_dec :: "u64 \<Rightarrow> u64" where
  "wrapping_dec n = (n + u64_max) mod (u64_max + 1)"

lemma wrapping_inc_small: "n < u64_max \<Longrightarrow> wrapping_inc n = n + 1"
  by (simp add: wrapping_inc_def)

lemma wrapping_add_small: "n + k \<le> u64_max \<Longrightarrow> wrapping_add n k = n + k"
  by (simp add: wrapping_add_def)

lemma wrapping_dec_small: "0 < n \<Longrightarrow> n \<le> u64_max \<Longrightarrow> wrapping_dec n = n - 1"
proof -
  assume n: "0 < n" "n \<le> u64_max"
  have "n + u64_max = (n - 1) + (u64_max + 1)" using n(1) by simp
  then have "wrapping_dec n = (n - 1) mod (u64_max + 1)" unfolding wrapping_dec_def by (simp only: mod_add_self2)
  also have "\<dots> = n - 1" using n(2) by (intro mod_less) simp
  finally show ?thesis .
qed

datatype ingress_lifecycle = Running | StoppingAdmission | Draining | Stopped

text \<open>The order of the representation: \<open>fetch_max\<close> on the code of the state.\<close>

fun lifecycle_code :: "ingress_lifecycle \<Rightarrow> nat" where
  "lifecycle_code Running = 0"
| "lifecycle_code StoppingAdmission = 1"
| "lifecycle_code Draining = 2"
| "lifecycle_code Stopped = 3"

lemma lifecycle_code_inj: "lifecycle_code a = lifecycle_code b \<longleftrightarrow> a = b"
  by (cases a; cases b) simp_all

instantiation ingress_lifecycle :: linorder
begin

definition less_eq_ingress_lifecycle :: "ingress_lifecycle \<Rightarrow> ingress_lifecycle \<Rightarrow> bool" where
  "a \<le> b \<longleftrightarrow> lifecycle_code a \<le> lifecycle_code b"

definition less_ingress_lifecycle :: "ingress_lifecycle \<Rightarrow> ingress_lifecycle \<Rightarrow> bool" where
  "a < b \<longleftrightarrow> lifecycle_code a < lifecycle_code b"

instance
  by standard (auto simp: less_eq_ingress_lifecycle_def less_ingress_lifecycle_def lifecycle_code_inj)

end

record ingress_stats =
  ig_accepted :: u64
  ig_received :: u64
  ig_decoded :: u64
  ig_effects_queued :: u64
  ig_effects_dropped :: u64
  ig_effects_rejected :: u64
  ig_effects_cancelled :: u64
  ig_effects_abandoned :: u64
  ig_effects_processed :: u64
  ig_effects_in_flight :: u64
  ig_ui_published :: u64
  ig_ui_gifts :: u64
  ig_gifts_without_artwork :: u64
  ig_processed :: u64
  ig_dropped_data :: u64
  ig_dropped_like_batches :: u64
  ig_dropped_like_units :: u64
  ig_dropped_critical :: u64
  ig_lagged :: u64
  ig_stale :: u64
  ig_queued :: u64
  ig_in_flight :: u64
  ig_cancelled :: u64
  ig_abandoned :: u64
  ig_admission_cancelled :: u64
  ig_latency_sum_ms :: u64
  ig_samples :: u64
  ig_lifecycle :: ingress_lifecycle
  ig_last_overload_warn_at :: u64

definition stats_default :: ingress_stats where
  "stats_default =
     \<lparr>ig_accepted = 0, ig_received = 0, ig_decoded = 0, ig_effects_queued = 0, ig_effects_dropped = 0,
      ig_effects_rejected = 0, ig_effects_cancelled = 0, ig_effects_abandoned = 0, ig_effects_processed = 0,
      ig_effects_in_flight = 0, ig_ui_published = 0, ig_ui_gifts = 0, ig_gifts_without_artwork = 0,
      ig_processed = 0, ig_dropped_data = 0, ig_dropped_like_batches = 0, ig_dropped_like_units = 0,
      ig_dropped_critical = 0, ig_lagged = 0, ig_stale = 0, ig_queued = 0, ig_in_flight = 0, ig_cancelled = 0,
      ig_abandoned = 0, ig_admission_cancelled = 0, ig_latency_sum_ms = 0, ig_samples = 0,
      ig_lifecycle = Running, ig_last_overload_warn_at = 0\<rparr>"

definition advance_lifecycle :: "ingress_lifecycle \<Rightarrow> ingress_stats \<Rightarrow> ingress_stats" where
  "advance_lifecycle to st = st\<lparr>ig_lifecycle := max (ig_lifecycle st) to\<rparr>"

text \<open>\<open>as i64\<close> and the subtraction wrap.\<close>

definition wrap_i64 :: "int \<Rightarrow> int" where
  "wrap_i64 x = (x + (int i64_max + 1)) mod (2 * (int i64_max + 1)) - (int i64_max + 1)"

definition outstanding :: "ingress_stats \<Rightarrow> int" where
  "outstanding st =
     (let accounted = saturating_add (saturating_add (saturating_add (ig_processed st) (ig_stale st)) (ig_cancelled st))
            (ig_abandoned st)
      in wrap_i64 (wrap_i64 (int (ig_accepted st)) - wrap_i64 (int accounted)))"

definition abandon_outstanding :: "ingress_stats \<Rightarrow> ingress_stats" where
  "abandon_outstanding st =
     (let in_flight = ig_in_flight st;
          st1 = st\<lparr>ig_in_flight := 0\<rparr>;
          missing = nat (max (outstanding st1) 0);
          queued = missing - in_flight
      in st1\<lparr>ig_cancelled := wrapping_add (ig_cancelled st1) queued,
             ig_abandoned := wrapping_add (ig_abandoned st1) (missing - queued), ig_queued := 0\<rparr>)"

text \<open>Only the pump warns, so its exchange always finds the value it read.\<close>

definition note_overload :: "u64 \<Rightarrow> ingress_stats \<Rightarrow> ingress_stats" where
  "note_overload now st =
     (if ig_last_overload_warn_at st \<noteq> 0 \<and> now - ig_last_overload_warn_at st < 1000 then st
      else st\<lparr>ig_last_overload_warn_at := now\<rparr>)"

section \<open>Events\<close>

datatype client_event =
    Cl_Connected string string
  | Cl_Reconnecting
  | Cl_Disconnected
  | Cl_Error
  | Cl_Event live_event

record ingress_item =
  ii_generation :: u64
  ii_event :: client_event

datatype data_class = Critical | Sheddable

definition classify_data_event :: "live_api \<Rightarrow> live_event \<Rightarrow> data_class" where
  "classify_data_event api e =
     (case le_base e of
        Gift _ \<Rightarrow> Critical
      | Social _ action \<Rightarrow> (if la_classify api action \<in> {Follow, Share} then Critical else Sheddable)
      | _ \<Rightarrow> Sheddable)"

fun is_data :: "client_event \<Rightarrow> bool" where
  "is_data (Cl_Event _) \<longleftrightarrow> True"
| "is_data _ \<longleftrightarrow> False"

fun is_connected :: "client_event \<Rightarrow> bool" where
  "is_connected (Cl_Connected _ _) \<longleftrightarrow> True"
| "is_connected _ \<longleftrightarrow> False"

fun is_critical :: "live_api \<Rightarrow> client_event \<Rightarrow> bool" where
  "is_critical api (Cl_Event e) \<longleftrightarrow> classify_data_event api e = Critical"
| "is_critical api _ \<longleftrightarrow> False"

section \<open>Tasks\<close>

text \<open>The pump: receiving, admitting, waiting for a slot, holding a slot, and accounted but not yet sent.\<close>

datatype pump_state =
    Pump_Idle
  | Pump_Received ingress_item
  | Pump_Admitting ingress_item
  | Pump_Waiting ingress_item
  | Pump_Reserved ingress_item
  | Pump_Counted ingress_item
  | Pump_Exited

type_synonym live_effect = "live_event \<times> totals_value"

text \<open>
  The dispatching half of the worker: waiting for an item, having taken one, holding it, processing it,
  routing its effect to the competitions, releasing what is left, and returned. \<open>Worker_Finished\<close> is the
  whole task, \<open>Worker_Aborted\<close> the task cut off by the ladder.
\<close>

datatype worker_state =
    Worker_Idle
  | Worker_Taken ingress_item
  | Worker_Holding ingress_item
  | Worker_Busy ingress_item
  | Worker_Routing ingress_item live_effect
  | Worker_Closing
  | Worker_Done
  | Worker_Finished
  | Worker_Aborted

datatype persist_state = Persist_Idle | Persist_Busy live_effect | Persist_Closing | Persist_Done

text \<open>\<open>stop_live_ingress\<close>: not called, waiting for the pump, draining, emergency stop, returned.\<close>

datatype ladder_state = Ladder_Off | Ladder_Pump | Ladder_Drain | Ladder_Stop | Ladder_Done

record pipeline =
  pl_stats :: ingress_stats
  pl_pump :: pump_state
  pl_queue :: "ingress_item list"
  pl_open :: bool
  pl_worker :: worker_state
  pl_effects :: "live_effect list"
  pl_effects_open :: bool
  pl_persist :: persist_state
  pl_admission_closed :: bool
  pl_emergency :: bool
  pl_sequence :: u64
  pl_generation :: u64
  pl_host :: live_host
  pl_ladder :: ladder_state
  pl_update_safe :: bool

definition pipeline_new :: "live_host \<Rightarrow> u64 \<Rightarrow> u64 \<Rightarrow> pipeline" where
  "pipeline_new h sequence generation =
     \<lparr>pl_stats = stats_default, pl_pump = Pump_Idle, pl_queue = [], pl_open = True, pl_worker = Worker_Idle,
      pl_effects = [], pl_effects_open = True, pl_persist = Persist_Idle, pl_admission_closed = False,
      pl_emergency = False, pl_sequence = sequence, pl_generation = generation, pl_host = h,
      pl_ladder = Ladder_Off, pl_update_safe = True\<rparr>"

definition queue_capacity :: nat where
  "queue_capacity = 2048"

definition effects_capacity :: nat where
  "effects_capacity = 128"

section \<open>The pump\<close>

text \<open>The labels record what happened to an item; they are not part of the program.\<close>

datatype label =
    Tau
  | Sent ingress_item
  | Taken ingress_item
  | Fenced ingress_item
  | Processed ingress_item
  | Released ingress_item

definition note_received :: "ingress_item \<Rightarrow> ingress_stats \<Rightarrow> ingress_stats" where
  "note_received i st = st\<lparr>ig_received := wrapping_inc (ig_received st),
     ig_decoded := (if is_data (ii_event i) then wrapping_inc (ig_decoded st) else ig_decoded st)\<rparr>"

text \<open>The loop of the pump: an item, a lag report, or the end. Cancellation is polled first.\<close>

inductive pump_loop :: "pipeline \<Rightarrow> label \<Rightarrow> pipeline \<Rightarrow> bool" where
  pump_receive: "pl_pump s = Pump_Idle \<Longrightarrow> \<not> pl_admission_closed s \<Longrightarrow>
     pump_loop s Tau (s\<lparr>pl_pump := Pump_Received i, pl_stats := note_received i (pl_stats s)\<rparr>)"
| pump_lagged: "pl_pump s = Pump_Idle \<Longrightarrow> \<not> pl_admission_closed s \<Longrightarrow>
     pump_loop s Tau (s\<lparr>pl_stats := (pl_stats s)\<lparr>ig_lagged := wrapping_inc (ig_lagged (pl_stats s))\<rparr>,
       pl_host := receiver_lagged millis n (pl_host s)\<rparr>)"
| pump_exit: "pl_pump s = Pump_Idle \<Longrightarrow> pump_loop s Tau (s\<lparr>pl_pump := Pump_Exited\<rparr>)"

definition admission_cancelled :: "pipeline \<Rightarrow> pipeline" where
  "admission_cancelled s = s\<lparr>pl_pump := Pump_Idle,
     pl_stats := (pl_stats s)\<lparr>ig_admission_cancelled := wrapping_inc (ig_admission_cancelled (pl_stats s))\<rparr>\<rparr>"

text \<open>\<open>admit_full\<close> for an event that may be shed.\<close>

definition shed_data :: "u64 \<Rightarrow> live_event \<Rightarrow> pipeline \<Rightarrow> pipeline" where
  "shed_data millis e s =
     (let st = pl_stats s;
          st1 = (case le_base e of
                   Like l \<Rightarrow> st\<lparr>ig_dropped_like_batches := wrapping_inc (ig_dropped_like_batches st),
                     ig_dropped_like_units := wrapping_add (ig_dropped_like_units st) (lv_count l)\<rparr>
                 | _ \<Rightarrow> st)
      in s\<lparr>pl_pump := Pump_Idle, pl_host := shed_event millis e (pl_host s),
           pl_stats := note_overload millis (st1\<lparr>ig_dropped_data := wrapping_inc (ig_dropped_data st1)\<rparr>)\<rparr>)"

definition drop_critical :: "u64 \<Rightarrow> pipeline \<Rightarrow> pipeline" where
  "drop_critical millis s =
     (let st = pl_stats s; h = pl_host s
      in s\<lparr>pl_pump := Pump_Idle,
           pl_host := record_event_gap millis (h\<lparr>lh_engine := mark_ingress_loss 1 (lh_engine h)\<rparr>),
           pl_stats := note_overload millis (st\<lparr>ig_dropped_critical := wrapping_inc (ig_dropped_critical st)\<rparr>)\<rparr>)"

text \<open>The first half of \<open>publish_reserved\<close>; the second sends.\<close>

definition account_reserved :: "ingress_stats \<Rightarrow> ingress_stats" where
  "account_reserved st = st\<lparr>ig_accepted := wrapping_inc (ig_accepted st), ig_queued := wrapping_inc (ig_queued st)\<rparr>"

inductive admit_step :: "live_api \<Rightarrow> pipeline \<Rightarrow> label \<Rightarrow> pipeline \<Rightarrow> bool" for api where
  admit_refused: "pl_pump s = Pump_Received i \<Longrightarrow> pl_admission_closed s \<Longrightarrow> admit_step api s Tau (admission_cancelled s)"
| admit_begin: "pl_pump s = Pump_Received i \<Longrightarrow> \<not> pl_admission_closed s \<Longrightarrow>
     admit_step api s Tau (s\<lparr>pl_pump := Pump_Admitting i\<rparr>)"
| admit_transition: "pl_pump s = Pump_Admitting i \<Longrightarrow> \<not> is_data (ii_event i) \<Longrightarrow>
     admit_step api s Tau (s\<lparr>pl_pump := Pump_Waiting i\<rparr>)"
| admit_fast: "pl_pump s = Pump_Admitting i \<Longrightarrow> is_data (ii_event i) \<Longrightarrow> pl_open s \<Longrightarrow>
     length (pl_queue s) < queue_capacity \<Longrightarrow> admit_step api s Tau (s\<lparr>pl_pump := Pump_Reserved i\<rparr>)"
| admit_closed: "pl_pump s = Pump_Admitting i \<Longrightarrow> is_data (ii_event i) \<Longrightarrow> \<not> pl_open s \<Longrightarrow>
     admit_step api s Tau (s\<lparr>pl_pump := Pump_Idle\<rparr>)"
| admit_full_critical: "pl_pump s = Pump_Admitting i \<Longrightarrow> is_critical api (ii_event i) \<Longrightarrow> pl_open s \<Longrightarrow>
     \<not> length (pl_queue s) < queue_capacity \<Longrightarrow> admit_step api s Tau (s\<lparr>pl_pump := Pump_Waiting i\<rparr>)"
| admit_full_shed: "pl_pump s = Pump_Admitting i \<Longrightarrow> ii_event i = Cl_Event e \<Longrightarrow> \<not> is_critical api (ii_event i) \<Longrightarrow>
     pl_open s \<Longrightarrow> \<not> length (pl_queue s) < queue_capacity \<Longrightarrow> admit_step api s Tau (shed_data millis e s)"
| wait_cancelled: "pl_pump s = Pump_Waiting i \<Longrightarrow> pl_admission_closed s \<Longrightarrow> admit_step api s Tau (admission_cancelled s)"
| wait_reserved: "pl_pump s = Pump_Waiting i \<Longrightarrow> \<not> pl_admission_closed s \<Longrightarrow> pl_open s \<Longrightarrow>
     length (pl_queue s) < queue_capacity \<Longrightarrow> admit_step api s Tau (s\<lparr>pl_pump := Pump_Reserved i\<rparr>)"
| wait_closed: "pl_pump s = Pump_Waiting i \<Longrightarrow> \<not> pl_admission_closed s \<Longrightarrow> \<not> pl_open s \<Longrightarrow>
     admit_step api s Tau (s\<lparr>pl_pump := Pump_Idle\<rparr>)"
| wait_timeout: "pl_pump s = Pump_Waiting i \<Longrightarrow> \<not> pl_admission_closed s \<Longrightarrow> is_data (ii_event i) \<Longrightarrow>
     admit_step api s Tau (drop_critical millis s)"
| publish_account: "pl_pump s = Pump_Reserved i \<Longrightarrow>
     admit_step api s Tau (s\<lparr>pl_pump := Pump_Counted i, pl_stats := account_reserved (pl_stats s)\<rparr>)"
| publish_send: "pl_pump s = Pump_Counted i \<Longrightarrow>
     admit_step api s (Sent i) (s\<lparr>pl_pump := Pump_Idle, pl_queue := pl_queue s @ [i]\<rparr>)"

section \<open>The worker\<close>

definition take_item :: "ingress_stats \<Rightarrow> ingress_stats" where
  "take_item st = st\<lparr>ig_queued := wrapping_dec (ig_queued st), ig_in_flight := wrapping_inc (ig_in_flight st)\<rparr>"

definition fence_item :: "ingress_stats \<Rightarrow> ingress_stats" where
  "fence_item st = st\<lparr>ig_in_flight := wrapping_dec (ig_in_flight st), ig_stale := wrapping_inc (ig_stale st)\<rparr>"

definition finish_item :: "u64 \<Rightarrow> ingress_stats \<Rightarrow> ingress_stats" where
  "finish_item elapsed st = st\<lparr>ig_in_flight := wrapping_dec (ig_in_flight st), ig_processed := wrapping_inc (ig_processed st),
     ig_samples := wrapping_inc (ig_samples st), ig_latency_sum_ms := wrapping_add (ig_latency_sum_ms st) elapsed\<rparr>"

definition release_item :: "ingress_stats \<Rightarrow> ingress_stats" where
  "release_item st = st\<lparr>ig_queued := wrapping_dec (ig_queued st), ig_cancelled := wrapping_inc (ig_cancelled st)\<rparr>"

definition reject_effect :: "ingress_stats \<Rightarrow> ingress_stats" where
  "reject_effect st = st\<lparr>ig_effects_rejected := wrapping_inc (ig_effects_rejected st),
     ig_effects_dropped := wrapping_inc (ig_effects_dropped st)\<rparr>"

text \<open>A newer connection fences the item.\<close>

definition fenced :: "ingress_item \<Rightarrow> pipeline \<Rightarrow> bool" where
  "fenced i s \<longleftrightarrow> ii_generation i < max (pl_generation s) (pl_sequence s)"

text \<open>
  \<open>handle_native_event\<close>, as far as the modelled host goes: \<open>publish_disconnected_event\<close> takes the context,
  and the new one is set unless yet another connection was made meanwhile.
\<close>

definition native_event :: "bool \<Rightarrow> u64 \<Rightarrow> client_event \<Rightarrow> live_host \<Rightarrow> live_host" where
  "native_event same sequence event h =
     (case event of
        Cl_Connected unique_id room_id \<Rightarrow>
          (let h1 = h\<lparr>lh_context := None\<rparr> in
           if same
           then handle_connected \<lparr>lc_unique_id = unique_id, lc_room_id = room_id,
                  lc_connection_id = ''connection-'' @ to_string sequence\<rparr> h1
           else h1)
      | Cl_Disconnected \<Rightarrow> h\<lparr>lh_context := None\<rparr>
      | _ \<Rightarrow> h)"

definition finish_worker :: "u64 \<Rightarrow> pipeline \<Rightarrow> pipeline" where
  "finish_worker elapsed s = s\<lparr>pl_worker := Worker_Idle, pl_stats := finish_item elapsed (pl_stats s)\<rparr>"

inductive dispatch_step :: "live_api \<Rightarrow> pipeline \<Rightarrow> label \<Rightarrow> pipeline \<Rightarrow> bool" for api where
  worker_take: "pl_worker s = Worker_Idle \<Longrightarrow> \<not> pl_emergency s \<Longrightarrow> pl_queue s = i # q \<Longrightarrow>
     dispatch_step api s (Taken i) (s\<lparr>pl_worker := Worker_Taken i, pl_queue := q\<rparr>)"
| worker_hold: "pl_worker s = Worker_Taken i \<Longrightarrow>
     dispatch_step api s Tau (s\<lparr>pl_worker := Worker_Holding i, pl_stats := take_item (pl_stats s)\<rparr>)"
| worker_fence: "pl_worker s = Worker_Holding i \<Longrightarrow> fenced i s \<Longrightarrow>
     dispatch_step api s (Fenced i) (s\<lparr>pl_worker := Worker_Idle, pl_stats := fence_item (pl_stats s)\<rparr>)"
| worker_pass: "pl_worker s = Worker_Holding i \<Longrightarrow> \<not> fenced i s \<Longrightarrow>
     dispatch_step api s Tau (s\<lparr>pl_worker := Worker_Busy i,
       pl_sequence := (if is_connected (ii_event i) then ii_generation i else pl_sequence s)\<rparr>)"
| worker_native: "pl_worker s = Worker_Busy i \<Longrightarrow> \<not> is_data (ii_event i) \<Longrightarrow>
     dispatch_step api s (Processed i)
       (finish_worker elapsed (s\<lparr>pl_host := native_event same (pl_sequence s) (ii_event i) (pl_host s)\<rparr>))"
| worker_repeated: "pl_worker s = Worker_Busy i \<Longrightarrow> ii_event i = Cl_Event e \<Longrightarrow>
     prepare_live_event api now millis e (pl_host s) = Ret (None, h) \<Longrightarrow>
     dispatch_step api s (Processed i) (finish_worker elapsed (s\<lparr>pl_host := h\<rparr>))"
| worker_prepared: "pl_worker s = Worker_Busy i \<Longrightarrow> ii_event i = Cl_Event e \<Longrightarrow>
     prepare_live_event api now millis e (pl_host s) = Ret (Some v, h) \<Longrightarrow>
     dispatch_step api s Tau (s\<lparr>pl_worker := Worker_Routing i (e, v), pl_host := h\<rparr>)"
| worker_queue_effect: "pl_worker s = Worker_Routing i x \<Longrightarrow> pl_effects_open s \<Longrightarrow>
     length (pl_effects s) < effects_capacity \<Longrightarrow>
     dispatch_step api s (Processed i)
       (finish_worker elapsed (s\<lparr>pl_effects := pl_effects s @ [x],
          pl_stats := (pl_stats s)\<lparr>ig_effects_queued := wrapping_inc (ig_effects_queued (pl_stats s))\<rparr>\<rparr>))"
| worker_reject_effect: "pl_worker s = Worker_Routing i x \<Longrightarrow>
     \<not> (pl_effects_open s \<and> length (pl_effects s) < effects_capacity) \<Longrightarrow>
     dispatch_step api s (Processed i)
       (finish_worker elapsed (s\<lparr>pl_stats := reject_effect (pl_stats s), pl_host := record_event_gap millis (pl_host s)\<rparr>))"
| worker_close: "pl_worker s = Worker_Idle \<Longrightarrow> pl_emergency s \<or> pl_queue s = [] \<and> pl_pump s = Pump_Exited \<Longrightarrow>
     dispatch_step api s Tau (s\<lparr>pl_worker := Worker_Closing, pl_open := False,
       pl_stats := advance_lifecycle Draining (pl_stats s)\<rparr>)"
| worker_release: "pl_worker s = Worker_Closing \<Longrightarrow> pl_queue s = i # q \<Longrightarrow>
     dispatch_step api s (Released i) (s\<lparr>pl_queue := q, pl_stats := release_item (pl_stats s)\<rparr>)"
| worker_done: "pl_worker s = Worker_Closing \<Longrightarrow> pl_queue s = [] \<Longrightarrow>
     dispatch_step api s Tau (s\<lparr>pl_worker := Worker_Done\<rparr>)"

section \<open>The effects\<close>

definition take_effect :: "ingress_stats \<Rightarrow> ingress_stats" where
  "take_effect st = st\<lparr>ig_effects_queued := wrapping_dec (ig_effects_queued st),
     ig_effects_in_flight := wrapping_inc (ig_effects_in_flight st)\<rparr>"

definition applied_effect :: "ingress_stats \<Rightarrow> ingress_stats" where
  "applied_effect st = st\<lparr>ig_effects_processed := wrapping_inc (ig_effects_processed st),
     ig_effects_in_flight := wrapping_dec (ig_effects_in_flight st)\<rparr>"

definition cancel_effect :: "ingress_stats \<Rightarrow> ingress_stats" where
  "cancel_effect st = st\<lparr>ig_effects_queued := wrapping_dec (ig_effects_queued st),
     ig_effects_dropped := wrapping_inc (ig_effects_dropped st),
     ig_effects_cancelled := wrapping_inc (ig_effects_cancelled st)\<rparr>"

text \<open>The two guards, when they are dropped; an \<open>EffectGuard\<close> that completed only lowers the gauge.\<close>

definition drop_pending_guard :: "ingress_stats \<Rightarrow> ingress_stats" where
  "drop_pending_guard st =
     (let queued = ig_effects_queued st; st1 = st\<lparr>ig_effects_queued := 0\<rparr>
      in if queued > 0
         then st1\<lparr>ig_effects_dropped := wrapping_add (ig_effects_dropped st1) queued,
                ig_effects_cancelled := wrapping_add (ig_effects_cancelled st1) queued\<rparr>
         else st1)"

definition drop_effect_guard :: "ingress_stats \<Rightarrow> ingress_stats" where
  "drop_effect_guard st = st\<lparr>ig_effects_in_flight := wrapping_dec (ig_effects_in_flight st),
     ig_effects_dropped := wrapping_inc (ig_effects_dropped st),
     ig_effects_abandoned := wrapping_inc (ig_effects_abandoned st)\<rparr>"

inductive persist_step :: "pipeline \<Rightarrow> label \<Rightarrow> pipeline \<Rightarrow> bool" where
  persist_take: "pl_persist s = Persist_Idle \<Longrightarrow> \<not> pl_emergency s \<Longrightarrow> pl_effects s = x # xs \<Longrightarrow>
     persist_step s Tau (s\<lparr>pl_persist := Persist_Busy x, pl_effects := xs, pl_stats := take_effect (pl_stats s)\<rparr>)"
| persist_apply: "pl_persist s = Persist_Busy x \<Longrightarrow>
     persist_step s Tau (s\<lparr>pl_persist := Persist_Idle, pl_stats := applied_effect (pl_stats s)\<rparr>)"
| persist_close: "pl_persist s = Persist_Idle \<Longrightarrow> pl_emergency s \<or> pl_effects s = [] \<and> pl_worker s = Worker_Done \<Longrightarrow>
     persist_step s Tau (s\<lparr>pl_persist := Persist_Closing, pl_effects_open := False\<rparr>)"
| persist_release: "pl_persist s = Persist_Closing \<Longrightarrow> pl_effects s = x # xs \<Longrightarrow>
     persist_step s Tau (s\<lparr>pl_effects := xs, pl_stats := cancel_effect (pl_stats s),
       pl_host := record_event_gap millis (pl_host s)\<rparr>)"
| persist_done: "pl_persist s = Persist_Closing \<Longrightarrow> pl_effects s = [] \<Longrightarrow>
     persist_step s Tau (s\<lparr>pl_persist := Persist_Done, pl_stats := drop_pending_guard (pl_stats s)\<rparr>)"
| worker_finish: "pl_persist s = Persist_Done \<Longrightarrow> pl_worker s = Worker_Done \<Longrightarrow>
     persist_step s Tau (s\<lparr>pl_worker := Worker_Finished, pl_stats := advance_lifecycle Stopped (pl_stats s)\<rparr>)"

section \<open>The shutdown ladder\<close>

text \<open>A deadline may expire at any time. A task can be aborted only where it waits.\<close>

fun pump_waits :: "pump_state \<Rightarrow> bool" where
  "pump_waits Pump_Idle \<longleftrightarrow> True"
| "pump_waits (Pump_Waiting _) \<longleftrightarrow> True"
| "pump_waits _ \<longleftrightarrow> False"

fun worker_waits :: "worker_state \<Rightarrow> bool" where
  "worker_waits Worker_Idle \<longleftrightarrow> True"
| "worker_waits (Worker_Busy i) \<longleftrightarrow> \<not> is_data (ii_event i)"
| "worker_waits (Worker_Routing _ _) \<longleftrightarrow> True"
| "worker_waits Worker_Done \<longleftrightarrow> True"
| "worker_waits _ \<longleftrightarrow> False"

definition drop_guards :: "persist_state \<Rightarrow> ingress_stats \<Rightarrow> ingress_stats" where
  "drop_guards p st =
     (case p of
        Persist_Done \<Rightarrow> st
      | Persist_Busy _ \<Rightarrow> drop_pending_guard (drop_effect_guard st)
      | _ \<Rightarrow> drop_pending_guard st)"

definition abort_worker :: "pipeline \<Rightarrow> pipeline" where
  "abort_worker s = s\<lparr>pl_worker := Worker_Aborted, pl_persist := Persist_Done, pl_queue := [], pl_open := False,
     pl_effects := [], pl_effects_open := False, pl_ladder := Ladder_Done,
     pl_stats := advance_lifecycle Stopped (abandon_outstanding (drop_guards (pl_persist s) (pl_stats s)))\<rparr>"

inductive ladder_step :: "pipeline \<Rightarrow> label \<Rightarrow> pipeline \<Rightarrow> bool" where
  ladder_begin: "pl_ladder s = Ladder_Off \<Longrightarrow>
     ladder_step s Tau (s\<lparr>pl_ladder := Ladder_Pump, pl_admission_closed := True,
       pl_stats := advance_lifecycle StoppingAdmission (pl_stats s)\<rparr>)"
| ladder_pump_joined: "pl_ladder s = Ladder_Pump \<Longrightarrow> pl_pump s = Pump_Exited \<Longrightarrow>
     ladder_step s Tau (s\<lparr>pl_ladder := Ladder_Drain, pl_stats := advance_lifecycle Draining (pl_stats s)\<rparr>)"
| ladder_pump_aborted: "pl_ladder s = Ladder_Pump \<Longrightarrow> pump_waits (pl_pump s) \<Longrightarrow>
     ladder_step s Tau (s\<lparr>pl_ladder := Ladder_Drain, pl_pump := Pump_Exited, pl_update_safe := False,
       pl_stats := advance_lifecycle Draining (pl_stats s)\<rparr>)"
| ladder_drained: "pl_ladder s = Ladder_Drain \<Longrightarrow> pl_worker s = Worker_Finished \<Longrightarrow>
     ladder_step s Tau (s\<lparr>pl_ladder := Ladder_Done, pl_stats := advance_lifecycle Stopped (pl_stats s)\<rparr>)"
| ladder_emergency: "pl_ladder s = Ladder_Drain \<Longrightarrow> pl_worker s \<noteq> Worker_Finished \<Longrightarrow>
     ladder_step s Tau (s\<lparr>pl_ladder := Ladder_Stop, pl_emergency := True, pl_update_safe := False\<rparr>)"
| ladder_stopped: "pl_ladder s = Ladder_Stop \<Longrightarrow> pl_worker s = Worker_Finished \<Longrightarrow>
     ladder_step s Tau (s\<lparr>pl_ladder := Ladder_Done, pl_stats := advance_lifecycle Stopped (pl_stats s)\<rparr>)"
| ladder_abort: "pl_ladder s = Ladder_Stop \<Longrightarrow> worker_waits (pl_worker s) \<Longrightarrow> pl_persist s \<noteq> Persist_Closing \<Longrightarrow>
     ladder_step s Tau (abort_worker s)"

section \<open>The pipeline\<close>

text \<open>
  The tasks interleave. At any time the transport may open a new connection, and another part of the
  program may change the host.
\<close>

inductive pl_step :: "live_api \<Rightarrow> pipeline \<Rightarrow> label \<Rightarrow> pipeline \<Rightarrow> bool" for api where
  by_pump: "pump_loop s l s' \<Longrightarrow> pl_step api s l s'"
| by_admission: "admit_step api s l s' \<Longrightarrow> pl_step api s l s'"
| by_dispatch: "dispatch_step api s l s' \<Longrightarrow> pl_step api s l s'"
| by_persist: "persist_step s l s' \<Longrightarrow> pl_step api s l s'"
| by_ladder: "ladder_step s l s' \<Longrightarrow> pl_step api s l s'"
| by_environment: "host_inv h \<Longrightarrow> pl_step api s Tau (s\<lparr>pl_generation := g, pl_host := h\<rparr>)"

inductive pl_reach :: "live_api \<Rightarrow> pipeline \<Rightarrow> label list \<Rightarrow> pipeline \<Rightarrow> bool" for api and s0 where
  reach_start: "pl_reach api s0 [] s0"
| reach_step: "pl_reach api s0 tr s \<Longrightarrow> pl_step api s l s' \<Longrightarrow> pl_reach api s0 (tr @ [l]) s'"

section \<open>Where the tasks are\<close>

fun pump_holds :: "pump_state \<Rightarrow> nat" where
  "pump_holds (Pump_Received _) = 1"
| "pump_holds (Pump_Admitting _) = 1"
| "pump_holds (Pump_Waiting _) = 1"
| "pump_holds (Pump_Reserved _) = 1"
| "pump_holds _ = 0"

fun pump_slot :: "pump_state \<Rightarrow> nat" where
  "pump_slot (Pump_Reserved _) = 1"
| "pump_slot (Pump_Counted _) = 1"
| "pump_slot _ = 0"

fun pump_counted :: "pump_state \<Rightarrow> nat" where
  "pump_counted (Pump_Counted _) = 1"
| "pump_counted _ = 0"

fun worker_taken :: "worker_state \<Rightarrow> nat" where
  "worker_taken (Worker_Taken _) = 1"
| "worker_taken _ = 0"

fun worker_holds :: "worker_state \<Rightarrow> nat" where
  "worker_holds (Worker_Holding _) = 1"
| "worker_holds (Worker_Busy _) = 1"
| "worker_holds (Worker_Routing _ _) = 1"
| "worker_holds _ = 0"

fun worker_left :: "worker_state \<Rightarrow> bool" where
  "worker_left Worker_Closing \<longleftrightarrow> True"
| "worker_left Worker_Done \<longleftrightarrow> True"
| "worker_left Worker_Finished \<longleftrightarrow> True"
| "worker_left Worker_Aborted \<longleftrightarrow> True"
| "worker_left _ \<longleftrightarrow> False"

fun persist_holds :: "persist_state \<Rightarrow> nat" where
  "persist_holds (Persist_Busy _) = 1"
| "persist_holds _ = 0"

text \<open>The invariant of the control flow.\<close>

definition control_inv :: "pipeline \<Rightarrow> bool" where
  "control_inv s \<longleftrightarrow>
     (pl_open s \<longleftrightarrow> \<not> worker_left (pl_worker s)) \<and>
     (pl_ladder s \<noteq> Ladder_Off \<longrightarrow> pl_admission_closed s) \<and>
     (pl_ladder s \<in> {Ladder_Drain, Ladder_Stop, Ladder_Done} \<longrightarrow> pl_pump s = Pump_Exited) \<and>
     (pl_emergency s \<longrightarrow> pl_ladder s \<in> {Ladder_Stop, Ladder_Done}) \<and>
     (pl_ladder s = Ladder_Stop \<longrightarrow> pl_emergency s) \<and>
     (worker_left (pl_worker s) \<longrightarrow> pl_pump s = Pump_Exited) \<and>
     (pl_worker s \<in> {Worker_Done, Worker_Finished, Worker_Aborted} \<longrightarrow> pl_queue s = []) \<and>
     (pl_worker s \<in> {Worker_Finished, Worker_Aborted} \<longrightarrow> pl_persist s = Persist_Done) \<and>
     (pl_effects_open s \<longleftrightarrow> pl_persist s \<notin> {Persist_Closing, Persist_Done}) \<and>
     (pl_persist s = Persist_Done \<longrightarrow> pl_effects s = []) \<and>
     (\<not> pl_emergency s \<and> pl_persist s \<in> {Persist_Closing, Persist_Done} \<longrightarrow>
        pl_effects s = [] \<and> pl_worker s \<in> {Worker_Done, Worker_Finished}) \<and>
     (\<not> pl_emergency s \<and> worker_left (pl_worker s) \<longrightarrow> pl_queue s = []) \<and>
     (pl_worker s = Worker_Aborted \<longrightarrow> pl_emergency s \<and> pl_ladder s = Ladder_Done) \<and>
     (pl_ladder s = Ladder_Done \<longrightarrow> pl_worker s \<in> {Worker_Finished, Worker_Aborted}) \<and>
     length (pl_queue s) + pump_slot (pl_pump s) \<le> queue_capacity \<and>
     length (pl_effects s) \<le> effects_capacity"

lemma control_invD:
  assumes "control_inv s"
  shows ladder_pump_gone: "pl_ladder s \<in> {Ladder_Drain, Ladder_Stop, Ladder_Done} \<Longrightarrow> pl_pump s = Pump_Exited"
    and receiver_there: "pl_pump s \<noteq> Pump_Exited \<longrightarrow> pl_open s"
    and worker_left_pump: "worker_left (pl_worker s) \<Longrightarrow> pl_pump s = Pump_Exited"
    and worker_left_queue: "pl_worker s \<in> {Worker_Done, Worker_Finished, Worker_Aborted} \<Longrightarrow> pl_queue s = []"
    and worker_over_persist: "pl_worker s \<in> {Worker_Finished, Worker_Aborted} \<Longrightarrow> pl_persist s = Persist_Done"
    and persist_over_effects: "pl_persist s = Persist_Done \<Longrightarrow> pl_effects s = []"
    and calm_left_queue: "\<not> pl_emergency s \<Longrightarrow> worker_left (pl_worker s) \<Longrightarrow> pl_queue s = []"
    and calm_persist: "\<not> pl_emergency s \<Longrightarrow> pl_persist s \<in> {Persist_Closing, Persist_Done} \<Longrightarrow> pl_effects s = []"
    and aborted_emergency: "pl_worker s = Worker_Aborted \<Longrightarrow> pl_emergency s"
    and ladder_done_worker: "pl_ladder s = Ladder_Done \<Longrightarrow> pl_worker s \<in> {Worker_Finished, Worker_Aborted}"
    and ladder_admission: "pl_ladder s \<noteq> Ladder_Off \<Longrightarrow> pl_admission_closed s"
    and queue_bound: "length (pl_queue s) \<le> queue_capacity"
    and effects_bound: "length (pl_effects s) \<le> effects_capacity"
  using assms unfolding control_inv_def by (blast, blast, blast, blast, blast, blast, blast, blast, blast, blast, blast, linarith, blast)

lemma control_inv_new: "control_inv (pipeline_new h sequence generation)"
  by (simp add: control_inv_def pipeline_new_def)

lemma worker_at_work: "\<not> worker_left w \<Longrightarrow> w \<noteq> Worker_Done \<and> w \<noteq> Worker_Finished \<and> w \<noteq> Worker_Aborted \<and> w \<noteq> Worker_Closing"
  by auto

lemma control_inv_pump: "pump_loop s l s' \<Longrightarrow> control_inv s \<Longrightarrow> control_inv s'"
  by (erule pump_loop.cases; hypsubst; simp add: control_inv_def; (elim conjE)?; (intro conjI impI)?; (assumption | blast | simp | fastforce)?)

lemma control_inv_admit: "admit_step api s l s' \<Longrightarrow> control_inv s \<Longrightarrow> control_inv s'"
  by (erule admit_step.cases; hypsubst;
      simp add: control_inv_def admission_cancelled_def shed_data_def drop_critical_def Let_def; use worker_at_work in blast)

lemma control_inv_dispatch: "dispatch_step api s l s' \<Longrightarrow> control_inv s \<Longrightarrow> control_inv s'"
  by (erule dispatch_step.cases; hypsubst; simp add: control_inv_def finish_worker_def; (elim conjE)?; (intro conjI impI)?; (assumption | blast | simp | fastforce)?)

lemma control_inv_persist: "persist_step s l s' \<Longrightarrow> control_inv s \<Longrightarrow> control_inv s'"
  by (erule persist_step.cases; hypsubst; simp add: control_inv_def; (elim conjE)?; (intro conjI impI)?; (assumption | blast | simp | fastforce)?)

lemma control_inv_ladder:
  assumes "ladder_step s l s'" and inv: "control_inv s"
  shows "control_inv s'"
  using assms(1)
proof cases
  case ladder_begin
  then show ?thesis using inv by (simp add: control_inv_def)
next
  case ladder_pump_joined
  then show ?thesis using inv by (simp add: control_inv_def)
next
  case ladder_pump_aborted
  then show ?thesis using inv by (cases "pl_pump s") (simp_all add: control_inv_def)
next
  case ladder_drained
  then show ?thesis using inv by (simp add: control_inv_def)
next
  case ladder_emergency
  note i = inv [unfolded control_inv_def]
  have "pl_ladder s \<noteq> Ladder_Off" "pl_ladder s \<noteq> Ladder_Done" using ladder_emergency(3) by simp_all
  then have "pl_pump s = Pump_Exited" "pl_admission_closed s" "pl_worker s \<noteq> Worker_Aborted"
    using i ladder_emergency(3) by blast+
  then show ?thesis using i ladder_emergency(1,2) unfolding control_inv_def
    by (elim conjE; intro conjI; (simp; fail)?; blast?)
next
  case ladder_stopped
  then show ?thesis using inv by (simp add: control_inv_def)
next
  case ladder_abort
  then have "pl_pump s = Pump_Exited" "pl_emergency s \<longrightarrow> True" using inv by (simp_all add: control_inv_def)
  then show ?thesis using ladder_abort inv by (simp add: control_inv_def abort_worker_def)
qed

lemma control_inv_step: "pl_step api s l s' \<Longrightarrow> control_inv s \<Longrightarrow> control_inv s'"
proof (erule pl_step.cases; hypsubst)
  fix g h assume "control_inv s"
  then show "control_inv (s\<lparr>pl_generation := g, pl_host := h\<rparr>)" by (simp add: control_inv_def)
qed (use control_inv_pump control_inv_admit control_inv_dispatch control_inv_persist control_inv_ladder in \<open>blast+\<close>)

lemma control_inv_reach: "pl_reach api s0 tr s \<Longrightarrow> control_inv s0 \<Longrightarrow> control_inv s"
  by (induction rule: pl_reach.induct) (auto intro: control_inv_step)

end
