(* ===== verification/Live_Ingress_Inv.thy ===== *)
theory Live_Ingress_Inv
  imports Live_Ingress
begin

text \<open>
  The accounting of the ingestion: in every reachable state the gauges are the items that are really
  there, and every received message is in exactly one counter. The bound on the number of steps keeps
  the 64-bit counters from wrapping.
\<close>

section \<open>The gauges\<close>

lemma i64_below_u64: "i64_max < u64_max"
  by (simp add: i64_max_def u64_max_def)

definition gauge_inv :: "nat \<Rightarrow> pipeline \<Rightarrow> bool" where
  "gauge_inv n s \<longleftrightarrow>
     (let st = pl_stats s in
      ig_queued st = length (pl_queue s) + pump_counted (pl_pump s) + worker_taken (pl_worker s) \<and>
      ig_in_flight st = worker_holds (pl_worker s) \<and>
      ig_accepted st = ig_processed st + ig_stale st + ig_cancelled st + ig_abandoned st + ig_queued st + ig_in_flight st \<and>
      ig_accepted st \<le> n)"

lemma wrap_i64_small: "0 \<le> x \<Longrightarrow> x \<le> int i64_max \<Longrightarrow> wrap_i64 x = x"
  by (simp add: wrap_i64_def)

lemma abandon_outstanding_exact:
  assumes "ig_accepted st = ig_processed st + ig_stale st + ig_cancelled st + ig_abandoned st + ig_queued st + ig_in_flight st"
    and "ig_accepted st \<le> i64_max"
  shows "abandon_outstanding st = st\<lparr>ig_in_flight := 0, ig_cancelled := ig_cancelled st + ig_queued st,
    ig_abandoned := ig_abandoned st + ig_in_flight st, ig_queued := 0\<rparr>"
proof -
  let ?a = "ig_processed st + ig_stale st + ig_cancelled st + ig_abandoned st"
  have small: "?a \<le> i64_max" "?a + (ig_queued st + ig_in_flight st) = ig_accepted st" using assms by simp_all
  have sat: "saturating_add (saturating_add (saturating_add (ig_processed st) (ig_stale st)) (ig_cancelled st)) (ig_abandoned st) = ?a"
    using small(1) i64_below_u64 by (simp add: saturating_add_def)
  have "wrap_i64 (int (ig_accepted st)) = int (ig_accepted st)" "wrap_i64 (int ?a) = int ?a"
    using assms(2) small(1) by (intro wrap_i64_small; simp)+
  moreover have "wrap_i64 (int (ig_accepted st) - int ?a) = int (ig_queued st + ig_in_flight st)"
    using small assms(2) by (subst wrap_i64_small) auto
  ultimately have out: "outstanding (st\<lparr>ig_in_flight := 0\<rparr>) = int (ig_queued st + ig_in_flight st)"
    by (simp add: outstanding_def sat)
  have add: "wrapping_add (ig_cancelled st) (ig_queued st) = ig_cancelled st + ig_queued st"
    "wrapping_add (ig_abandoned st) (ig_in_flight st) = ig_abandoned st + ig_in_flight st"
    using assms i64_below_u64 by (intro wrapping_add_small; simp)+
  show ?thesis unfolding abandon_outstanding_def Let_def out using add by (simp add: nat_int_add)
qed

lemma gauge_inv_new: "gauge_inv 0 (pipeline_new h sequence generation)"
  by (simp add: gauge_inv_def pipeline_new_def stats_default_def)

lemma gauge_inv_pump: "pump_loop s l s' \<Longrightarrow> gauge_inv n s \<Longrightarrow> gauge_inv (Suc n) s'"
  by (erule pump_loop.cases; hypsubst; simp add: gauge_inv_def note_received_def Let_def)

lemma note_overload_gauges [simp]:
  "ig_queued (note_overload m st) = ig_queued st" "ig_in_flight (note_overload m st) = ig_in_flight st"
  "ig_accepted (note_overload m st) = ig_accepted st" "ig_processed (note_overload m st) = ig_processed st"
  "ig_stale (note_overload m st) = ig_stale st" "ig_cancelled (note_overload m st) = ig_cancelled st"
  "ig_abandoned (note_overload m st) = ig_abandoned st" "ig_received (note_overload m st) = ig_received st"
  "ig_dropped_data (note_overload m st) = ig_dropped_data st"
  "ig_dropped_critical (note_overload m st) = ig_dropped_critical st"
  "ig_admission_cancelled (note_overload m st) = ig_admission_cancelled st"
  by (simp_all add: note_overload_def)

lemma gauge_inv_admit:
  "admit_step api s l s' \<Longrightarrow> gauge_inv n s \<Longrightarrow> n < i64_max \<Longrightarrow> gauge_inv (Suc n) s'"
  using i64_below_u64
  by (erule_tac admit_step.cases; hypsubst;
      simp add: gauge_inv_def admission_cancelled_def shed_data_def drop_critical_def account_reserved_def
        wrapping_inc_small Let_def split: canonical_event.split)

lemma gauge_inv_dispatch:
  "dispatch_step api s l s' \<Longrightarrow> gauge_inv n s \<Longrightarrow> n < i64_max \<Longrightarrow> gauge_inv (Suc n) s'"
  using i64_below_u64
  by (erule_tac dispatch_step.cases; hypsubst;
      simp add: gauge_inv_def finish_worker_def finish_item_def take_item_def fence_item_def release_item_def
        reject_effect_def advance_lifecycle_def wrapping_inc_small wrapping_dec_small Let_def)

lemma drop_guards_gauges [simp]:
  "ig_queued (drop_guards p st) = ig_queued st" "ig_in_flight (drop_guards p st) = ig_in_flight st"
  "ig_accepted (drop_guards p st) = ig_accepted st" "ig_processed (drop_guards p st) = ig_processed st"
  "ig_stale (drop_guards p st) = ig_stale st" "ig_cancelled (drop_guards p st) = ig_cancelled st"
  "ig_abandoned (drop_guards p st) = ig_abandoned st" "ig_received (drop_guards p st) = ig_received st"
  "ig_dropped_data (drop_guards p st) = ig_dropped_data st"
  "ig_dropped_critical (drop_guards p st) = ig_dropped_critical st"
  "ig_admission_cancelled (drop_guards p st) = ig_admission_cancelled st"
  by (cases p; simp add: drop_guards_def drop_pending_guard_def drop_effect_guard_def Let_def)+

lemma gauge_inv_persist: "persist_step s l s' \<Longrightarrow> gauge_inv n s \<Longrightarrow> gauge_inv (Suc n) s'"
  by (erule persist_step.cases; hypsubst;
      simp add: gauge_inv_def take_effect_def applied_effect_def cancel_effect_def drop_pending_guard_def
        advance_lifecycle_def Let_def)

lemma gauge_inv_ladder:
  assumes step: "ladder_step s l s'" and ctl: "control_inv s" and inv: "gauge_inv n s" and n: "n < i64_max"
  shows "gauge_inv (Suc n) s'"
  using step
proof cases
  case ladder_pump_aborted
  then show ?thesis using inv by (cases "pl_pump s") (simp_all add: gauge_inv_def advance_lifecycle_def Let_def)
next
  case ladder_abort
  let ?st = "drop_guards (pl_persist s) (pl_stats s)"
  have exited: "pl_pump s = Pump_Exited" using ladder_pump_gone [OF ctl] ladder_abort(3) by simp
  have "worker_taken (pl_worker s) = 0" using ladder_abort(4) by (cases "pl_worker s") simp_all
  have acc: "ig_accepted ?st = ig_processed ?st + ig_stale ?st + ig_cancelled ?st + ig_abandoned ?st + ig_queued ?st + ig_in_flight ?st"
    "ig_accepted ?st \<le> i64_max" "ig_accepted ?st \<le> n"
    using inv n by (simp_all add: gauge_inv_def Let_def)
  show ?thesis
    using acc exited unfolding ladder_abort(2) gauge_inv_def abort_worker_def abandon_outstanding_exact [OF acc(1,2)]
    by (simp add: advance_lifecycle_def)
qed (use inv in \<open>simp_all add: gauge_inv_def advance_lifecycle_def Let_def\<close>)

lemma pl_step_elim:
  assumes "pl_step api s l s'"
  obtains "pump_loop s l s'" | "admit_step api s l s'" | "dispatch_step api s l s'" | "persist_step s l s'"
    | "ladder_step s l s'" | h g where "host_inv h" "l = Tau" "s' = s\<lparr>pl_generation := g, pl_host := h\<rparr>"
  using assms by (cases rule: pl_step.cases) blast+

lemma gauge_inv_step:
  assumes "pl_step api s l s'" and "control_inv s" and inv: "gauge_inv n s" and "n < i64_max"
  shows "gauge_inv (Suc n) s'"
  using assms(1)
proof (cases rule: pl_step_elim)
  case (6 h g)
  then show ?thesis using inv by (simp add: gauge_inv_def Let_def)
next
  case 1
  then show ?thesis using gauge_inv_pump inv by blast
next
  case 2
  then show ?thesis using gauge_inv_admit inv assms(4) by blast
next
  case 3
  then show ?thesis using gauge_inv_dispatch inv assms(4) by blast
next
  case 4
  then show ?thesis using gauge_inv_persist inv by blast
next
  case 5
  then show ?thesis using gauge_inv_ladder inv assms(2,4) by blast
qed

lemma gauge_inv_reach:
  "pl_reach api s0 tr s \<Longrightarrow> control_inv s0 \<Longrightarrow> gauge_inv 0 s0 \<Longrightarrow> length tr \<le> i64_max \<Longrightarrow> gauge_inv (length tr) s"
proof (induction rule: pl_reach.induct)
  case (reach_step tr s l s')
  then have "gauge_inv (length tr) s" "control_inv s" "length tr < i64_max"
    using control_inv_reach by auto
  then show ?case using gauge_inv_step [OF reach_step.hyps(2)] by simp
qed simp

section \<open>Received messages\<close>

definition accounted :: "pipeline \<Rightarrow> nat" where
  "accounted s =
     (let st = pl_stats s in
      ig_accepted st + ig_admission_cancelled st + ig_dropped_data st + ig_dropped_critical st + pump_holds (pl_pump s))"

definition receive_inv :: "nat \<Rightarrow> pipeline \<Rightarrow> bool" where
  "receive_inv n s \<longleftrightarrow> accounted s \<le> ig_received (pl_stats s) \<and> ig_received (pl_stats s) \<le> accounted s + 1 \<and>
     (pl_update_safe s \<or> pl_pump s \<noteq> Pump_Exited \<longrightarrow> ig_received (pl_stats s) = accounted s) \<and>
     ig_received (pl_stats s) \<le> n"

lemma receive_inv_pump:
  "pump_loop s l s' \<Longrightarrow> receive_inv n s \<Longrightarrow> n < i64_max \<Longrightarrow> receive_inv (Suc n) s'"
  using i64_below_u64
  by (erule_tac pump_loop.cases; hypsubst; simp add: receive_inv_def accounted_def note_received_def wrapping_inc_small Let_def)

lemma receive_inv_admit:
  "admit_step api s l s' \<Longrightarrow> pl_pump s \<noteq> Pump_Exited \<longrightarrow> pl_open s \<Longrightarrow> receive_inv n s \<Longrightarrow> n < i64_max \<Longrightarrow>
   receive_inv (Suc n) s'"
  using i64_below_u64
  by (erule_tac admit_step.cases; hypsubst;
      simp add: receive_inv_def accounted_def admission_cancelled_def shed_data_def drop_critical_def account_reserved_def
        wrapping_inc_small Let_def split: canonical_event.split)

lemma receive_inv_dispatch: "dispatch_step api s l s' \<Longrightarrow> receive_inv n s \<Longrightarrow> receive_inv (Suc n) s'"
  by (erule dispatch_step.cases; hypsubst;
      simp add: receive_inv_def accounted_def finish_worker_def finish_item_def take_item_def fence_item_def release_item_def
        reject_effect_def advance_lifecycle_def Let_def)

lemma receive_inv_persist: "persist_step s l s' \<Longrightarrow> receive_inv n s \<Longrightarrow> receive_inv (Suc n) s'"
  by (erule persist_step.cases; hypsubst;
      simp add: receive_inv_def accounted_def take_effect_def applied_effect_def cancel_effect_def drop_pending_guard_def
        advance_lifecycle_def Let_def)

lemma abandon_received [simp]:
  "ig_received (abandon_outstanding st) = ig_received st" "ig_accepted (abandon_outstanding st) = ig_accepted st"
  "ig_admission_cancelled (abandon_outstanding st) = ig_admission_cancelled st"
  "ig_dropped_data (abandon_outstanding st) = ig_dropped_data st"
  "ig_dropped_critical (abandon_outstanding st) = ig_dropped_critical st"
  by (simp_all add: abandon_outstanding_def Let_def)

lemma receive_inv_ladder:
  assumes step: "ladder_step s l s'" and ctl: "control_inv s" and inv: "receive_inv n s"
  shows "receive_inv (Suc n) s'"
  using step
proof cases
  case ladder_pump_aborted
  then show ?thesis using inv
    by (cases "pl_pump s") (simp_all add: receive_inv_def accounted_def advance_lifecycle_def Let_def)
next
  case ladder_emergency
  then have "pl_pump s = Pump_Exited" using ladder_pump_gone [OF ctl] by simp
  then show ?thesis using ladder_emergency inv by (simp add: receive_inv_def accounted_def Let_def)
qed (use inv in \<open>simp_all add: receive_inv_def accounted_def advance_lifecycle_def abort_worker_def Let_def\<close>)

lemma receive_inv_step:
  assumes "pl_step api s l s'" and ctl: "control_inv s" and inv: "receive_inv n s" and "n < i64_max"
  shows "receive_inv (Suc n) s'"
  using assms(1)
proof (cases rule: pl_step_elim)
  case 1
  then show ?thesis using receive_inv_pump inv assms(4) by blast
next
  case 2
  then show ?thesis using receive_inv_admit [OF _ receiver_there [OF ctl]] inv assms(4) by blast
next
  case 3
  then show ?thesis using receive_inv_dispatch inv by blast
next
  case 4
  then show ?thesis using receive_inv_persist inv by blast
next
  case 5
  then show ?thesis using receive_inv_ladder ctl inv by blast
next
  case (6 h g)
  then show ?thesis using inv by (simp add: receive_inv_def accounted_def)
qed

lemma receive_inv_reach:
  "pl_reach api s0 tr s \<Longrightarrow> control_inv s0 \<Longrightarrow> receive_inv 0 s0 \<Longrightarrow> length tr \<le> i64_max \<Longrightarrow> receive_inv (length tr) s"
proof (induction rule: pl_reach.induct)
  case (reach_step tr s l s')
  then have "receive_inv (length tr) s" "control_inv s" "length tr < i64_max"
    using control_inv_reach by auto
  then show ?case using receive_inv_step [OF reach_step.hyps(2)] by simp
qed simp

lemma receive_inv_new: "receive_inv 0 (pipeline_new h sequence generation)"
  by (simp add: receive_inv_def accounted_def pipeline_new_def stats_default_def)

end
