(* ===== verification/Live_Ingress_Effects.thy ===== *)
theory Live_Ingress_Effects
  imports Live_Ingress_Inv
begin

text \<open>
  The accounting of the persistence effects: every effect the worker produced is queued, being applied,
  applied, or in exactly one of the counters of loss.
\<close>

section \<open>Effects\<close>

definition effect_inv :: "nat \<Rightarrow> pipeline \<Rightarrow> bool" where
  "effect_inv n s \<longleftrightarrow>
     (let st = pl_stats s in
      ig_effects_queued st = length (pl_effects s) \<and> ig_effects_in_flight st = persist_holds (pl_persist s) \<and>
      ig_effects_dropped st = ig_effects_rejected st + ig_effects_cancelled st + ig_effects_abandoned st \<and>
      ig_effects_queued st + ig_effects_in_flight st + ig_effects_processed st + ig_effects_dropped st \<le> n)"

lemma effect_inv_pump: "pump_loop s l s' \<Longrightarrow> effect_inv n s \<Longrightarrow> effect_inv (Suc n) s'"
  by (erule pump_loop.cases; hypsubst; simp add: effect_inv_def note_received_def Let_def)

lemma effect_inv_admit: "admit_step api s l s' \<Longrightarrow> effect_inv n s \<Longrightarrow> effect_inv (Suc n) s'"
  by (erule admit_step.cases; hypsubst;
      simp add: effect_inv_def admission_cancelled_def shed_data_def drop_critical_def account_reserved_def
        note_overload_def Let_def split: canonical_event.split)

lemma effect_inv_dispatch: "dispatch_step api s l s' \<Longrightarrow> effect_inv n s \<Longrightarrow> n < i64_max \<Longrightarrow> effect_inv (Suc n) s'"
  using i64_below_u64
  by (erule_tac dispatch_step.cases; hypsubst;
      simp add: effect_inv_def finish_worker_def finish_item_def take_item_def fence_item_def release_item_def
        reject_effect_def advance_lifecycle_def wrapping_inc_small Let_def)

lemma effect_inv_persist: "persist_step s l s' \<Longrightarrow> effect_inv n s \<Longrightarrow> n < i64_max \<Longrightarrow> effect_inv (Suc n) s'"
  using i64_below_u64
  by (erule_tac persist_step.cases; hypsubst;
      simp add: effect_inv_def take_effect_def applied_effect_def cancel_effect_def drop_pending_guard_def
        advance_lifecycle_def wrapping_inc_small wrapping_dec_small Let_def)

lemma drop_pending_guard_exact:
  assumes "ig_effects_dropped st + ig_effects_queued st \<le> u64_max" and "ig_effects_cancelled st \<le> ig_effects_dropped st"
  shows "drop_pending_guard st = st\<lparr>ig_effects_queued := 0, ig_effects_dropped := ig_effects_dropped st + ig_effects_queued st,
    ig_effects_cancelled := ig_effects_cancelled st + ig_effects_queued st\<rparr>"
proof (cases "ig_effects_queued st = 0")
  case False
  have "wrapping_add (ig_effects_dropped st) (ig_effects_queued st) = ig_effects_dropped st + ig_effects_queued st"
    "wrapping_add (ig_effects_cancelled st) (ig_effects_queued st) = ig_effects_cancelled st + ig_effects_queued st"
    using assms by (intro wrapping_add_small; simp)+
  then show ?thesis using False by (simp add: drop_pending_guard_def Let_def)
qed (simp add: drop_pending_guard_def)

lemma drop_effect_guard_exact:
  assumes "ig_effects_in_flight st = 1" and "ig_effects_dropped st < u64_max" and "ig_effects_abandoned st \<le> ig_effects_dropped st"
  shows "drop_effect_guard st = st\<lparr>ig_effects_in_flight := 0, ig_effects_dropped := ig_effects_dropped st + 1,
    ig_effects_abandoned := ig_effects_abandoned st + 1\<rparr>"
proof -
  have "wrapping_dec (ig_effects_in_flight st) = 0" using assms(1) by (simp add: wrapping_dec_small u64_max_def)
  moreover have "wrapping_inc (ig_effects_abandoned st) = ig_effects_abandoned st + 1"
    using assms(2,3) by (intro wrapping_inc_small) simp
  ultimately show ?thesis using wrapping_inc_small [OF assms(2)] by (simp add: drop_effect_guard_def)
qed

text \<open>Whatever the effects task was doing, the guards leave nothing open.\<close>

lemma drop_guards_exact:
  assumes inv: "effect_inv n s" and ctl: "control_inv s" and n: "n < i64_max"
  shows "let st = drop_guards (pl_persist s) (pl_stats s) in
    ig_effects_queued st = 0 \<and> ig_effects_in_flight st = 0 \<and>
    ig_effects_dropped st = ig_effects_rejected st + ig_effects_cancelled st + ig_effects_abandoned st \<and>
    ig_effects_processed st + ig_effects_dropped st \<le> n"
proof -
  let ?st = "pl_stats s"
  have e: "ig_effects_queued ?st = length (pl_effects s)" "ig_effects_in_flight ?st = persist_holds (pl_persist s)"
    "ig_effects_dropped ?st = ig_effects_rejected ?st + ig_effects_cancelled ?st + ig_effects_abandoned ?st"
    "ig_effects_queued ?st + ig_effects_in_flight ?st + ig_effects_processed ?st + ig_effects_dropped ?st \<le> n"
    using inv by (simp_all add: effect_inv_def Let_def)
  have small: "ig_effects_dropped ?st + ig_effects_queued ?st \<le> u64_max" "ig_effects_cancelled ?st \<le> ig_effects_dropped ?st"
    using e n i64_below_u64 by simp_all
  note pending = drop_pending_guard_exact [OF small]
  show ?thesis
  proof (cases "pl_persist s")
    case Persist_Idle
    then show ?thesis using e by (simp add: drop_guards_def pending)
  next
    case Persist_Closing
    then show ?thesis using e by (simp add: drop_guards_def pending)
  next
    case Persist_Done
    then show ?thesis using e persist_over_effects [OF ctl] by (simp add: drop_guards_def)
  next
    case (Persist_Busy x)
    then have "ig_effects_in_flight ?st = 1" "ig_effects_dropped ?st < u64_max" "ig_effects_abandoned ?st \<le> ig_effects_dropped ?st"
      using e n i64_below_u64 by simp_all
    note busy = drop_effect_guard_exact [OF this]
    have "ig_effects_dropped (drop_effect_guard ?st) + ig_effects_queued (drop_effect_guard ?st) \<le> u64_max"
      "ig_effects_cancelled (drop_effect_guard ?st) \<le> ig_effects_dropped (drop_effect_guard ?st)"
      using e n i64_below_u64 Persist_Busy by (simp_all add: busy)
    note both = drop_pending_guard_exact [OF this]
    show ?thesis using e Persist_Busy unfolding drop_guards_def Persist_Busy persist_state.case both
      by (simp add: busy)
  qed
qed

lemma abandon_effects [simp]:
  "ig_effects_queued (abandon_outstanding st) = ig_effects_queued st"
  "ig_effects_in_flight (abandon_outstanding st) = ig_effects_in_flight st"
  "ig_effects_dropped (abandon_outstanding st) = ig_effects_dropped st"
  "ig_effects_rejected (abandon_outstanding st) = ig_effects_rejected st"
  "ig_effects_cancelled (abandon_outstanding st) = ig_effects_cancelled st"
  "ig_effects_abandoned (abandon_outstanding st) = ig_effects_abandoned st"
  "ig_effects_processed (abandon_outstanding st) = ig_effects_processed st"
  by (simp_all add: abandon_outstanding_def Let_def)

lemma effect_inv_ladder:
  assumes step: "ladder_step s l s'" and ctl: "control_inv s" and inv: "effect_inv n s" and n: "n < i64_max"
  shows "effect_inv (Suc n) s'"
  using step
proof cases
  case ladder_abort
  then show ?thesis using drop_guards_exact [OF inv ctl n]
    by (simp add: effect_inv_def abort_worker_def advance_lifecycle_def Let_def)
qed (use inv in \<open>simp_all add: effect_inv_def advance_lifecycle_def Let_def\<close>)

lemma effect_inv_step:
  assumes "pl_step api s l s'" and ctl: "control_inv s" and inv: "effect_inv n s" and n: "n < i64_max"
  shows "effect_inv (Suc n) s'"
  using assms(1)
proof (cases rule: pl_step_elim)
  case 1
  then show ?thesis using effect_inv_pump inv by blast
next
  case 2
  then show ?thesis using effect_inv_admit inv by blast
next
  case 3
  then show ?thesis using effect_inv_dispatch inv n by blast
next
  case 4
  then show ?thesis using effect_inv_persist inv n by blast
next
  case 5
  then show ?thesis using effect_inv_ladder ctl inv n by blast
next
  case (6 h g)
  then show ?thesis using inv by (simp add: effect_inv_def Let_def)
qed

lemma effect_inv_reach:
  "pl_reach api s0 tr s \<Longrightarrow> control_inv s0 \<Longrightarrow> effect_inv 0 s0 \<Longrightarrow> length tr \<le> i64_max \<Longrightarrow> effect_inv (length tr) s"
proof (induction rule: pl_reach.induct)
  case (reach_step tr s l s')
  then have "effect_inv (length tr) s" "control_inv s" "length tr < i64_max"
    using control_inv_reach by auto
  then show ?case using effect_inv_step [OF reach_step.hyps(2)] by simp
qed simp

lemma effect_inv_new: "effect_inv 0 (pipeline_new h sequence generation)"
  by (simp add: effect_inv_def pipeline_new_def stats_default_def)

end
