(* ===== verification/Live_Ingress_Order.thy ===== *)
theory Live_Ingress_Order
  imports Live_Ingress_Inv
begin

text \<open>
  The order of the ingestion: items are handled in the order in which they were admitted, a graceful
  shutdown handles all of them, and nothing of an older connection is processed after a newer one was
  established.
\<close>

section \<open>The journal\<close>

fun sent_item :: "label \<Rightarrow> ingress_item list" where
  "sent_item (Sent i) = [i]"
| "sent_item _ = []"

fun taken_item :: "label \<Rightarrow> ingress_item list" where
  "taken_item (Taken i) = [i]"
| "taken_item _ = []"

fun handled_item :: "label \<Rightarrow> ingress_item list" where
  "handled_item (Fenced i) = [i]"
| "handled_item (Processed i) = [i]"
| "handled_item _ = []"

fun released_item :: "label \<Rightarrow> ingress_item list" where
  "released_item (Released i) = [i]"
| "released_item _ = []"

definition sent :: "label list \<Rightarrow> ingress_item list" where
  "sent tr = concat (map sent_item tr)"

definition taken :: "label list \<Rightarrow> ingress_item list" where
  "taken tr = concat (map taken_item tr)"

definition handled :: "label list \<Rightarrow> ingress_item list" where
  "handled tr = concat (map handled_item tr)"

definition released :: "label list \<Rightarrow> ingress_item list" where
  "released tr = concat (map released_item tr)"

lemma journal_snoc [simp]:
  "sent (tr @ [l]) = sent tr @ sent_item l" "taken (tr @ [l]) = taken tr @ taken_item l"
  "handled (tr @ [l]) = handled tr @ handled_item l" "released (tr @ [l]) = released tr @ released_item l"
  "sent [] = []" "taken [] = []" "handled [] = []" "released [] = []"
  by (simp_all add: sent_def taken_def handled_def released_def)

fun worker_item :: "worker_state \<Rightarrow> ingress_item list" where
  "worker_item (Worker_Taken i) = [i]"
| "worker_item (Worker_Holding i) = [i]"
| "worker_item (Worker_Busy i) = [i]"
| "worker_item (Worker_Routing i _) = [i]"
| "worker_item _ = []"

definition journal_inv :: "label list \<Rightarrow> pipeline \<Rightarrow> bool" where
  "journal_inv tr s \<longleftrightarrow>
     (\<exists>held rest. taken tr = handled tr @ held \<and> sent tr = taken tr @ released tr @ rest \<and>
        (pl_worker s \<noteq> Worker_Aborted \<longrightarrow> held = worker_item (pl_worker s) \<and> rest = pl_queue s)) \<and>
     (released tr \<noteq> [] \<longrightarrow> worker_left (pl_worker s) \<and> pl_emergency s)"

lemma journal_invI:
  assumes "taken tr = handled tr @ worker_item (pl_worker s)" and "sent tr = taken tr @ released tr @ pl_queue s"
    and "released tr \<noteq> [] \<longrightarrow> worker_left (pl_worker s) \<and> pl_emergency s"
  shows "journal_inv tr s"
  using assms unfolding journal_inv_def by blast

lemma journal_inv_pump:
  assumes "pump_loop s l s'" and "journal_inv tr s"
  shows "journal_inv (tr @ [l]) s'"
  using assms by (cases rule: pump_loop.cases) (simp_all add: journal_inv_def)

lemma journal_inv_admit:
  assumes step: "admit_step api s l s'" and ctl: "control_inv s" and inv: "journal_inv tr s"
  shows "journal_inv (tr @ [l]) s'"
  using step
proof cases
  case (publish_send i)
  then have "pl_pump s \<noteq> Pump_Exited" by simp
  then have "\<not> worker_left (pl_worker s)" using worker_left_pump [OF ctl] by blast
  then have "pl_worker s \<noteq> Worker_Aborted" "released tr = []" using inv by (auto simp: journal_inv_def)
  then show ?thesis using inv publish_send by (intro journal_invI) (simp_all add: journal_inv_def)
qed (use inv in \<open>simp_all add: journal_inv_def admission_cancelled_def shed_data_def drop_critical_def Let_def\<close>)

lemma journal_inv_dispatch:
  assumes step: "dispatch_step api s l s'" and ctl: "control_inv s" and inv: "journal_inv tr s"
  shows "journal_inv (tr @ [l]) s'"
proof -
  have alive: "pl_worker s \<noteq> Worker_Aborted" using step by (cases rule: dispatch_step.cases) simp_all
  then have j: "taken tr = handled tr @ worker_item (pl_worker s)" "sent tr = taken tr @ released tr @ pl_queue s"
    "released tr \<noteq> [] \<longrightarrow> worker_left (pl_worker s) \<and> pl_emergency s"
    using inv unfolding journal_inv_def by blast+
  show ?thesis using step
  proof cases
    case (worker_release i q)
    then have "pl_emergency s" using calm_left_queue [OF ctl] by auto
    then show ?thesis using j worker_release by (intro journal_invI) simp_all
  qed (use j in \<open>auto intro!: journal_invI simp: finish_worker_def\<close>)
qed

lemma journal_inv_persist:
  assumes "persist_step s l s'" and "journal_inv tr s"
  shows "journal_inv (tr @ [l]) s'"
  using assms(1)
proof (cases rule: persist_step.cases)
  case worker_finish
  then have "taken tr = handled tr @ worker_item Worker_Done" "sent tr = taken tr @ released tr @ pl_queue s"
    "released tr \<noteq> [] \<longrightarrow> pl_emergency s"
    using assms(2) unfolding journal_inv_def by auto
  then show ?thesis using worker_finish by (intro journal_invI) simp_all
qed (use assms(2) in \<open>auto simp: journal_inv_def\<close>)

lemma journal_inv_ladder:
  assumes "ladder_step s l s'" and "journal_inv tr s"
  shows "journal_inv (tr @ [l]) s'"
  using assms
proof (cases rule: ladder_step.cases)
  case ladder_abort
  have "\<exists>held rest. taken tr = handled tr @ held \<and> sent tr = taken tr @ released tr @ rest"
    and "released tr \<noteq> [] \<longrightarrow> pl_emergency s"
    using assms(2) unfolding journal_inv_def by blast+
  then show ?thesis using ladder_abort by (simp add: journal_inv_def abort_worker_def)
qed (simp_all add: journal_inv_def)

lemma journal_inv_step:
  assumes "pl_step api s l s'" and ctl: "control_inv s" and inv: "journal_inv tr s"
  shows "journal_inv (tr @ [l]) s'"
  using assms(1)
proof (cases rule: pl_step_elim)
  case 1
  then show ?thesis using journal_inv_pump inv by blast
next
  case 2
  then show ?thesis using journal_inv_admit ctl inv by blast
next
  case 3
  then show ?thesis using journal_inv_dispatch ctl inv by blast
next
  case 4
  then show ?thesis using journal_inv_persist inv by blast
next
  case 5
  then show ?thesis using journal_inv_ladder inv by blast
next
  case (6 h g)
  then show ?thesis using inv by (simp add: journal_inv_def)
qed

lemma journal_inv_reach:
  "pl_reach api s0 tr s \<Longrightarrow> control_inv s0 \<Longrightarrow> journal_inv [] s0 \<Longrightarrow> journal_inv tr s"
  by (induction rule: pl_reach.induct) (auto intro: journal_inv_step control_inv_reach)

lemma journal_inv_new: "journal_inv [] (pipeline_new h sequence generation)"
  by (simp add: journal_inv_def pipeline_new_def)

section \<open>The fence\<close>

fun worker_passed :: "worker_state \<Rightarrow> ingress_item option" where
  "worker_passed (Worker_Busy i) = Some i"
| "worker_passed (Worker_Routing i _) = Some i"
| "worker_passed _ = None"

text \<open>
  The connection sequence covers every connection that was processed, and the item in hand is not
  older than it.
\<close>

definition fence_inv :: "label list \<Rightarrow> pipeline \<Rightarrow> bool" where
  "fence_inv tr s \<longleftrightarrow>
     (\<forall>c. Processed c \<in> set tr \<and> is_connected (ii_event c) \<longrightarrow> ii_generation c \<le> pl_sequence s) \<and>
     (\<forall>i. worker_passed (pl_worker s) = Some i \<longrightarrow> pl_sequence s \<le> ii_generation i \<and>
        (is_connected (ii_event i) \<longrightarrow> ii_generation i = pl_sequence s)) \<and>
     (\<forall>i x. pl_worker s = Worker_Routing i x \<longrightarrow> is_data (ii_event i))"

definition in_order :: "label list \<Rightarrow> bool" where
  "in_order tr \<longleftrightarrow>
     (\<forall>before c after i. tr = before @ Processed c # after \<and> is_connected (ii_event c) \<and> Processed i \<in> set after \<longrightarrow>
        ii_generation c \<le> ii_generation i)"

lemma in_order_snoc:
  assumes old: "in_order tr" and new: "\<And>i c. l = Processed i \<Longrightarrow> Processed c \<in> set tr \<Longrightarrow> is_connected (ii_event c) \<Longrightarrow>
    ii_generation c \<le> ii_generation i"
  shows "in_order (tr @ [l])"
  unfolding in_order_def
proof (intro allI impI)
  fix before c after i
  assume a: "tr @ [l] = before @ Processed c # after \<and> is_connected (ii_event c) \<and> Processed i \<in> set after"
  then have "after \<noteq> []" by auto
  then obtain rest where rest: "after = rest @ [l]" "tr = before @ Processed c # rest"
    using a by (cases after rule: rev_cases) auto
  show "ii_generation c \<le> ii_generation i"
  proof (cases "Processed i \<in> set rest")
    case True
    then show ?thesis using old rest(2) a unfolding in_order_def by blast
  next
    case False
    then have "l = Processed i" using a rest(1) by auto
    then show ?thesis using new rest(2) a by simp
  qed
qed

lemma data_not_connected: "is_data e \<Longrightarrow> \<not> is_connected e"
  by (cases e) simp_all

lemma fence_inv_dispatch:
  assumes step: "dispatch_step api s l s'" and inv: "fence_inv tr s"
  shows "fence_inv (tr @ [l]) s'" and "\<And>i c. l = Processed i \<Longrightarrow> Processed c \<in> set tr \<Longrightarrow> is_connected (ii_event c) \<Longrightarrow>
    ii_generation c \<le> ii_generation i"
proof -
  have f: "\<And>c. Processed c \<in> set tr \<Longrightarrow> is_connected (ii_event c) \<Longrightarrow> ii_generation c \<le> pl_sequence s"
    "\<And>i. worker_passed (pl_worker s) = Some i \<Longrightarrow> pl_sequence s \<le> ii_generation i"
    "\<And>i. worker_passed (pl_worker s) = Some i \<Longrightarrow> is_connected (ii_event i) \<Longrightarrow> ii_generation i = pl_sequence s"
    "\<And>i x. pl_worker s = Worker_Routing i x \<Longrightarrow> is_data (ii_event i)"
    using inv unfolding fence_inv_def by blast+
  show "fence_inv (tr @ [l]) s'"
    using step
  proof cases
    case (worker_pass i)
    then have "pl_sequence s \<le> ii_generation i" by (simp add: fenced_def)
    then show ?thesis using f(1) worker_pass by (fastforce simp: fence_inv_def)
  next
    case (worker_native i elapsed same)
    then show ?thesis using f(1) f(3) [of i] by (auto simp: fence_inv_def finish_worker_def)
  qed (use f in \<open>auto simp: fence_inv_def finish_worker_def dest: data_not_connected\<close>)
  show "ii_generation c \<le> ii_generation i" if "l = Processed i" "Processed c \<in> set tr" "is_connected (ii_event c)" for i c
  proof -
    have "worker_passed (pl_worker s) = Some i" using step that(1) by (cases rule: dispatch_step.cases) simp_all
    then show ?thesis using f(1) [OF that(2,3)] f(2) by fastforce
  qed
qed

lemma fence_inv_kept:
  assumes inv: "fence_inv tr s" and "pl_sequence s' = pl_sequence s" and "\<And>i. l \<noteq> Processed i"
    and "pl_worker s' = pl_worker s \<or> worker_passed (pl_worker s') = None"
  shows "fence_inv (tr @ [l]) s'"
proof -
  have new: "Processed c \<in> set (tr @ [l]) \<longleftrightarrow> Processed c \<in> set tr" for c using assms(3) [of c] by auto
  show ?thesis
  proof (cases "pl_worker s' = pl_worker s")
    case True
    then show ?thesis using inv assms(2) unfolding fence_inv_def new by simp
  next
    case False
    then have "worker_passed (pl_worker s') = None" using assms(4) by blast
    moreover from this have "pl_worker s' \<noteq> Worker_Routing i x" for i x by (cases "pl_worker s'") simp_all
    ultimately show ?thesis using inv assms(2) unfolding fence_inv_def new by simp
  qed
qed

lemma fence_inv_other:
  assumes "pump_loop s l s' \<or> admit_step api s l s' \<or> persist_step s l s' \<or> ladder_step s l s'" and inv: "fence_inv tr s"
  shows "fence_inv (tr @ [l]) s'" and "l \<noteq> Processed i"
proof -
  have same: "pl_sequence s' = pl_sequence s \<and> (pl_worker s' = pl_worker s \<or> worker_passed (pl_worker s') = None) \<and>
      (\<forall>i. l \<noteq> Processed i)"
    using assms(1)
  proof (elim disjE)
    assume "admit_step api s l s'"
    then show ?thesis
      by (cases rule: admit_step.cases)
        (simp_all add: admission_cancelled_def shed_data_def drop_critical_def Let_def)
  next
    assume "ladder_step s l s'"
    then show ?thesis by (cases rule: ladder_step.cases) (simp_all add: abort_worker_def)
  next
    assume "persist_step s l s'"
    then show ?thesis by (cases rule: persist_step.cases) simp_all
  next
    assume "pump_loop s l s'"
    then show ?thesis by (cases rule: pump_loop.cases) simp_all
  qed
  then show "l \<noteq> Processed i" by blast
  show "fence_inv (tr @ [l]) s'" using same by (cases "pl_worker s' = pl_worker s") (intro fence_inv_kept [OF inv]; simp)+
qed

lemma fence_reach:
  "pl_reach api s0 tr s \<Longrightarrow> fence_inv [] s0 \<Longrightarrow> fence_inv tr s \<and> in_order tr"
proof (induction rule: pl_reach.induct)
  case reach_start
  then show ?case by (simp add: in_order_def)
next
  case (reach_step tr s l s')
  then have inv: "fence_inv tr s" "in_order tr" by simp_all
  from reach_step.hyps(2) show ?case
  proof (cases rule: pl_step_elim)
    case 3
    then show ?thesis using fence_inv_dispatch [OF 3 inv(1)] in_order_snoc [OF inv(2)] by blast
  next
    case (6 h g)
    have "in_order (tr @ [l])" using 6(2) by (intro in_order_snoc [OF inv(2)]) simp
    then show ?thesis using inv(1) 6 by (simp add: fence_inv_def)
  qed (use fence_inv_other [OF _ inv(1)] in_order_snoc [OF inv(2)] in blast)+
qed

lemma fence_inv_new: "fence_inv [] (pipeline_new h sequence generation)"
  by (simp add: fence_inv_def pipeline_new_def)

end
