(* ===== verification/Live_Ingress_Shutdown.thy ===== *)
theory Live_Ingress_Shutdown
  imports Live_Ingress_Effects Live_Ingress_Order
begin

text \<open>
  The shutdown of the ingestion. Once admission is closed every step of a task lowers a measure, so the
  ladder ends after a bounded number of steps; and until it has ended some task can move, without a
  deadline having to expire. Before the emergency stop nothing admitted is given up.
\<close>

section \<open>The host\<close>

lemma host_inv_gap: "host_inv h \<Longrightarrow> host_inv (record_event_gap millis h)"
  by (simp add: host_inv_def record_event_gap_def)

lemma host_inv_shed: "host_inv h \<Longrightarrow> host_inv (shed_event millis e h)"
  using ingress_loss_inv engine_inv_ingress_loss
  by (simp add: host_inv_def shed_event_def Let_def record_event_gap_def split: canonical_event.split)

lemma host_inv_lagged: "host_inv h \<Longrightarrow> host_inv (receiver_lagged millis n h)"
  using ingress_loss_inv engine_inv_ingress_loss
  by (simp add: host_inv_def receiver_lagged_def record_event_gap_def)

lemma host_inv_critical: "host_inv h \<Longrightarrow> host_inv (h\<lparr>lh_engine := mark_ingress_loss n (lh_engine h)\<rparr>)"
  using engine_inv_ingress_loss by (simp add: host_inv_def)

lemma host_inv_native: "host_inv h \<Longrightarrow> host_inv (native_event same sequence ev h)"
  by (cases ev) (simp_all add: native_event_def handle_connected_def host_inv_def Let_def)

lemma host_inv_prepared: "prepare_live_event api now millis e h = Ret (v, h1) \<Longrightarrow> host_inv h \<Longrightarrow> host_inv h1"
  using prepare_live_event_inv [of h api now millis e] by auto

lemmas host_inv_kept = host_inv_gap host_inv_shed host_inv_lagged host_inv_critical host_inv_native

lemma host_inv_admit: "admit_step api s l s' \<Longrightarrow> host_inv (pl_host s) \<Longrightarrow> host_inv (pl_host s')"
  by (erule admit_step.cases; hypsubst; simp add: admission_cancelled_def shed_data_def drop_critical_def Let_def host_inv_kept)

lemma host_inv_dispatch: "dispatch_step api s l s' \<Longrightarrow> host_inv (pl_host s) \<Longrightarrow> host_inv (pl_host s')"
  by (erule dispatch_step.cases; hypsubst; simp add: finish_worker_def host_inv_kept host_inv_prepared)

lemma host_inv_step: "pl_step api s l s' \<Longrightarrow> host_inv (pl_host s) \<Longrightarrow> host_inv (pl_host s')"
proof (erule pl_step_elim)
  show "host_inv (pl_host s')" if "pump_loop s l s'" "host_inv (pl_host s)"
    using that by (cases rule: pump_loop.cases) (simp_all add: host_inv_kept)
  show "host_inv (pl_host s')" if "persist_step s l s'" "host_inv (pl_host s)"
    using that by (cases rule: persist_step.cases) (simp_all add: host_inv_kept)
  show "host_inv (pl_host s')" if "ladder_step s l s'" "host_inv (pl_host s)"
    using that by (cases rule: ladder_step.cases) (simp_all add: abort_worker_def)
qed (use host_inv_admit host_inv_dispatch in auto)

lemma host_inv_reach: "pl_reach api s0 tr s \<Longrightarrow> host_inv (pl_host s0) \<Longrightarrow> host_inv (pl_host s)"
  by (induction rule: pl_reach.induct) (auto intro: host_inv_step)

section \<open>Before the emergency stop\<close>

definition calm_inv :: "pipeline \<Rightarrow> bool" where
  "calm_inv s \<longleftrightarrow>
     (let st = pl_stats s in
      \<not> pl_emergency s \<longrightarrow> ig_cancelled st = 0 \<and> ig_abandoned st = 0 \<and> ig_effects_cancelled st = 0 \<and> ig_effects_abandoned st = 0)"

lemma calm_inv_dispatch: "dispatch_step api s l s' \<Longrightarrow> control_inv s \<Longrightarrow> calm_inv s \<Longrightarrow> calm_inv s'"
proof (erule dispatch_step.cases; hypsubst)
  show "calm_inv (s\<lparr>pl_queue := q, pl_stats := release_item (pl_stats s)\<rparr>)"
    if "pl_worker s = Worker_Closing" "pl_queue s = i # q" "control_inv s" for s i q
  proof -
    have "pl_emergency s" using calm_left_queue [OF that(3)] that(1,2) by auto
    then show ?thesis by (simp add: calm_inv_def Let_def)
  qed
qed (simp_all add: calm_inv_def finish_worker_def finish_item_def take_item_def fence_item_def reject_effect_def
      advance_lifecycle_def Let_def)

lemma calm_inv_persist: 
  assumes step: "persist_step s l s'" and ctl: "control_inv s" and gauge: "ig_effects_queued (pl_stats s) = length (pl_effects s)"
    and inv: "calm_inv s"
  shows "calm_inv s'"
  using step
proof cases
  case (persist_release x xs millis)
  then have "pl_emergency s" using calm_persist [OF ctl] by auto
  then show ?thesis using persist_release by (simp add: calm_inv_def Let_def)
next
  case persist_done
  then show ?thesis using inv gauge by (simp add: calm_inv_def drop_pending_guard_def Let_def)
qed (use inv in \<open>simp_all add: calm_inv_def take_effect_def applied_effect_def advance_lifecycle_def Let_def\<close>)

lemma calm_inv_step:
  assumes "pl_step api s l s'" and ctl: "control_inv s" and gauge: "ig_effects_queued (pl_stats s) = length (pl_effects s)"
    and inv: "calm_inv s"
  shows "calm_inv s'"
  using assms(1)
proof (cases rule: pl_step_elim)
  case 1
  then show ?thesis using inv
    by (cases rule: pump_loop.cases) (simp_all add: calm_inv_def note_received_def Let_def)
next
  case 2
  then show ?thesis using inv
    by (cases rule: admit_step.cases)
      (simp_all add: calm_inv_def admission_cancelled_def shed_data_def drop_critical_def account_reserved_def
        note_overload_def Let_def split: canonical_event.split)
next
  case 3
  then show ?thesis using calm_inv_dispatch ctl inv by blast
next
  case 4
  then show ?thesis using calm_inv_persist ctl gauge inv by blast
next
  case 5
  then show ?thesis
  proof cases
    case ladder_abort
    then have "pl_emergency s" using ctl by (simp add: control_inv_def)
    then show ?thesis using ladder_abort by (simp add: calm_inv_def abort_worker_def Let_def)
  qed (use inv in \<open>simp_all add: calm_inv_def advance_lifecycle_def Let_def\<close>)
next
  case (6 h g)
  then show ?thesis using inv by (simp add: calm_inv_def Let_def)
qed

lemma calm_inv_new: "calm_inv (pipeline_new h sequence generation)"
  by (simp add: calm_inv_def pipeline_new_def stats_default_def)

lemma calm_inv_reach:
  "pl_reach api s0 tr s \<Longrightarrow> control_inv s0 \<Longrightarrow> effect_inv 0 s0 \<Longrightarrow> calm_inv s0 \<Longrightarrow> length tr \<le> i64_max \<Longrightarrow> calm_inv s"
proof (induction rule: pl_reach.induct)
  case (reach_step tr s l s')
  then have "control_inv s" "effect_inv (length tr) s" "calm_inv s"
    using control_inv_reach effect_inv_reach by auto
  then show ?case using calm_inv_step [OF reach_step.hyps(2)] by (simp add: effect_inv_def Let_def)
qed simp

section \<open>After an abort\<close>

text \<open>Only an abort of the worker leaves an outcome unknown, and then of one message and one effect.\<close>

definition abandon_inv :: "pipeline \<Rightarrow> bool" where
  "abandon_inv s \<longleftrightarrow>
     (let st = pl_stats s in
      (pl_worker s \<noteq> Worker_Aborted \<longrightarrow> ig_abandoned st = 0 \<and> ig_effects_abandoned st = 0) \<and>
      ig_abandoned st \<le> 1 \<and> ig_effects_abandoned st \<le> 1)"

lemma drop_guards_abandoned:
  "ig_effects_abandoned st = 0 \<Longrightarrow> ig_effects_abandoned (drop_guards p st) \<le> 1"
  by (cases p) (simp_all add: drop_guards_def drop_pending_guard_def drop_effect_guard_def wrapping_inc_def u64_max_def Let_def)

lemma worker_holds_one: "worker_holds w \<le> 1"
  by (cases w) simp_all

lemma abandon_inv_abort:
  assumes gauge: "gauge_inv n s" and n: "n \<le> i64_max" and waits: "worker_waits (pl_worker s)" and inv: "abandon_inv s"
  shows "abandon_inv (abort_worker s)"
proof -
  let ?st = "drop_guards (pl_persist s) (pl_stats s)"
  have "pl_worker s \<noteq> Worker_Aborted" using waits by auto
  then have zero: "ig_abandoned (pl_stats s) = 0" "ig_effects_abandoned (pl_stats s) = 0"
    using inv by (simp_all add: abandon_inv_def Let_def)
  have acc: "ig_accepted ?st = ig_processed ?st + ig_stale ?st + ig_cancelled ?st + ig_abandoned ?st + ig_queued ?st + ig_in_flight ?st"
    "ig_accepted ?st \<le> i64_max" "ig_in_flight ?st \<le> 1"
    using gauge n worker_holds_one [of "pl_worker s"] by (simp_all add: gauge_inv_def Let_def)
  show ?thesis
    using acc(3) zero(1) drop_guards_abandoned [OF zero(2), of "pl_persist s"]
    unfolding abandon_inv_def abort_worker_def abandon_outstanding_exact [OF acc(1,2)]
    by (simp add: advance_lifecycle_def Let_def)
qed

lemma abandon_inv_step:
  assumes "pl_step api s l s'" and gauge: "gauge_inv n s" and n: "n \<le> i64_max" and inv: "abandon_inv s"
  shows "abandon_inv s'"
  using assms(1)
proof (cases rule: pl_step_elim)
  case 1
  then show ?thesis using inv
    by (cases rule: pump_loop.cases) (simp_all add: abandon_inv_def note_received_def Let_def)
next
  case 2
  then show ?thesis using inv
    by (cases rule: admit_step.cases)
      (simp_all add: abandon_inv_def admission_cancelled_def shed_data_def drop_critical_def account_reserved_def
        note_overload_def Let_def split: canonical_event.split)
next
  case 3
  then show ?thesis using inv
    by (cases rule: dispatch_step.cases)
      (simp_all add: abandon_inv_def finish_worker_def finish_item_def take_item_def fence_item_def release_item_def
        reject_effect_def advance_lifecycle_def Let_def)
next
  case 4
  then show ?thesis using inv
    by (cases rule: persist_step.cases)
      (simp_all add: abandon_inv_def take_effect_def applied_effect_def cancel_effect_def drop_pending_guard_def
        advance_lifecycle_def Let_def)
next
  case 5
  then show ?thesis
    by (cases rule: ladder_step.cases)
      (use inv abandon_inv_abort [OF gauge n _ inv] in \<open>simp_all add: abandon_inv_def advance_lifecycle_def Let_def\<close>)
next
  case (6 h g)
  then show ?thesis using inv by (simp add: abandon_inv_def Let_def)
qed

lemma abandon_inv_new: "abandon_inv (pipeline_new h sequence generation)"
  by (simp add: abandon_inv_def pipeline_new_def stats_default_def)

lemma abandon_inv_reach:
  "pl_reach api s0 tr s \<Longrightarrow> control_inv s0 \<Longrightarrow> gauge_inv 0 s0 \<Longrightarrow> abandon_inv s0 \<Longrightarrow> length tr \<le> i64_max \<Longrightarrow> abandon_inv s"
proof (induction rule: pl_reach.induct)
  case (reach_step tr s l s')
  then have "gauge_inv (length tr) s" "abandon_inv s" "length tr \<le> i64_max" using gauge_inv_reach by auto
  then show ?case using abandon_inv_step [OF reach_step.hyps(2)] by blast
qed simp

section \<open>The lifecycle\<close>

text \<open>\<open>Stopped\<close> exactly when the worker is gone; never back.\<close>

definition lifecycle_inv :: "pipeline \<Rightarrow> bool" where
  "lifecycle_inv s \<longleftrightarrow> (ig_lifecycle (pl_stats s) = Stopped \<longleftrightarrow> pl_worker s \<in> {Worker_Finished, Worker_Aborted}) \<and>
     (pl_ladder s \<noteq> Ladder_Off \<longrightarrow> ig_lifecycle (pl_stats s) \<noteq> Running) \<and>
     (pl_admission_closed s \<longrightarrow> pl_ladder s \<noteq> Ladder_Off)"

lemma max_lifecycle [simp]:
  "max a Stopped = Stopped" "max a StoppingAdmission = Stopped \<longleftrightarrow> a = Stopped" "max a Draining = Stopped \<longleftrightarrow> a = Stopped"
  "max a StoppingAdmission \<noteq> Running" "max a Draining \<noteq> Running"
  by (cases a; simp add: max_def less_eq_ingress_lifecycle_def)+

lemma counters_keep_lifecycle [simp]:
  "ig_lifecycle (note_overload m st) = ig_lifecycle st" "ig_lifecycle (take_item st) = ig_lifecycle st"
  "ig_lifecycle (fence_item st) = ig_lifecycle st" "ig_lifecycle (finish_item t st) = ig_lifecycle st"
  "ig_lifecycle (release_item st) = ig_lifecycle st" "ig_lifecycle (reject_effect st) = ig_lifecycle st"
  "ig_lifecycle (take_effect st) = ig_lifecycle st" "ig_lifecycle (applied_effect st) = ig_lifecycle st"
  "ig_lifecycle (cancel_effect st) = ig_lifecycle st" "ig_lifecycle (drop_pending_guard st) = ig_lifecycle st"
  "ig_lifecycle (note_received i st) = ig_lifecycle st" "ig_lifecycle (account_reserved st) = ig_lifecycle st"
  by (simp_all add: note_overload_def take_item_def fence_item_def finish_item_def release_item_def reject_effect_def
      take_effect_def applied_effect_def cancel_effect_def drop_pending_guard_def note_received_def account_reserved_def Let_def)

lemma lifecycle_inv_step:
  assumes "pl_step api s l s'" and inv: "lifecycle_inv s"
  shows "lifecycle_inv s'"
  using assms(1)
proof (cases rule: pl_step_elim)
  case 1
  then show ?thesis using inv by (cases rule: pump_loop.cases) (simp_all add: lifecycle_inv_def)
next
  case 2
  then show ?thesis using inv
    by (cases rule: admit_step.cases)
      (simp_all add: lifecycle_inv_def admission_cancelled_def shed_data_def drop_critical_def Let_def split: canonical_event.split)
next
  case 3
  then show ?thesis using inv
    by (cases rule: dispatch_step.cases) (simp_all add: lifecycle_inv_def finish_worker_def advance_lifecycle_def)
next
  case 4
  then show ?thesis using inv
    by (cases rule: persist_step.cases) (simp_all add: lifecycle_inv_def advance_lifecycle_def)
next
  case 5
  then show ?thesis using inv
    by (cases rule: ladder_step.cases) (simp_all add: lifecycle_inv_def advance_lifecycle_def abort_worker_def)
next
  case (6 h g)
  then show ?thesis using inv by (simp add: lifecycle_inv_def)
qed

lemma lifecycle_inv_reach: "pl_reach api s0 tr s \<Longrightarrow> lifecycle_inv s0 \<Longrightarrow> lifecycle_inv s"
  by (induction rule: pl_reach.induct) (auto intro: lifecycle_inv_step)

lemma lifecycle_inv_new: "lifecycle_inv (pipeline_new h sequence generation)"
  by (simp add: lifecycle_inv_def pipeline_new_def stats_default_def)

end
