(* ===== verification/Live_Ingress_Progress.thy ===== *)
theory Live_Ingress_Progress
  imports Live_Ingress_Shutdown
begin

text \<open>
  Termination and freedom from deadlock. \<open>work_left\<close> weighs what the tasks still have to do; the steps
  of the environment are not counted.
\<close>

section \<open>The measure\<close>

fun pump_work :: "pump_state \<Rightarrow> nat" where
  "pump_work Pump_Exited = 0"
| "pump_work Pump_Idle = 1"
| "pump_work (Pump_Counted _) = 9"
| "pump_work (Pump_Reserved _) = 10"
| "pump_work (Pump_Waiting _) = 11"
| "pump_work (Pump_Admitting _) = 12"
| "pump_work (Pump_Received _) = 13"

fun worker_work :: "worker_state \<Rightarrow> nat" where
  "worker_work (Worker_Taken _) = 9"
| "worker_work (Worker_Holding _) = 8"
| "worker_work (Worker_Busy _) = 7"
| "worker_work (Worker_Routing _ _) = 6"
| "worker_work Worker_Idle = 3"
| "worker_work Worker_Closing = 2"
| "worker_work Worker_Done = 1"
| "worker_work _ = 0"

fun persist_work :: "persist_state \<Rightarrow> nat" where
  "persist_work (Persist_Busy _) = 3"
| "persist_work Persist_Idle = 2"
| "persist_work Persist_Closing = 1"
| "persist_work Persist_Done = 0"

fun ladder_work :: "ladder_state \<Rightarrow> nat" where
  "ladder_work Ladder_Off = 4"
| "ladder_work Ladder_Pump = 3"
| "ladder_work Ladder_Drain = 2"
| "ladder_work Ladder_Stop = 1"
| "ladder_work Ladder_Done = 0"

definition work_left :: "pipeline \<Rightarrow> nat" where
  "work_left s = pump_work (pl_pump s) + 7 * length (pl_queue s) + worker_work (pl_worker s) +
     2 * length (pl_effects s) + persist_work (pl_persist s) + ladder_work (pl_ladder s)"

definition shutdown_bound :: nat where
  "shutdown_bound = 13 + 7 * queue_capacity + 9 + 2 * effects_capacity + 3 + 3"

text \<open>A step of one of the tasks, or of the ladder.\<close>

inductive task_step :: "live_api \<Rightarrow> pipeline \<Rightarrow> label \<Rightarrow> pipeline \<Rightarrow> bool" for api where
  task_pump: "pump_loop s l s' \<Longrightarrow> task_step api s l s'"
| task_admission: "admit_step api s l s' \<Longrightarrow> task_step api s l s'"
| task_dispatch: "dispatch_step api s l s' \<Longrightarrow> task_step api s l s'"
| task_persist: "persist_step s l s' \<Longrightarrow> task_step api s l s'"
| task_ladder: "ladder_step s l s' \<Longrightarrow> task_step api s l s'"

lemma task_step_is_step: "task_step api s l s' \<Longrightarrow> pl_step api s l s'"
  by (erule task_step.cases) (blast intro: pl_step.intros)+

text \<open>Runs from a state on, counting the steps of the tasks.\<close>

inductive task_run :: "live_api \<Rightarrow> pipeline \<Rightarrow> nat \<Rightarrow> pipeline \<Rightarrow> bool" for api and s0 where
  run_start: "task_run api s0 0 s0"
| run_task: "task_run api s0 n s \<Longrightarrow> task_step api s l s' \<Longrightarrow> task_run api s0 (Suc n) s'"
| run_environment: "task_run api s0 n s \<Longrightarrow> host_inv h \<Longrightarrow> task_run api s0 n (s\<lparr>pl_generation := g, pl_host := h\<rparr>)"

lemma task_run_reach:
  assumes "task_run api s n s'" and "pl_reach api s0 tr s"
  shows "\<exists>tr'. pl_reach api s0 (tr @ tr') s'"
  using assms
proof (induction rule: task_run.induct)
  case run_start
  then show ?case by (metis append_Nil2)
next
  case (run_task n s l s')
  then show ?case using reach_step task_step_is_step by (metis append_assoc)
next
  case (run_environment n s h g)
  then show ?case using reach_step by_environment by (metis append_assoc)
qed

lemma admission_stays_closed:
  assumes "pl_step api s l s'" and "pl_admission_closed s"
  shows "pl_admission_closed s'"
  using assms(1)
proof (cases rule: pl_step_elim)
  case 1
  then show ?thesis using assms(2) by (cases rule: pump_loop.cases) simp_all
next
  case 2
  then show ?thesis using assms(2)
    by (cases rule: admit_step.cases) (simp_all add: admission_cancelled_def shed_data_def drop_critical_def Let_def)
next
  case 3
  then show ?thesis using assms(2) by (cases rule: dispatch_step.cases) (simp_all add: finish_worker_def)
next
  case 4
  then show ?thesis using assms(2) by (cases rule: persist_step.cases) simp_all
next
  case 5
  then show ?thesis using assms(2) by (cases rule: ladder_step.cases) (simp_all add: abort_worker_def)
qed (use assms(2) in simp)

lemma pump_waits_work: "pump_waits p \<Longrightarrow> 1 \<le> pump_work p"
  by (cases p) simp_all

lemma work_left_decreases:
  assumes "task_step api s l s'" and closed: "pl_admission_closed s"
  shows "work_left s' < work_left s"
  using assms(1)
proof (cases rule: task_step.cases)
  case task_pump
  then show ?thesis using closed by (cases rule: pump_loop.cases) (simp_all add: work_left_def)
next
  case task_admission
  then show ?thesis
    by (cases rule: admit_step.cases)
      (simp_all add: work_left_def admission_cancelled_def shed_data_def drop_critical_def Let_def)
next
  case task_dispatch
  then show ?thesis by (cases rule: dispatch_step.cases) (simp_all add: work_left_def finish_worker_def)
next
  case task_persist
  then show ?thesis by (cases rule: persist_step.cases) (simp_all add: work_left_def)
next
  case task_ladder
  then show ?thesis
    by (cases rule: ladder_step.cases) (simp_all add: work_left_def abort_worker_def closed)
qed

lemma work_left_bound:
  assumes ctl: "control_inv s" and "pl_ladder s \<noteq> Ladder_Off"
  shows "work_left s \<le> shutdown_bound"
proof -
  have "pump_work (pl_pump s) \<le> 13" by (cases "pl_pump s") simp_all
  moreover have "worker_work (pl_worker s) \<le> 9" by (cases "pl_worker s") simp_all
  moreover have "persist_work (pl_persist s) \<le> 3" by (cases "pl_persist s") simp_all
  moreover have "ladder_work (pl_ladder s) \<le> 3" using assms(2) by (cases "pl_ladder s") simp_all
  ultimately show ?thesis using queue_bound [OF ctl] effects_bound [OF ctl] by (simp add: work_left_def shutdown_bound_def)
qed

lemma task_run_bounded:
  assumes "task_run api s n s'" and "pl_admission_closed s"
  shows "pl_admission_closed s' \<and> work_left s' + n \<le> work_left s"
  using assms
proof (induction rule: task_run.induct)
  case (run_task n s1 l s2)
  then have "pl_admission_closed s1" "work_left s1 + n \<le> work_left s" by simp_all
  then show ?case using admission_stays_closed [OF task_step_is_step [OF run_task.hyps(2)]]
      work_left_decreases [OF run_task.hyps(2)] by auto
qed (simp_all add: work_left_def)

lemma ladder_stays_on: "task_run api s n s' \<Longrightarrow> pl_ladder s \<noteq> Ladder_Off \<Longrightarrow> pl_ladder s' \<noteq> Ladder_Off"
proof (induction rule: task_run.induct)
  case (run_task n s1 l s2)
  then have on: "pl_ladder s1 \<noteq> Ladder_Off" by simp
  from run_task.hyps(2) show ?case
  proof (cases rule: task_step.cases)
    case task_pump
    then show ?thesis using on by (cases rule: pump_loop.cases) simp_all
  next
    case task_admission
    then show ?thesis using on
      by (cases rule: admit_step.cases) (simp_all add: admission_cancelled_def shed_data_def drop_critical_def Let_def)
  next
    case task_dispatch
    then show ?thesis using on by (cases rule: dispatch_step.cases) (simp_all add: finish_worker_def)
  next
    case task_persist
    then show ?thesis using on by (cases rule: persist_step.cases) simp_all
  next
    case task_ladder
    then show ?thesis using on by (cases rule: ladder_step.cases) (simp_all add: abort_worker_def)
  qed
qed simp_all

section \<open>No deadlock\<close>

text \<open>A step that no deadline forces: the shutdown still counts as safe afterwards if it did before.\<close>

definition can_move :: "live_api \<Rightarrow> pipeline \<Rightarrow> bool" where
  "can_move api s \<longleftrightarrow> (\<exists>l s'. task_step api s l s' \<and> pl_update_safe s' = pl_update_safe s)"

lemma can_moveI: "task_step api s l s' \<Longrightarrow> pl_update_safe s' = pl_update_safe s \<Longrightarrow> can_move api s"
  unfolding can_move_def by blast

lemma pump_can_move:
  assumes ctl: "control_inv s" and closed: "pl_admission_closed s" and "pl_pump s \<noteq> Pump_Exited"
  shows "can_move api s"
proof (cases "pl_pump s")
  case Pump_Idle
  show ?thesis by (rule can_moveI [OF task_pump [OF pump_exit [OF Pump_Idle]]]) simp
next
  case (Pump_Received i)
  show ?thesis by (rule can_moveI [OF task_admission [OF admit_refused [OF Pump_Received closed]]])
      (simp add: admission_cancelled_def)
next
  case (Pump_Admitting i)
  have opened: "pl_open s" using receiver_there [OF ctl] assms(3) by simp
  show ?thesis
  proof (cases "ii_event i")
    case (Cl_Event e)
    then have data: "is_data (ii_event i)" by simp
    show ?thesis
    proof (cases "length (pl_queue s) < queue_capacity")
      case True
      show ?thesis by (rule can_moveI [OF task_admission [OF admit_fast [OF Pump_Admitting data opened True]]]) simp
    next
      case full: False
      show ?thesis
      proof (cases "is_critical api (ii_event i)")
        case True
        show ?thesis by (rule can_moveI [OF task_admission [OF admit_full_critical [OF Pump_Admitting True opened full]]]) simp
      next
        case False
        show ?thesis
          by (rule can_moveI [OF task_admission [OF admit_full_shed [OF Pump_Admitting Cl_Event False opened full]]])
            (simp add: shed_data_def Let_def)
      qed
    qed
  qed (rule can_moveI [OF task_admission [OF admit_transition [OF Pump_Admitting]]]; simp)+
next
  case (Pump_Waiting i)
  show ?thesis by (rule can_moveI [OF task_admission [OF wait_cancelled [OF Pump_Waiting closed]]])
      (simp add: admission_cancelled_def)
next
  case (Pump_Reserved i)
  show ?thesis by (rule can_moveI [OF task_admission [OF publish_account [OF Pump_Reserved]]]) simp
next
  case (Pump_Counted i)
  show ?thesis by (rule can_moveI [OF task_admission [OF publish_send [OF Pump_Counted]]]) simp
qed (use assms(3) in simp)

lemma worker_can_move:
  assumes ctl: "control_inv s" and host: "host_inv (pl_host s)" and gone: "pl_pump s = Pump_Exited"
    and "pl_worker s \<notin> {Worker_Done, Worker_Finished, Worker_Aborted}"
  shows "can_move api s"
proof (cases "pl_worker s")
  case Worker_Idle
  show ?thesis
  proof (cases "pl_emergency s \<or> pl_queue s = []")
    case True
    then have "pl_emergency s \<or> pl_queue s = [] \<and> pl_pump s = Pump_Exited" using gone by blast
    from can_moveI [OF task_dispatch [OF worker_close [OF Worker_Idle this]]] show ?thesis by simp
  next
    case False
    then obtain i q where "\<not> pl_emergency s" "pl_queue s = i # q" by (cases "pl_queue s") auto
    from can_moveI [OF task_dispatch [OF worker_take [OF Worker_Idle this]]] show ?thesis by simp
  qed
next
  case (Worker_Taken i)
  show ?thesis by (rule can_moveI [OF task_dispatch [OF worker_hold [OF Worker_Taken]]]) simp
next
  case (Worker_Holding i)
  show ?thesis
  proof (cases "fenced i s")
    case True
    show ?thesis by (rule can_moveI [OF task_dispatch [OF worker_fence [OF Worker_Holding True]]]) simp
  next
    case False
    show ?thesis by (rule can_moveI [OF task_dispatch [OF worker_pass [OF Worker_Holding False]]]) simp
  qed
next
  case (Worker_Busy i)
  show ?thesis
  proof (cases "ii_event i")
    case (Cl_Event e)
    obtain v h where p: "prepare_live_event api 0 0 e (pl_host s) = Ret (v, h)"
      using prepare_live_event_inv [OF host] by blast
    show ?thesis
    proof (cases v)
      case None
      from can_moveI [OF task_dispatch [OF worker_repeated [OF Worker_Busy Cl_Event p [unfolded None]]]] show ?thesis
        by (simp add: finish_worker_def)
    next
      case (Some x)
      from can_moveI [OF task_dispatch [OF worker_prepared [OF Worker_Busy Cl_Event p [unfolded Some]]]] show ?thesis by simp
    qed
  qed (rule can_moveI [OF task_dispatch [OF worker_native [OF Worker_Busy]]]; simp add: finish_worker_def)+
next
  case (Worker_Routing i x)
  show ?thesis
  proof (cases "pl_effects_open s \<and> length (pl_effects s) < effects_capacity")
    case True
    then have "pl_effects_open s" "length (pl_effects s) < effects_capacity" by blast+
    from can_moveI [OF task_dispatch [OF worker_queue_effect [OF Worker_Routing this]]] show ?thesis
      by (simp add: finish_worker_def)
  next
    case False
    from can_moveI [OF task_dispatch [OF worker_reject_effect [OF Worker_Routing False]]] show ?thesis
      by (simp add: finish_worker_def)
  qed
next
  case Worker_Closing
  show ?thesis
  proof (cases "pl_queue s")
    case Nil
    show ?thesis by (rule can_moveI [OF task_dispatch [OF worker_done [OF Worker_Closing Nil]]]) simp
  next
    case (Cons i q)
    show ?thesis by (rule can_moveI [OF task_dispatch [OF worker_release [OF Worker_Closing Cons]]]) simp
  qed
qed (use assms(4) in simp_all)

lemma persist_can_move:
  assumes ctl: "control_inv s" and over: "pl_worker s = Worker_Done"
  shows "can_move api s"
proof (cases "pl_persist s")
  case Persist_Idle
  show ?thesis
  proof (cases "pl_emergency s \<or> pl_effects s = []")
    case True
    then have "pl_emergency s \<or> pl_effects s = [] \<and> pl_worker s = Worker_Done" using over by blast
    from can_moveI [OF task_persist [OF persist_close [OF Persist_Idle this]]] show ?thesis by simp
  next
    case False
    then obtain x xs where "\<not> pl_emergency s" "pl_effects s = x # xs" by (cases "pl_effects s") auto
    from can_moveI [OF task_persist [OF persist_take [OF Persist_Idle this]]] show ?thesis by simp
  qed
next
  case (Persist_Busy x)
  show ?thesis by (rule can_moveI [OF task_persist [OF persist_apply [OF Persist_Busy]]]) simp
next
  case Persist_Closing
  show ?thesis
  proof (cases "pl_effects s")
    case Nil
    show ?thesis by (rule can_moveI [OF task_persist [OF persist_done [OF Persist_Closing Nil]]]) simp
  next
    case (Cons x xs)
    show ?thesis by (rule can_moveI [OF task_persist [OF persist_release [OF Persist_Closing Cons]]]) simp
  qed
next
  case Persist_Done
  show ?thesis by (rule can_moveI [OF task_persist [OF worker_finish [OF Persist_Done over]]]) simp
qed

lemma shutdown_can_move:
  assumes ctl: "control_inv s" and host: "host_inv (pl_host s)" and on: "pl_ladder s \<noteq> Ladder_Off" "pl_ladder s \<noteq> Ladder_Done"
  shows "can_move api s"
proof (cases "pl_pump s = Pump_Exited")
  case False
  then show ?thesis using pump_can_move [OF ctl ladder_admission [OF ctl on(1)]] by blast
next
  case gone: True
  show ?thesis
  proof (cases "pl_ladder s = Ladder_Pump")
    case True
    show ?thesis by (rule can_moveI [OF task_ladder [OF ladder_pump_joined [OF True gone]]]) simp
  next
    case False
    then have rung: "pl_ladder s = Ladder_Drain \<or> pl_ladder s = Ladder_Stop" using on by (cases "pl_ladder s") simp_all
    have "pl_worker s \<noteq> Worker_Aborted" using ctl on(2) unfolding control_inv_def by blast
    then consider "pl_worker s \<notin> {Worker_Done, Worker_Finished, Worker_Aborted}" | "pl_worker s = Worker_Done"
      | "pl_worker s = Worker_Finished" by blast
    then show ?thesis
    proof cases
      case 1
      then show ?thesis using worker_can_move [OF ctl host gone] by blast
    next
      case 2
      then show ?thesis using persist_can_move [OF ctl] by blast
    next
      case 3
      then show ?thesis using rung can_moveI [OF task_ladder [OF ladder_drained]] can_moveI [OF task_ladder [OF ladder_stopped]]
        by force
    qed
  qed
qed

end
