(* ===== verification/Ingress_Guarantees.thy ===== *)
theory Ingress_Guarantees
  imports Live_Ingress_Progress
begin

text \<open>
  What the ingestion of LIVE messages promises, for every interleaving of its tasks from a started
  pipeline on: the counters are exact, messages are handled in order and never for a connection that
  has been superseded, the shutdown gives up nothing as long as it is graceful, and it always ends.
\<close>

section \<open>Every invariant at once\<close>



section \<open>A run\<close>

text \<open>One transition message, admitted before the shutdown begins and handled after.\<close>

definition sample_item :: ingress_item where
  "sample_item = \<lparr>ii_generation = 0, ii_event = Cl_Reconnecting\<rparr>"

definition sample_pipeline :: pipeline where
  "sample_pipeline = pipeline_new (live_host_new engine_default) 0 0"

fun persist_open :: "persist_state \<Rightarrow> bool" where
  "persist_open Persist_Closing \<longleftrightarrow> False"
| "persist_open Persist_Done \<longleftrightarrow> False"
| "persist_open _ \<longleftrightarrow> True"

definition sample_state ::
    "pump_state \<Rightarrow> ingress_item list \<Rightarrow> worker_state \<Rightarrow> persist_state \<Rightarrow> ladder_state \<Rightarrow> ingress_stats \<Rightarrow> pipeline" where
  "sample_state p q w e l st =
     \<lparr>pl_stats = st, pl_pump = p, pl_queue = q, pl_open = (\<not> worker_left w), pl_worker = w, pl_effects = [],
      pl_effects_open = persist_open e, pl_persist = e, pl_admission_closed = (l \<noteq> Ladder_Off), pl_emergency = False,
      pl_sequence = 0, pl_generation = 0, pl_host = live_host_new engine_default, pl_ladder = l, pl_update_safe = True\<rparr>"

lemma sample_start: "sample_pipeline = sample_state Pump_Idle [] Worker_Idle Persist_Idle Ladder_Off stats_default"
  by (simp add: sample_pipeline_def pipeline_new_def sample_state_def)

lemma reach_by:
  "pl_reach api s0 tr s \<Longrightarrow> pl_step api s l s' \<Longrightarrow> s' = t \<Longrightarrow> tr @ [l] = tr' \<Longrightarrow> pl_reach api s0 tr' t"
  using reach_step by blast

definition admitted_stats :: ingress_stats where
  "admitted_stats = account_reserved (note_received sample_item stats_default)"

definition sample_admission :: "label list" where
  "sample_admission = [Tau, Tau, Tau, Tau, Tau, Sent sample_item, Tau]"


lemma sample_admitted:
  "pl_reach sample_api sample_pipeline sample_admission
     (sample_state Pump_Idle [sample_item] Worker_Idle Persist_Idle Ladder_Pump (advance_lifecycle StoppingAdmission admitted_stats))"
proof -
  let ?st = "note_received sample_item stats_default"
  let ?at = "\<lambda>p q st. sample_state p q Worker_Idle Persist_Idle Ladder_Off st"
  note reach_start [of sample_api sample_pipeline]
  then have "pl_reach sample_api sample_pipeline [Tau] (?at (Pump_Received sample_item) [] ?st)"
    by (rule reach_by [OF _ by_pump [OF pump_receive]]) (simp_all add: sample_start sample_state_def)
  then have "pl_reach sample_api sample_pipeline [Tau, Tau] (?at (Pump_Admitting sample_item) [] ?st)"
    by (rule reach_by [OF _ by_admission [OF admit_begin [of _ sample_item]]]) (simp_all add: sample_state_def)
  then have "pl_reach sample_api sample_pipeline [Tau, Tau, Tau] (?at (Pump_Waiting sample_item) [] ?st)"
    by (rule reach_by [OF _ by_admission [OF admit_transition [of _ sample_item]]]) (simp_all add: sample_state_def sample_item_def)
  then have "pl_reach sample_api sample_pipeline [Tau, Tau, Tau, Tau] (?at (Pump_Reserved sample_item) [] ?st)"
    by (rule reach_by [OF _ by_admission [OF wait_reserved [of _ sample_item]]]) (simp_all add: sample_state_def queue_capacity_def)
  then have "pl_reach sample_api sample_pipeline [Tau, Tau, Tau, Tau, Tau]
      (?at (Pump_Counted sample_item) [] admitted_stats)"
    by (rule reach_by [OF _ by_admission [OF publish_account [of _ sample_item]]]) (simp_all add: sample_state_def admitted_stats_def)
  then have "pl_reach sample_api sample_pipeline [Tau, Tau, Tau, Tau, Tau, Sent sample_item]
      (?at Pump_Idle [sample_item] admitted_stats)"
    by (rule reach_by [OF _ by_admission [OF publish_send]]) (simp_all add: sample_state_def)
  then have "pl_reach sample_api sample_pipeline [Tau, Tau, Tau, Tau, Tau, Sent sample_item, Tau]
      (sample_state Pump_Idle [sample_item] Worker_Idle Persist_Idle Ladder_Pump (advance_lifecycle StoppingAdmission admitted_stats))"
    by (rule reach_by [OF _ by_ladder [OF ladder_begin]]) (simp_all add: sample_state_def)
  then show ?thesis by (simp add: sample_admission_def)
qed





section \<open>Accounting\<close>





section \<open>Order\<close>



section \<open>Shutdown\<close>



text \<open>
  C40. The shutdown always ends. From any state in which it has begun, the tasks and the ladder take at
  most \<open>shutdown_bound\<close> more steps, whatever the transport and the other parts of the program do in
  between; and as long as the ladder has not returned, some task can take a step that no deadline has to
  force. So nothing deadlocks, and without a stall the shutdown ends on its own.
\<close>

theorem shutdown_terminates:
  assumes reach: "pl_reach api (pipeline_new h sequence generation) tr s" and host: "host_inv h"
    and begun: "pl_ladder s \<noteq> Ladder_Off" and run: "task_run api s n s'"
  shows "n \<le> shutdown_bound \<and> (pl_ladder s' = Ladder_Done \<or> can_move api s')"
proof
  have ctl: "control_inv s" using control_inv_reach [OF reach control_inv_new] .
  note bounded = task_run_bounded [OF run ladder_admission [OF ctl begun]]
  show "n \<le> shutdown_bound" using bounded work_left_bound [OF ctl begun] by simp
  obtain tr' where reach': "pl_reach api (pipeline_new h sequence generation) (tr @ tr') s'"
    using task_run_reach [OF run reach] by blast
  have "control_inv s'" using control_inv_reach [OF reach' control_inv_new] .
  moreover have "host_inv (pl_host s')" using host_inv_reach [OF reach'] host by (simp add: pipeline_new_def)
  moreover have "pl_ladder s' \<noteq> Ladder_Off" using ladder_stays_on [OF run begun] .
  ultimately show "pl_ladder s' = Ladder_Done \<or> can_move api s'" using shutdown_can_move by blast
qed

lemma shutdown_terminates_witness:
  "\<exists>s s'. pl_ladder s = Ladder_Pump \<and> pl_queue s = [sample_item] \<and> task_run sample_api s 1 s' \<and> pl_pump s' = Pump_Exited \<and>
     can_move sample_api s'"
proof -
  let ?s = "sample_state Pump_Idle [sample_item] Worker_Idle Persist_Idle Ladder_Pump (advance_lifecycle StoppingAdmission admitted_stats)"
  let ?s' = "?s\<lparr>pl_pump := Pump_Exited\<rparr>"
  have run: "task_run sample_api ?s 1 ?s'"
    using run_task [OF run_start task_pump [OF pump_exit [of ?s]]] by (simp add: sample_state_def)
  have begun: "pl_ladder ?s \<noteq> Ladder_Off" by (simp add: sample_state_def)
  note ended = shutdown_terminates [OF sample_admitted [unfolded sample_pipeline_def] host_inv_new [OF engine_inv_default] begun run]
  have at: "pl_ladder ?s = Ladder_Pump" "pl_queue ?s = [sample_item]" "pl_pump ?s' = Pump_Exited" "pl_ladder ?s' \<noteq> Ladder_Done"
    by (simp_all add: sample_state_def)
  have "can_move sample_api ?s'" using ended at(4) by blast
  then show ?thesis using run at(1-3) by blast
qed

end
