(* ===== verification/Spec2Isabelle.thy ===== *)
theory Spec2Isabelle
  imports Ranking_Guarantees Index_Guarantees Store_Guarantees Outcome_Guarantees Live_Session Durability_Guarantees
    Ingress_Guarantees
begin

text \<open>
  A verification library for the ranking and competition core of TikTools, the part of the
  application that turns a LIVE stream into scores, votes and winners and keeps them in its database.

  The parts and how they interact.

  The LIVE stream delivers decoded events. A pump admits them into a bounded queue, an ordered worker
  takes them from it, and a ladder stops both without losing what was admitted. The replay guard refuses messages it has seen, the counters
  turn cumulative numbers (likes, gift combos) into increments, and the adapter hands each admitted
  event to the ranking engine as a contribution. The engine holds the ranking definitions with their
  scores, windows and user limits in memory. Competitions are rounds of votes, draws, challenges and
  leaderboards over one ranking each: a command index finds the competitions a chat message or an
  event is for, the store books every vote, score and gift once, the selection draws the winner, and
  the store keeps the result and the outbox of winner actions. The ranking service joins the engine
  with the database: control operations change both, a timer writes checkpoints of changed rankings,
  the shutdown writes the rest and marks the run clean, and the restart reads all of it back.

  Theories and sources. Records and constructors keep the names of the source with a short prefix per
  type; operations keep their names (\<open>engine_\<close>, \<open>ranking_\<close>, \<open>competition_\<close> or \<open>index_\<close> before names
  that would clash).

  \<^item> \<open>Prelude\<close>: 64-bit arithmetic (\<open>checked_add\<close>, \<open>saturating_add\<close>), hash maps as association lists with
    unique keys, the outcome \<open>run\<close> of a function that may panic, and three interfaces: machines with an
    invariant, machines with a counter that never falls, registries of definitions.
  \<^item> \<open>Agg_Model\<close>, \<open>Aggregation\<close>, \<open>Ranking_Index\<close>, \<open>Scoring\<close>, \<open>Engine\<close>, \<open>Engine_Ops\<close>, \<open>Engine_Checkpoint\<close>:
    \<open>crates/tiktools-aggregation/src\<close> (\<open>model.rs\<close>, \<open>lib.rs\<close>, \<open>ranking.rs\<close>, \<open>scoring.rs\<close>, \<open>engine.rs\<close>). The state
    \<open>engine\<close> is the struct \<open>Engine\<close>, a \<open>ranking\<close> its private struct \<open>Ranking\<close>. \<open>Ranking_Inv\<close>, \<open>Engine_Inv\<close>,
    \<open>Contributions\<close>, \<open>Engine_Steps\<close>, \<open>Engine_Machine\<close> hold the invariant and its preservation,
    \<open>Ranking_Guarantees\<close> the properties.
  \<^item> \<open>Competition_Model\<close>, \<open>Lifecycle\<close>, \<open>Selection\<close>, \<open>Selection_Facts\<close>, \<open>Command_Index\<close>:
    \<open>crates/tiktools-competitions/src\<close> (\<open>lib.rs\<close>, \<open>participants.rs\<close>). Properties in \<open>Competition_Guarantees\<close>
    and \<open>Index_Guarantees\<close>.
  \<^item> \<open>Store_Model\<close>, \<open>Store_Lifecycle\<close>, \<open>Store_Routing\<close>, \<open>Store_Gifts\<close>, \<open>Store_Results\<close>, \<open>Decimal\<close>:
    \<open>crates/tiktools-core/src/db/sqlite\<close> (\<open>competitions.rs\<close>, \<open>gift_accounting.rs\<close>, the tables of
    \<open>schema.rs\<close>). \<open>Store_Effects\<close>, \<open>Store_Inv\<close>, \<open>Store_Machine\<close>, \<open>Store_Projections\<close>, \<open>Store_Outcomes\<close>,
    \<open>Store_Example\<close> carry the proofs, \<open>Store_Guarantees\<close> and \<open>Outcome_Guarantees\<close> the properties.
  \<^item> \<open>Live_Event\<close>, \<open>Live_Dedup\<close>, \<open>Live_Totals\<close>, \<open>Live_Admission\<close>: \<open>crates/tiktools-core/src/live_events\<close>
    (\<open>dedup.rs\<close>, \<open>totals.rs\<close>, \<open>handlers.rs\<close>) and the adapter of \<open>services/aggregations.rs\<close>. Properties in
    \<open>Live_Replay\<close>, \<open>Live_Guarantees\<close> and \<open>Live_Session\<close>, the proofs of the counters in \<open>Live_Totals_Inv\<close>.
  \<^item> \<open>Live_Ingress\<close> (\<open>ingress.rs\<close> and \<open>pump.rs\<close> of the same directory, \<open>handle_native_event\<close>): the state \<open>pipeline\<close> is
    the counters, the bounded queues, where each task stands, the cancellation tokens and the host. One
    relation per task: \<open>pump_loop\<close>, \<open>admit_step\<close>, \<open>dispatch_step\<close>, \<open>persist_step\<close>, \<open>ladder_step\<close> (the shutdown);
    \<open>pl_step\<close> interleaves them. \<open>Live_Ingress_Inv\<close> and \<open>Live_Ingress_Effects\<close> hold the accounting,
    \<open>Live_Ingress_Order\<close> the order and the fence, \<open>Live_Ingress_Shutdown\<close> and \<open>Live_Ingress_Progress\<close> the
    shutdown, \<open>Ingress_Guarantees\<close> the properties.
  \<^item> \<open>Ranking_Store\<close> (\<open>db/sqlite/aggregations.rs\<close>), \<open>Competition_Service\<close> (\<open>services/competitions.rs\<close>),
    \<open>Ranking_Service\<close> (\<open>services/aggregations.rs\<close>), \<open>Ranking_Control\<close> (\<open>control/rankings.rs\<close>, the shutdown of
    \<open>lib.rs\<close>): the state \<open>service\<close> is the engine, the checkpoint owner, the table of written change tokens,
    the database tables and the competitions. \<open>Ranking_Advance\<close> shows what a change token sees,
    \<open>Ranking_Durability\<close> and \<open>Ranking_Steps\<close> the invariant of the running service, \<open>Ranking_Recovery\<close>
    and \<open>Ranking_Restart\<close> the restart, \<open>Ranking_Coverage\<close> what passes and shutdowns leave in the tables,
    \<open>Durability_Guarantees\<close> the properties.

  What the lemmas show.

  \<^item> Engine: no sequence of operations aborts; contributions are credited exactly; the scores of a rolling
    window are the sums of the retained contributions; limits and capacities hold; failures show; a
    checkpoint gives the ranking back.
  \<^item> Competitions: a lifecycle never leaves a closed phase; selections end, are sound and fair to the weights;
    the index equals a scan of the registered definitions and refines a table of them.
  \<^item> Store: counters equal the recorded rows, no message, gift or score is booked twice, projections equal
    reference sums, results do not change, an action is claimed once, and only the owner writes.
  \<^item> LIVE: a replay changes nothing; like totals and combo credits equal the journal of what was delivered.
  \<^item> Ingestion: in every interleaving of its tasks the counters are exact, messages are handled in order
    and never for a superseded connection, a graceful shutdown gives up nothing, and every shutdown ends.
  \<^item> Service: in every history of operations, crashes and restarts the definition rows match the engine, a
    current change token vouches for a durable checkpoint, a clean shutdown loses nothing, a crash always
    shows as degraded, and an external contribution counts once.

  Modelling choices.

  Machine integers are natural numbers with the bound written out (\<open>u64_max\<close>, \<open>i64_max\<close>) in every checked,
  saturating and converting operation, and the invariants show that stored values stay below it. Errors
  are left injections, a panic (\<open>expect\<close>, a failed index) is the value \<open>Panic\<close>, and it is proved absent.
  A hash map is an association list with unique keys; no property depends on its order. Strings are lists
  of bytes, so lengths are those of UTF-8 text. A database table is the map from its primary key, a JSON
  column the value it decodes to, and a method is one transaction: an error rolls back. Operations that
  hold one lock are one step; whatever may fall between two steps is an operation of the histories. The tasks
  of the ingestion are step relations, interleaved at every point where another task can see the state.
  Clock readings, random bytes, lower-casing, JSON lengths and the text of an idempotency key are
  arguments, since the code takes them from the system or from packages outside the repository.

  Bounds. There is no fuel in the development: loops are structural, \<open>strip_front\<close> has a measure, and the
  rejection sampling of the draw, which has no bound in the code either, is a partial function whose
  termination on an accepted word is proved. Histories of the service are bounded by the 64-bit counter of
  instances, which grows by one per created ranking and starts again at a restart. Traces of the ingestion
  are bounded by \<open>i64_max\<close> where its 64-bit counters matter; \<open>shutdown_bound\<close> (14620) bounds the steps of a
  shutdown, since every step lowers the measure \<open>work_left\<close>.

  Not modelled.

  \<^item> \<open>control/competitions.rs\<close>, \<open>services/competition_events.rs\<close>, \<open>services/competition_actions.rs\<close>: locks, timers,
    published events and the automation runtime around the modelled operations. They enter the histories of
    the service as arbitrary changes of the competitions. Of the participation counters of
    \<open>services/competitions.rs\<close> nothing is modelled.
  \<^item> Of \<open>live_events/ingress.rs\<close> and \<open>pump.rs\<close> a task that panics, the diagnostics and the environment variables
    of the deadlines; \<open>session.rs\<close>. What \<open>prepare_live_event\<close> does after its last change of a ranking (interface
    events, points, analytics) and the application of an effect are not modelled.
  \<^item> The timer of the checkpoint pass, and failures of the database file.
  \<^item> Points and analytics: writer threads over SQL queries, whose interleavings need a model of threads.
  \<^item> Automation scripts, templates, plugins (manifest, SDK, loader, packages, registry), cloud, control API,
    clients and updates: foreign code, networks, archives, windows and declarative validation, with no state
    that the core above depends on.
\<close>

end
